(* ===== verification/Gnubg_Prelude.thy ===== *)
theory Gnubg_Prelude
  imports Main "HOL-Library.Word"
begin

text \<open>
  Shared vocabulary of the development: the machine types of the C code, the fact
  collections that carry the component proofs, and the generic lemmas on lists, words and
  counting loops that several components use.

  Conventions.  An \<open>unsigned int\<close> is a \<open>u32\<close> and wraps as in C, an \<open>unsigned char\<close> is a
  \<open>u8\<close>.  A C array is a list of its fixed length: \<open>a ! i\<close> reads and \<open>a[i := v]\<close> writes it.
  A \<open>for\<close> loop that only updates state is \<open>fold\<close> over its index list; a loop with an early
  exit is a recursive function over the same list.
\<close>

unbundle bit_operations_syntax

type_synonym u8 = "8 word"
type_synonym u16 = "16 word"
type_synonym u32 = "32 word"

named_theorems board_wf "array lengths of boards are kept by the operations"

section \<open>Lists as arrays\<close>

text \<open>Loops keep their symbolic index list; closed loops are evaluated with \<open>code_simp\<close>.\<close>

declare upt_rec_numeral [simp del]

lemma fold_concat_map: "fold f (concat (map h xs)) s = fold (\<lambda>x. fold f (h x)) xs s"
  by (induction xs arbitrary: s) simp_all

text \<open>A scan that handles the elements satisfying a test and remembers whether there was one.\<close>

lemma fold_flagged:
  "fold (\<lambda>x (u, s). if P x then (True, g x s) else (u, s)) xs (u, s) =
   (u \<or> (\<exists>x\<in>set xs. P x), fold g (filter P xs) s)"
  by (induction xs arbitrary: u s) auto

lemma fold_upt_Suc: "fold f [0..<Suc n] s = f n (fold f [0..<n] s)"
  by simp

lemma sum_list_update_nat:
  fixes xs :: "nat list"
  assumes "i < length xs"
  shows "sum_list (xs[i := v]) + xs ! i = sum_list xs + v"
  using assms
proof (induction xs arbitrary: i)
  case Nil
  then show ?case by simp
next
  case (Cons x xs)
  then show ?case by (cases i) (auto simp: add_ac)
qed

lemma elem_le_sum_list_nat:
  fixes xs :: "nat list"
  shows "i < length xs \<Longrightarrow> xs ! i \<le> sum_list xs"
  by (simp add: elem_le_sum_list)

section \<open>Words\<close>

lemma unat_plus_small:
  fixes x y :: u32
  assumes "unat x + unat y < 2 ^ 32"
  shows "unat (x + y) = unat x + unat y"
  using assms by (simp add: unat_word_ariths)

lemma unat_eqI: "unat x = unat y \<Longrightarrow> x = y" for x y :: "'a::len word"
  by (simp add: word_unat_eq_iff)

lemma unat_u32_less: "unat (x :: u32) < 4294967296"
proof -
  have "unat x < 2 ^ LENGTH(32)" by (rule unsigned_less)
  then show ?thesis by simp
qed

lemma unat_of_nat_u32: "n < 2 ^ 32 \<Longrightarrow> unat (of_nat n :: u32) = n"
  by (simp add: unat_of_nat)

lemma unat_minus_one_u32:
  fixes x :: u32
  assumes "x \<noteq> 0"
  shows "unat (x - 1) = unat x - 1"
  using assms by (simp add: unat_minus_one)

lemma unat_eq_zero_u32 [simp]: "unat (x :: u32) = 0 \<longleftrightarrow> x = 0"
  by (simp add: unat_eq_zero)

lemma u32_pos_iff: "(0 < (x :: u32)) \<longleftrightarrow> 0 < unat x"
  by (simp add: word_less_nat_alt)

lemma u32_lt_one [simp]: "((x :: u32) < 1) \<longleftrightarrow> x = 0"
  by (simp add: word_less_nat_alt)

lemma upt_0_8: "[0..<8] = [0, 1, 2, 3, 4, 5, 6, 7]"
  by (simp add: upt_conv_Cons eval_nat_numeral)

section \<open>Bytes\<close>

text \<open>Two bytes are equal when their eight bits are: enough to decide any shuffling of bits.\<close>

lemma all_bits8: "(\<forall>n<8. P n) \<longleftrightarrow> P 0 \<and> P 1 \<and> P 2 \<and> P 3 \<and> P 4 \<and> P 5 \<and> P 6 \<and> P (7::nat)"
proof -
  have "(\<forall>n<8. P n) \<longleftrightarrow> (\<forall>n\<in>set [0..<8]. P n)" by auto
  then show ?thesis by (simp only: upt_0_8) simp
qed

lemma u8_eqI: "(\<forall>n<8. bit x n = bit y n) \<Longrightarrow> x = y" for x y :: u8
  by (rule bit_word_eqI) simp

lemma u8_high_bit: "8 \<le> n \<Longrightarrow> \<not> bit w n" for w :: u8
  by (simp add: impossible_bit)

lemmas u8_bits = all_bits8 u8_high_bit bit_simps numeral_2_eq_2 [symmetric] numeral_3_eq_3 [symmetric]

end
