(* ===== verification/Board.thy ===== *)
theory Board
  imports Gnubg_Prelude
begin

text \<open>
  The board of \<open>lib/gnubg-types.h\<close> and the operations on it that know nothing of dice or
  evaluation: \<open>InitBoard\<close> (gnubg.c), \<open>SwapSides\<close>, \<open>PipCount\<close>, \<open>KeithCount\<close> and \<open>ThorpCount\<close>
  (eval.c), \<open>EqualBoards\<close>, \<open>CheckPosition\<close> and \<open>ClosestLegalPosition\<close> (positionid.c), with
  the specification \<open>legal_position\<close> of what the last two decide and establish.
\<close>

section \<open>Data\<close>

text \<open>\<open>TanBoard\<close> is \<open>unsigned int[2][25]\<close>: points 0..23 and the bar at index 24, for each side.\<close>

type_synonym side = "u32 list"
type_synonym TanBoard = "side \<times> side"

datatype bgvariation = VARIATION_STANDARD | VARIATION_NACKGAMMON
  | VARIATION_HYPERGAMMON_1 | VARIATION_HYPERGAMMON_2 | VARIATION_HYPERGAMMON_3

definition anSide :: "TanBoard \<Rightarrow> nat \<Rightarrow> side" where
  "anSide b i = (if i = 0 then fst b else snd b)"

definition wf_board :: "TanBoard \<Rightarrow> bool" where
  "wf_board b \<longleftrightarrow> length (fst b) = 25 \<and> length (snd b) = 25"

text \<open>The number of chequers a side has on the board, as a mathematical sum.\<close>

definition chequers :: "side \<Rightarrow> nat" where
  "chequers s = sum_list (map unat s)"

lemma wf_boardD:
  "wf_board b \<Longrightarrow> length (fst b) = 25"
  "wf_board b \<Longrightarrow> length (snd b) = 25"
  by (simp_all add: wf_board_def)

lemma wf_boardI [board_wf]: "length s0 = 25 \<Longrightarrow> length s1 = 25 \<Longrightarrow> wf_board (s0, s1)"
  by (simp add: wf_board_def)

lemma chequers_Nil [simp]: "chequers [] = 0"
  and chequers_Cons [simp]: "chequers (x # xs) = unat x + chequers xs"
  by (simp_all add: chequers_def)

lemma chequers_ge: "i < length s \<Longrightarrow> unat (s ! i) \<le> chequers s"
  using elem_le_sum_list_nat [of i "map unat s"] by (simp add: chequers_def)

lemma chequers_update:
  assumes "i < length s"
  shows "chequers (s[i := v]) + unat (s ! i) = chequers s + unat v"
  using sum_list_update_nat [of i "map unat s" "unat v"] assms
  by (simp add: chequers_def map_update)

section \<open>InitBoard\<close>

definition set_both :: "nat \<Rightarrow> u32 \<Rightarrow> TanBoard \<Rightarrow> TanBoard" where
  "set_both i v b = ((fst b)[i := v], (snd b)[i := v])"

fun hyper_chequers :: "bgvariation \<Rightarrow> nat" where
  "hyper_chequers VARIATION_HYPERGAMMON_1 = 1"
| "hyper_chequers VARIATION_HYPERGAMMON_2 = 2"
| "hyper_chequers VARIATION_HYPERGAMMON_3 = 3"
| "hyper_chequers _ = 0"

definition InitBoard :: "bgvariation \<Rightarrow> TanBoard" where
  "InitBoard bgv =
     (let b = (replicate 25 0, replicate 25 0)
      in if bgv = VARIATION_STANDARD \<or> bgv = VARIATION_NACKGAMMON
         then let n = (if bgv = VARIATION_NACKGAMMON then 4 else 5);
                  b = set_both 12 n (set_both 5 n b);
                  b = set_both 23 2 (set_both 7 3 b)
              in if bgv = VARIATION_NACKGAMMON then set_both 22 2 b else b
         else fold (\<lambda>j. set_both (23 - j) 1) [0..<hyper_chequers bgv] b)"

definition anChequers :: "bgvariation \<Rightarrow> nat" where
  "anChequers bgv = (case bgv of VARIATION_STANDARD \<Rightarrow> 15 | VARIATION_NACKGAMMON \<Rightarrow> 15
     | VARIATION_HYPERGAMMON_1 \<Rightarrow> 1 | VARIATION_HYPERGAMMON_2 \<Rightarrow> 2 | VARIATION_HYPERGAMMON_3 \<Rightarrow> 3)"

lemma InitBoard_wf [board_wf, simp]: "wf_board (InitBoard bgv)"
  by (cases bgv) (simp_all add: wf_board_def InitBoard_def set_both_def Let_def eval_nat_numeral)

text \<open>Every starting position has the variation's number of chequers on each side.\<close>

lemma InitBoard_chequers:
  "chequers (fst (InitBoard bgv)) = anChequers bgv \<and> chequers (snd (InitBoard bgv)) = anChequers bgv"
  by (cases bgv; simp only:; code_simp)

section \<open>SwapSides, EqualBoards\<close>

definition SwapSides :: "TanBoard \<Rightarrow> TanBoard" where
  "SwapSides b = fold (\<lambda>i (a0, a1). (a0[i := a1 ! i], a1[i := a0 ! i])) [0..<25] b"

text \<open>The loop of 25 exchanges swaps a prefix; on whole boards it is the exchange of the sides.\<close>

lemma swap_prefix:
  fixes s0 s1 :: side
  assumes "length s0 = 25" "length s1 = 25" "n \<le> 25"
  shows "fold (\<lambda>i (a0, a1). (a0[i := a1 ! i], a1[i := a0 ! i])) [0..<n] (s0, s1)
       = (take n s1 @ drop n s0, take n s0 @ drop n s1)"
  using assms(3)
proof (induction n)
  case 0
  then show ?case by simp
next
  case (Suc n)
  have upd: "(take n xs @ drop n ys)[n := xs ! n] = take (Suc n) xs @ drop (Suc n) ys"
    if "length xs = 25" "length ys = 25" for xs ys :: side
    using that Suc.prems
    by (simp add: list_update_append take_Suc_conv_app_nth flip: Cons_nth_drop_Suc)
  have nth: "(take n xs @ drop n ys) ! n = ys ! n"
    if "length xs = 25" "length ys = 25" for xs ys :: side
    using that Suc.prems by (simp add: nth_append)
  show ?case
    using Suc by (simp only: fold_upt_Suc Suc_leD split_conv nth [OF assms(1,2)]
      nth [OF assms(2,1)] upd [OF assms(1,2)] upd [OF assms(2,1)])
qed

lemma SwapSides_eq [simp]: "wf_board b \<Longrightarrow> SwapSides b = (snd b, fst b)"
  using swap_prefix [of "fst b" "snd b" 25] by (simp add: SwapSides_def wf_board_def)

lemma SwapSides_wf [board_wf]: "wf_board b \<Longrightarrow> wf_board (SwapSides b)"
  by (simp add: wf_board_def)

lemma SwapSides_involutive: "wf_board b \<Longrightarrow> SwapSides (SwapSides b) = b"
  by (simp add: SwapSides_wf wf_board_def)

definition EqualBoards :: "TanBoard \<Rightarrow> TanBoard \<Rightarrow> bool" where
  "EqualBoards b c \<longleftrightarrow>
     list_all (\<lambda>i. \<not> (fst b ! i \<noteq> fst c ! i \<or> snd b ! i \<noteq> snd c ! i)) [0..<25]"

lemma EqualBoards_iff:
  assumes "wf_board b" "wf_board c"
  shows "EqualBoards b c \<longleftrightarrow> b = c"
  using assms nth_equalityI [of "fst b" "fst c"] nth_equalityI [of "snd b" "snd c"]
  by (auto simp: EqualBoards_def list_all_iff wf_board_def prod_eq_iff)

section \<open>PipCount and KeithCount\<close>

definition PipCount :: "TanBoard \<Rightarrow> u32 \<times> u32" where
  "PipCount b =
     fold (\<lambda>i (p0, p1). (p0 + fst b ! i * (of_nat i + 1), p1 + snd b ! i * (of_nat i + 1)))
       [0..<25] (0, 0)"

text \<open>The pip count as a mathematical number, and the bound under which the code computes it.\<close>

definition pips :: "side \<Rightarrow> nat" where
  "pips s = (\<Sum>i<length s. unat (s ! i) * (i + 1))"

lemma pips_le: "pips s \<le> length s * chequers s"
proof -
  have "pips s \<le> (\<Sum>i<length s. unat (s ! i) * length s)"
    unfolding pips_def by (intro sum_mono mult_le_mono) auto
  also have "\<dots> = length s * chequers s"
    by (simp add: chequers_def sum_list_sum_nth atLeast0LessThan sum_distrib_left mult.commute)
  finally show ?thesis .
qed

lemma pips_update:
  assumes "i < length s"
  shows "pips (s[i := v]) + unat (s ! i) * (i + 1) = pips s + unat v * (i + 1)"
proof -
  have split: "pips t = unat (t ! i) * (i + 1) + (\<Sum>j\<in>{..<length t} - {i}. unat (t ! j) * (j + 1))"
    if "i < length t" for t
    using that by (simp add: pips_def sum.remove)
  have "(\<Sum>j\<in>{..<length s} - {i}. unat (s[i := v] ! j) * (j + 1))
      = (\<Sum>j\<in>{..<length s} - {i}. unat (s ! j) * (j + 1))"
    by (rule sum.cong) auto
  with split [of s] split [of "s[i := v]"] assms show ?thesis by simp
qed

lemma PipCount_prefix:
  "fold (\<lambda>i (p0, p1). (p0 + fst b ! i * (of_nat i + 1), p1 + snd b ! i * (of_nat i + 1)))
     [0..<n] (0, 0)
   = (of_nat (\<Sum>i<n. unat (fst b ! i) * (i + 1)), of_nat (\<Sum>i<n. unat (snd b ! i) * (i + 1)) :: u32)"
  by (induction n) (simp_all add: algebra_simps)

lemma PipCount_eq: "wf_board b \<Longrightarrow> PipCount b = (of_nat (pips (fst b)), of_nat (pips (snd b)))"
  unfolding PipCount_def PipCount_prefix pips_def by (simp only: wf_boardD)

text \<open>The pip count of each side is the sum of the distances of its chequers, without wrap-around.\<close>

lemma PipCount_exact:
  assumes "wf_board b" "chequers (fst b) \<le> 15" "chequers (snd b) \<le> 15"
  shows "unat (fst (PipCount b)) = pips (fst b) \<and> unat (snd (PipCount b)) = pips (snd b)"
proof -
  have "pips (fst b) < 2 ^ 32" "pips (snd b) < 2 ^ 32"
    using pips_le [of "fst b"] pips_le [of "snd b"] assms by (auto simp: wf_board_def)
  then show ?thesis by (simp only: PipCount_eq [OF assms(1)] fst_conv snd_conv unat_of_nat_u32)
qed

definition KeithCount :: "TanBoard \<Rightarrow> int \<times> int" where
  "KeithCount b =
     (let (p0, p1) = PipCount b;
          adj = (\<lambda>(s :: side) p.
             let p = p + (max 1 (s ! 0) - 1) * 2;
                 p = p + (max 1 (s ! 1) - 1);
                 p = p + (max 3 (s ! 2) - 3)
             in fold (\<lambda>x p. if s ! x = 0 then p + 1 else p) [3..<6] p)
      in (sint (adj (fst b) p0), sint (adj (snd b) p1)))"

end
