(* ===== verification/Codec.thy ===== *)
theory Codec
  imports Gnubg_Prelude
begin

text \<open>
  The contract the engine's encodings share: keys, identifiers and database indices are
  written by one function and read back by another.  A client that compares encodings
  instead of positions (the move generator, the evaluation cache) relies on nothing else.
\<close>

locale codec =
  fixes enc :: "'a \<Rightarrow> 'b" and dec :: "'b \<Rightarrow> 'a" and valid :: "'a \<Rightarrow> bool"
  assumes dec_enc: "valid x \<Longrightarrow> dec (enc x) = x"
begin

lemma enc_inj: "inj_on enc (Collect valid)"
  by (rule inj_onI) (metis dec_enc mem_Collect_eq)

lemma enc_eq_iff: "valid x \<Longrightarrow> valid y \<Longrightarrow> enc x = enc y \<longleftrightarrow> x = y"
  by (metis dec_enc)

end

text \<open>An encoding that is also onto the admissible codes: a numbering of its domain.\<close>

locale numbering = codec enc dec valid
  for enc :: "'a \<Rightarrow> 'b" and dec :: "'b \<Rightarrow> 'a" and valid :: "'a \<Rightarrow> bool" +
  fixes code :: "'b \<Rightarrow> bool"
  assumes enc_code: "valid x \<Longrightarrow> code (enc x)"
    and dec_valid: "code c \<Longrightarrow> valid (dec c)"
    and enc_dec: "code c \<Longrightarrow> enc (dec c) = c"
begin

lemma bij: "bij_betw enc (Collect valid) (Collect code)"
  by (rule bij_betw_byWitness [where f' = dec]) (auto simp: dec_enc enc_code dec_valid enc_dec)

lemma onto: "enc ` Collect valid = Collect code"
  using bij by (rule bij_betw_imp_surj_on)

end

sublocale numbering \<subseteq> inverse: codec dec enc code
  by unfold_locales (rule enc_dec)

end
