(* ===== verification/Position_Key.thy ===== *)
theory Position_Key
  imports Board Codec
begin

text \<open>
  The internal position key of positionid.c: four bits per point and bar, packed into seven
  32-bit words (\<open>PositionKey\<close>), and its two readers (\<open>PositionFromKey\<close>,
  \<open>PositionFromKeySwapped\<close>).  The key is a numbering of the boards with fewer than 16
  chequers on every point.
\<close>

section \<open>Definitions\<close>

type_synonym positionkey = "u32 list"

definition pack8 :: "side \<Rightarrow> nat \<Rightarrow> u32" where
  "pack8 s j = s ! j + push_bit 4 (s ! (j + 1))
     + push_bit 8 (s ! (j + 2)) + push_bit 12 (s ! (j + 3))
     + push_bit 16 (s ! (j + 4)) + push_bit 20 (s ! (j + 5))
     + push_bit 24 (s ! (j + 6)) + push_bit 28 (s ! (j + 7))"

definition PositionKey :: "TanBoard \<Rightarrow> positionkey" where
  "PositionKey b =
     [pack8 (snd b) 0, pack8 (snd b) 8, pack8 (snd b) 16,
      pack8 (fst b) 0, pack8 (fst b) 8, pack8 (fst b) 16,
      fst b ! 24 + push_bit 4 (snd b ! 24)]"

definition unpack8 :: "u32 \<Rightarrow> u32 list" where
  "unpack8 w = [w AND 0x0f, drop_bit 4 w AND 0x0f, drop_bit 8 w AND 0x0f, drop_bit 12 w AND 0x0f,
     drop_bit 16 w AND 0x0f, drop_bit 20 w AND 0x0f, drop_bit 24 w AND 0x0f, drop_bit 28 w AND 0x0f]"

definition PositionFromKey :: "positionkey \<Rightarrow> TanBoard" where
  "PositionFromKey k =
     (unpack8 (k ! 3) @ unpack8 (k ! 4) @ unpack8 (k ! 5) @ [k ! 6 AND 0x0f],
      unpack8 (k ! 0) @ unpack8 (k ! 1) @ unpack8 (k ! 2) @ [drop_bit 4 (k ! 6) AND 0x0f])"

definition PositionFromKeySwapped :: "positionkey \<Rightarrow> TanBoard" where
  "PositionFromKeySwapped k =
     (unpack8 (k ! 0) @ unpack8 (k ! 1) @ unpack8 (k ! 2) @ [drop_bit 4 (k ! 6) AND 0x0f],
      unpack8 (k ! 3) @ unpack8 (k ! 4) @ unpack8 (k ! 5) @ [k ! 6 AND 0x0f])"

definition EqualKeys :: "positionkey \<Rightarrow> positionkey \<Rightarrow> bool" where
  "EqualKeys k1 k2 \<longleftrightarrow> k1 ! 0 = k2 ! 0 \<and> k1 ! 1 = k2 ! 1 \<and> k1 ! 2 = k2 ! 2 \<and> k1 ! 3 = k2 ! 3
     \<and> k1 ! 4 = k2 ! 4 \<and> k1 ! 5 = k2 ! 5 \<and> k1 ! 6 = k2 ! 6"

text \<open>Boards that fit the four bits a point has, and the words that are keys.\<close>

definition nibble_side :: "side \<Rightarrow> bool" where
  "nibble_side s \<longleftrightarrow> length s = 25 \<and> (\<forall>i<25. s ! i < 16)"

definition nibble_board :: "TanBoard \<Rightarrow> bool" where
  "nibble_board b \<longleftrightarrow> nibble_side (fst b) \<and> nibble_side (snd b)"

definition is_key :: "positionkey \<Rightarrow> bool" where
  "is_key k \<longleftrightarrow> length k = 7 \<and> k ! 6 < 256"

section \<open>Digits of a packed word\<close>

fun digits16 :: "nat list \<Rightarrow> nat" where
  "digits16 [] = 0"
| "digits16 (d # ds) = d + 16 * digits16 ds"

lemma digits16_nth:
  "\<forall>d\<in>set ds. d < 16 \<Longrightarrow> k < length ds \<Longrightarrow> digits16 ds div 16 ^ k mod 16 = ds ! k"
proof (induction ds arbitrary: k)
  case Nil
  then show ?case by simp
next
  case (Cons d ds)
  show ?case
  proof (cases k)
    case 0
    with Cons.prems show ?thesis by simp
  next
    case (Suc m)
    have "(d + 16 * digits16 ds) div 16 ^ Suc m = (d + 16 * digits16 ds) div 16 div 16 ^ m"
      by (simp only: power_Suc div_mult2_eq)
    also have "(d + 16 * digits16 ds) div 16 = digits16 ds" using Cons.prems by simp
    finally show ?thesis using Cons Suc by simp
  qed
qed

lemma digits16_bound: "\<forall>d\<in>set ds. d < 16 \<Longrightarrow> digits16 ds < 16 ^ length ds"
  by (induction ds) auto

lemma unat_nibble: "unat (drop_bit n w AND 0x0f) = unat w div 2 ^ n mod 16" for w :: u32
proof -
  have "drop_bit n w AND 0x0f = take_bit 4 (drop_bit n w)"
    by (simp add: take_bit_eq_mask mask_eq_exp_minus_1)
  then have "unat (drop_bit n w AND 0x0f) = take_bit 4 (drop_bit n (unat w))"
    by (simp only: unsigned_take_bit_eq unat_drop_bit_eq)
  then show ?thesis by (simp add: take_bit_eq_mod drop_bit_eq_div)
qed

lemma unat_pack8:
  assumes "\<forall>i<8. s ! (j + i) < (16 :: u32)"
  shows "unat (pack8 s j) = digits16 (map (\<lambda>i. unat (s ! (j + i))) [0..<8])"
proof -
  let ?ds = "map (\<lambda>i. unat (s ! (j + i))) [0..<8]"
  have small: "\<forall>d\<in>set ?ds. d < 16" using assms by (auto simp: word_less_nat_alt)
  have "pack8 s j = of_nat (digits16 ?ds)"
    by (simp add: pack8_def push_bit_eq_mult upt_0_8 algebra_simps)
  moreover have "digits16 ?ds < 2 ^ 32"
    using digits16_bound [OF small] by simp
  ultimately show ?thesis by (simp only: unat_of_nat_u32)
qed

lemma unpack8_nth: "i < 8 \<Longrightarrow> unpack8 w ! i = drop_bit (4 * i) w AND 0x0f"
  by (auto simp: unpack8_def less_Suc_eq eval_nat_numeral)

lemma length_unpack8 [simp]: "length (unpack8 w) = 8"
  by (simp add: unpack8_def)

lemma unpack8_pack8:
  assumes "\<forall>i<8. s ! (j + i) < 16"
  shows "unpack8 (pack8 s j) = map (\<lambda>i. s ! (j + i)) [0..<8]"
proof (intro nth_equalityI)
  show "length (unpack8 (pack8 s j)) = length (map (\<lambda>i. s ! (j + i)) [0..<8])" by simp
next
  fix i assume "i < length (unpack8 (pack8 s j))"
  then have i: "i < 8" by simp
  let ?ds = "map (\<lambda>i. unat (s ! (j + i))) [0..<8]"
  have "\<forall>d\<in>set ?ds. d < 16" using assms by (auto simp: word_less_nat_alt)
  then have "unat (pack8 s j) div 16 ^ i mod 16 = unat (s ! (j + i))"
    using digits16_nth [of ?ds i] i by (simp add: unat_pack8 [OF assms])
  then have "unat (unpack8 (pack8 s j) ! i) = unat (s ! (j + i))"
    using i by (simp add: unpack8_nth unat_nibble power_mult)
  then show "unpack8 (pack8 s j) ! i = map (\<lambda>i. s ! (j + i)) [0..<8] ! i"
    using i by (auto intro: unat_eqI)
qed

lemma digits16_digits: "digits16 (map (\<lambda>i. n div 16 ^ i mod 16) [0..<m]) = n mod 16 ^ m"
proof (induction m arbitrary: n)
  case 0
  then show ?case by simp
next
  case (Suc m)
  have "map (\<lambda>i. n div 16 ^ i mod 16) [0..<Suc m]
      = n mod 16 # map (\<lambda>i. n div 16 div 16 ^ i mod 16) [0..<m]"
    by (simp add: upt_conv_Cons map_Suc_upt [symmetric] div_mult2_eq del: upt_Suc)
  with Suc [of "n div 16"] show ?case by (simp add: mod_mult2_eq)
qed

lemma pack8_unpack8:
  assumes "\<And>i. i < 8 \<Longrightarrow> s ! (j + i) = unpack8 w ! i"
  shows "pack8 s j = w"
proof (rule unat_eqI)
  have nibble: "unat (s ! (j + i)) = unat w div 16 ^ i mod 16" if "i < 8" for i
    using that by (simp add: assms unpack8_nth unat_nibble power_mult)
  then have "\<forall>i<8. s ! (j + i) < 16" by (auto simp: word_less_nat_alt)
  moreover have "map (\<lambda>i. unat (s ! (j + i))) [0..<8] = map (\<lambda>i. unat w div 16 ^ i mod 16) [0..<8]"
    by (rule map_cong) (auto simp: nibble)
  ultimately have "unat (pack8 s j) = digits16 (map (\<lambda>i. unat w div 16 ^ i mod 16) [0..<8])"
    by (simp only: unat_pack8)
  also have "\<dots> = unat w" using unat_u32_less [of w] by (simp add: digits16_digits)
  finally show "unat (pack8 s j) = unat w" .
qed

section \<open>The key is a numbering\<close>

lemma nibble_side_split:
  assumes "nibble_side s"
  shows "unpack8 (pack8 s 0) @ unpack8 (pack8 s 8) @ unpack8 (pack8 s 16) @ [s ! 24] = s"
proof -
  have eight: "unpack8 (pack8 s j) = map ((!) s) [j..<8 + j]" if "j \<le> 16" for j
  proof -
    have "unpack8 (pack8 s j) = map (\<lambda>i. s ! (j + i)) [0..<8]"
      using assms that by (intro unpack8_pack8) (auto simp: nibble_side_def)
    also have "\<dots> = map ((!) s) (map (\<lambda>i. i + j) [0..<8])" by (simp add: add.commute)
    finally show ?thesis by (simp only: map_add_upt add_0)
  qed
  have "[0..<25] = [0..<8] @ [8..<16] @ [16..<24] @ [24]" by code_simp
  then have "map ((!) s) [0..<25] =
      map ((!) s) [0..<8] @ map ((!) s) [8..<16] @ map ((!) s) [16..<24] @ [s ! 24]"
    by (simp only: map_append list.map)
  moreover have "map ((!) s) [0..<25] = s"
    using assms map_nth [of s] by (simp add: nibble_side_def)
  moreover have "unpack8 (pack8 s 0) = map ((!) s) [0..<8]" "unpack8 (pack8 s 8) = map ((!) s) [8..<16]"
    "unpack8 (pack8 s 16) = map ((!) s) [16..<24]"
    using eight [of 0] eight [of 8] eight [of 16] by simp_all
  ultimately show ?thesis by (simp only:)
qed

lemma bar_nibbles:
  fixes x y :: u32
  assumes "x < 16" "y < 16"
  shows "(x + push_bit 4 y) AND 0x0f = x" "drop_bit 4 (x + push_bit 4 y) AND 0x0f = y"
proof -
  have "unat (x + push_bit 4 y) = unat x + 16 * unat y"
    using assms by (simp add: push_bit_eq_mult unat_word_ariths word_less_nat_alt)
  moreover have "unat x < 16" "unat y < 16" using assms by (simp_all add: word_less_nat_alt)
  ultimately show "(x + push_bit 4 y) AND 0x0f = x" "drop_bit 4 (x + push_bit 4 y) AND 0x0f = y"
    using unat_nibble [of 0 "x + push_bit 4 y"] unat_nibble [of 4 "x + push_bit 4 y"]
    by (auto intro!: unat_eqI)
qed

lemma PositionFromKey_PositionKey: "nibble_board b \<Longrightarrow> PositionFromKey (PositionKey b) = b"
proof -
  assume b: "nibble_board b"
  then have bar: "fst b ! 24 < 16" "snd b ! 24 < 16"
    by (auto simp: nibble_board_def nibble_side_def)
  show ?thesis
    using b nibble_side_split [of "fst b"] nibble_side_split [of "snd b"]
    by (simp add: nibble_board_def PositionFromKey_def PositionKey_def bar_nibbles [OF bar] prod_eq_iff)
qed

lemma nth_append_8:
  assumes "length a = 8" "length c = 8" "length d = 8" "i < 8"
  shows "(a @ c @ d @ e) ! i = a ! i" "(a @ c @ d @ e) ! (8 + i) = c ! i"
    "(a @ c @ d @ e) ! (16 + i) = d ! i"
  using assms by (simp_all add: nth_append)

lemma nth_append_24:
  "length a = 8 \<Longrightarrow> length c = 8 \<Longrightarrow> length d = 8 \<Longrightarrow> (a @ c @ d @ e) ! 24 = e ! 0"
  by (simp add: nth_append)

lemma key_words:
  assumes "length k = 7"
  shows "k = [k ! 0, k ! 1, k ! 2, k ! 3, k ! 4, k ! 5, k ! 6]"
proof -
  have "[0..<7] = [0, 1, 2, 3, 4, 5, 6]" by (simp add: upt_conv_Cons eval_nat_numeral)
  with assms map_nth [of k] show ?thesis by simp
qed

lemma PositionKey_PositionFromKey:
  assumes "is_key k"
  shows "PositionKey (PositionFromKey k) = k"
proof -
  have "unat (k ! 6) < 256" using assms by (simp add: is_key_def word_less_nat_alt)
  moreover have "unat ((k ! 6 AND 15) + push_bit 4 (drop_bit 4 (k ! 6) AND 15))
      = unat (k ! 6) mod 16 + 16 * (unat (k ! 6) div 16 mod 16)"
    using unat_nibble [of 0 "k ! 6"] unat_nibble [of 4 "k ! 6"]
    by (simp add: push_bit_eq_mult unat_word_ariths)
  ultimately have bar: "(k ! 6 AND 15) + push_bit 4 (drop_bit 4 (k ! 6) AND 15) = k ! 6"
    by (intro unat_eqI) simp
  have "k = [k ! 0, k ! 1, k ! 2, k ! 3, k ! 4, k ! 5, k ! 6]"
    using assms by (intro key_words) (simp add: is_key_def)
  moreover have "PositionKey (PositionFromKey k) = [k ! 0, k ! 1, k ! 2, k ! 3, k ! 4, k ! 5, k ! 6]"
    unfolding PositionKey_def PositionFromKey_def fst_conv snd_conv
    by (simp only: pack8_unpack8 nth_append_8 [where i = 0, simplified] nth_append_8 nth_append_24
        length_unpack8 nth_Cons_0 bar add_0)
  ultimately show ?thesis by simp
qed

lemma PositionFromKey_nibble: "nibble_board (PositionFromKey k)"
proof -
  have n: "w AND 0x0f < 16" for w :: u32
    using unat_nibble [of 0 w] by (simp add: word_less_nat_alt)
  have u: "x \<in> set (unpack8 w) \<Longrightarrow> x < 16" for x w by (auto simp: unpack8_def n)
  have "nibble_side (unpack8 a @ unpack8 c @ unpack8 d @ [w AND 0x0f])" for a c d w
  proof -
    let ?s = "unpack8 a @ unpack8 c @ unpack8 d @ [w AND 0x0f]"
    have "\<forall>x\<in>set ?s. x < 16" using n u by auto
    moreover have "length ?s = 25" by simp
    ultimately show ?thesis unfolding nibble_side_def by (metis nth_mem)
  qed
  then show ?thesis by (simp add: nibble_board_def PositionFromKey_def)
qed

interpretation key: numbering PositionKey PositionFromKey nibble_board is_key
proof unfold_locales
  show "is_key (PositionKey b)" if "nibble_board b" for b
  proof -
    have "unat (fst b ! 24) < 16" "unat (snd b ! 24) < 16"
      using that by (auto simp: nibble_board_def nibble_side_def word_less_nat_alt)
    then show ?thesis
      by (simp add: is_key_def PositionKey_def word_less_nat_alt push_bit_eq_mult unat_word_ariths)
  qed
qed (simp_all add: PositionFromKey_PositionKey PositionFromKey_nibble PositionKey_PositionFromKey)

lemma EqualKeys_iff: "length k1 = 7 \<Longrightarrow> length k2 = 7 \<Longrightarrow> EqualKeys k1 k2 \<longleftrightarrow> k1 = k2"
  using key_words [of k1] key_words [of k2] unfolding EqualKeys_def by metis

lemma length_PositionKey [simp]: "length (PositionKey b) = 7"
  by (simp add: PositionKey_def)

text \<open>Comparing keys, as the move generator and the cache do, is comparing boards.\<close>

lemma EqualKeys_PositionKey:
  "nibble_board b \<Longrightarrow> nibble_board c \<Longrightarrow> EqualKeys (PositionKey b) (PositionKey c) \<longleftrightarrow> b = c"
  by (simp add: EqualKeys_iff key.enc_eq_iff)

lemma nibble_board_wf: "nibble_board b \<Longrightarrow> wf_board b"
  by (simp add: nibble_board_def nibble_side_def wf_board_def)

text \<open>The reader used in evaluations fills the board already swapped.\<close>

lemma PositionFromKeySwapped_eq: "PositionFromKeySwapped k = SwapSides (PositionFromKey k)"
  by (simp add: nibble_board_wf [OF PositionFromKey_nibble])
    (simp add: PositionFromKeySwapped_def PositionFromKey_def)

lemma few_chequers_nibble:
  assumes "wf_board b" "chequers (fst b) \<le> 15" "chequers (snd b) \<le> 15"
  shows "nibble_board b"
proof -
  have "s ! i < 16" if "length s = 25" "chequers s \<le> 15" "i < 25" for s i
    using chequers_ge [of i s] that by (simp add: word_less_nat_alt)
  with assms show ?thesis by (simp add: nibble_board_def nibble_side_def wf_board_def)
qed

section \<open>Keys are positions\<close>

text \<open>C23: A key holds the whole position: it decodes to it, decodes swapped to the position seen by the
  opponent, and two positions have equal keys only if they are the same.\<close>

theorem PositionKey_exact:
  assumes "nibble_board b" "nibble_board c"
  shows "PositionFromKey (PositionKey b) = b \<and> PositionFromKeySwapped (PositionKey b) = SwapSides b \<and>
    (EqualKeys (PositionKey b) (PositionKey c) \<longleftrightarrow> b = c)"
  using assms key.dec_enc [of b] EqualKeys_PositionKey [of b c] by (simp add: PositionFromKeySwapped_eq)

theorem PositionKey_exact_witness:
  "\<not> EqualKeys (PositionKey (InitBoard VARIATION_STANDARD)) (PositionKey (InitBoard VARIATION_NACKGAMMON)) \<and>
   PositionFromKey (PositionKey (InitBoard VARIATION_STANDARD)) = InitBoard VARIATION_STANDARD"
proof -
  have "nibble_board (InitBoard VARIATION_STANDARD)" "nibble_board (InitBoard VARIATION_NACKGAMMON)"
    by (rule few_chequers_nibble; simp add: InitBoard_chequers anChequers_def)+
  moreover have "InitBoard VARIATION_STANDARD \<noteq> InitBoard VARIATION_NACKGAMMON" by code_simp
  ultimately show ?thesis
    using PositionKey_exact [of "InitBoard VARIATION_STANDARD" "InitBoard VARIATION_NACKGAMMON"] by simp
qed

end
