(* ===== verification/Eval_Types.thy ===== *)
theory Eval_Types
  imports Complex_Main Board
begin

text \<open>
  The data an evaluation works on (eval.h): the cube information and the layout of the output
  array.  A C \<open>float\<close> is a \<open>real\<close>: the development proves what the formulas compute, not how they
  round.
\<close>

text \<open>
  The cube information an evaluation is made for (eval.h); \<open>ci_arGammonPrice\<close> holds the gammon
  prices of player 0 and 1 and then the backgammon prices.
\<close>

record cubeinfo =
  ci_nCube :: int
  ci_fCubeOwner :: int
  ci_fMove :: int
  ci_nMatchTo :: int
  ci_anScore :: "int \<times> int"
  ci_fCrawford :: int
  ci_fJacoby :: int
  ci_fBeavers :: int
  ci_arGammonPrice :: "real list"
  ci_bgv :: bgvariation

definition side_of :: "int \<Rightarrow> 'a \<times> 'a \<Rightarrow> 'a" where
  "side_of f p = (if f = 0 then fst p else snd p)"

text \<open>The C negation \<open>!x\<close>.\<close>

definition cnot :: "int \<Rightarrow> int" where "cnot x = (if x = 0 then 1 else 0)"

text \<open>The outputs of an evaluation, as indices of its array.\<close>

definition OUTPUT_WIN :: nat where "OUTPUT_WIN = 0"
definition OUTPUT_WINGAMMON :: nat where "OUTPUT_WINGAMMON = 1"
definition OUTPUT_WINBACKGAMMON :: nat where "OUTPUT_WINBACKGAMMON = 2"
definition OUTPUT_LOSEGAMMON :: nat where "OUTPUT_LOSEGAMMON = 3"
definition OUTPUT_LOSEBACKGAMMON :: nat where "OUTPUT_LOSEBACKGAMMON = 4"
definition OUTPUT_EQUITY :: nat where "OUTPUT_EQUITY = 5"
definition OUTPUT_CUBEFUL_EQUITY :: nat where "OUTPUT_CUBEFUL_EQUITY = 6"

lemmas outputs = OUTPUT_WIN_def OUTPUT_WINGAMMON_def OUTPUT_WINBACKGAMMON_def
  OUTPUT_LOSEGAMMON_def OUTPUT_LOSEBACKGAMMON_def OUTPUT_EQUITY_def OUTPUT_CUBEFUL_EQUITY_def

text \<open>The start of the second game of a match to three, for concrete instances.\<close>

definition score_cube :: cubeinfo where
  "score_cube = \<lparr>ci_nCube = 1, ci_fCubeOwner = - 1, ci_fMove = 0, ci_nMatchTo = 3, ci_anScore = (0, 1),
     ci_fCrawford = 0, ci_fJacoby = 0, ci_fBeavers = 0, ci_arGammonPrice = [1, 1, 1, 1], ci_bgv = VARIATION_STANDARD\<rparr>"

end
