(* ===== verification/Bearoff_Index.thy ===== *)
theory Bearoff_Index
  imports Board Codec "HOL-Library.Multiset"
begin

text \<open>
  The enumeration of bear-off positions of positionid.c: Pascal's triangle in a table
  (\<open>Combination\<close>), the rank of a bit string among those with the same number of ones
  (\<open>PositionF\<close>) and its inverse (\<open>PositionInv\<close>), and the database index of a home board
  (\<open>PositionBearoff\<close>, \<open>PositionFromBearoff\<close>, \<open>PositionIndex\<close>).
\<close>

section \<open>Combinations\<close>

definition MAX_N :: nat where "MAX_N = 40"
definition MAX_R :: nat where "MAX_R = 25"

text \<open>
  \<open>InitCombination\<close> fills \<open>anCombination[i][j]\<close> row by row: row 0 is \<open>1, 0, 0, \<dots>\<close>, and row
  \<open>i\<close> starts with \<open>i + 1\<close> and adds neighbours of row \<open>i - 1\<close>.
\<close>

definition next_row :: "nat \<Rightarrow> u32 list \<Rightarrow> u32 list" where
  "next_row i row = (of_nat i + 1) # map (\<lambda>j. row ! (j - 1) + row ! j) [1..<MAX_R]"

fun comb_rows :: "nat \<Rightarrow> u32 list" where
  "comb_rows 0 = 1 # replicate (MAX_R - 1) 0"
| "comb_rows (Suc i) = next_row (Suc i) (comb_rows i)"

text \<open>\<open>None\<close> is a failed \<open>g_assert\<close> or an index outside the table.\<close>

definition Combination :: "nat \<Rightarrow> nat \<Rightarrow> u32 option" where
  "Combination n r =
     (if \<not> (n \<le> MAX_N \<and> r \<le> MAX_R) then None
      else if n = 0 \<or> r = 0 then None
      else Some (comb_rows (n - 1) ! (r - 1)))"

lemma length_comb_rows [simp]: "length (comb_rows i) = MAX_R"
  by (cases i) (simp_all add: next_row_def MAX_R_def)

text \<open>The table entry is the binomial coefficient modulo the word size.\<close>

lemma comb_rows_binomial:
  "j < MAX_R \<Longrightarrow> comb_rows i ! j = of_nat (Suc i choose Suc j)"
proof (induction i arbitrary: j)
  case 0
  then show ?case by (cases j) (auto simp: nth_Cons')
next
  case (Suc i)
  show ?case
  proof (cases j)
    case 0
    then show ?thesis by (simp add: next_row_def)
  next
    case (Suc k)
    with Suc.prems have "[1..<MAX_R] ! k = j" by (subst nth_upt) auto
    with Suc Suc.prems Suc.IH [of k] Suc.IH [of j] show ?thesis
      by (simp add: next_row_def)
  qed
qed

lemma Combination_binomial:
  "1 \<le> n \<Longrightarrow> n \<le> 40 \<Longrightarrow> 1 \<le> r \<Longrightarrow> r \<le> 25 \<Longrightarrow> Combination n r = Some (of_nat (n choose r))"
  by (simp add: Combination_def MAX_N_def MAX_R_def comb_rows_binomial [unfolded MAX_R_def])

section \<open>Ranking and unranking bit strings\<close>

text \<open>
  \<open>PositionF\<close> and \<open>PositionInv\<close> recurse on the highest bit.  \<open>None\<close> is a failed assertion or a
  table index of \<open>-1\<close> (no ones left but a bit set), or the shift by \<open>-1\<close> of \<open>n = 0\<close>.
\<close>

fun PositionF :: "u32 \<Rightarrow> nat \<Rightarrow> nat \<Rightarrow> u32 option" where
  "PositionF fBits 0 r = (if 0 = r then Some 0 else None)"
| "PositionF fBits (Suc m) r =
     (if Suc m = r then Some 0
      else if fBits AND push_bit m 1 \<noteq> 0 then
        (case Combination m r of None \<Rightarrow> None
         | Some c \<Rightarrow> map_option ((+) c) (PositionF fBits m (r - 1)))
      else PositionF fBits m r)"

fun PositionInv :: "u32 \<Rightarrow> nat \<Rightarrow> nat \<Rightarrow> u32 option" where
  "PositionInv nID 0 r = (if r = 0 then Some 0 else None)"
| "PositionInv nID (Suc m) r =
     (if r = 0 then Some 0
      else if Suc m = r then Some (push_bit (Suc m) 1 - 1)
      else (case Combination m r of None \<Rightarrow> None
            | Some nC \<Rightarrow>
                if nC \<le> nID then map_option ((OR) (push_bit m 1)) (PositionInv (nID - nC) m (r - 1))
                else PositionInv nID m r))"

text \<open>The combinatorial number system on bit strings, most significant bit first.\<close>

fun rank :: "bool list \<Rightarrow> nat \<Rightarrow> nat" where
  "rank [] r = 0"
| "rank (b # bs) r = (if b then (length bs choose r) + rank bs (r - 1) else rank bs r)"

fun unrank :: "nat \<Rightarrow> nat \<Rightarrow> nat \<Rightarrow> bool list" where
  "unrank k 0 r = []"
| "unrank k (Suc m) r =
     (if r = 0 then False # unrank k m 0
      else if (m choose r) \<le> k then True # unrank (k - (m choose r)) m (r - 1)
      else False # unrank k m r)"

abbreviation ones :: "bool list \<Rightarrow> nat" where "ones bs \<equiv> count_list bs True"

lemma ones_le: "ones bs \<le> length bs"
  by (rule count_le_length)

lemma rank_bound: "rank bs (ones bs) < (length bs choose ones bs)"
proof (induction bs)
  case Nil
  then show ?case by simp
next
  case (Cons b bs)
  show ?case
  proof (cases b)
    case True
    with Cons show ?thesis by simp
  next
    case False
    with Cons show ?thesis by (cases "ones bs") auto
  qed
qed

lemma unrank_rank: "unrank (rank bs (ones bs)) (length bs) (ones bs) = bs"
proof (induction bs)
  case Nil
  then show ?case by simp
next
  case (Cons b bs)
  then show ?case using rank_bound [of bs] by auto
qed

lemma length_unrank [simp]: "length (unrank k m r) = m"
  by (induction k m r rule: unrank.induct) auto

lemma rank_unrank:
  "r \<le> m \<Longrightarrow> k < (m choose r) \<Longrightarrow> ones (unrank k m r) = r \<and> rank (unrank k m r) r = k"
proof (induction k m r rule: unrank.induct)
  case (1 k r)
  then show ?case by simp
next
  case (2 k m r)
  show ?case
  proof (cases "r = 0")
    case True
    with 2 show ?thesis by simp
  next
    case False
    then obtain r' where r: "r = Suc r'" by (cases r) auto
    show ?thesis
    proof (cases "(m choose r) \<le> k")
      case True
      with "2.prems" r "2.IH"(2) show ?thesis by simp
    next
      case less: False
      then have "r \<le> m" using "2.prems" by (metis binomial_eq_0 le_less_linear not_less0 zero_le)
      with less False "2.IH"(3) show ?thesis by simp
    qed
  qed
qed

text \<open>The code's recursions compute these, on words of up to 31 bits.\<close>

definition top_bits :: "u32 \<Rightarrow> nat \<Rightarrow> bool list" where
  "top_bits w n = rev (map (bit w) [0..<n])"

lemma top_bits_simps [simp]: "top_bits w 0 = []" "top_bits w (Suc n) = bit w n # top_bits w n"
  "length (top_bits w n) = n"
  by (simp_all add: top_bits_def)

lemma and_push_bit_1: "(w AND push_bit m 1 \<noteq> 0) = bit w m" if "m < 32" for w :: u32
  using that by (simp add: bit_iff_and_push_bit_not_eq_0)

lemma and_exp_eq_0: "(w AND 2 ^ m = 0) = (\<not> bit w m)" for w :: u32
  by (simp add: bit_iff_and_push_bit_not_eq_0)

lemma binomial_u32: "n \<le> 31 \<Longrightarrow> (n choose r) < 2 ^ 32"
proof -
  assume "n \<le> 31"
  then have "(n choose r) \<le> 2 ^ 31"
    by (meson binomial_le_pow2 le_trans one_le_numeral power_increasing)
  then show ?thesis by simp
qed

lemma rank_all: "ones bs = length bs \<Longrightarrow> rank bs (length bs) = 0"
proof (induction bs)
  case (Cons b bs)
  then show ?case using ones_le [of bs] by (cases b) auto
qed simp

lemma PositionF_rank:
  assumes "n \<le> 31" "ones (top_bits w n) = r" "r \<le> 25"
  shows "PositionF w n r = Some (of_nat (rank (top_bits w n) r))"
  using assms
proof (induction w n r rule: PositionF.induct)
  case (1 w r)
  then show ?case by simp
next
  case (2 w m r)
  show ?case
  proof (cases "Suc m = r")
    case True
    with 2 show ?thesis using rank_all [of "top_bits w (Suc m)"] by auto
  next
    case False
    show ?thesis
    proof (cases "bit w m")
      case True
      have "ones (top_bits w m) \<le> m" using ones_le [of "top_bits w m"] by simp
      with 2 True False have "1 \<le> r" "1 \<le> m" by auto
      with 2 True False show ?thesis
        by (simp add: and_exp_eq_0 Combination_binomial)
    next
      case bit: False
      with 2 False show ?thesis by (simp add: and_exp_eq_0)
    qed
  qed
qed

lemma top_bits_OR_high: "n \<le> m \<Longrightarrow> top_bits (2 ^ m OR w) n = top_bits w n"
  by (auto simp: top_bits_def bit_or_iff bit_exp_iff)

lemma top_bits_mask: "m \<le> 31 \<Longrightarrow> top_bits (push_bit m 1 - 1 :: u32) m = replicate m True"
  by (rule nth_equalityI)
    (simp_all add: top_bits_def rev_nth bit_mask_iff flip: mask_eq_exp_minus_1)

lemma unrank_zero: "unrank k m 0 = replicate m False"
  by (induction k m "0::nat" rule: unrank.induct) auto

lemma top_bits_0: "top_bits 0 m = replicate m False"
  by (induction m) (simp_all add: top_bits_def)

lemma unrank_full: "k = 0 \<Longrightarrow> unrank k m m = replicate m True"
  by (induction m) auto

lemma PositionInv_unrank:
  assumes "n \<le> 31" "r \<le> n" "r \<le> 25" "unat k < (n choose r)"
  shows "\<exists>w. PositionInv k n r = Some w \<and> top_bits w n = unrank (unat k) n r \<and> (\<forall>i\<ge>n. \<not> bit w i)"
  using assms
proof (induction k n r rule: PositionInv.induct)
  case (1 k r)
  then show ?case by simp
next
  case (2 k m r)
  show ?case
  proof (cases "r = 0")
    case True
    then show ?thesis by (simp add: unrank_zero top_bits_0 top_bits_def [of _ "Suc m"] flip: top_bits_def)
  next
    case r0: False
    show ?thesis
    proof (cases "Suc m = r")
      case True
      with 2 have "unat k = 0" by auto
      moreover have "\<not> bit (push_bit r 1 - 1 :: u32) i" if "r \<le> i" for i
        using that by (simp add: push_bit_eq_mult bit_mask_iff flip: mask_eq_exp_minus_1)
      ultimately show ?thesis using True "2.prems"
        unrank_full [of 0 r] top_bits_mask [of r] by auto
    next
      case False
      have C: "Combination m r = Some (of_nat (m choose r))"
        using "2.prems" r0 False by (intro Combination_binomial) auto
      have u: "unat (of_nat (m choose r) :: u32) = (m choose r)"
        using binomial_u32 [of m r] "2.prems" by (intro unat_of_nat_u32) auto
      show ?thesis
      proof (cases "(m choose r) \<le> unat k")
        case True
        then have le: "of_nat (m choose r) \<le> k" by (simp add: word_le_nat_alt u)
        have sub: "unat (k - of_nat (m choose r)) = unat k - (m choose r)"
          using le u by (simp add: unat_sub)
        obtain r' where r': "r = Suc r'" using r0 by (cases r) auto
        have "unat (k - of_nat (m choose r)) < (m choose (r - 1))"
          using True "2.prems"(4) unfolding sub by (simp add: r')
        moreover have "r - 1 \<le> m" "r - 1 \<le> 25" "m \<le> 31" using "2.prems" by auto
        ultimately obtain w
          where w: "PositionInv (k - of_nat (m choose r)) m (r - 1) = Some w"
            "top_bits w m = unrank (unat k - (m choose r)) m (r - 1)" "\<forall>i\<ge>m. \<not> bit w i"
          using "2.IH"(1) [OF r0 False C le] unfolding sub by blast
        show ?thesis using w True r0 False C le "2.prems"
          by (auto simp: top_bits_OR_high bit_or_iff bit_exp_iff)
      next
        case less: False
        then have gt: "\<not> of_nat (m choose r) \<le> k" by (simp add: word_le_nat_alt u)
        from less "2.IH"(2) [OF r0 False C gt] "2.prems" False obtain w
          where w: "PositionInv k m r = Some w"
            "top_bits w m = unrank (unat k) m r" "\<forall>i\<ge>m. \<not> bit w i"
          by (auto simp: not_le)
        show ?thesis using w less r0 False C gt by auto
      qed
    qed
  qed
qed

section \<open>Boards and indexes\<close>

definition bearoff_bits :: "u32 list \<Rightarrow> nat \<Rightarrow> u32" where
  "bearoff_bits anBoard n =
     (let j = fold (\<lambda>i j. j + anBoard ! i) [0..<n] (of_nat n - 1);
          fBits = push_bit (unat j) 1
      in snd (fold (\<lambda>i (j, fBits).
                 let j = j - (anBoard ! i + 1) in (j, fBits OR push_bit (unat j) 1))
               [0..<n - 1] (j, fBits)))"

definition PositionBearoff :: "u32 list \<Rightarrow> nat \<Rightarrow> nat \<Rightarrow> u32 option" where
  "PositionBearoff anBoard nPoints nChequers =
     PositionF (bearoff_bits anBoard nPoints) (nChequers + nPoints) nPoints"

text \<open>The loop of \<open>PositionFromBearoff\<close> over the bits \<open>i\<close>, with its \<open>break\<close>.\<close>

fun read_bearoff :: "u32 \<Rightarrow> nat list \<Rightarrow> nat \<Rightarrow> u32 list \<Rightarrow> u32 list" where
  "read_bearoff fBits [] j anBoard = anBoard"
| "read_bearoff fBits (i # is) j anBoard =
     (if fBits AND push_bit i 1 \<noteq> 0 then
        (if j = 0 then anBoard else read_bearoff fBits is (j - 1) anBoard)
      else read_bearoff fBits is j (anBoard[j := anBoard ! j + 1]))"

definition PositionFromBearoff :: "u32 \<Rightarrow> nat \<Rightarrow> nat \<Rightarrow> u32 list option" where
  "PositionFromBearoff usID nPoints nChequers =
     map_option (\<lambda>fBits. read_bearoff fBits [0..<nChequers + nPoints] (nPoints - 1)
                          (replicate nPoints 0))
       (PositionInv usID (nChequers + nPoints) nPoints)"

text \<open>\<open>PositionIndex\<close> passes 15 where \<open>PositionBearoff\<close> passes the sum.\<close>

definition PositionIndex :: "nat \<Rightarrow> u32 list \<Rightarrow> u16 option" where
  "PositionIndex g anBoard = map_option ucast (PositionF (bearoff_bits anBoard g) 15 g)"

text \<open>
  The bit string of a home board: for every point from the first, a one and then a zero for
  each chequer on it; zeros in front for the chequers that are off.
\<close>

definition off_bits :: "u32 list \<Rightarrow> bool list" where
  "off_bits xs = concat (map (\<lambda>x. True # replicate (unat x) False) xs)"

definition board_bits :: "nat \<Rightarrow> u32 list \<Rightarrow> bool list" where
  "board_bits c xs = replicate (c - sum_list (map unat xs)) False @ off_bits xs"

lemma off_bits_simps [simp]:
  "off_bits [] = []"
  "off_bits (x # xs) = True # replicate (unat x) False @ off_bits xs"
  by (simp_all add: off_bits_def)

lemma length_off_bits [simp]: "length (off_bits xs) = length xs + sum_list (map unat xs)"
  by (induction xs) auto

lemma ones_replicate_False [simp]: "ones (replicate n False) = 0"
  by (induction n) auto

lemma ones_append [simp]: "ones (xs @ ys) = ones xs + ones ys"
  by (induction xs) auto

lemma ones_off_bits [simp]: "ones (off_bits xs) = length xs"
  by (induction xs) auto

lemma ones_board_bits [simp]: "ones (board_bits c xs) = length xs"
  by (simp add: board_bits_def)

lemma length_board_bits:
  "sum_list (map unat xs) \<le> c \<Longrightarrow> length (board_bits c xs) = c + length xs"
  by (simp add: board_bits_def)

text \<open>A word from its bit string.\<close>

fun word_of_bits :: "bool list \<Rightarrow> u32" where
  "word_of_bits [] = 0"
| "word_of_bits (b # bs) = (if b then push_bit (length bs) 1 else 0) OR word_of_bits bs"

lemma word_of_bits_zeros [simp]: "word_of_bits (replicate n False @ bs) = word_of_bits bs"
  by (induction n) auto

lemma word_of_bits_zeros' [simp]: "word_of_bits (replicate n False) = 0"
  using word_of_bits_zeros [of n "[]"] by (simp del: word_of_bits_zeros)

lemma bit_word_of_bits_ge: "length bs \<le> n \<Longrightarrow> \<not> bit (word_of_bits bs) n"
  by (induction bs) (auto simp: bit_or_iff bit_exp_iff)

lemma top_bits_word_of_bits: "length bs \<le> 32 \<Longrightarrow> top_bits (word_of_bits bs) (length bs) = bs"
proof (induction bs)
  case (Cons b bs)
  then show ?case
    by (auto simp: top_bits_OR_high bit_or_iff bit_exp_iff bit_word_of_bits_ge)
qed simp

text \<open>\<open>PositionBearoff\<close> sets the bits of \<open>off_bits\<close>, so it ranks the bit string of the board.\<close>

definition mark_point :: "u32 \<Rightarrow> u32 \<times> u32 \<Rightarrow> u32 \<times> u32" where
  "mark_point x = (\<lambda>(j, fBits). (j - (x + 1), fBits OR push_bit (unat (j - (x + 1))) 1))"

lemma fold_mark_point:
  assumes "xs \<noteq> []" "unat j = length (off_bits xs) - 1" "length (off_bits xs) \<le> 32"
  shows "snd (fold mark_point (butlast xs) (j, f OR push_bit (unat j) 1)) =
         f OR word_of_bits (off_bits xs)"
  using assms
proof (induction xs arbitrary: j f)
  case Nil
  then show ?case by simp
next
  case (Cons x xs)
  show ?case
  proof (cases xs)
    case Nil
    with Cons show ?thesis by simp
  next
    case (Cons y ys)
    have x: "unat (x + 1) = unat x + 1"
      using Cons.prems(3) unat_u32_less [of x] by (intro trans [OF unat_plus_small]) auto
    have "x + 1 \<le> j" using Cons.prems(2) by (simp add: word_le_nat_alt x Cons)
    then have j': "unat (j - (x + 1)) = length (off_bits xs) - 1"
      using Cons.prems(2) by (simp add: unat_sub x Cons)
    have j: "unat j = length (replicate (unat x) False @ off_bits xs)"
      using Cons.prems(2) by simp
    have "snd (fold mark_point (butlast (x # xs)) (j, f OR push_bit (unat j) 1)) =
        snd (fold mark_point (butlast xs)
          (j - (x + 1), (f OR push_bit (unat j) 1) OR push_bit (unat (j - (x + 1))) 1))"
      by (simp add: Cons mark_point_def)
    also have "\<dots> = (f OR push_bit (unat j) 1) OR word_of_bits (off_bits xs)"
      using Cons.prems(3) j' by (intro Cons.IH) (simp_all add: Cons)
    finally show ?thesis by (simp add: j or.assoc)
  qed
qed

lemma fold_sum_u32: "fold (\<lambda>i j. j + xs ! i) [0..<length xs] a = a + sum_list xs" for xs :: "u32 list"
proof -
  have "fold (\<lambda>i j. j + xs ! i) [0..<length xs] a = fold (\<lambda>x j. j + x) (map ((!) xs) [0..<length xs]) a"
    by (simp add: fold_map comp_def del: map_nth)
  also have "\<dots> = fold (\<lambda>x j. j + x) xs a" by (simp add: map_nth)
  also have "\<dots> = a + sum_list xs" by (induction xs arbitrary: a) (simp_all add: add_ac)
  finally show ?thesis .
qed

lemma unat_sum_list: "sum_list (map unat xs) < 2 ^ 32 \<Longrightarrow> unat (sum_list xs) = sum_list (map unat xs)"
  for xs :: "u32 list"
  by (induction xs) (simp_all add: unat_plus_small)

lemma bearoff_bits_eq:
  assumes "xs \<noteq> []" "length (off_bits xs) \<le> 32"
  shows "bearoff_bits xs (length xs) = word_of_bits (off_bits xs)"
proof -
  let ?j = "of_nat (length xs) - 1 + sum_list xs"
  have "unat ?j = length (off_bits xs) - 1"
  proof -
    have l: "unat (of_nat (length xs) :: u32) = length xs"
      using assms by (intro unat_of_nat_u32) simp
    then have "(of_nat (length xs) :: u32) \<noteq> 0" using assms(1) by (metis length_0_conv unat_0)
    then have "unat (of_nat (length xs) - 1 :: u32) = length xs - 1"
      using l by (simp add: unat_minus_one_u32)
    moreover have "unat (sum_list xs) = sum_list (map unat xs)"
      using assms by (intro unat_sum_list) simp
    ultimately show ?thesis using assms
      by (subst unat_plus_small) (auto simp: neq_Nil_conv)
  qed
  moreover have "map ((!) xs) [0..<length xs - 1] = butlast xs"
    by (rule nth_equalityI) (simp_all add: nth_butlast)
  then have "fold (\<lambda>i. mark_point (xs ! i)) [0..<length xs - 1] s = fold mark_point (butlast xs) s" for s
    by (simp add: fold_map [symmetric, unfolded comp_def] flip: fold_map)
  ultimately show ?thesis
    using fold_mark_point [of xs ?j 0] assms
    by (simp add: bearoff_bits_def fold_sum_u32 mark_point_def Let_def)
qed

lemma top_bits_board:
  assumes "sum_list (map unat xs) \<le> c" "c + length xs \<le> 32"
  shows "top_bits (word_of_bits (off_bits xs)) (c + length xs) = board_bits c xs"
proof -
  have "word_of_bits (board_bits c xs) = word_of_bits (off_bits xs)"
    by (simp add: board_bits_def)
  then show ?thesis
    using top_bits_word_of_bits [of "board_bits c xs"] assms by (simp add: length_board_bits)
qed

lemma PositionBearoff_rank:
  assumes "length xs = n" "1 \<le> n" "n \<le> 25" "c + n \<le> 31" "sum_list (map unat xs) \<le> c"
  shows "PositionBearoff xs n c = Some (of_nat (rank (board_bits c xs) n))"
proof -
  have "PositionF (word_of_bits (off_bits xs)) (c + n) n =
      Some (of_nat (rank (top_bits (word_of_bits (off_bits xs)) (c + n)) n))"
    using assms top_bits_board [of xs c] by (intro PositionF_rank) auto
  with assms show ?thesis
    using top_bits_board [of xs c] bearoff_bits_eq [of xs]
    by (cases xs) (auto simp: PositionBearoff_def)
qed

text \<open>Reading the bits back, from the lowest, recovers the board.\<close>

fun scan :: "bool list \<Rightarrow> nat \<Rightarrow> u32 list \<Rightarrow> u32 list" where
  "scan [] j an = an"
| "scan (b # bs) j an =
     (if b then (if j = 0 then an else scan bs (j - 1) an) else scan bs j (an[j := an ! j + 1]))"

lemma read_bearoff_scan: "read_bearoff w is j an = scan (map (bit w) is) j an"
  by (induction w "is" j an rule: read_bearoff.induct) (simp_all add: and_exp_eq_0)

lemma scan_zeros:
  "j < length an \<Longrightarrow> scan (replicate k False @ bs) j an = scan bs j (an[j := an ! j + of_nat k])"
  by (induction k arbitrary: an) (simp_all add: add_ac)

lemma scan_board:
  "xs \<noteq> [] \<Longrightarrow>
   scan (rev (off_bits xs) @ rest) (length xs - 1) (replicate (length xs) 0 @ ys) = xs @ ys"
proof (induction xs arbitrary: ys rule: rev_induct)
  case Nil
  then show ?case by simp
next
  case (snoc x xs)
  have r: "rev (off_bits (xs @ [x])) = replicate (unat x) False @ True # rev (off_bits xs)"
    by (simp add: off_bits_def)
  have e: "replicate (length xs) 0 @ x # ys = (replicate (length (xs @ [x])) 0 @ ys) [length xs := x]"
    by (simp add: replicate_append_same [symmetric] list_update_append)
  show ?case
  proof (cases "xs = []")
    case True
    then show ?thesis using scan_zeros [of 0 "0 # ys" "unat x"] by (simp add: r)
  next
    case False
    have "scan (rev (off_bits (xs @ [x])) @ rest) (length xs) (replicate (length (xs @ [x])) 0 @ ys) =
        scan (rev (off_bits xs) @ rest) (length xs - 1) (replicate (length xs) 0 @ x # ys)"
      using False by (simp add: r scan_zeros e nth_append del: replicate.simps)
    with False snoc.IH [of "x # ys"] show ?thesis by simp
  qed
qed

lemma PositionFromBearoff_board:
  assumes xs: "length xs = n" "1 \<le> n" "sum_list (map unat xs) \<le> c"
    and w: "PositionInv k (c + n) n = Some w" "top_bits w (c + n) = board_bits c xs"
  shows "PositionFromBearoff k n c = Some xs"
proof -
  have "map (bit w) [0..<c + n] = rev (off_bits xs) @ replicate (c - sum_list (map unat xs)) False"
    using w(2) unfolding top_bits_def board_bits_def rev_swap by simp
  moreover have "xs \<noteq> []" using xs by auto
  ultimately show ?thesis
    using w xs scan_board [of xs "replicate (c - sum_list (map unat xs)) False" "[]"]
    by (auto simp: PositionFromBearoff_def read_bearoff_scan)
qed

lemma bits_split: "length bs < 2 ^ 32 \<Longrightarrow> \<exists>z xs. bs = replicate z False @ off_bits xs"
proof (induction bs)
  case Nil
  show ?case by (rule exI [of _ 0], rule exI [of _ "[]"]) simp
next
  case (Cons b bs)
  then obtain z xs where bs: "bs = replicate z False @ off_bits xs" by auto
  show ?case
  proof (cases b)
    case True
    have "b # bs = replicate 0 False @ off_bits (of_nat z # xs)"
      using Cons.prems True bs by (simp add: unat_of_nat_u32)
    then show ?thesis by blast
  next
    case False
    with bs have "b # bs = replicate (Suc z) False @ off_bits xs" by simp
    then show ?thesis by blast
  qed
qed

definition bearoff_board :: "nat \<Rightarrow> nat \<Rightarrow> u32 list \<Rightarrow> bool" where
  "bearoff_board n c xs \<longleftrightarrow> length xs = n \<and> sum_list (map unat xs) \<le> c"

definition bearoff_size :: "nat \<Rightarrow> nat \<Rightarrow> bool" where
  "bearoff_size n c \<longleftrightarrow> 1 \<le> n \<and> n \<le> 25 \<and> c + n \<le> 31"

lemma PositionFromBearoff_ranked:
  assumes "bearoff_size n c" "unat k < ((c + n) choose n)"
  shows "\<exists>xs. bearoff_board n c xs \<and> PositionFromBearoff k n c = Some xs \<and>
              PositionBearoff xs n c = Some k"
proof -
  from assms PositionInv_unrank [of "c + n" n k] obtain w
    where w: "PositionInv k (c + n) n = Some w" "top_bits w (c + n) = unrank (unat k) (c + n) n"
    by (auto simp: bearoff_size_def)
  obtain z xs where bits: "unrank (unat k) (c + n) n = replicate z False @ off_bits xs"
    using bits_split [of "unrank (unat k) (c + n) n"] assms(1) by (auto simp: bearoff_size_def)
  have u: "ones (unrank (unat k) (c + n) n) = n" "rank (unrank (unat k) (c + n) n) n = unat k"
    using rank_unrank [of n "c + n" "unat k"] assms by auto
  with bits have n: "length xs = n" by simp
  from arg_cong [OF bits, of length] n have z: "c = z + sum_list (map unat xs)" by simp
  with bits have b: "unrank (unat k) (c + n) n = board_bits c xs" by (simp add: board_bits_def)
  from n z have bb: "bearoff_board n c xs" by (simp add: bearoff_board_def)
  moreover have "PositionFromBearoff k n c = Some xs"
    using assms(1) n z w b by (intro PositionFromBearoff_board) (auto simp: bearoff_size_def)
  moreover have "PositionBearoff xs n c = Some k"
    using PositionBearoff_rank [of xs n c] assms(1) bb u b
    by (simp add: bearoff_size_def bearoff_board_def)
  ultimately show ?thesis by blast
qed

lemma PositionBearoff_ranked:
  assumes "bearoff_size n c" "bearoff_board n c xs"
  shows "\<exists>k. PositionBearoff xs n c = Some k \<and> unat k < ((c + n) choose n) \<and>
             PositionFromBearoff k n c = Some xs"
proof -
  let ?r = "rank (board_bits c xs) n"
  have len: "length (board_bits c xs) = c + n" and ones: "ones (board_bits c xs) = n"
    using assms by (simp_all add: bearoff_board_def length_board_bits)
  have r: "?r < ((c + n) choose n)" using rank_bound [of "board_bits c xs"] len ones by simp
  then have u: "unat (of_nat ?r :: u32) = ?r"
    using binomial_u32 [of "c + n" n] assms(1) by (intro unat_of_nat_u32) (auto simp: bearoff_size_def)
  obtain w where w: "PositionInv (of_nat ?r) (c + n) n = Some w"
      "top_bits w (c + n) = unrank ?r (c + n) n"
    using PositionInv_unrank [of "c + n" n "of_nat ?r"] assms(1) r u by (auto simp: bearoff_size_def)
  have "top_bits w (c + n) = board_bits c xs"
    using w(2) unrank_rank [of "board_bits c xs"] len ones by simp
  with w assms have "PositionFromBearoff (of_nat ?r) n c = Some xs"
    by (intro PositionFromBearoff_board) (auto simp: bearoff_size_def bearoff_board_def)
  with PositionBearoff_rank [of xs n c] assms r u show ?thesis
    by (auto simp: bearoff_size_def bearoff_board_def)
qed

text \<open>
  Every bear-off database numbers its positions: one index below \<open>C(nChequers + nPoints,
  nPoints)\<close> for every board, and one board for every index.
\<close>

lemma bearoff_numbering:
  assumes size: "bearoff_size n c"
  shows "numbering (\<lambda>xs. the (PositionBearoff xs n c)) (\<lambda>k. the (PositionFromBearoff k n c))
           (bearoff_board n c) (\<lambda>k. unat k < ((c + n) choose n))"
proof unfold_locales
  fix xs assume "bearoff_board n c xs"
  from PositionBearoff_ranked [OF size this]
  show "the (PositionFromBearoff (the (PositionBearoff xs n c)) n c) = xs"
    "unat (the (PositionBearoff xs n c)) < ((c + n) choose n)" by auto
next
  fix k :: u32 assume "unat k < ((c + n) choose n)"
  from PositionFromBearoff_ranked [OF size this]
  show "bearoff_board n c (the (PositionFromBearoff k n c))"
    "the (PositionBearoff (the (PositionFromBearoff k n c)) n c) = k" by auto
qed

text \<open>
  \<open>PositionIndex\<close> enumerates boards of \<open>g\<close> points with at most \<open>15 - g\<close> chequers, and its cast
  to \<open>unsigned short\<close> loses nothing.
\<close>

text \<open>The 16-bit index of the bear-off tables is the combinatorial index of the position.\<close>

lemma PositionIndex_PositionBearoff:
  assumes "1 \<le> g" "g \<le> 15" "bearoff_board g (15 - g) xs"
  shows "\<exists>i k. PositionIndex g xs = Some i \<and> PositionBearoff xs g (15 - g) = Some k \<and> unat i = unat k"
proof -
  have "bearoff_size g (15 - g)" using assms by (simp add: bearoff_size_def)
  from PositionBearoff_ranked [OF this assms(3)] obtain k
    where k: "PositionBearoff xs g (15 - g) = Some k" "unat k < (15 choose g)"
    using assms(2) by auto
  have "(15 choose g) \<le> 2 ^ 15" by (rule binomial_le_pow2)
  with k(2) have "unat (ucast k :: u16) = unat k"
    by (simp add: unsigned_ucast_eq unsigned_take_bit_eq take_bit_nat_eq_self)
  with k assms(2) show ?thesis by (simp add: PositionIndex_def PositionBearoff_def)
qed

text \<open>The one-sided database of the engine has 6 points and 15 chequers.\<close>

interpretation bearoff: numbering "\<lambda>xs. the (PositionBearoff xs 6 15)"
  "\<lambda>k. the (PositionFromBearoff k 6 15)" "bearoff_board 6 15" "\<lambda>k. unat k < ((15 + 6) choose 6)"
  by (rule bearoff_numbering) (simp add: bearoff_size_def)

text \<open>Only the points of the database are read.\<close>

lemma PositionBearoff_take:
  assumes "n \<le> length s"
  shows "PositionBearoff (take n s) n c = PositionBearoff s n c"
proof -
  have 1: "fold (\<lambda>i j. j + take n s ! i) [0..<n] a = fold (\<lambda>i j. j + s ! i) [0..<n] a" for a
    by (rule fold_cong) auto
  have 2: "fold (\<lambda>i (j, fBits). let j = j - (take n s ! i + 1) in (j, fBits OR push_bit (unat j) 1)) [0..<n - 1] a
      = fold (\<lambda>i (j, fBits). let j = j - (s ! i + 1) in (j, fBits OR push_bit (unat j) 1)) [0..<n - 1] a" for a
    by (rule fold_cong) auto
  show ?thesis by (simp only: PositionBearoff_def bearoff_bits_def 1 2)
qed

section \<open>The numbering as a bijection\<close>

text \<open>C27: The index of the bear-off databases is a bijection between the bear-off positions of the size and
  the numbers below the binomial coefficient, and the decoder is its inverse.\<close>

theorem bearoff_bijection:
  assumes "bearoff_size n c"
  shows "bij_betw (\<lambda>xs. the (PositionBearoff xs n c)) {xs. bearoff_board n c xs} {k. unat k < ((c + n) choose n)} \<and>
    (\<forall>k. unat k < ((c + n) choose n) \<longrightarrow>
       (\<exists>xs. PositionFromBearoff k n c = Some xs \<and> bearoff_board n c xs \<and> PositionBearoff xs n c = Some k))"
  using numbering.bij [OF bearoff_numbering [OF assms]] PositionFromBearoff_ranked [OF assms] by blast

theorem bearoff_bijection_witness:
  "bij_betw (\<lambda>xs. the (PositionBearoff xs 6 15)) {xs. bearoff_board 6 15 xs} {k. unat k < 54264}"
proof -
  have "(21 :: nat) choose 6 = 54264" by (simp add: binomial_fact' fact_numeral)
  then show ?thesis using bearoff_bijection [of 6 15] by (simp add: bearoff_size_def)
qed

end
