(* ===== verification/Match_Types.thy ===== *)
theory Match_Types
  imports Board
begin

text \<open>The match state of lib/gnubg-types.h.  A C \<open>int\<close> is an \<open>int\<close>, an \<open>unsigned int\<close> a \<open>u32\<close>.\<close>

datatype gamestate = GAME_NONE | GAME_PLAYING | GAME_OVER | GAME_RESIGNED | GAME_DROP

text \<open>The integer representation of the enumeration.\<close>

fun gs_int :: "gamestate \<Rightarrow> int" where
  "gs_int GAME_NONE = 0"
| "gs_int GAME_PLAYING = 1"
| "gs_int GAME_OVER = 2"
| "gs_int GAME_RESIGNED = 3"
| "gs_int GAME_DROP = 4"

lemma gs_int_range: "0 \<le> gs_int g" "gs_int g < 5"
  by (cases g; simp)+

lemma gs_int_inject [simp]: "gs_int g = gs_int h \<longleftrightarrow> g = h"
  by (cases g; cases h; simp)

record matchstate =
  anBoard :: TanBoard
  anDice :: "u32 \<times> u32"
  fTurn :: int
  fResigned :: int
  fResignationDeclined :: int
  fDoubled :: int
  cGames :: int
  fMove :: int
  fCubeOwner :: int
  fCrawford :: int
  fPostCrawford :: int
  nMatchTo :: int
  anScore :: "int \<times> int"
  nCube :: int
  cBeavers :: u32
  bgv :: bgvariation
  fCubeUse :: int
  fJacoby :: int
  gs :: gamestate

definition MAXSCORE :: int where "MAXSCORE = 64"

end
