(* ===== verification/Base64.thy ===== *)
theory Base64
  imports Codec "HOL-Library.Char_ord"
begin

text \<open>
  The base-64 alphabet of positionid.c and matchid.c: \<open>Base64\<close> reads a character, the table
  \<open>aszBase64\<close> writes one; three bytes are four characters.  Both identifiers are built from
  \<open>b64_group\<close> and read back with \<open>b64_ungroup\<close>.
\<close>

definition aszBase64 :: string where
  "aszBase64 = ''ABCDEFGHIJKLMNOPQRSTUVWXYZabcdefghijklmnopqrstuvwxyz0123456789+/''"

definition Base64 :: "char \<Rightarrow> u8" where
  "Base64 ch =
     (let c = of_char ch :: nat
      in if of_char (CHR ''A'') \<le> c \<and> c \<le> of_char (CHR ''Z'') then of_nat (c - of_char (CHR ''A''))
         else if of_char (CHR ''a'') \<le> c \<and> c \<le> of_char (CHR ''z'')
           then of_nat (c - of_char (CHR ''a'')) + 26
         else if of_char (CHR ''0'') \<le> c \<and> c \<le> of_char (CHR ''9'')
           then of_nat (c - of_char (CHR ''0'')) + 52
         else if ch = CHR ''+'' then 62
         else if ch = CHR ''/'' then 63
         else 255)"

definition b64_char :: "u8 \<Rightarrow> char" where
  "b64_char w = aszBase64 ! unat w"

text \<open>One turn of the encoding loop, and one of the decoding loop.\<close>

definition b64_group :: "u8 \<Rightarrow> u8 \<Rightarrow> u8 \<Rightarrow> string" where
  "b64_group p0 p1 p2 =
     [b64_char (drop_bit 2 p0),
      b64_char (push_bit 4 (p0 AND 0x03) OR drop_bit 4 p1),
      b64_char (push_bit 2 (p1 AND 0x0F) OR drop_bit 6 p2),
      b64_char (p2 AND 0x3F)]"

definition b64_ungroup :: "u8 \<Rightarrow> u8 \<Rightarrow> u8 \<Rightarrow> u8 \<Rightarrow> u8 list" where
  "b64_ungroup c0 c1 c2 c3 =
     [push_bit 2 c0 OR drop_bit 4 c1,
      push_bit 4 c1 OR drop_bit 2 c2,
      push_bit 6 c2 OR c3]"

lemma Base64_alphabet: "map Base64 aszBase64 = map of_nat [0..<64]"
  by (simp add: aszBase64_def Base64_def Let_def upt_rec_numeral upt_conv_Cons)

lemma aszBase64_props: "distinct aszBase64 \<and> length aszBase64 = 64"
  by (simp add: aszBase64_def)

lemma Base64_table: "n < 64 \<Longrightarrow> Base64 (aszBase64 ! n) = of_nat n"
  using arg_cong [OF Base64_alphabet, of "\<lambda>xs. xs ! n"] aszBase64_props by simp

lemma Base64_b64_char [simp]:
  assumes "w < 64"
  shows "Base64 (b64_char w) = w"
  using Base64_table [of "unat w"] assms by (simp add: b64_char_def word_less_nat_alt)

lemma small_sextet: "(\<forall>n<8. bit w n \<longrightarrow> n < 6) \<Longrightarrow> w < 64" for w :: u8
proof -
  assume "\<forall>n<8. bit w n \<longrightarrow> n < 6"
  then have "w = take_bit 6 w" by (intro bit_word_eqI) (auto simp: bit_simps)
  then have "unat w = take_bit 6 (unat w)" by (metis unsigned_take_bit_eq)
  then have "unat w < 2 ^ 6" by (metis take_bit_nat_less_exp)
  then show "w < 64" by (simp add: word_less_nat_alt)
qed

lemma sextets:
  "drop_bit 2 p < 64" "push_bit 4 (p AND 0x03) OR drop_bit 4 q < 64"
  "push_bit 2 (p AND 0x0F) OR drop_bit 6 q < 64" "p AND 0x3F < 64" "push_bit 4 (p AND 0x03) < 64"
  for p q :: u8
  by (rule small_sextet; simp add: u8_bits)+

lemma length_b64_group [simp]: "length (b64_group p0 p1 p2) = 4"
  by (simp add: b64_group_def)

lemma b64_read:
  "map Base64 (b64_group p0 p1 p2) =
    [drop_bit 2 p0, push_bit 4 (p0 AND 0x03) OR drop_bit 4 p1,
     push_bit 2 (p1 AND 0x0F) OR drop_bit 6 p2, p2 AND 0x3F]"
  unfolding b64_group_def list.map by (simp only: Base64_b64_char sextets)

lemma b64_ungroup_sextets:
  "b64_ungroup (drop_bit 2 p0) (push_bit 4 (p0 AND 0x03) OR drop_bit 4 p1)
     (push_bit 2 (p1 AND 0x0F) OR drop_bit 6 p2) (p2 AND 0x3F) = [p0, p1, p2]"
  unfolding b64_ungroup_def list.inject by (intro conjI refl; rule u8_eqI; simp add: u8_bits)

lemma b64_last_byte: "push_bit 2 (drop_bit 2 p) OR drop_bit 4 (push_bit 4 (p AND 0x03)) = p" for p :: u8
  by (rule u8_eqI; simp add: u8_bits)

text \<open>No character of the alphabet ends a C string.\<close>

lemma b64_char_not_NUL:
  assumes "w < 64"
  shows "b64_char w \<noteq> CHR 0x00"
proof -
  have "b64_char w \<in> set aszBase64"
    using assms aszBase64_props by (simp add: b64_char_def word_less_nat_alt)
  moreover have "CHR 0x00 \<notin> set aszBase64" by (simp add: aszBase64_def)
  ultimately show ?thesis by metis
qed

lemma b64_group_not_NUL: "CHR 0x00 \<notin> set (b64_group p0 p1 p2)"
proof -
  have "set (b64_group p0 p1 p2) \<subseteq> b64_char ` {w. w < 64}"
    unfolding b64_group_def list.set insert_subset
    by (intro conjI imageI CollectI empty_subsetI sextets)
  then show ?thesis using b64_char_not_NUL by fastforce
qed

text \<open>
  Both decoders read at most \<open>n\<close> characters, stop at the terminating NUL, and leave zeros in
  the rest of their buffer of \<open>n + 1\<close> bytes.
\<close>

definition read_id :: "nat \<Rightarrow> string \<Rightarrow> u8 list" where
  "read_id n s = (let cs = map Base64 (take n (takeWhile (\<lambda>c. c \<noteq> CHR 0x00) s))
                  in cs @ replicate (n + 1 - length cs) 0)"

lemma read_id_whole:
  assumes "length s = n" "set s \<subseteq> - {CHR 0x00}"
  shows "read_id n s = map Base64 s @ [0]"
proof -
  have "takeWhile (\<lambda>c. c \<noteq> CHR 0x00) s = s" using assms(2) by (auto simp: takeWhile_eq_all_conv)
  then show ?thesis unfolding read_id_def Let_def
    by (simp only: assms(1) [symmetric] take_all order_refl length_map) simp
qed

text \<open>A sextet is written by the table and read by \<open>Base64\<close>; the table is onto its alphabet.\<close>

interpretation sextet: numbering b64_char Base64 "\<lambda>w. w < 64" "\<lambda>c. c \<in> set aszBase64"
proof unfold_locales
  fix c assume c: "c \<in> set aszBase64"
  then obtain n where n: "n < 64" "c = aszBase64 ! n"
    using aszBase64_props by (metis in_set_conv_nth)
  with Base64_table have b: "Base64 c = of_nat n" by simp
  with n show "Base64 c < 64" "b64_char (Base64 c) = c"
    by (auto simp: word_less_nat_alt unat_of_nat b64_char_def)
next
  show "b64_char w \<in> set aszBase64" if "w < 64" for w
    using that aszBase64_props by (simp add: b64_char_def word_less_nat_alt)
qed simp

end
