(* ===== verification/Match_ID.thy ===== *)
theory Match_ID
  imports Match_Types Base64
begin

text \<open>
  Match identifiers (matchid.c): the state of a match packed into 67 bits of a 9-byte key,
  written in base 64 and read back.  \<open>kbit\<close> is the abstract view: bit \<open>m\<close> of the key.
\<close>

section \<open>Bit fields\<close>

definition SetBit :: "nat \<Rightarrow> int \<Rightarrow> nat \<Rightarrow> u8 list \<Rightarrow> u8 list" where
  "SetBit bitPos test iBit pc =
     (let k = bitPos div 8;
          rbit = push_bit (bitPos mod 8) 1;
          c = if test AND push_bit iBit 1 \<noteq> 0 then rbit else 0
      in pc[k := (pc ! k AND (0xFF XOR rbit)) OR c])"

definition SetBits :: "nat \<Rightarrow> nat \<Rightarrow> int \<Rightarrow> u8 list \<Rightarrow> u8 list" where
  "SetBits bitPos nBits iContent pc =
     fold (\<lambda>i. SetBit (bitPos + i) iContent i) [0..<nBits] pc"

definition GetBits :: "u8 list \<Rightarrow> nat \<Rightarrow> nat \<Rightarrow> int" where
  "GetBits pc bitPos nBits =
     (let c = fold (\<lambda>i. let j = bitPos + i in SetBit i (uint (pc ! (j div 8))) (j mod 8))
                [0..<nBits] [0, 0]
      in uint (c ! 0) OR push_bit 8 (uint (c ! 1)))"

definition kbit :: "u8 list \<Rightarrow> nat \<Rightarrow> bool" where
  "kbit pc m = bit (pc ! (m div 8)) (m mod 8)"

lemma length_SetBit [simp]: "length (SetBit p v i pc) = length pc"
  by (simp add: SetBit_def Let_def)

lemma length_SetBits [simp]: "length (SetBits p n v pc) = length pc"
  unfolding SetBits_def by (induction n) simp_all

lemma bit_0xFF: "bit (0xFF :: u8) n \<longleftrightarrow> n < 8"
proof -
  have "(0xFF :: u8) = mask 8" by (simp add: mask_numeral)
  then show ?thesis by (simp only: bit_mask_iff) simp
qed

lemma kbit_SetBit:
  assumes "p < 8 * length pc"
  shows "kbit (SetBit p v i pc) m = (if m = p then bit v i else kbit pc m)"
proof -
  have k: "p div 8 < length pc" using assms by auto
  have v: "(v AND push_bit i 1 \<noteq> 0) = bit v i"
    by (simp add: bit_iff_and_push_bit_not_eq_0)
  show ?thesis
  proof (cases "m div 8 = p div 8")
    case True
    then have "m = p \<longleftrightarrow> m mod 8 = p mod 8" by (metis div_mult_mod_eq)
    moreover have "bit (0xFF :: u8) (m mod 8)" "bit (0xFF :: u8) (p mod 8)"
      by (simp_all only: bit_0xFF)
    ultimately show ?thesis using True k
      unfolding kbit_def SetBit_def Let_def v
      by (auto simp: bit_and_iff bit_or_iff bit_xor_iff bit_exp_iff)
  next
    case False
    then show ?thesis by (auto simp: kbit_def SetBit_def Let_def)
  qed
qed

lemma kbit_SetBits:
  "p + n \<le> 8 * length pc \<Longrightarrow>
   kbit (SetBits p n v pc) m = (if p \<le> m \<and> m < p + n then bit v (m - p) else kbit pc m)"
proof (induction n)
  case 0
  then show ?case by (auto simp: SetBits_def)
next
  case (Suc n)
  have "SetBits p (Suc n) v pc = SetBit (p + n) v n (SetBits p n v pc)"
    by (simp add: SetBits_def)
  with Suc show ?case by (auto simp: kbit_SetBit)
qed

text \<open>Reading a field of at most 16 bits.\<close>

lemma GetBits_bits:
  assumes n: "n \<le> 16"
  shows "bit (GetBits pc p n) i \<longleftrightarrow> i < n \<and> kbit pc (p + i)"
proof -
  let ?f = "\<lambda>i. SetBit i (uint (pc ! ((p + i) div 8))) ((p + i) mod 8)"
  let ?c = "\<lambda>m. fold ?f [0..<m] [0, 0]"
  have c: "m \<le> 16 \<Longrightarrow> length (?c m) = 2 \<and> (\<forall>i. i < 16 \<longrightarrow> kbit (?c m) i = (i < m \<and> kbit pc (p + i)))" for m
  proof (induction m)
    case 0
    show ?case by (auto simp: kbit_def nth_Cons')
  next
    case (Suc m)
    have "bit (uint (pc ! ((p + m) div 8))) ((p + m) mod 8) = kbit pc (p + m)"
      by (simp add: kbit_def bit_uint_iff)
    with Suc show ?case by (auto simp: kbit_SetBit less_Suc_eq)
  qed
  have l: "length (?c n) = 2" and k: "i < 16 \<Longrightarrow> kbit (?c n) i = (i < n \<and> kbit pc (p + i))" for i
    using c [OF n] by auto
  have "bit (GetBits pc p n) i = (if i < 8 then bit (?c n ! 0) i else bit (?c n ! 1) (i - 8))"
    by (auto simp: GetBits_def Let_def bit_or_iff bit_push_bit_iff bit_uint_iff not_less dest: bit_imp_le_length)
  also have "\<dots> = (i < 16 \<and> kbit (?c n) i)"
  proof (cases "i < 16")
    case True
    then have "\<not> i < 8 \<Longrightarrow> i div 8 = 1 \<and> i mod 8 = i - 8"
      by (auto simp: div_nat_eqI mod_if)
    with True show ?thesis by (auto simp: kbit_def)
  next
    case False
    then show ?thesis by (auto simp: impossible_bit)
  qed
  finally show ?thesis using k [of i] n by auto
qed

lemma GetBits_eq:
  assumes "n \<le> 16" "\<And>i. i < n \<Longrightarrow> kbit pc (p + i) = bit v i"
  shows "GetBits pc p n = take_bit n v"
  by (rule bit_eqI) (use assms in \<open>auto simp: GetBits_bits bit_take_bit_iff\<close>)

lemma GetBits_range: "n \<le> 16 \<Longrightarrow> 0 \<le> GetBits pc p n \<and> GetBits pc p n < 2 ^ n"
proof -
  assume "n \<le> 16"
  then have "GetBits pc p n = take_bit n (GetBits pc p n)"
    by (intro bit_eqI) (auto simp: GetBits_bits bit_take_bit_iff)
  then show ?thesis by (metis take_bit_nonnegative take_bit_int_less_exp)
qed

section \<open>Writing an identifier\<close>

text \<open>\<open>LogCube\<close>: a negative \<open>n\<close> never becomes 0 (an arithmetic shift), which is \<open>None\<close>.\<close>

partial_function (option) log_loop :: "int \<Rightarrow> int \<Rightarrow> int option" where
  "log_loop n i = (let n = drop_bit 1 n in if n \<noteq> 0 then log_loop n (i + 1) else Some i)"

definition LogCube :: "int \<Rightarrow> int option" where
  "LogCube n = log_loop n 0"

definition MatchIDFromKey :: "u8 list \<Rightarrow> string" where
  "MatchIDFromKey k =
     b64_group (k ! 0) (k ! 1) (k ! 2) @ b64_group (k ! 3) (k ! 4) (k ! 5)
     @ b64_group (k ! 6) (k ! 7) (k ! 8)"

text \<open>The twelve arguments of \<open>MatchID\<close>; the game state travels as its integer.\<close>

record match_info =
  m_anDice :: "int \<times> int"
  m_fTurn :: int
  m_fResigned :: int
  m_fDoubled :: int
  m_fMove :: int
  m_fCubeOwner :: int
  m_fCrawford :: int
  m_nMatchTo :: int
  m_anScore :: "int \<times> int"
  m_nCube :: int
  m_fJacoby :: int
  m_gs :: int

definition match_key :: "int \<Rightarrow> match_info \<Rightarrow> u8 list" where
  "match_key logcube m =
     (let auchKey = replicate 9 0;
          auchKey = SetBits 0 4 logcube auchKey;
          auchKey = SetBits 4 2 (m_fCubeOwner m AND 0x3) auchKey;
          auchKey = SetBits 6 1 (m_fMove m) auchKey;
          auchKey = SetBits 7 1 (m_fCrawford m) auchKey;
          auchKey = SetBits 8 3 (m_gs m) auchKey;
          auchKey = SetBits 11 1 (m_fTurn m) auchKey;
          auchKey = SetBits 12 1 (m_fDoubled m) auchKey;
          auchKey = SetBits 13 2 (m_fResigned m) auchKey;
          (d0, d1) = m_anDice m;
          auchKey =
            (if d0 \<ge> d1 then SetBits 18 3 (d1 AND 0x7) (SetBits 15 3 (d0 AND 0x7) auchKey)
             else SetBits 18 3 (d0 AND 0x7) (SetBits 15 3 (d1 AND 0x7) auchKey));
          auchKey = SetBits 21 15 (m_nMatchTo m AND 0x7FFF) auchKey;
          auchKey = SetBits 36 15 (fst (m_anScore m) AND 0x7FFF) auchKey;
          auchKey = SetBits 51 15 (snd (m_anScore m) AND 0x7FFF) auchKey
      in SetBits 66 1 (if m_fJacoby m = 0 then 1 else 0) auchKey)"

definition MatchID :: "match_info \<Rightarrow> string option" where
  "MatchID m = map_option (\<lambda>l. MatchIDFromKey (match_key l m)) (LogCube (m_nCube m))"

definition MatchIDFromMatchState :: "matchstate \<Rightarrow> string option" where
  "MatchIDFromMatchState pms =
     MatchID \<lparr>m_anDice = (uint (fst (anDice pms)), uint (snd (anDice pms))), m_fTurn = fTurn pms,
       m_fResigned = fResigned pms, m_fDoubled = fDoubled pms, m_fMove = fMove pms,
       m_fCubeOwner = fCubeOwner pms, m_fCrawford = fCrawford pms, m_nMatchTo = nMatchTo pms,
       m_anScore = anScore pms, m_nCube = nCube pms, m_fJacoby = fJacoby pms,
       m_gs = gs_int (gs pms)\<rparr>"

section \<open>Reading an identifier\<close>

definition match_of_key :: "u8 list \<Rightarrow> match_info" where
  "match_of_key k =
     \<lparr>m_anDice = (GetBits k 15 3, GetBits k 18 3),
      m_fTurn = GetBits k 11 1,
      m_fResigned = GetBits k 13 2,
      m_fDoubled = GetBits k 12 1,
      m_fMove = GetBits k 6 1,
      m_fCubeOwner = (let o' = GetBits k 4 2 in if o' \<noteq> 0 \<and> o' \<noteq> 1 then - 1 else o'),
      m_fCrawford = GetBits k 7 1,
      m_nMatchTo = GetBits k 21 15,
      m_anScore = (GetBits k 36 15, GetBits k 51 15),
      m_nCube = push_bit (nat (GetBits k 0 4)) 1,
      m_fJacoby = (if GetBits k 66 1 = 0 then 1 else 0),
      m_gs = GetBits k 8 3\<rparr>"

text \<open>The checks of \<open>MatchFromKey\<close>, and its return code.\<close>

definition match_check :: "match_info \<Rightarrow> int" where
  "match_check m =
     (if fst (m_anDice m) < 0 \<or> fst (m_anDice m) > 6 then - 1
      else if snd (m_anDice m) < 0 \<or> snd (m_anDice m) > 6 then - 1
      else if m_nMatchTo m < 0 \<or> m_nMatchTo m > MAXSCORE then - 1
      else if m_nMatchTo m \<noteq> 0 then
        (if fst (m_anScore m) < 0 \<or> fst (m_anScore m) > m_nMatchTo m then - 1
         else if snd (m_anScore m) < 0 \<or> snd (m_anScore m) > m_nMatchTo m then - 1
         else 0)
      else (if m_fCrawford m \<noteq> 0 then - 1 else 0))"

definition MatchFromKey :: "u8 list \<Rightarrow> match_info \<times> int" where
  "MatchFromKey k = (match_of_key k, match_check (match_of_key k))"

definition L_MATCHID :: nat where "L_MATCHID = 12"

definition match_id_key :: "string \<Rightarrow> u8 list" where
  "match_id_key s =
     (let c = read_id L_MATCHID s
      in b64_ungroup (c ! 0) (c ! 1) (c ! 2) (c ! 3) @ b64_ungroup (c ! 4) (c ! 5) (c ! 6) (c ! 7)
         @ b64_ungroup (c ! 8) (c ! 9) (c ! 10) (c ! 11))"

definition MatchFromID :: "string \<Rightarrow> match_info \<times> int" where
  "MatchFromID s = MatchFromKey (match_id_key s)"

section \<open>Round trip\<close>

lemma log_loop_pow: "log_loop (2 ^ k) i = Some (i + int k)"
proof (induction k arbitrary: i)
  case 0
  show ?case by (subst log_loop.simps) (simp add: drop_bit_eq_div)
next
  case (Suc k)
  have "drop_bit 1 (2 ^ Suc k :: int) = 2 ^ k" by (simp add: drop_bit_eq_div)
  with Suc show ?case by (subst log_loop.simps) (simp add: Let_def)
qed

lemma LogCube_pow [simp]: "LogCube (2 ^ k) = Some (int k)"
  by (simp add: LogCube_def log_loop_pow)

text \<open>\<open>LogCube\<close> returns on every nonnegative value, with its integer logarithm.\<close>

lemma log_loop_returns: "0 \<le> n \<Longrightarrow> \<exists>r. log_loop n i = Some (i + int r) \<and> n < 2 ^ (r + 1) \<and> (n = 0 \<or> 2 ^ r \<le> n)"
proof (induction "nat n" arbitrary: n i rule: less_induct)
  case less
  have d: "drop_bit (Suc 0) n = n div 2" by (simp add: drop_bit_eq_div)
  show ?case
  proof (cases "n div 2 = 0")
    case True
    with less.prems show ?thesis by (subst log_loop.simps) (auto simp: d Let_def intro!: exI [of _ 0])
  next
    case False
    with less.prems have "nat (n div 2) < nat n" "0 \<le> n div 2" by auto
    from less.hyps [OF this, of "i + 1"] obtain r where
      r: "log_loop (n div 2) (i + 1) = Some (i + 1 + int r)" "n div 2 < 2 ^ (r + 1)" "2 ^ r \<le> n div 2"
      using False by auto
    then show ?thesis using False
      by (subst log_loop.simps) (auto simp: d Let_def intro!: exI [of _ "Suc r"])
  qed
qed

lemma LogCube_spec: "0 < n \<Longrightarrow> \<exists>r. LogCube n = Some (int r) \<and> 2 ^ r \<le> n \<and> n < 2 ^ (r + 1)"
  using log_loop_returns [of n 0] by (auto simp: LogCube_def)

lemma length_match_key [simp]: "length (match_key l m) = 9"
  by (simp add: match_key_def Let_def split: prod.split)

lemma match_id_key_MatchIDFromKey:
  assumes "length k = 9"
  shows "match_id_key (MatchIDFromKey k) = k"
proof -
  have n0: "set (MatchIDFromKey k) \<subseteq> - {CHR 0x00}"
    using b64_group_not_NUL by (auto simp: MatchIDFromKey_def)
  have c: "read_id 12 (MatchIDFromKey k) = map Base64 (MatchIDFromKey k) @ [0]"
    by (rule read_id_whole) (simp_all only: n0, simp add: MatchIDFromKey_def)
  have "[0..<9] = [0, 1, 2, 3, 4, 5, 6, 7, 8]" by (simp add: upt_conv_Cons eval_nat_numeral)
  then have k: "k = [k ! 0, k ! 1, k ! 2, k ! 3, k ! 4, k ! 5, k ! 6, k ! 7, k ! 8]"
    using assms map_nth [of k] by simp
  have id: "(let c = [c0, c1, c2, c3, c4, c5, c6, c7, c8, c9, c10, c11, z]
      in b64_ungroup (c ! 0) (c ! 1) (c ! 2) (c ! 3) @ b64_ungroup (c ! 4) (c ! 5) (c ! 6) (c ! 7)
         @ b64_ungroup (c ! 8) (c ! 9) (c ! 10) (c ! 11)) =
      b64_ungroup c0 c1 c2 c3 @ b64_ungroup c4 c5 c6 c7 @ b64_ungroup c8 c9 c10 c11"
    for c0 c1 c2 c3 c4 c5 c6 c7 c8 c9 c10 c11 z by (simp add: Let_def)
  have "match_id_key (MatchIDFromKey k)
      = [k ! 0, k ! 1, k ! 2, k ! 3, k ! 4, k ! 5, k ! 6, k ! 7, k ! 8]"
    unfolding match_id_key_def L_MATCHID_def c
    unfolding MatchIDFromKey_def map_append b64_read list.map
    by (simp only: append_Cons append_Nil id b64_ungroup_sextets)
  with k show ?thesis by simp
qed

text \<open>The states an identifier can carry.\<close>

definition flag :: "int \<Rightarrow> bool" where "flag x \<longleftrightarrow> x = 0 \<or> x = 1"

definition match_valid :: "match_info \<Rightarrow> bool" where
  "match_valid m \<longleftrightarrow>
     (let (d0, d1) = m_anDice m; (s0, s1) = m_anScore m; n = m_nMatchTo m
      in 0 \<le> d1 \<and> d1 \<le> d0 \<and> d0 \<le> 6 \<and> flag (m_fTurn m) \<and> 0 \<le> m_fResigned m \<and> m_fResigned m < 4
         \<and> flag (m_fDoubled m) \<and> flag (m_fMove m) \<and> - 1 \<le> m_fCubeOwner m \<and> m_fCubeOwner m \<le> 1
         \<and> flag (m_fCrawford m) \<and> 0 \<le> n \<and> n \<le> MAXSCORE
         \<and> 0 \<le> s0 \<and> 0 \<le> s1 \<and> s0 < 2 ^ 15 \<and> s1 < 2 ^ 15
         \<and> (n \<noteq> 0 \<longrightarrow> s0 \<le> n \<and> s1 \<le> n) \<and> (n = 0 \<longrightarrow> m_fCrawford m = 0)
         \<and> (\<exists>k<16. m_nCube m = 2 ^ k) \<and> flag (m_fJacoby m) \<and> 0 \<le> m_gs m \<and> m_gs m < 8)"

lemma take_bit_small: "0 \<le> v \<Longrightarrow> v < 2 ^ n \<Longrightarrow> take_bit n v = v" for v :: int
  by (rule take_bit_int_eq_self)

lemma field_mask: "v AND 3 = take_bit 2 v" "v AND 7 = take_bit 3 v" "v AND 32767 = take_bit 15 v"
  for v :: int
  by (simp_all add: take_bit_eq_mask mask_numeral)

lemma match_fields:
  fixes l m
  defines "k \<equiv> match_key l m"
  shows "GetBits k 0 4 = take_bit 4 l" "GetBits k 4 2 = take_bit 2 (m_fCubeOwner m)"
    "GetBits k 6 1 = take_bit 1 (m_fMove m)" "GetBits k 7 1 = take_bit 1 (m_fCrawford m)"
    "GetBits k 8 3 = take_bit 3 (m_gs m)" "GetBits k 11 1 = take_bit 1 (m_fTurn m)"
    "GetBits k 12 1 = take_bit 1 (m_fDoubled m)" "GetBits k 13 2 = take_bit 2 (m_fResigned m)"
    "GetBits k 15 3 = take_bit 3 (max (fst (m_anDice m)) (snd (m_anDice m)))"
    "GetBits k 18 3 = take_bit 3 (min (fst (m_anDice m)) (snd (m_anDice m)))"
    "GetBits k 21 15 = take_bit 15 (m_nMatchTo m)"
    "GetBits k 36 15 = take_bit 15 (fst (m_anScore m))"
    "GetBits k 51 15 = take_bit 15 (snd (m_anScore m))"
    "GetBits k 66 1 = take_bit 1 (if m_fJacoby m = 0 then 1 else 0)"
  by (rule GetBits_eq;
      auto simp: k_def match_key_def Let_def split_beta field_mask kbit_SetBits bit_take_bit_iff
        max_def min_def)+

lemma take_bit_flag: "flag v \<Longrightarrow> take_bit 1 v = v" for v :: int
  by (auto simp: flag_def)

lemma log_cube_field: "k < 16 \<Longrightarrow> nat (take_bit 4 (int k)) = k"
  by (simp add: take_bit_int_eq_self)

lemma cube_owner_field:
  "- 1 \<le> v \<Longrightarrow> v \<le> 1 \<Longrightarrow>
   (let o' = take_bit 2 v in if o' \<noteq> 0 \<and> o' \<noteq> 1 then - 1 else o') = v" for v :: int
proof -
  assume "- 1 \<le> v" "v \<le> 1"
  then have "v = - 1 \<or> v = 0 \<or> v = 1" by auto
  then show ?thesis by (auto simp: Let_def take_bit_minus_one_eq_mask mask_numeral)
qed

lemma match_of_match_key:
  assumes "match_valid m" "m_nCube m = 2 ^ k" "k < 16"
  shows "match_of_key (match_key (int k) m) = m"
proof -
  obtain d0 d1 s0 s1 where d: "m_anDice m = (d0, d1)" "m_anScore m = (s0, s1)"
    by (metis surj_pair)
  note v = assms(1) [unfolded match_valid_def d MAXSCORE_def Let_def split_conv]
  have s: "take_bit 15 s0 = s0" "take_bit 15 s1 = s1" "take_bit 15 (m_nMatchTo m) = m_nMatchTo m"
    "take_bit 3 d0 = d0" "take_bit 3 d1 = d1" "take_bit 3 (m_gs m) = m_gs m"
    "take_bit 2 (m_fResigned m) = m_fResigned m"
    using v by (auto intro!: take_bit_small)
  have dd: "max d0 d1 = d0" "min d0 d1 = d1" using v by auto
  have f: "take_bit 1 (m_fTurn m) = m_fTurn m" "take_bit 1 (m_fDoubled m) = m_fDoubled m"
    "take_bit 1 (m_fMove m) = m_fMove m" "take_bit 1 (m_fCrawford m) = m_fCrawford m"
    using v by (simp_all only: take_bit_flag)
  have j: "(if take_bit 1 (if m_fJacoby m = 0 then 1 else 0 :: int) = 0 then 1 else 0) = m_fJacoby m"
    using v by (auto simp: flag_def)
  have u: "() = match_info.more m" by simp
  show ?thesis
    using assms(2,3) cube_owner_field [of "m_fCubeOwner m"] v
    by (intro match_info.equality)
      (simp_all only: match_of_key_def match_fields match_info.select_convs d fst_conv snd_conv s dd f j u
        log_cube_field push_bit_eq_mult mult_1 split: if_splits)
qed

text \<open>The check accepts exactly the decoded states that are consistent.\<close>

lemma match_check_iff:
  "match_check m = 0 \<longleftrightarrow>
     0 \<le> fst (m_anDice m) \<and> fst (m_anDice m) \<le> 6 \<and> 0 \<le> snd (m_anDice m) \<and> snd (m_anDice m) \<le> 6
     \<and> 0 \<le> m_nMatchTo m \<and> m_nMatchTo m \<le> 64
     \<and> (if m_nMatchTo m = 0 then m_fCrawford m = 0
        else 0 \<le> fst (m_anScore m) \<and> fst (m_anScore m) \<le> m_nMatchTo m
          \<and> 0 \<le> snd (m_anScore m) \<and> snd (m_anScore m) \<le> m_nMatchTo m)"
  by (auto simp: match_check_def MAXSCORE_def)

theorem MatchFromID_MatchID:
  assumes "match_valid m"
  shows "\<exists>s. MatchID m = Some s \<and> length s = 12 \<and> MatchFromID s = (m, 0)"
proof -
  from assms obtain k where k: "k < 16" "m_nCube m = 2 ^ k"
    by (auto simp: match_valid_def Let_def split: prod.splits)
  let ?s = "MatchIDFromKey (match_key (int k) m)"
  have "MatchID m = Some ?s" by (simp add: MatchID_def k)
  moreover have "length ?s = 12" by (simp add: MatchIDFromKey_def)
  moreover have "match_check m = 0"
    using assms by (auto simp: match_check_iff match_valid_def MAXSCORE_def Let_def split: prod.splits)
  ultimately show ?thesis
    using match_of_match_key [OF assms k(2,1)]
    by (simp add: MatchFromID_def MatchFromKey_def match_id_key_MatchIDFromKey)
qed

interpretation matchid: codec "\<lambda>m. the (MatchID m)" "\<lambda>s. fst (MatchFromID s)" match_valid
  by unfold_locales (use MatchFromID_MatchID in fastforce)

text \<open>Whatever string is typed, an accepted identifier has dice, length and scores in range.\<close>


section \<open>Match identifiers are match states\<close>

text \<open>C24: The identifier of a valid match state has twelve characters, decodes to that state without an
  error, and different states have different identifiers.\<close>

theorem MatchID_roundtrip:
  assumes "match_valid m" "match_valid m'"
  shows "(\<exists>s. MatchID m = Some s \<and> length s = 12 \<and> MatchFromID s = (m, 0)) \<and>
    (MatchID m = MatchID m' \<longleftrightarrow> m = m')"
  using MatchFromID_MatchID [OF assms(1)] matchid.enc_eq_iff [OF assms] by metis

definition match3 :: match_info where
  "match3 = \<lparr>m_anDice = (6, 1), m_fTurn = 1, m_fResigned = 0, m_fDoubled = 0, m_fMove = 1, m_fCubeOwner = 0,
     m_fCrawford = 0, m_nMatchTo = 9, m_anScore = (2, 4), m_nCube = 2, m_fJacoby = 0, m_gs = 1\<rparr>"

theorem MatchID_roundtrip_witness: "MatchID match3 \<noteq> MatchID (match3\<lparr>m_nCube := 4\<rparr>)"
proof -
  have "match_valid match3" "match_valid (match3\<lparr>m_nCube := 4\<rparr>)"
    by (simp_all add: match_valid_def match3_def flag_def MAXSCORE_def) (rule exI [of _ 1], simp, rule exI [of _ 2], simp)
  from MatchID_roundtrip [OF this] show ?thesis by (simp add: match3_def)
qed


end
