(* ===== verification/Eval_Outputs.thy ===== *)
theory Eval_Outputs
  imports Eval_Types Bearoff_Index Match_ID
begin

text \<open>
  Evaluation outputs (eval.c): the equity of an output vector (\<open>Utility\<close>, \<open>UtilityME\<close>), the
  corrections \<open>SanityCheck\<close> and \<open>EvalRaceBG\<close> apply to it, and the key under which an evaluation
  is cached (\<open>EvalKey\<close>).
\<close>

section \<open>Utility\<close>

definition Utility :: "real list \<Rightarrow> cubeinfo \<Rightarrow> real" where
  "Utility ar pci =
     (if ci_nMatchTo pci = 0 then
        ar ! OUTPUT_WIN * 2 - 1
        + (ar ! OUTPUT_WINGAMMON - ar ! OUTPUT_LOSEGAMMON) * ci_arGammonPrice pci ! 0
        + (ar ! OUTPUT_WINBACKGAMMON - ar ! OUTPUT_LOSEBACKGAMMON) * ci_arGammonPrice pci ! 1
      else
        ar ! OUTPUT_WIN * 2 - 1
        + ar ! OUTPUT_WINGAMMON * ci_arGammonPrice pci ! nat (ci_fMove pci)
        - ar ! OUTPUT_LOSEGAMMON * ci_arGammonPrice pci ! nat (cnot (ci_fMove pci))
        + ar ! OUTPUT_WINBACKGAMMON * ci_arGammonPrice pci ! nat (2 + ci_fMove pci)
        - ar ! OUTPUT_LOSEBACKGAMMON * ci_arGammonPrice pci ! nat (2 + cnot (ci_fMove pci)))"

definition UtilityME :: "real list \<Rightarrow> cubeinfo \<Rightarrow> real" where
  "UtilityME ar pci =
     (if ci_nMatchTo pci = 0 then
        ar ! OUTPUT_WIN * 2 - 1 + (ar ! OUTPUT_WINGAMMON - ar ! OUTPUT_LOSEGAMMON)
        + (ar ! OUTPUT_WINBACKGAMMON - ar ! OUTPUT_LOSEBACKGAMMON)
      else Utility ar pci)"

section \<open>SanityCheck\<close>

text \<open>One quarter of the board: the last occupied point so far, and the chequers in it.\<close>

definition quarter :: "side \<Rightarrow> nat \<Rightarrow> nat \<Rightarrow> int \<Rightarrow> int \<times> int" where
  "quarter s lo hi anBack =
     fold (\<lambda>i (anBack, nciq). if s ! i \<noteq> 0 then (int i, nciq + uint (s ! i)) else (anBack, nciq))
       [lo..<hi] (anBack, 0)"

record side_counts =
  sc_ac :: int
  sc_anBack :: int
  sc_anCross :: int
  sc_anGammonCross :: int

definition count_side :: "side \<Rightarrow> side_counts" where
  "count_side s =
     (let (back0, n0) = quarter s 0 6 0;
          (back1, n1) = quarter s 6 12 back0;
          (back2, n2) = quarter s 12 18 back1;
          (back3, n3) = quarter s 18 24 back2;
          c = \<lparr>sc_ac = n0 + n1 + n2 + n3, sc_anBack = back3,
               sc_anCross = n0 + 2 * n1 + 3 * n2 + 4 * n3,
               sc_anGammonCross = 1 + n1 + 2 * n2 + 3 * n3\<rparr>
      in if s ! 24 \<noteq> 0 then
           c\<lparr>sc_anBack := 24, sc_ac := sc_ac c + uint (s ! 24),
             sc_anCross := sc_anCross c + 5 * uint (s ! 24),
             sc_anGammonCross := sc_anGammonCross c + 4 * uint (s ! 24)\<rparr>
         else c)"

text \<open>
  \<open>MaxTurns\<close> reads the distribution of a record of the database, which is a file; \<open>probs\<close> is what
  \<open>BearoffDist\<close> returns for an index.
\<close>

definition MaxTurns :: "(u32 \<Rightarrow> u16 list) \<Rightarrow> u32 \<Rightarrow> int" where
  "MaxTurns probs i =
     (case find (\<lambda>k. probs i ! k \<noteq> 0) (rev [0..<32]) of Some k \<Rightarrow> int k | None \<Rightarrow> - 1)"

text \<open>The size of the one-sided database, when there is one, and its distributions.\<close>

type_synonym one_sided = "(nat \<times> nat \<times> (u32 \<Rightarrow> u16 list)) option"

definition max_turns :: "one_sided \<Rightarrow> side \<Rightarrow> side_counts \<Rightarrow> int option" where
  "max_turns pbc1 s c =
     (case pbc1 of
        Some (nPoints, nChequers, probs) \<Rightarrow>
          if sc_anBack c < 6 then map_option (MaxTurns probs) (PositionBearoff s nPoints nChequers)
          else Some (sc_anCross c * 2)
      | None \<Rightarrow> Some (sc_anCross c * 2))"

text \<open>The impossible and the certain results, for counts of both sides and their turns.\<close>

definition limit_outputs ::
  "side_counts \<Rightarrow> side_counts \<Rightarrow> bool \<Rightarrow> int \<Rightarrow> int \<Rightarrow> real list \<Rightarrow> real list" where
  "limit_outputs c0 c1 fContact turns0 turns1 ar =
     (let ar = (if \<not> fContact \<and> sc_anCross c0 > 4 * (turns1 - 1) then ar[OUTPUT_WIN := 1] else ar);
          ar = (if sc_ac c0 < 15 then ar[OUTPUT_WINBACKGAMMON := 0, OUTPUT_WINGAMMON := 0]
                else if \<not> fContact then
                  let ar = (if sc_anCross c1 > 8 * sc_anGammonCross c0 then ar[OUTPUT_WINGAMMON := 0]
                            else if sc_anGammonCross c0 > 4 * (turns1 - 1) then ar[OUTPUT_WINGAMMON := 1]
                            else ar)
                  in if sc_anBack c0 < 18 then ar[OUTPUT_WINBACKGAMMON := 0] else ar
                else ar);
          ar = (if \<not> fContact \<and> sc_anCross c1 > 4 * turns0 then ar[OUTPUT_WIN := 0] else ar)
      in if sc_ac c1 < 15 then ar[OUTPUT_LOSEBACKGAMMON := 0, OUTPUT_LOSEGAMMON := 0]
         else if \<not> fContact then
           let ar = (if sc_anCross c0 > 8 * sc_anGammonCross c1 - 4 then ar[OUTPUT_LOSEGAMMON := 0]
                     else if sc_anGammonCross c1 > 4 * turns0 then ar[OUTPUT_LOSEGAMMON := 1]
                     else ar)
           in if sc_anBack c1 < 18 then ar[OUTPUT_LOSEBACKGAMMON := 0] else ar
         else ar)"

text \<open>The final part: gammons within wins, backgammons within gammons, and no noise.\<close>

definition order_outputs :: "bool \<Rightarrow> real list \<Rightarrow> real list" where
  "order_outputs fContact ar =
     (let ar = (if ar ! OUTPUT_WINGAMMON > ar ! OUTPUT_WIN then ar[OUTPUT_WINGAMMON := ar ! OUTPUT_WIN] else ar);
          lose = 1 - ar ! OUTPUT_WIN;
          ar = (if ar ! OUTPUT_LOSEGAMMON > lose then ar[OUTPUT_LOSEGAMMON := lose] else ar);
          ar = (if ar ! OUTPUT_WINBACKGAMMON > ar ! OUTPUT_WINGAMMON
                then ar[OUTPUT_WINBACKGAMMON := ar ! OUTPUT_WINGAMMON] else ar);
          ar = (if ar ! OUTPUT_LOSEBACKGAMMON > ar ! OUTPUT_LOSEGAMMON
                then ar[OUTPUT_LOSEBACKGAMMON := ar ! OUTPUT_LOSEGAMMON] else ar)
      in if fContact then
           fold (\<lambda>i ar. if ar ! i < 1 / 10000 then ar[i := 0] else ar) [OUTPUT_WINGAMMON..<5] ar
         else ar)"

definition SanityCheck :: "one_sided \<Rightarrow> TanBoard \<Rightarrow> real list \<Rightarrow> real list option" where
  "SanityCheck pbc1 b ar =
     (let ar = (if ar ! OUTPUT_WIN < 0 then ar[OUTPUT_WIN := 0]
                else if ar ! OUTPUT_WIN > 1 then ar[OUTPUT_WIN := 1] else ar);
          c0 = count_side (fst b); c1 = count_side (snd b);
          fContact = (sc_anBack c0 + sc_anBack c1 \<ge> 24)
      in if fContact then Some (order_outputs True (limit_outputs c0 c1 True 0 0 ar))
         else
           case max_turns pbc1 (fst b) c0 of None \<Rightarrow> None
           | Some turns0 \<Rightarrow>
             case max_turns pbc1 (snd b) c1 of None \<Rightarrow> None
             | Some turns1 \<Rightarrow>
               let turns1 = (if turns1 = 0 then 1 else turns1)
               in Some (order_outputs False (limit_outputs c0 c1 False turns0 turns1 ar)))"

section \<open>What SanityCheck establishes\<close>

definition consistent_outputs :: "real list \<Rightarrow> bool" where
  "consistent_outputs ar \<longleftrightarrow>
     0 \<le> ar ! OUTPUT_WIN \<and> ar ! OUTPUT_WIN \<le> 1 \<and>
     ar ! OUTPUT_WINGAMMON \<le> ar ! OUTPUT_WIN \<and> ar ! OUTPUT_LOSEGAMMON \<le> 1 - ar ! OUTPUT_WIN \<and>
     ar ! OUTPUT_WINBACKGAMMON \<le> ar ! OUTPUT_WINGAMMON \<and>
     ar ! OUTPUT_LOSEBACKGAMMON \<le> ar ! OUTPUT_LOSEGAMMON"

lemma list_5: "length ar = 5 \<Longrightarrow> \<exists>a b c d e. ar = [a, b, c, d, e]"
  by (auto simp: length_Suc_conv eval_nat_numeral)

lemma order_outputs_list:
  assumes "0 \<le> w" "w \<le> 1"
  shows "\<exists>wg wb lg lb. order_outputs fContact [w, a, b, c, d] = [w, wg, wb, lg, lb] \<and>
    wg \<le> w \<and> lg \<le> 1 - w \<and> wb \<le> wg \<and> lb \<le> lg \<and>
    (0 \<le> a \<and> 0 \<le> b \<and> 0 \<le> c \<and> 0 \<le> d \<longrightarrow> 0 \<le> wg \<and> 0 \<le> wb \<and> 0 \<le> lg \<and> 0 \<le> lb)"
proof -
  define wg where "wg = min a w"
  define lg where "lg = min c (1 - w)"
  define wb where "wb = min b wg"
  define lb where "lb = min d lg"
  have u: "[1..<5] = [1, 2, 3, 4 :: nat]" by (simp add: upt_conv_Cons eval_nat_numeral)
  define z where "z = (\<lambda>x :: real. if x < 1 / 10000 then 0 else x)"
  have "order_outputs False [w, a, b, c, d] = [w, wg, wb, lg, lb]"
    by (auto simp: order_outputs_def outputs Let_def wg_def lg_def wb_def lb_def min_def)
  moreover have "order_outputs True [w, a, b, c, d] = [w, z wg, z wb, z lg, z lb]"
    unfolding order_outputs_def outputs u
    by (auto simp: Let_def wg_def lg_def wb_def lb_def z_def min_def)
  ultimately show ?thesis
    using assms
    by (cases fContact) (auto simp: wg_def lg_def wb_def lb_def z_def min_def)
qed

lemma limit_outputs_list:
  assumes "0 \<le> w" "w \<le> 1"
  shows "\<exists>w' a' b' c' d'. limit_outputs c0 c1 f t0 t1 [w, a, b, c, d] = [w', a', b', c', d'] \<and>
    0 \<le> w' \<and> w' \<le> 1 \<and> (a' = a \<or> 0 \<le> a') \<and> (b' = b \<or> 0 \<le> b') \<and> (c' = c \<or> 0 \<le> c') \<and> (d' = d \<or> 0 \<le> d')"
  using assms by (auto simp: limit_outputs_def outputs Let_def)

lemma SanityCheck_sane:
  assumes "length ar = 5" "SanityCheck pbc1 b ar = Some ar'"
  shows "length ar' = 5 \<and> consistent_outputs ar' \<and> ((\<forall>x\<in>set ar. 0 \<le> x) \<longrightarrow> (\<forall>x\<in>set ar'. 0 \<le> x))"
proof -
  obtain w a b' c d where ar: "ar = [w, a, b', c, d]" using list_5 [OF assms(1)] by blast
  define w' where "w' = (if w < 0 then 0 else if w > 1 then 1 else w)"
  have w': "0 \<le> w'" "w' \<le> 1" by (auto simp: w'_def)
  from assms(2) obtain c0 c1 f t0 t1
    where eq: "ar' = order_outputs f (limit_outputs c0 c1 f t0 t1 [w', a, b', c, d])"
    by (auto simp: SanityCheck_def ar outputs Let_def w'_def split: if_splits option.splits)
  obtain w2 a2 b2 c2 d2 where l: "limit_outputs c0 c1 f t0 t1 [w', a, b', c, d] = [w2, a2, b2, c2, d2]"
    "0 \<le> w2" "w2 \<le> 1" "a2 = a \<or> 0 \<le> a2" "b2 = b' \<or> 0 \<le> b2" "c2 = c \<or> 0 \<le> c2" "d2 = d \<or> 0 \<le> d2"
    using limit_outputs_list [OF w'] by blast
  obtain wg wb lg lb where o': "ar' = [w2, wg, wb, lg, lb]"
    "wg \<le> w2" "lg \<le> 1 - w2" "wb \<le> wg" "lb \<le> lg"
    "0 \<le> a2 \<and> 0 \<le> b2 \<and> 0 \<le> c2 \<and> 0 \<le> d2 \<longrightarrow> 0 \<le> wg \<and> 0 \<le> wb \<and> 0 \<le> lg \<and> 0 \<le> lb"
    using order_outputs_list [OF l(2,3), of f a2 b2 c2 d2] eq l(1) by auto
  show ?thesis using l o' by (auto simp: ar consistent_outputs_def outputs)
qed

text \<open>After the check the outputs are consistent probabilities: gammons are wins, backgammons gammons,
  and outputs that were not negative stay so.\<close>

lemma SanityCheck_consistent:
  assumes "length ar = 5" "SanityCheck pbc1 b ar = Some ar'"
  shows "length ar' = 5 \<and> consistent_outputs ar' \<and> ((\<forall>x\<in>set ar. 0 \<le> x) \<longrightarrow> (\<forall>x\<in>set ar'. 0 \<le> x))"
  by (rule SanityCheck_sane [OF assms])

lemma sum_take_le: "sum_list (map unat (take n s)) \<le> chequers s" for s :: side
proof -
  have "chequers s = sum_list (map unat (take n s)) + sum_list (map unat (drop n s))"
    unfolding chequers_def by (metis append_take_drop_id map_append sum_list_append)
  then show ?thesis by simp
qed

text \<open>With no database, or one that covers 15 chequers, \<open>SanityCheck\<close> returns.\<close>

lemma SanityCheck_total:
  assumes "wf_board b" "chequers (fst b) \<le> 15" "chequers (snd b) \<le> 15"
    and db: "\<And>n c probs. pbc1 = Some (n, c, probs) \<Longrightarrow> bearoff_size n c \<and> 15 \<le> c"
  shows "\<exists>ar'. SanityCheck pbc1 b ar = Some ar'"
proof -
  have "\<exists>t. max_turns pbc1 s k = Some t" if s: "length s = 25" "chequers s \<le> 15" for s k
  proof (cases pbc1)
    case (Some x)
    then obtain n c probs where x: "pbc1 = Some (n, c, probs)" by (metis surj_pair)
    with db have size: "bearoff_size n c" "15 \<le> c" by auto
    then have "bearoff_board n c (take n s)"
      using s sum_take_le [of n s] by (simp add: bearoff_board_def bearoff_size_def)
    from PositionBearoff_ranked [OF size(1) this] show ?thesis
      using s size(1) by (auto simp: x max_turns_def PositionBearoff_take bearoff_size_def)
  qed (simp add: max_turns_def)
  from this [of "fst b"] this [of "snd b"] show ?thesis
    using assms(1-3) by (auto simp: SanityCheck_def Let_def wf_board_def split: option.splits) (metis option.distinct(1))+
qed

section \<open>EvalKey\<close>

text \<open>
  The context key of the evaluation cache; \<open>None\<close> is the loop of \<open>LogCube\<close> on a negative cube.
  The bits follow the comment of the code.
\<close>

definition owner_code :: "cubeinfo \<Rightarrow> int" where
  "owner_code pci =
     (if ci_fCubeOwner pci < 0 then 2 else if ci_fCubeOwner pci = ci_fMove pci then 1 else 0)"

definition EvalKey :: "int \<Rightarrow> int \<Rightarrow> int \<Rightarrow> cubeinfo \<Rightarrow> bool \<Rightarrow> int option" where
  "EvalKey fCubeful fUsePrune nPlies pci fCubefulEquity =
     (let iKey = nPlies OR push_bit 4 fCubeful OR push_bit 5 (ci_fMove pci);
          iKey = (if nPlies \<noteq> 0 then iKey XOR push_bit 6 fUsePrune else iKey) in
      if nPlies \<noteq> 0 \<or> fCubefulEquity then
        map_option (\<lambda>iKey. if fCubefulEquity then iKey XOR 0x6a47b47e else iKey)
          (if ci_nMatchTo pci \<noteq> 0 then
             map_option (\<lambda>log.
                 iKey XOR (push_bit 7 (ci_nMatchTo pci - side_of (ci_fMove pci) (ci_anScore pci) - 1)
                   XOR push_bit 13 (ci_nMatchTo pci - side_of (cnot (ci_fMove pci)) (ci_anScore pci) - 1)
                   XOR push_bit 19 log
                   XOR push_bit 23 (owner_code pci)
                   XOR push_bit 25 (ci_fCrawford pci)))
               (LogCube (ci_nCube pci))
           else if fCubeful \<noteq> 0 \<or> fCubefulEquity then
             Some (iKey XOR (push_bit 23 (owner_code pci)
                   XOR push_bit 26 (ci_fJacoby pci)
                   XOR push_bit 27 (ci_fBeavers pci)))
           else Some iKey)
      else Some iKey)"

text \<open>The contexts the engine evaluates in.\<close>

definition key_context :: "int \<Rightarrow> int \<Rightarrow> int \<Rightarrow> cubeinfo \<Rightarrow> bool" where
  "key_context fCubeful fUsePrune nPlies pci \<longleftrightarrow>
     flag fCubeful \<and> flag fUsePrune \<and> 0 \<le> nPlies \<and> nPlies < 8 \<and> flag (ci_fMove pci) \<and>
     flag (ci_fCrawford pci) \<and> flag (ci_fJacoby pci) \<and> flag (ci_fBeavers pci) \<and>
     - 1 \<le> ci_fCubeOwner pci \<and> ci_fCubeOwner pci \<le> 1 \<and>
     (\<exists>k<16. ci_nCube pci = 2 ^ k) \<and> ci_nMatchTo pci \<le> 64 \<and>
     (ci_nMatchTo pci \<noteq> 0 \<longrightarrow>
        0 \<le> fst (ci_anScore pci) \<and> fst (ci_anScore pci) < ci_nMatchTo pci \<and>
        0 \<le> snd (ci_anScore pci) \<and> snd (ci_anScore pci) < ci_nMatchTo pci)"

lemma bit_small: "0 \<le> x \<Longrightarrow> x < 2 ^ n \<Longrightarrow> bit x i \<Longrightarrow> i < n" for x :: int
  by (metis bit_take_bit_iff take_bit_int_eq_self)

lemma small_bits_eqI:
  fixes x y :: int
  assumes "0 \<le> x" "x < 2 ^ n" "0 \<le> y" "y < 2 ^ n" "\<And>i. i < n \<Longrightarrow> bit x i = bit y i"
  shows "x = y"
  by (rule bit_eqI) (use assms bit_small in blast)

lemma bit_flag_field: "flag x \<Longrightarrow> bit (push_bit n x) i \<longleftrightarrow> i = n \<and> x = 1" for x :: int
  by (auto simp: flag_def bit_exp_iff)

lemma bit_field: "0 \<le> x \<Longrightarrow> x < 2 ^ m \<Longrightarrow> bit (push_bit n x) i \<longleftrightarrow> n \<le> i \<and> i < n + m \<and> bit x (i - n)"
  for x :: int
  using bit_small [of x m "i - n"] by (auto simp: bit_push_bit_iff)

text \<open>The key of match play, field by field; \<open>mask\<close> marks a cubeful equity.\<close>

definition match_fields_key :: "int \<Rightarrow> int \<Rightarrow> int \<Rightarrow> int \<Rightarrow> int \<Rightarrow> int \<Rightarrow> int \<Rightarrow> int \<Rightarrow> int \<Rightarrow> int" where
  "match_fields_key p c m u a b l q cr =
     ((p OR push_bit 4 c OR push_bit 5 m) XOR push_bit 6 u) XOR
     (push_bit 7 a XOR push_bit 13 b XOR push_bit 19 l XOR push_bit 23 q XOR push_bit 25 cr)"

lemma bit_match_fields_key:
  assumes "0 \<le> p" "p < 2 ^ 4" "flag c" "flag m" "flag u" "0 \<le> a" "a < 2 ^ 6" "0 \<le> b" "b < 2 ^ 6"
    "0 \<le> l" "l < 2 ^ 4" "0 \<le> q" "q < 2 ^ 2" "flag cr"
  shows "bit (match_fields_key p c m u a b l q cr) i \<longleftrightarrow>
    (if i < 4 then bit p i else if i = 4 then c = 1 else if i = 5 then m = 1 else if i = 6 then u = 1
     else if i < 13 then bit a (i - 7) else if i < 19 then bit b (i - 13) else if i < 23 then bit l (i - 19)
     else if i < 25 then bit q (i - 23) else i = 25 \<and> cr = 1)"
  using assms bit_small [of p 4 i]
  unfolding match_fields_key_def bit_xor_iff bit_or_iff
    bit_flag_field [OF assms(3)] bit_flag_field [OF assms(4)] bit_flag_field [OF assms(5)]
    bit_flag_field [OF assms(14)] bit_field [OF assms(6,7)] bit_field [OF assms(8,9)]
    bit_field [OF assms(10,11)] bit_field [OF assms(12,13)]
  by (auto split: if_splits)

lemma flag_eqI: "flag x \<Longrightarrow> flag y \<Longrightarrow> (x = 1 \<longleftrightarrow> y = 1) \<Longrightarrow> x = y"
  by (auto simp: flag_def)

lemma match_fields_key_inject:
  assumes r: "0 \<le> p" "p < 2 ^ 4" "flag c" "flag m" "flag u" "0 \<le> a" "a < 2 ^ 6" "0 \<le> b" "b < 2 ^ 6"
    "0 \<le> l" "l < 2 ^ 4" "0 \<le> q" "q < 2 ^ 2" "flag cr"
    and r': "0 \<le> p'" "p' < 2 ^ 4" "flag c'" "flag m'" "flag u'" "0 \<le> a'" "a' < 2 ^ 6" "0 \<le> b'" "b' < 2 ^ 6"
    "0 \<le> l'" "l' < 2 ^ 4" "0 \<le> q'" "q' < 2 ^ 2" "flag cr'"
    and eq: "match_fields_key p c m u a b l q cr = match_fields_key p' c' m' u' a' b' l' q' cr'"
  shows "p = p' \<and> c = c' \<and> m = m' \<and> u = u' \<and> a = a' \<and> b = b' \<and> l = l' \<and> q = q' \<and> cr = cr'"
proof -
  note B = bit_match_fields_key [OF r] bit_match_fields_key [OF r']
  have bits: "bit (match_fields_key p c m u a b l q cr) i = bit (match_fields_key p' c' m' u' a' b' l' q' cr') i" for i
    by (simp add: eq)
  have "bit p i = bit p' i" if "i < 4" for i using bits [of i] that by (simp add: B)
  then have "p = p'" by (rule small_bits_eqI [OF r(1,2) r'(1,2)])
  moreover have "c = c'" using bits [of 4] by (intro flag_eqI r r') (simp add: B)
  moreover have "m = m'" using bits [of 5] by (intro flag_eqI r r') (simp add: B)
  moreover have "u = u'" using bits [of 6] by (intro flag_eqI r r') (simp add: B)
  moreover have "bit a i = bit a' i" if "i < 6" for i using bits [of "7 + i"] that by (simp add: B split: if_splits)
  then have "a = a'" by (rule small_bits_eqI [OF r(6,7) r'(6,7)])
  moreover have "bit b i = bit b' i" if "i < 6" for i using bits [of "13 + i"] that by (simp add: B split: if_splits)
  then have "b = b'" by (rule small_bits_eqI [OF r(8,9) r'(8,9)])
  moreover have "bit l i = bit l' i" if "i < 4" for i using bits [of "19 + i"] that by (simp add: B split: if_splits)
  then have "l = l'" by (rule small_bits_eqI [OF r(10,11) r'(10,11)])
  moreover have "bit q i = bit q' i" if "i < 2" for i using bits [of "23 + i"] that by (simp add: B split: if_splits)
  then have "q = q'" by (rule small_bits_eqI [OF r(12,13) r'(12,13)])
  moreover have "cr = cr'" using bits [of 25] by (intro flag_eqI r r') (simp add: B)
  ultimately show ?thesis by simp
qed

definition away :: "cubeinfo \<Rightarrow> int \<times> int" where
  "away pci = (ci_nMatchTo pci - side_of (ci_fMove pci) (ci_anScore pci) - 1,
               ci_nMatchTo pci - side_of (cnot (ci_fMove pci)) (ci_anScore pci) - 1)"

definition used_prune :: "int \<Rightarrow> int \<Rightarrow> int" where
  "used_prune fUsePrune nPlies = (if nPlies \<noteq> 0 then fUsePrune else 0)"

lemma EvalKey_match:
  assumes "key_context c u p pci" "ci_nMatchTo pci \<noteq> 0" "p \<noteq> 0 \<or> e" "ci_nCube pci = 2 ^ l"
  shows "EvalKey c u p pci e = Some (let k = match_fields_key p c (ci_fMove pci) (used_prune u p)
      (fst (away pci)) (snd (away pci)) (int l) (owner_code pci) (ci_fCrawford pci)
    in if e then k XOR 0x6a47b47e else k)"
  using assms by (auto simp: EvalKey_def match_fields_key_def away_def used_prune_def Let_def)

lemma away_range:
  "key_context c u p pci \<Longrightarrow> ci_nMatchTo pci \<noteq> 0 \<Longrightarrow>
   0 \<le> fst (away pci) \<and> fst (away pci) < 2 ^ 6 \<and> 0 \<le> snd (away pci) \<and> snd (away pci) < 2 ^ 6"
  by (auto simp: key_context_def away_def side_of_def)

lemma key_context_fields:
  assumes "key_context c u p pci"
  shows "0 \<le> p" "p < 2 ^ 4" "p < 2 ^ 3" "flag c" "flag (ci_fMove pci)" "flag (used_prune u p)"
    "0 \<le> owner_code pci" "owner_code pci < 2 ^ 2" "flag (ci_fCrawford pci)"
  using assms by (auto simp: key_context_def used_prune_def owner_code_def flag_def)

text \<open>In match play different contexts have different keys.\<close>

text \<open>In match play two evaluations share a cache context only if they agree in everything the
  evaluation depends on.\<close>

lemma EvalKey_match_inject:
  assumes k: "key_context c u p pci" "key_context c' u' p' pci'"
    and match: "ci_nMatchTo pci \<noteq> 0" "ci_nMatchTo pci' \<noteq> 0" "p \<noteq> 0 \<or> e" "p' \<noteq> 0 \<or> e'"
    and eq: "EvalKey c u p pci e = EvalKey c' u' p' pci' e'"
  shows "e = e' \<and> p = p' \<and> c = c' \<and> used_prune u p = used_prune u' p' \<and> ci_fMove pci = ci_fMove pci' \<and>
    away pci = away pci' \<and> ci_nCube pci = ci_nCube pci' \<and> owner_code pci = owner_code pci' \<and>
    ci_fCrawford pci = ci_fCrawford pci'"
proof -
  obtain l l' where l: "l < 16" "ci_nCube pci = 2 ^ l" "l' < 16" "ci_nCube pci' = 2 ^ l'"
    using k by (auto simp: key_context_def)
  let ?k = "match_fields_key p c (ci_fMove pci) (used_prune u p)
      (fst (away pci)) (snd (away pci)) (int l) (owner_code pci) (ci_fCrawford pci)"
  let ?k' = "match_fields_key p' c' (ci_fMove pci') (used_prune u' p')
      (fst (away pci')) (snd (away pci')) (int l') (owner_code pci') (ci_fCrawford pci')"
  note f = key_context_fields [OF k(1)] and f' = key_context_fields [OF k(2)]
  note a = away_range [OF k(1) match(1)] and a' = away_range [OF k(2) match(2)]
  have l4: "0 \<le> int l" "int l < 2 ^ 4" "0 \<le> int l'" "int l' < 2 ^ 4" using l by auto
  have "\<not> bit p 3" "\<not> bit p' 3"
    using bit_small [of p 3 3] bit_small [of p' 3 3] f(1,3) f'(1,3) by auto
  then have b3: "\<not> bit ?k 3" "\<not> bit ?k' 3"
    using f f' a a' l4 by (simp_all add: bit_match_fields_key)
  have mask3: "bit (0x6a47b47e :: int) 3" by (simp add: bit_numeral_rec eval_nat_numeral)
  have eqs: "(if e then ?k XOR 0x6a47b47e else ?k) = (if e' then ?k' XOR 0x6a47b47e else ?k')"
    using eq EvalKey_match [OF k(1) match(1,3) l(2)] EvalKey_match [OF k(2) match(2,4) l(4)]
    by (simp add: Let_def)
  from arg_cong [OF eqs, of "\<lambda>x. bit x 3"] have e: "e = e'"
    using b3 mask3 by (auto simp: bit_xor_iff split: if_splits)
  have "?k = ?k'"
  proof (cases e)
    case True
    with e eqs have "?k XOR 0x6a47b47e = ?k' XOR 0x6a47b47e" by simp
    then have "(?k XOR 0x6a47b47e) XOR 0x6a47b47e = (?k' XOR 0x6a47b47e) XOR 0x6a47b47e" by simp
    then show ?thesis by (simp only: xor.assoc xor_self_eq xor.right_neutral)
  next
    case False
    with e eqs show ?thesis by simp
  qed
  from match_fields_key_inject [OF _ _ _ _ _ _ _ _ _ _ _ _ _ _ _ _ _ _ _ _ _ _ _ _ _ _ _ _ this]
  have "p = p' \<and> c = c' \<and> ci_fMove pci = ci_fMove pci' \<and> used_prune u p = used_prune u' p' \<and>
      fst (away pci) = fst (away pci') \<and> snd (away pci) = snd (away pci') \<and> int l = int l' \<and>
      owner_code pci = owner_code pci' \<and> ci_fCrawford pci = ci_fCrawford pci'"
    using f f' a a' l4 by blast
  with e l show ?thesis by (auto simp: prod_eq_iff)
qed

text \<open>
  But the key does not say whether a match is played: at double match point it is the key of
  money play without the Jacoby rule and beavers.
\<close>

definition dmp_cube :: cubeinfo where
  "dmp_cube = \<lparr>ci_nCube = 1, ci_fCubeOwner = - 1, ci_fMove = 0, ci_nMatchTo = 1, ci_anScore = (0, 0),
     ci_fCrawford = 0, ci_fJacoby = 0, ci_fBeavers = 0, ci_arGammonPrice = [0, 0, 0, 0],
     ci_bgv = VARIATION_STANDARD\<rparr>"

definition money_cube :: cubeinfo where
  "money_cube = dmp_cube\<lparr>ci_nMatchTo := 0, ci_arGammonPrice := [1, 1, 1, 1]\<rparr>"

text \<open>The key of a cubeless evaluation does not say whether a match is played: at double match point it
  is the key of a money game, although the equities of the same outputs differ.\<close>

lemma EvalKey_match_money_collision:
  "EvalKey 1 1 2 dmp_cube False = EvalKey 1 1 2 money_cube False \<and>
   key_context 1 1 2 dmp_cube \<and> key_context 1 1 2 money_cube \<and>
   Utility [1 / 2, 1 / 4, 0, 0, 0] dmp_cube \<noteq> Utility [1 / 2, 1 / 4, 0, 0, 0] money_cube"
proof -
  have "LogCube 1 = Some 0" using LogCube_pow [of 0] by simp
  then have "EvalKey 1 1 2 dmp_cube False = EvalKey 1 1 2 money_cube False"
    by (simp add: EvalKey_def dmp_cube_def money_cube_def owner_code_def side_of_def cnot_def Let_def)
  moreover have "\<exists>k<16. (1 :: int) = 2 ^ k" by (rule exI [of _ 0]) simp
  then have "key_context 1 1 2 dmp_cube \<and> key_context 1 1 2 money_cube"
    by (simp add: key_context_def dmp_cube_def money_cube_def flag_def)
  moreover have "Utility [1 / 2, 1 / 4, 0, 0, 0] dmp_cube \<noteq> Utility [1 / 2, 1 / 4, 0, 0, 0] money_cube"
    by (simp add: Utility_def dmp_cube_def money_cube_def outputs cnot_def)
  ultimately show ?thesis by simp
qed

section \<open>Instances\<close>

end
