(* ===== verification/Eval_Cache.thy ===== *)
theory Eval_Cache
  imports Position_Key Eval_Outputs
begin

text \<open>
  The cache of evaluations (lib/cache.c): a hash table whose nodes have a primary and a secondary
  slot.  A lookup promotes a secondary hit, an insertion pushes the primary entry to the secondary
  slot and forgets what was there.  The contract of such a table is a locale.  The model is the
  build without threads.
\<close>

section \<open>A table that may forget\<close>

text \<open>
  \<open>touch\<close> is what a lookup does to the table.  The laws promise that what is found is what was
  stored last; they do not promise that anything is found, except right after it was stored.
\<close>

datatype ('k, 'v) table_op = Look 'k | Store 'k 'v

fun op_key :: "('k, 'v) table_op \<Rightarrow> 'k" where
  "op_key (Look k) = k"
| "op_key (Store k v) = k"

text \<open>The abstract table is a map.\<close>

fun map_op :: "('k, 'v) table_op \<Rightarrow> ('k \<rightharpoonup> 'v) \<Rightarrow> ('k \<rightharpoonup> 'v)" where
  "map_op (Look k) m = m"
| "map_op (Store k v) m = m(k \<mapsto> v)"

locale forgetful_table =
  fixes ok :: "'c \<Rightarrow> bool" and valid :: "'k \<Rightarrow> bool"
    and find :: "'c \<Rightarrow> 'k \<Rightarrow> 'v option" and touch :: "'c \<Rightarrow> 'k \<Rightarrow> 'c" and store :: "'c \<Rightarrow> 'k \<Rightarrow> 'v \<Rightarrow> 'c"
  assumes ok_touch: "ok c \<Longrightarrow> valid k \<Longrightarrow> ok (touch c k)"
    and ok_store: "ok c \<Longrightarrow> valid k \<Longrightarrow> ok (store c k v)"
    and find_touch: "ok c \<Longrightarrow> valid k \<Longrightarrow> valid j \<Longrightarrow> find (touch c k) j = find c j"
    and find_store: "ok c \<Longrightarrow> valid k \<Longrightarrow> find (store c k v) k = Some v"
    and find_store_other:
      "ok c \<Longrightarrow> valid k \<Longrightarrow> valid j \<Longrightarrow> j \<noteq> k \<Longrightarrow> find (store c k v) j = Some w \<Longrightarrow> find c j = Some w"
begin

fun table_op :: "('k, 'v) table_op \<Rightarrow> 'c \<Rightarrow> 'c" where
  "table_op (Look k) c = touch c k"
| "table_op (Store k v) c = store c k v"

text \<open>The table finds only what the map holds.\<close>

definition inside :: "'c \<Rightarrow> ('k \<rightharpoonup> 'v) \<Rightarrow> bool" where
  "inside c m \<longleftrightarrow> ok c \<and> (\<forall>k v. valid k \<longrightarrow> find c k = Some v \<longrightarrow> m k = Some v)"

lemma inside_step: "inside c m \<Longrightarrow> valid (op_key x) \<Longrightarrow> inside (table_op x c) (map_op x m)"
  by (cases x) (auto simp: inside_def ok_touch ok_store find_touch find_store dest: find_store_other)

lemma inside_run:
  "inside c m \<Longrightarrow> \<forall>x\<in>set ops. valid (op_key x) \<Longrightarrow> inside (fold table_op ops c) (fold map_op ops m)"
  by (induction ops arbitrary: c m) (auto intro: inside_step)

text \<open>A property of what is stored, for a client that only stores what has it.\<close>

definition holds_only :: "('k \<Rightarrow> 'v \<Rightarrow> bool) \<Rightarrow> 'c \<Rightarrow> bool" where
  "holds_only R c \<longleftrightarrow> ok c \<and> (\<forall>k v. valid k \<longrightarrow> find c k = Some v \<longrightarrow> R k v)"

lemma holds_only_touch: "holds_only R c \<Longrightarrow> valid k \<Longrightarrow> holds_only R (touch c k)"
  by (simp add: holds_only_def ok_touch find_touch)

lemma holds_only_store: "holds_only R c \<Longrightarrow> valid k \<Longrightarrow> R k v \<Longrightarrow> holds_only R (store c k v)"
  unfolding holds_only_def using ok_store find_store find_store_other by (metis option.inject)

lemma holds_only_find: "holds_only R c \<Longrightarrow> valid k \<Longrightarrow> find c k = Some v \<Longrightarrow> R k v"
  by (simp add: holds_only_def)

end

section \<open>The code\<close>

record cacheNodeDetail =
  nd_key :: positionkey
  nEvalContext :: int
  nd_ar :: "real list"

record cacheNode =
  nd_primary :: cacheNodeDetail
  nd_secondary :: cacheNodeDetail

record evalCache =
  entries :: "cacheNode list"
  cache_size :: u32
  hashMask :: u32

definition rotl :: "nat \<Rightarrow> u32 \<Rightarrow> u32" where
  "rotl n w = push_bit n w OR drop_bit (32 - n) w"

definition mix_key :: "u32 \<Rightarrow> u32" where
  "mix_key k = rotl 15 (k * 0xcc9e2d51) * 0x1b873593"

definition mix_hash :: "u32 \<Rightarrow> u32" where
  "mix_hash h = rotl 13 h * 5 + 0xe6546b64"

definition final_mix :: "u32 \<Rightarrow> u32" where
  "final_mix h =
     (let h = h XOR drop_bit 16 h; h = h * 0x85ebca6b;
          h = h XOR drop_bit 13 h; h = h * 0xc2b2ae35
      in h XOR drop_bit 16 h)"

definition GetHashKey :: "u32 \<Rightarrow> positionkey \<Rightarrow> int \<Rightarrow> u32" where
  "GetHashKey hmask key ctx =
     (let h = mix_hash (mix_key (word_of_int ctx));
          h = fold (\<lambda>i h. mix_hash (h XOR mix_key (key ! i))) [0..<7] h
      in final_mix h AND hmask)"

definition CACHEHIT :: u32 where "CACHEHIT = - 1"

text \<open>\<open>CacheFlush\<close> marks the slots with a first key word that no position has.\<close>

definition flush_detail :: "cacheNodeDetail \<Rightarrow> cacheNodeDetail" where
  "flush_detail d = d\<lparr>nd_key := (nd_key d)[0 := - 1]\<rparr>"

definition CacheFlush :: "evalCache \<Rightarrow> evalCache" where
  "CacheFlush pc = pc\<lparr>entries := map (\<lambda>n. \<lparr>nd_primary = flush_detail (nd_primary n),
     nd_secondary = flush_detail (nd_secondary n)\<rparr>) (entries pc)\<rparr>"

text \<open>The loop that clears the lowest bits leaves the highest bit.\<close>

function high_bit :: "u32 \<Rightarrow> u32" where
  "high_bit s = (if s AND (s - 1) \<noteq> 0 then high_bit (s AND (s - 1)) else s)"
  by auto

termination
proof (relation "measure unat")
  fix s :: u32
  assume "s AND (s - 1) \<noteq> 0"
  then have s: "s \<noteq> 0" by auto
  have "s AND (s - 1) \<le> s - 1" by (rule word_and_le1)
  then have "unat (s AND (s - 1)) \<le> unat (s - 1)" by (simp add: word_le_nat_alt)
  also have "\<dots> < unat s" using s unat_minus_one_u32 [of s] by (simp add: unat_gt_0)
  finally show "(s AND (s - 1), s) \<in> measure unat" by simp
qed auto

declare high_bit.simps [simp del]

text \<open>
  \<open>memory\<close> is what \<open>malloc\<close> returns, a null pointer or nodes with any content.  The result is the
  return code with the cache.
\<close>

definition CacheCreate :: "(nat \<Rightarrow> cacheNode list option) \<Rightarrow> evalCache \<Rightarrow> u32 \<Rightarrow> int \<times> evalCache" where
  "CacheCreate memory pc s =
     (if s > 2 ^ 31 then (- 1, pc)
      else
        let h = high_bit s;
            size = (if h < s then 2 * h else h);
            pc = pc\<lparr>cache_size := size, hashMask := drop_bit 1 size - 1\<rparr>
        in case memory (unat size div 2) of
             None \<Rightarrow> (- 1, pc)
           | Some nodes \<Rightarrow> (0, CacheFlush (pc\<lparr>entries := nodes\<rparr>)))"

definition CacheResize :: "(nat \<Rightarrow> cacheNode list option) \<Rightarrow> evalCache \<Rightarrow> u32 \<Rightarrow> int \<times> evalCache" where
  "CacheResize memory pc cNew =
     (if cNew \<noteq> cache_size pc then
        (case CacheCreate memory pc cNew of
           (r, pc) \<Rightarrow> if r \<noteq> 0 then (- 1, pc) else (sint (cache_size pc), pc))
      else (sint (cache_size pc), pc))"

definition slot_matches :: "positionkey \<Rightarrow> int \<Rightarrow> cacheNodeDetail \<Rightarrow> bool" where
  "slot_matches key ctx d \<longleftrightarrow> EqualKeys (nd_key d) key \<and> nEvalContext d = ctx"

text \<open>The return value with the cache, and on a hit the five outputs and the cubeful equity.\<close>

definition CacheLookup :: "evalCache \<Rightarrow> positionkey \<Rightarrow> int \<Rightarrow> u32 \<times> evalCache \<times> (real list \<times> real) option" where
  "CacheLookup pc key ctx =
     (let l = GetHashKey (hashMask pc) key ctx;
          n = entries pc ! unat l in
      if slot_matches key ctx (nd_primary n) then
        (CACHEHIT, pc, Some (take 5 (nd_ar (nd_primary n)), nd_ar (nd_primary n) ! 5))
      else if slot_matches key ctx (nd_secondary n) then
        (CACHEHIT,
         pc\<lparr>entries := (entries pc)[unat l := \<lparr>nd_primary = nd_secondary n, nd_secondary = nd_primary n\<rparr>]\<rparr>,
         Some (take 5 (nd_ar (nd_secondary n)), nd_ar (nd_secondary n) ! 5))
      else (l, pc, None))"

definition CacheAdd :: "evalCache \<Rightarrow> cacheNodeDetail \<Rightarrow> u32 \<Rightarrow> evalCache" where
  "CacheAdd pc e l =
     pc\<lparr>entries := (entries pc)[unat l := \<lparr>nd_primary = e, nd_secondary = nd_primary (entries pc ! unat l)\<rparr>]\<rparr>"

text \<open>
  eval.c keeps the number of entries in \<open>cCache\<close>, which is nonzero when evaluations are cached;
  the value is also the result, as an \<open>int\<close>.
\<close>

definition EvalCacheResize :: "(nat \<Rightarrow> cacheNode list option) \<Rightarrow> evalCache \<Rightarrow> u32 \<Rightarrow> int \<times> u32 \<times> evalCache" where
  "EvalCacheResize memory pc cNew =
     (case CacheResize memory pc cNew of
        (r, pc) \<Rightarrow> (let cCache = word_of_int r in (sint (cCache :: u32), cCache, pc)))"

section \<open>Sizes\<close>

text \<open>Clearing the lowest bit of a number that is not a power of two keeps its highest bit.\<close>

lemma bit_high:
  assumes "2 ^ k \<le> n" "n < 2 ^ Suc k"
  shows "bit (n :: nat) k"
proof -
  have "n div 2 ^ k = 1" using assms by (simp add: div_nat_eqI)
  then show ?thesis by (simp add: bit_iff_odd)
qed

lemma unat_high_bit:
  "2 ^ k \<le> unat s \<Longrightarrow> unat s < 2 ^ Suc k \<Longrightarrow> unat (high_bit s) = 2 ^ k"
proof (induction s rule: high_bit.induct)
  case (1 s)
  have s0: "s \<noteq> 0" using "1.prems"(1) by auto
  have u: "unat (s - 1) = unat s - 1" using s0 by (rule unat_minus_one_u32)
  show ?case
  proof (cases "unat s = 2 ^ k")
    case True
    have "s AND (s - 1) = 0"
    proof -
      have "unat (s AND (s - 1)) = 2 ^ k AND (2 ^ k - 1 :: nat)" using True u by (simp add: unsigned_and_eq)
      also have "\<dots> = take_bit k (2 ^ k)"
        by (simp add: take_bit_eq_mask mask_eq_exp_minus_1)
      also have "\<dots> = 0" by (simp add: take_bit_eq_mod)
      finally show ?thesis by simp
    qed
    then show ?thesis using True by (simp add: high_bit.simps)
  next
    case False
    let ?t = "s AND (s - 1)"
    have "2 ^ k \<le> unat s - 1" "unat s - 1 < 2 ^ Suc k" using False "1.prems" by simp_all
    then have "bit (unat ?t) k"
      using bit_high [of k "unat s"] bit_high [of k "unat s - 1"] "1.prems" u
      by (simp add: unsigned_and_eq bit_and_iff)
    then have "2 ^ k \<le> unat ?t"
      by (metis bit_iff_odd div_less even_zero linorder_not_le)
    moreover have "unat ?t \<le> unat s"
      using word_and_le2 [of s "s - 1"] by (simp add: word_le_nat_alt)
    moreover have "?t \<noteq> 0" using calculation(1) by auto
    ultimately show ?thesis using "1.IH" "1.prems"(2) by (subst high_bit.simps) simp
  qed
qed

lemma unat_GetHashKey: "unat (GetHashKey m key ctx) \<le> unat m"
  using word_and_le1 [of "final_mix h" m for h]
  by (simp add: GetHashKey_def Let_def word_le_nat_alt)

lemma CacheCreate_size:
  assumes "2 \<le> unat s" "unat s \<le> 2 ^ 31"
  shows "\<exists>k. 1 \<le> k \<and> k \<le> 31 \<and> unat (if high_bit s < s then 2 * high_bit s else high_bit s) = 2 ^ k \<and>
    unat s \<le> 2 ^ k \<and> 2 ^ k < 2 * unat s"
proof -
  obtain k where k: "2 ^ k \<le> unat s" "unat s < 2 ^ Suc k"
    using ex_power_ivl1 [of 2 "unat s"] assms(1) by auto
  have h: "unat (high_bit s) = 2 ^ k" by (rule unat_high_bit [OF k])
  have "k \<le> 31"
  proof (rule ccontr)
    assume "\<not> k \<le> 31"
    then have "(2 :: nat) ^ 32 \<le> 2 ^ k" by (intro power_increasing) auto
    with k(1) assms(2) show False by simp
  qed
  have "1 \<le> k"
  proof (rule ccontr)
    assume "\<not> 1 \<le> k"
    then show False using k(2) assms(1) by (simp add: not_le)
  qed
  have "k \<le> 30" "unat (2 * high_bit s) = 2 ^ Suc k" if "high_bit s < s"
  proof -
    have "(2 :: nat) ^ k < 2 ^ 31" using that h assms(2) by (simp add: word_less_nat_alt)
    from power_less_imp_less_exp [OF _ this] have "k < 31" by simp
    then show "k \<le> 30" by simp
    then have "(2 :: nat) ^ Suc k \<le> 2 ^ 31" by (intro power_increasing) auto
    then have "unat (high_bit s) + unat (high_bit s) < 2 ^ 32" by (simp add: h)
    from unat_plus_small [OF this] show "unat (2 * high_bit s) = 2 ^ Suc k" by (simp only: h mult_2 power_Suc)
  qed
  note step = this
  show ?thesis
  proof (cases "high_bit s < s")
    case True
    have "unat (2 * high_bit s) = 2 ^ Suc k" "Suc k \<le> 31" using step True by simp_all
    moreover have "2 ^ k < unat s" using True h by (simp add: word_less_nat_alt)
    ultimately show ?thesis using True k(2) \<open>1 \<le> k\<close> by (intro exI [of _ "Suc k"]) simp
  next
    case False
    then have "unat s = 2 ^ k" using h k(1) by (simp add: word_less_nat_alt not_less)
    with False h \<open>1 \<le> k\<close> \<open>k \<le> 31\<close> show ?thesis by (intro exI [of _ k]) simp
  qed
qed

section \<open>The table is one that may forget\<close>

text \<open>Seven words a key, and a table for every hash; keys of positions are not the flushed one.\<close>

definition cache_ok :: "evalCache \<Rightarrow> bool" where
  "cache_ok pc \<longleftrightarrow> unat (hashMask pc) < length (entries pc) \<and>
     (\<forall>n\<in>set (entries pc). length (nd_key (nd_primary n)) = 7 \<and> length (nd_key (nd_secondary n)) = 7)"

definition cache_key :: "positionkey \<times> int \<Rightarrow> bool" where
  "cache_key k \<longleftrightarrow> length (fst k) = 7 \<and> fst k ! 0 \<noteq> - 1"

definition cache_find :: "evalCache \<Rightarrow> positionkey \<times> int \<Rightarrow> real list option" where
  "cache_find pc k =
     (let n = entries pc ! unat (GetHashKey (hashMask pc) (fst k) (snd k)) in
      if slot_matches (fst k) (snd k) (nd_primary n) then Some (nd_ar (nd_primary n))
      else if slot_matches (fst k) (snd k) (nd_secondary n) then Some (nd_ar (nd_secondary n))
      else None)"

definition cache_touch :: "evalCache \<Rightarrow> positionkey \<times> int \<Rightarrow> evalCache" where
  "cache_touch pc k = fst (snd (CacheLookup pc (fst k) (snd k)))"

definition cache_store :: "evalCache \<Rightarrow> positionkey \<times> int \<Rightarrow> real list \<Rightarrow> evalCache" where
  "cache_store pc k v =
     CacheAdd pc \<lparr>nd_key = fst k, nEvalContext = snd k, nd_ar = v\<rparr> (GetHashKey (hashMask pc) (fst k) (snd k))"

text \<open>What \<open>CacheLookup\<close> returns, in these terms.\<close>

lemma CacheLookup_eq:
  "CacheLookup pc key ctx =
     (case cache_find pc (key, ctx) of
        None \<Rightarrow> (GetHashKey (hashMask pc) key ctx, cache_touch pc (key, ctx), None)
      | Some v \<Rightarrow> (CACHEHIT, cache_touch pc (key, ctx), Some (take 5 v, v ! 5)))"
  by (auto simp: CacheLookup_def cache_find_def cache_touch_def Let_def)

lemma hash_bound: "cache_ok pc \<Longrightarrow> unat (GetHashKey (hashMask pc) key ctx) < length (entries pc)"
  using unat_GetHashKey [of "hashMask pc" key ctx] by (simp add: cache_ok_def)

lemma slot_matches_iff:
  "length (nd_key d) = 7 \<Longrightarrow> length key = 7 \<Longrightarrow> slot_matches key ctx d \<longleftrightarrow> nd_key d = key \<and> nEvalContext d = ctx"
  by (simp add: slot_matches_def EqualKeys_iff)

lemma cache_ok_nth:
  "cache_ok pc \<Longrightarrow> i < length (entries pc) \<Longrightarrow>
   length (nd_key (nd_primary (entries pc ! i))) = 7 \<and> length (nd_key (nd_secondary (entries pc ! i))) = 7"
  by (simp add: cache_ok_def)

lemma cache_ok_update:
  "cache_ok pc \<Longrightarrow> length (nd_key (nd_primary n)) = 7 \<Longrightarrow> length (nd_key (nd_secondary n)) = 7 \<Longrightarrow>
   cache_ok (pc\<lparr>entries := (entries pc)[i := n]\<rparr>)"
  by (auto simp: cache_ok_def dest!: set_update_subset_insert [THEN subsetD])

text \<open>The effect of an update of one node on every lookup.\<close>

lemma touch_cases:
  obtains "cache_touch pc k = pc"
  | i where "i = unat (GetHashKey (hashMask pc) (fst k) (snd k))"
      "\<not> slot_matches (fst k) (snd k) (nd_primary (entries pc ! i))"
      "slot_matches (fst k) (snd k) (nd_secondary (entries pc ! i))"
      "cache_touch pc k = pc\<lparr>entries := (entries pc)[i :=
         \<lparr>nd_primary = nd_secondary (entries pc ! i), nd_secondary = nd_primary (entries pc ! i)\<rparr>]\<rparr>"
proof (cases "cache_touch pc k = pc")
  case False
  let ?i = "unat (GetHashKey (hashMask pc) (fst k) (snd k))"
  have "\<not> slot_matches (fst k) (snd k) (nd_primary (entries pc ! ?i))"
    "slot_matches (fst k) (snd k) (nd_secondary (entries pc ! ?i))"
    using False by (auto simp: cache_touch_def CacheLookup_def Let_def split: if_splits)
  then show ?thesis using that(2) [of ?i] by (simp add: cache_touch_def CacheLookup_def Let_def)
qed (rule that)

interpretation cache: forgetful_table cache_ok cache_key cache_find cache_touch cache_store
proof
  fix c k and j :: "positionkey \<times> int" and v w :: "real list"
  assume ok: "cache_ok c" and k: "cache_key k"
  let ?i = "unat (GetHashKey (hashMask c) (fst k) (snd k))"
  have i: "?i < length (entries c)" by (rule hash_bound [OF ok])
  note l = cache_ok_nth [OF ok i]
  have lk: "length (fst k) = 7" using k by (simp add: cache_key_def)
  show "cache_ok (cache_touch c k)"
    by (rule touch_cases [of c k]) (use ok l in \<open>auto intro!: cache_ok_update\<close>)
  show "cache_ok (cache_store c k v)"
    using ok l lk by (auto simp: cache_store_def CacheAdd_def intro!: cache_ok_update)
  show "cache_find (cache_store c k v) k = Some v"
    using i lk by (simp add: cache_find_def cache_store_def CacheAdd_def slot_matches_def EqualKeys_def)
  assume j: "cache_key j"
  have lj: "length (fst j) = 7" using j by (simp add: cache_key_def)
  let ?j = "unat (GetHashKey (hashMask c) (fst j) (snd j))"
  note m = slot_matches_iff [OF _ lj]
  show "cache_find (cache_touch c k) j = cache_find c j"
  proof (rule touch_cases [of c k])
    fix n
    assume n: "n = ?i" "\<not> slot_matches (fst k) (snd k) (nd_primary (entries c ! n))"
      "slot_matches (fst k) (snd k) (nd_secondary (entries c ! n))"
      "cache_touch c k = c\<lparr>entries := (entries c)[n :=
         \<lparr>nd_primary = nd_secondary (entries c ! n), nd_secondary = nd_primary (entries c ! n)\<rparr>]\<rparr>"
    then have "nd_key (nd_primary (entries c ! ?i)) \<noteq> nd_key (nd_secondary (entries c ! ?i)) \<or>
        nEvalContext (nd_primary (entries c ! ?i)) \<noteq> nEvalContext (nd_secondary (entries c ! ?i))"
      using l lk by (auto simp: slot_matches_iff)
    then show ?thesis
      using i l n by (cases "?j = ?i") (auto simp: cache_find_def n(4) m nth_list_update Let_def)
  qed simp
  assume ne: "j \<noteq> k" and w: "cache_find (cache_store c k v) j = Some w"
  have "\<not> slot_matches (fst j) (snd j) \<lparr>nd_key = fst k, nEvalContext = snd k, nd_ar = v\<rparr>"
    using ne lk by (auto simp: m prod_eq_iff)
  then show "cache_find c j = Some w"
    using w i by (cases "?j = ?i") (auto simp: cache_find_def cache_store_def CacheAdd_def Let_def split: if_splits)
qed

section \<open>A new cache\<close>

text \<open>What the memory holds is of the right size.\<close>

definition is_memory :: "(nat \<Rightarrow> cacheNode list option) \<Rightarrow> bool" where
  "is_memory memory \<longleftrightarrow> (\<forall>n nodes. memory n = Some nodes \<longrightarrow> length nodes = n \<and>
     (\<forall>x\<in>set nodes. length (nd_key (nd_primary x)) = 7 \<and> length (nd_key (nd_secondary x)) = 7))"

definition flushed :: "evalCache \<Rightarrow> bool" where
  "flushed pc \<longleftrightarrow> (\<forall>n\<in>set (entries pc). nd_key (nd_primary n) ! 0 = - 1 \<and> nd_key (nd_secondary n) ! 0 = - 1)"

lemma CacheFlush_ok: "cache_ok pc \<Longrightarrow> cache_ok (CacheFlush pc) \<and> flushed (CacheFlush pc)"
  by (auto simp: cache_ok_def CacheFlush_def flush_detail_def flushed_def)

text \<open>Nothing is found in a flushed table.\<close>

lemma flushed_find: "cache_ok pc \<Longrightarrow> flushed pc \<Longrightarrow> cache_key k \<Longrightarrow> cache_find pc k = None"
  using hash_bound [of pc "fst k" "snd k"]
  by (auto simp: cache_find_def Let_def flushed_def cache_key_def slot_matches_def EqualKeys_def)

lemma flushed_inside: "cache_ok pc \<Longrightarrow> flushed pc \<Longrightarrow> cache.inside pc Map.empty"
  by (auto simp: cache.inside_def flushed_find)

lemma CacheCreate_ok:
  assumes "2 \<le> unat s" "unat s \<le> 2 ^ 31" "is_memory memory" "CacheCreate memory pc s = (0, pc')"
  shows "cache_ok pc' \<and> flushed pc' \<and> (\<exists>k. unat (cache_size pc') = 2 ^ k \<and> unat s \<le> 2 ^ k \<and> 2 ^ k < 2 * unat s) \<and>
    2 * length (entries pc') = unat (cache_size pc') \<and> unat (hashMask pc') = length (entries pc') - 1"
proof -
  define size where "size = (if high_bit s < s then 2 * high_bit s else high_bit s)"
  obtain k where k: "1 \<le> k" "unat size = 2 ^ k" "unat s \<le> 2 ^ k" "2 ^ k < 2 * unat s"
    using CacheCreate_size [OF assms(1,2)] size_def by auto
  have "\<not> s > 2 ^ 31" using assms(2) by (simp add: word_less_nat_alt)
  then obtain nodes where nodes: "memory (unat size div 2) = Some nodes"
    and pc': "pc' = CacheFlush (pc\<lparr>cache_size := size, hashMask := drop_bit 1 size - 1, entries := nodes\<rparr>)"
    using assms(4) by (auto simp: CacheCreate_def Let_def size_def [symmetric] split: option.splits)
  have half: "unat size div 2 = 2 ^ (k - 1)" using k by (cases k) auto
  have len: "length nodes = 2 ^ (k - 1)" using assms(3) nodes half by (auto simp: is_memory_def)
  have drop: "unat (drop_bit 1 size) = 2 ^ (k - 1)"
    using half by (simp only: unat_drop_bit_eq) (simp add: drop_bit_eq_div)
  then have "drop_bit 1 size \<noteq> 0" by auto
  then have hm: "unat (drop_bit 1 size - 1) = 2 ^ (k - 1) - 1" using drop unat_minus_one_u32 by metis
  have "cache_ok (pc\<lparr>cache_size := size, hashMask := drop_bit 1 size - 1, entries := nodes\<rparr>)"
    using assms(3) nodes len hm by (auto simp: cache_ok_def is_memory_def)
  moreover have "entries pc' = map (\<lambda>n. \<lparr>nd_primary = flush_detail (nd_primary n),
     nd_secondary = flush_detail (nd_secondary n)\<rparr>) nodes" "cache_size pc' = size" "hashMask pc' = drop_bit 1 size - 1"
    by (simp_all add: pc' CacheFlush_def)
  moreover have "2 * 2 ^ (k - 1) = (2 :: nat) ^ k" using k(1) by (cases k) auto
  ultimately show ?thesis using CacheFlush_ok pc' k len hm by auto
qed

text \<open>The operations of a client: look a position up, and add an evaluation where its miss was.\<close>

fun cache_op :: "(positionkey \<times> int, real list) table_op \<Rightarrow> evalCache \<Rightarrow> evalCache" where
  "cache_op (Look k) pc = fst (snd (CacheLookup pc (fst k) (snd k)))"
| "cache_op (Store k v) pc =
     CacheAdd pc \<lparr>nd_key = fst k, nEvalContext = snd k, nd_ar = v\<rparr> (GetHashKey (hashMask pc) (fst k) (snd k))"

lemma cache_op_eq: "cache_op = cache.table_op"
  by (intro ext, rename_tac x pc, case_tac x) (simp_all add: cache_touch_def cache_store_def)

lemma hash_not_hit: "cache_ok pc \<Longrightarrow> GetHashKey (hashMask pc) key ctx \<noteq> CACHEHIT \<or> hashMask pc = - 1"
  using unat_GetHashKey [of "hashMask pc" key ctx]
  by (auto simp: CACHEHIT_def word_le_nat_alt [symmetric] word_order.extremum_unique)

text \<open>The hash is masked in the same way for ever.\<close>

lemma cache_op_shape: "hashMask (cache_op x pc) = hashMask pc \<and> length (entries (cache_op x pc)) = length (entries pc)"
  by (cases x) (simp_all add: CacheLookup_def CacheAdd_def Let_def)

lemma cache_ops_shape:
  "hashMask (fold cache_op ops pc) = hashMask pc \<and> length (entries (fold cache_op ops pc)) = length (entries pc)"
  by (induction ops arbitrary: pc) (simp_all add: cache_op_shape)

text \<open>A cache created for 2 to 2^31 entries has the least power of two of slots that is enough for them,
  two in a node, and no key is hashed outside of its nodes, whatever was looked up and added before.\<close>

lemma CacheCreate_bounds:
  assumes "2 \<le> unat s" "unat s \<le> 2 ^ 31" "is_memory memory" "CacheCreate memory pc s = (0, pc')"
  shows "(\<exists>k. unat (cache_size pc') = 2 ^ k \<and> unat s \<le> 2 ^ k \<and> 2 ^ k < 2 * unat s) \<and>
    2 * length (entries pc') = unat (cache_size pc') \<and>
    unat (GetHashKey (hashMask (fold cache_op ops pc')) key ctx) < length (entries (fold cache_op ops pc'))"
  using CacheCreate_ok [OF assms] hash_bound [of pc' key ctx] by (simp add: cache_ops_shape)

text \<open>C40: From its creation on, the cache refines a map: whatever positions were looked up and added, a lookup
  that reports a hit returns the outputs and the cubeful equity that were added last for that
  position and context, a miss is never taken for a hit, and what is added at the place a miss
  returned is found at once.\<close>

theorem cache_refines_map:
  assumes create: "2 \<le> unat s" "unat s \<le> 2 ^ 31" "is_memory memory" "CacheCreate memory pc0 s = (0, pc)"
    and ops: "\<forall>x\<in>set ops. cache_key (op_key x)" "cache_key (key, ctx)"
    and look: "CacheLookup (fold cache_op ops pc) key ctx = (l, pc', r)"
  shows "(l = CACHEHIT \<longleftrightarrow> r \<noteq> None) \<and>
    (\<forall>ar e. r = Some (ar, e) \<longrightarrow> (\<exists>v. fold map_op ops Map.empty (key, ctx) = Some v \<and> ar = take 5 v \<and> e = v ! 5)) \<and>
    (r = None \<longrightarrow> (\<forall>v. fst (CacheLookup (CacheAdd pc' \<lparr>nd_key = key, nEvalContext = ctx, nd_ar = v\<rparr> l) key ctx) = CACHEHIT))"
proof -
  let ?c = "fold cache_op ops pc"
  note new = CacheCreate_ok [OF create]
  have inside: "cache.inside ?c (fold map_op ops Map.empty)"
    unfolding cache_op_eq using new flushed_inside ops(1) by (intro cache.inside_run) auto
  then have ok: "cache_ok ?c" by (simp add: cache.inside_def)
  have "unat (hashMask ?c) < 2 ^ 31"
  proof -
    have "unat (cache_size pc) < 2 ^ 32" using unsigned_less [of "cache_size pc"] by simp
    moreover have "2 * length (entries pc) = unat (cache_size pc)" "unat (hashMask pc) = length (entries pc) - 1"
      using new by simp_all
    ultimately show ?thesis by (simp add: cache_ops_shape)
  qed
  moreover have "unat (- 1 :: u32) = 2 ^ 32 - 1" by (simp add: unsigned_minus_1_eq_mask mask_eq_exp_minus_1)
  ultimately have "hashMask ?c \<noteq> - 1" by auto
  with hash_not_hit [OF ok, of key ctx] have miss: "GetHashKey (hashMask ?c) key ctx \<noteq> CACHEHIT" by blast
  have found: "CacheLookup (cache_store ?c (key, ctx) v) key ctx = (CACHEHIT, cache_touch (cache_store ?c (key, ctx) v) (key, ctx), Some (take 5 v, v ! 5))" for v
    using cache.find_store [OF ok ops(2)] by (simp add: CacheLookup_eq)
  show ?thesis
  proof (cases "cache_find ?c (key, ctx)")
    case None
    then have "cache_touch ?c (key, ctx) = ?c"
      by (auto simp: cache_find_def cache_touch_def CacheLookup_def Let_def split: if_splits)
    with None look miss found show ?thesis by (auto simp: CacheLookup_eq cache_store_def)
  next
    case (Some v)
    with look inside ops(2) show ?thesis by (auto simp: CacheLookup_eq cache.inside_def)
  qed
qed

text \<open>A cache of one entry has no node, and any hash.\<close>

lemma one_entry_cache:
  assumes "memory 0 = Some []" "cache_size pc \<noteq> 1"
  shows "\<exists>pc'. EvalCacheResize memory pc 1 = (1, 1, pc') \<and> entries pc' = [] \<and> GetHashKey (hashMask pc') key ctx
     = final_mix (fold (\<lambda>i h. mix_hash (h XOR mix_key (key ! i))) [0..<7] (mix_hash (mix_key (word_of_int ctx))))"
proof -
  have "high_bit 1 = 1" by (simp add: high_bit.simps)
  then have "CacheCreate memory pc 1 = (0, pc\<lparr>cache_size := 1, hashMask := - 1, entries := []\<rparr>)"
    using assms(1) by (simp add: CacheCreate_def CacheFlush_def)
  then show ?thesis using assms(2)
    by (simp add: EvalCacheResize_def CacheResize_def GetHashKey_def Let_def)
qed

text \<open>A cache that could not be made still counts as one.\<close>

lemma failed_resize:
  assumes "\<And>n. memory n = None" "cache_size pc \<noteq> cNew"
  shows "\<exists>pc'. EvalCacheResize memory pc cNew = (- 1, - 1, pc')"
  using assms by (auto simp: EvalCacheResize_def CacheResize_def CacheCreate_def Let_def)

section \<open>Keys of positions\<close>

text \<open>Eight points cannot all have fifteen chequers, so no position has the flushed key.\<close>

lemma few_chequers_cache_key:
  assumes "wf_board b" "chequers (fst b) \<le> 15" "chequers (snd b) \<le> 15"
  shows "cache_key (PositionKey b, ctx)"
proof -
  have len: "length (snd b) = 25" using assms(1) by (simp add: wf_board_def)
  have small: "\<forall>i<8. snd b ! (0 + i) < 16"
    using few_chequers_nibble [OF assms] by (simp add: nibble_board_def nibble_side_def)
  have "pack8 (snd b) 0 \<noteq> - 1"
  proof
    assume "pack8 (snd b) 0 = - 1"
    then have "map (\<lambda>i. snd b ! (0 + i)) [0..<8] = unpack8 (- 1)" using unpack8_pack8 [OF small] by simp
    moreover have "(drop_bit 4 (- 1) :: u32) AND 15 = 15"
      by (simp add: mask_eq_exp_minus_1)
    ultimately have "snd b ! 0 = 15" "snd b ! 1 = 15" by (simp_all add: upt_0_8 unpack8_def)
    moreover obtain x y ys where "snd b = x # y # ys"
      using len by (metis length_Suc_conv numeral_eq_Suc pred_numeral_simps(2,3))
    ultimately have "chequers (snd b) \<ge> 30" by simp
    with assms(3) show False by simp
  qed
  then show ?thesis by (simp add: cache_key_def PositionKey_def)
qed

section \<open>Instances\<close>

definition zero_memory :: "nat \<Rightarrow> cacheNode list option" where
  "zero_memory n = Some (replicate n
     (let d = \<lparr>nd_key = replicate 7 0, nEvalContext = 0, nd_ar = replicate 6 0\<rparr> in \<lparr>nd_primary = d, nd_secondary = d\<rparr>))"

lemma is_memory_zero: "is_memory zero_memory"
  by (auto simp: is_memory_def zero_memory_def Let_def)

definition small_cache :: evalCache where
  "small_cache = snd (CacheCreate zero_memory \<lparr>entries = [], cache_size = 0, hashMask = 0\<rparr> 3)"

lemma small_cache: "CacheCreate zero_memory \<lparr>entries = [], cache_size = 0, hashMask = 0\<rparr> 3 = (0, small_cache)"
proof -
  have "high_bit 2 = 2" by (simp add: high_bit.simps)
  then have "high_bit 3 = 2" by (subst high_bit.simps) simp
  then show ?thesis by (simp add: small_cache_def CacheCreate_def zero_memory_def)
qed

text \<open>Two evaluations of the starting position in the same context: the second one is found.\<close>

theorem cache_refines_map_witness:
  "snd (snd (CacheLookup (fold cache_op [Store (PositionKey (InitBoard VARIATION_STANDARD), 0) [1, 0, 0, 0, 0, 0],
       Store (PositionKey (InitBoard VARIATION_STANDARD), 0) [1 / 2, 1 / 4, 0, 0, 0, 3]] small_cache)
     (PositionKey (InitBoard VARIATION_STANDARD)) 0)) \<in> {None, Some ([1 / 2, 1 / 4, 0, 0, 0], 3)}"
proof -
  let ?k = "PositionKey (InitBoard VARIATION_STANDARD)"
  let ?ops = "[Store (?k, 0) [1, 0, 0, 0, 0, 0], Store (?k, 0) [1 / 2, 1 / 4, 0, 0, 0, 3]]"
  have k: "cache_key (?k, 0)" by (rule few_chequers_cache_key) (simp_all add: InitBoard_chequers anChequers_def)
  then have ops: "\<forall>x\<in>set ?ops. cache_key (op_key x)" by simp
  obtain l pc' r where look: "CacheLookup (fold cache_op ?ops small_cache) ?k 0 = (l, pc', r)"
    by (metis prod.exhaust)
  from cache_refines_map [OF _ _ is_memory_zero small_cache ops k look] show ?thesis
    using look by (cases r) auto
qed

end
