(* ===== verification/Match_Equity.thy ===== *)
theory Match_Equity
  imports Eval_Types
begin

text \<open>
  Match equities (matchequity.c): the lookup of match winning chances by score (\<open>getME\<close>,
  \<open>getMEAtScore\<close>), the batched lookup \<open>getMEMultiple\<close>, the exchange of the players in the
  tables (\<open>invertMET\<close>), gammon prices, and cash and doubling points; and the conversions
  between match winning chances and equity of eval.c.  The tables are functions of the indices
  of \<open>aafMET[MAXSCORE][MAXSCORE]\<close> and \<open>aafMETPostCrawford[2][MAXSCORE]\<close>.
\<close>

type_synonym met = "nat \<Rightarrow> nat \<Rightarrow> real"

section \<open>getME, getMEAtScore\<close>

definition getME :: "int \<Rightarrow> int \<Rightarrow> int \<Rightarrow> int \<Rightarrow> int \<Rightarrow> int \<Rightarrow> int \<Rightarrow> met \<Rightarrow> met \<Rightarrow> real" where
  "getME nScore0 nScore1 nMatchTo fPlayer nPoints fWhoWins fCrawford aafMET aafMETPostCrawford =
     (let n0 = nMatchTo - (nScore0 + cnot fWhoWins * nPoints) - 1;
          n1 = nMatchTo - (nScore1 + fWhoWins * nPoints) - 1 in
      if n0 < 0 then (if fPlayer \<noteq> 0 then 0 else 1)
      else if n1 < 0 then (if fPlayer \<noteq> 0 then 1 else 0)
      else if fCrawford \<noteq> 0 \<or> nMatchTo - nScore0 = 1 \<or> nMatchTo - nScore1 = 1 then
        (if n0 = 0 then
           (if fPlayer \<noteq> 0 then aafMETPostCrawford 1 (nat n1) else 1 - aafMETPostCrawford 1 (nat n1))
         else
           (if fPlayer \<noteq> 0 then 1 - aafMETPostCrawford 0 (nat n0) else aafMETPostCrawford 0 (nat n0)))
      else (if fPlayer \<noteq> 0 then 1 - aafMET (nat n0) (nat n1) else aafMET (nat n0) (nat n1)))"

definition getMEAtScore :: "int \<Rightarrow> int \<Rightarrow> int \<Rightarrow> int \<Rightarrow> int \<Rightarrow> met \<Rightarrow> met \<Rightarrow> real" where
  "getMEAtScore nScore0 nScore1 nMatchTo fPlayer fCrawford aafMET aafMETPostCrawford =
     (let n0 = nMatchTo - nScore0 - 1; n1 = nMatchTo - nScore1 - 1 in
      if n0 < 0 then (if fPlayer \<noteq> 0 then 0 else 1)
      else if n1 < 0 then (if fPlayer \<noteq> 0 then 1 else 0)
      else if fCrawford = 0 \<and> (nMatchTo - nScore0 = 1 \<or> nMatchTo - nScore1 = 1) then
        (if n0 = 0 then
           (if fPlayer \<noteq> 0 then aafMETPostCrawford 1 (nat n1) else 1 - aafMETPostCrawford 1 (nat n1))
         else
           (if fPlayer \<noteq> 0 then 1 - aafMETPostCrawford 0 (nat n0) else aafMETPostCrawford 0 (nat n0)))
      else (if fPlayer \<noteq> 0 then 1 - aafMET (nat n0) (nat n1) else aafMET (nat n0) (nat n1)))"

text \<open>The two players' chances add up to one, whatever the tables hold.\<close>

lemma getME_complement:
  "fPlayer \<noteq> 0 \<Longrightarrow> getME s0 s1 n fPlayer p w c T P = 1 - getME s0 s1 n 0 p w c T P"
  by (simp add: getME_def Let_def)

definition probability_table :: "met \<Rightarrow> bool" where
  "probability_table T \<longleftrightarrow> (\<forall>i j. 0 \<le> T i j \<and> T i j \<le> 1)"

lemma getME_range:
  "probability_table T \<Longrightarrow> probability_table P \<Longrightarrow>
   0 \<le> getME s0 s1 n f p w c T P \<and> getME s0 s1 n f p w c T P \<le> 1"
  by (auto simp: getME_def Let_def probability_table_def)

section \<open>getMEMultiple\<close>

text \<open>The indices of the results: wins and losses of player 0, five each, for three cube values.\<close>

definition NDL :: nat where "NDL = 5"
definition DTLB :: nat where "DTLB = 9"
definition DPP0 :: nat where "DPP0 = 10"
definition DTLBP0 :: nat where "DTLBP0 = 19"
definition DPP1 :: nat where "DPP1 = 20"
definition DTLBP1 :: nat where "DTLBP1 = 29"

lemmas met_indices = NDL_def DTLB_def DPP0_def DTLBP0_def DPP1_def DTLBP1_def

definition mult :: "int list" where "mult = [1, 2, 3, 4, 6]"

text \<open>The two loops that fill the scores for one cube value.\<close>

definition score_block :: "int \<Rightarrow> int \<Rightarrow> int \<Rightarrow> (int \<times> int) list" where
  "score_block away0 away1 nCube =
     map (\<lambda>i. (away0 - mult ! i * nCube, away1)) [0..<NDL]
     @ map (\<lambda>i. (away0, away1 - mult ! i * nCube)) [0..<NDL]"

text \<open>One turn of the lookup loop.\<close>

definition lookup_equities :: "bool \<Rightarrow> met \<Rightarrow> met \<Rightarrow> int \<times> int \<Rightarrow> real \<times> real" where
  "lookup_equities fCrawf T P = (\<lambda>(s0, s1).
     if s0 < 0 then (1, 0)
     else if s1 < 0 then (0, 1)
     else if fCrawf then
       (if s0 = 0 then (1 - P 1 (nat s1), P 1 (nat s1))
        else (P 0 (nat s0), 1 - P 0 (nat s0)))
     else (T (nat s0) (nat s1), 1 - T (nat s0) (nat s1)))"

text \<open>The final loops exchange the two halves of a block of ten, starting at \<open>k\<close>.\<close>

definition swap_block :: "nat \<Rightarrow> real list \<Rightarrow> real list" where
  "swap_block k ps =
     fold (\<lambda>i ps. ps[k + i := ps ! (k + NDL + i), k + NDL + i := ps ! (k + i)]) [0..<NDL] ps"

definition getMEMultiple ::
  "int \<Rightarrow> int \<Rightarrow> int \<Rightarrow> int \<Rightarrow> int \<Rightarrow> int \<Rightarrow> int \<Rightarrow> met \<Rightarrow> met \<Rightarrow> real list \<times> real list" where
  "getMEMultiple nScore0 nScore1 nMatchTo nCube nCubePrime0 nCubePrime1 fCrawford T P =
     (let max_res = (if nCubePrime0 < 0 then DTLB + 1
                     else if nCubePrime1 < 0 then DTLBP0 + 1 else DTLBP1 + 1);
          away0 = nMatchTo - nScore0 - 1;
          away1 = nMatchTo - nScore1 - 1;
          fCrawf = (fCrawford \<noteq> 0 \<or> nMatchTo - nScore0 = 1 \<or> nMatchTo - nScore1 = 1);
          scores = score_block away0 away1 nCube
            @ (if max_res > DPP0 then
                 score_block away0 away1 nCubePrime0
                 @ (if max_res > DPP1 then score_block away0 away1 nCubePrime1 else [])
               else []);
          player0 = map (\<lambda>s. fst (lookup_equities fCrawf T P s)) (take max_res scores);
          player1 = map (\<lambda>s. snd (lookup_equities fCrawf T P s)) (take max_res scores);
          player1 = swap_block 0 player1;
          player1 = (if max_res > DTLBP0 then swap_block (2 * NDL) player1 else player1);
          player1 = (if max_res > DTLBP1 then swap_block (4 * NDL) player1 else player1)
      in (player0, player1))"

text \<open>The reference: one call of \<open>getME\<close> for each result.\<close>

definition win_block ::
  "int \<Rightarrow> int \<Rightarrow> int \<Rightarrow> int \<Rightarrow> int \<Rightarrow> int \<Rightarrow> met \<Rightarrow> met \<Rightarrow> real list" where
  "win_block s0 s1 n fPlayer nCube fCrawford T P =
     map (\<lambda>m. getME s0 s1 n fPlayer (m * nCube) fPlayer fCrawford T P) mult
     @ map (\<lambda>m. getME s0 s1 n fPlayer (m * nCube) (1 - fPlayer) fCrawford T P) mult"

lemma upt_NDL: "[0..<NDL] = [0, 1, 2, 3, 4]"
  by (simp add: NDL_def upt_conv_Cons eval_nat_numeral)

lemma score_block_list:
  "score_block a0 a1 k =
   [(a0 - 1 * k, a1), (a0 - 2 * k, a1), (a0 - 3 * k, a1), (a0 - 4 * k, a1), (a0 - 6 * k, a1),
    (a0, a1 - 1 * k), (a0, a1 - 2 * k), (a0, a1 - 3 * k), (a0, a1 - 4 * k), (a0, a1 - 6 * k)]"
  by (simp add: score_block_def upt_NDL mult_def)

lemma swap_block_0:
  "swap_block 0 (a # b # c # d # e # f # g # h # i # j # ps) = f # g # h # i # j # a # b # c # d # e # ps"
  by (simp add: swap_block_def upt_NDL) (simp add: NDL_def eval_nat_numeral)

lemma swap_block_append: "length xs = k \<Longrightarrow> swap_block k (xs @ ps) = xs @ swap_block 0 ps"
  by (simp add: swap_block_def upt_NDL list_update_append nth_append)

definition crawford_now :: "int \<Rightarrow> int \<Rightarrow> int \<Rightarrow> int \<Rightarrow> bool" where
  "crawford_now s0 s1 n c \<longleftrightarrow> c \<noteq> 0 \<or> n - s0 = 1 \<or> n - s1 = 1"

lemma getME_lookup:
  "getME s0 s1 n 0 p 0 c T P = fst (lookup_equities (crawford_now s0 s1 n c) T P (n - s0 - 1 - p, n - s1 - 1))"
  "getME s0 s1 n 0 p 1 c T P = fst (lookup_equities (crawford_now s0 s1 n c) T P (n - s0 - 1, n - s1 - 1 - p))"
  "getME s0 s1 n 1 p 0 c T P = snd (lookup_equities (crawford_now s0 s1 n c) T P (n - s0 - 1 - p, n - s1 - 1))"
  "getME s0 s1 n 1 p 1 c T P = snd (lookup_equities (crawford_now s0 s1 n c) T P (n - s0 - 1, n - s1 - 1 - p))"
  by (simp_all add: getME_def lookup_equities_def crawford_now_def cnot_def Let_def algebra_simps)

lemma block_player0:
  "map (\<lambda>s. fst (lookup_equities (crawford_now s0 s1 n c) T P s)) (score_block (n - s0 - 1) (n - s1 - 1) k) =
   win_block s0 s1 n 0 k c T P"
  by (simp add: score_block_list win_block_def mult_def getME_lookup)

lemma block_player1:
  "swap_block 0 (map (\<lambda>s. snd (lookup_equities (crawford_now s0 s1 n c) T P s))
      (score_block (n - s0 - 1) (n - s1 - 1) k) @ ps) =
   win_block s0 s1 n 1 k c T P @ ps"
  by (simp add: score_block_list win_block_def mult_def getME_lookup swap_block_0)

lemma length_win_block [simp]: "length (win_block s0 s1 n f k c T P) = 10"
  by (simp add: win_block_def mult_def)

lemma length_score_block [simp]: "length (score_block a0 a1 k) = 10"
  by (simp add: score_block_def NDL_def)

text \<open>
  The batched lookup returns, for both players and every cube value asked for, exactly what
  single lookups return: wins first and losses after them, from either player's view.
\<close>

text \<open>C36: The unrolled computation of the equities of all outcomes is nine getME lookups a side, for both
  players.\<close>

theorem getMEMultiple_eq:
  "getMEMultiple s0 s1 n k k0 k1 c T P =
   (let blocks = (\<lambda>f. win_block s0 s1 n f k c T P
        @ (if k0 < 0 then [] else win_block s0 s1 n f k0 c T P
             @ (if k1 < 0 then [] else win_block s0 s1 n f k1 c T P)))
    in (blocks 0, blocks 1))"
proof -
  note b = block_player1 [of s0 s1 n c T P _ "[]", simplified]
  have s20: "swap_block 20 (xs @ ys @ zs) = xs @ ys @ swap_block 0 zs"
    if "length xs = 10" "length ys = 10" for xs ys zs
    using swap_block_append [of "xs @ ys" 20 zs] that by simp
  show ?thesis
    unfolding getMEMultiple_def Let_def crawford_now_def [symmetric]
    by (simp add: met_indices block_player0 block_player1 b swap_block_append s20)
qed

section \<open>invertMET\<close>

text \<open>The in-place loops over both tables.\<close>

definition update2 :: "met \<Rightarrow> nat \<Rightarrow> nat \<Rightarrow> real \<Rightarrow> met" where
  "update2 T i j v = T(i := (T i)(j := v))"

definition invert_row :: "nat \<Rightarrow> met \<times> met \<Rightarrow> met \<times> met" where
  "invert_row i = (\<lambda>(T, P).
     let T = update2 T i i (1 - T i i);
         r = P 0 i;
         P = update2 P 0 i (P 1 i);
         P = update2 P 1 i r;
         T = fold (\<lambda>j T. let r = T i j; T = update2 T i j (1 - T j i) in update2 T j i (1 - r)) [0..<i] T
     in (T, P))"

text \<open>\<open>invertMET\<close> also recomputes the gammon prices, with \<open>calcGammonPrices\<close> below.\<close>

definition invertMET :: "met \<times> met \<Rightarrow> met \<times> met" where
  "invertMET TP = fold invert_row [0..<64] TP"

lemma update2_apply: "update2 T i j v a b = (if a = i \<and> b = j then v else T a b)"
  by (simp add: update2_def)

lemma invert_row_inner:
  "n \<le> i \<Longrightarrow>
   fold (\<lambda>j T. let r = T i j; T = update2 T i j (1 - T j i) in update2 T j i (1 - r)) [0..<n] T a b =
     (if (a = i \<and> b < n) \<or> (b = i \<and> a < n) then 1 - T b a else T a b)"
  by (induction n arbitrary: a b) (auto simp: Let_def update2_apply less_Suc_eq)

lemma invert_rows:
  "fold invert_row [0..<n] (T, P) =
   ((\<lambda>a b. if a < n \<and> b < n then 1 - T b a else T a b),
    (\<lambda>a b. if b < n \<and> a = 0 then P 1 b else if b < n \<and> a = 1 then P 0 b else P a b))"
proof (induction n)
  case 0
  then show ?case by simp
next
  case (Suc n)
  show ?case
    unfolding fold_upt_Suc Suc
    by (auto simp: invert_row_def Let_def invert_row_inner [OF order_refl, unfolded Let_def]
        update2_apply fun_eq_iff less_Suc_eq)
qed

lemma invertMET_eq:
  "invertMET (T, P) =
   ((\<lambda>a b. if a < 64 \<and> b < 64 then 1 - T b a else T a b),
    (\<lambda>a b. if b < 64 \<and> a = 0 then P 1 b else if b < 64 \<and> a = 1 then P 0 b else P a b))"
  unfolding invertMET_def by (rule invert_rows)

lemma invertMET_involutive: "invertMET (invertMET TP) = TP"
  by (cases TP) (auto simp: invertMET_eq fun_eq_iff)

text \<open>
  The inverted tables are the tables of the exchanged players: a lookup with the scores, the
  winner and the point of view exchanged gives the same chances.
\<close>

text \<open>Swapping the table and the players leaves every match equity as it is.\<close>

lemma getME_invertMET:
  assumes "nMatch \<le> 64" "0 \<le> s0" "s0 < nMatch" "0 \<le> s1" "s1 < nMatch" "0 < p"
    and fw: "f = 0 \<or> f = 1" "w = 0 \<or> w = 1"
    and crawford: "c \<noteq> 0 \<Longrightarrow> nMatch - s0 = 1 \<or> nMatch - s1 = 1"
    and dmp: "P 0 0 + P 1 0 = 1"
  shows "getME s1 s0 nMatch (1 - f) p (1 - w) c (fst (invertMET (T, P))) (snd (invertMET (T, P))) =
    getME s0 s1 nMatch f p w c T P"
proof -
  define n0 n1 where n: "n0 = nMatch - (s0 + (1 - w) * p) - 1" "n1 = nMatch - (s1 + w * p) - 1"
  have one: "\<not> (n0 < 0 \<and> n1 < 0)" using assms by (auto simp: n)
  have b: "n0 < 64" "n1 < 64" using assms by (auto simp: n)
  have cr: "crawford_now s0 s1 nMatch c \<Longrightarrow> n0 \<le> 0 \<or> n1 \<le> 0"
    using fw(2) assms crawford by (auto simp: crawford_now_def n)
  have cs: "crawford_now s1 s0 nMatch c = crawford_now s0 s1 nMatch c"
    by (auto simp: crawford_now_def)
  have e: "cnot w = 1 - w" "cnot (1 - w) = w" using fw(2) by (auto simp: cnot_def)
  have eqs: "nMatch - (s0 + cnot w * p) - 1 = n0" "nMatch - (s1 + w * p) - 1 = n1"
    "nMatch - (s1 + cnot (1 - w) * p) - 1 = n1" "nMatch - (s0 + (1 - w) * p) - 1 = n0"
    by (simp_all add: n e)
  have c': "c \<noteq> 0 \<or> nMatch - s1 = 1 \<or> nMatch - s0 = 1 \<longleftrightarrow> crawford_now s0 s1 nMatch c"
    "c \<noteq> 0 \<or> nMatch - s0 = 1 \<or> nMatch - s1 = 1 \<longleftrightarrow> crawford_now s0 s1 nMatch c"
    by (auto simp: crawford_now_def)
  have d: "P (Suc 0) 0 = 1 - P 0 0" using dmp by simp
  show ?thesis
    unfolding getME_def Let_def eqs c'
    using fw(1) one b cr by (auto simp: invertMET_eq nat_less_iff d)
qed

section \<open>Gammon prices\<close>

text \<open>\<open>1.0E-7f\<close>.\<close>

definition price_epsilon :: real where "price_epsilon = 1 / 10 ^ 7"

definition getGammonPrice :: "int \<Rightarrow> int \<Rightarrow> int \<Rightarrow> int \<Rightarrow> int \<Rightarrow> met \<Rightarrow> met \<Rightarrow> real list" where
  "getGammonPrice nScore0 nScore1 nMatch nCube fCr T P =
     (let rWin = getME nScore0 nScore1 nMatch 0 nCube 0 fCr T P;
          rWinGammon = getME nScore0 nScore1 nMatch 0 (2 * nCube) 0 fCr T P;
          rWinBG = getME nScore0 nScore1 nMatch 0 (3 * nCube) 0 fCr T P;
          rLose = getME nScore0 nScore1 nMatch 0 nCube 1 fCr T P;
          rLoseGammon = getME nScore0 nScore1 nMatch 0 (2 * nCube) 1 fCr T P;
          rLoseBG = getME nScore0 nScore1 nMatch 0 (3 * nCube) 1 fCr T P;
          rCenter = (rWin + rLose) / 2;
          price =
            (if \<bar>rWin - rCenter\<bar> > price_epsilon then
               let p0 = (rWinGammon - rCenter) / (rWin - rCenter) - 1;
                   p1 = (rCenter - rLoseGammon) / (rWin - rCenter) - 1;
                   p2 = (rWinBG - rCenter) / (rWin - rCenter) - (p0 + 1);
                   p3 = (rCenter - rLoseBG) / (rWin - rCenter) - (p1 + 1)
               in [p0, p1, p2, p3]
             else [0, 0, 0, 0])
      in map (\<lambda>p. if p < 0 then 0 else p) price)"

text \<open>The tables of prices, for cube levels \<open>i\<close> and away scores \<open>j + 1\<close>, \<open>k + 1\<close>.\<close>

definition gammon_prices :: "met \<Rightarrow> met \<Rightarrow> nat \<Rightarrow> nat \<Rightarrow> nat \<Rightarrow> real list" where
  "gammon_prices T P i j k =
     getGammonPrice (64 - int j - 1) (64 - int k - 1) 64 (2 ^ i)
       (if 64 = j \<or> 64 = k then 1 else 0) T P"

definition gammon_prices_post :: "met \<Rightarrow> met \<Rightarrow> nat \<Rightarrow> nat \<Rightarrow> nat \<Rightarrow> real list" where
  "gammon_prices_post T P i j p =
     (if p = 0 then getGammonPrice (64 - 1) (64 - int j - 1) 64 (2 ^ i) 0 T P
      else getGammonPrice (64 - int j - 1) (64 - 1) 64 (2 ^ i) 0 T P)"

text \<open>
  The comments of the code: the prices reduce to twice the usual gammon values, and are never
  negative.
\<close>

lemma getGammonPrice_nonneg: "\<forall>p\<in>set (getGammonPrice s0 s1 n k c T P). 0 \<le> p"
  by (auto simp: getGammonPrice_def Let_def)

lemma price_reduce: "x \<noteq> (y :: real) \<Longrightarrow>
  (g - (x + y) / 2) / (x - (x + y) / 2) - 1 = 2 * (g - x) / (x - y)"
proof -
  assume "x \<noteq> y"
  moreover have "x - (x + y) / 2 = (x - y) / 2" by (simp add: field_simps)
  ultimately show ?thesis by (simp add: field_simps)
qed

lemma price_reduce': "x \<noteq> (y :: real) \<Longrightarrow>
  ((x + y) / 2 - g) / (x - (x + y) / 2) - 1 = 2 * (y - g) / (x - y)"
proof -
  assume "x \<noteq> y"
  moreover have "x - (x + y) / 2 = (x - y) / 2" by (simp add: field_simps)
  ultimately show ?thesis by (simp add: field_simps)
qed

lemma getGammonPrice_formula:
  fixes T P s0 s1 n k c
  defines "win m \<equiv> getME s0 s1 n 0 (m * k) 0 c T P" and "lose m \<equiv> getME s0 s1 n 0 (m * k) 1 c T P"
  assumes "\<bar>win 1 - lose 1\<bar> > 2 * price_epsilon"
  shows "getGammonPrice s0 s1 n k c T P ! 0 = max 0 (2 * (win 2 - win 1) / (win 1 - lose 1))"
    and "getGammonPrice s0 s1 n k c T P ! 1 = max 0 (2 * (lose 1 - lose 2) / (win 1 - lose 1))"
proof -
  have ne: "win 1 \<noteq> lose 1" using assms(3) by (auto simp: price_epsilon_def)
  have e: "win 1 - (win 1 + lose 1) / 2 = (win 1 - lose 1) / 2" by (simp add: field_simps)
  have big: "price_epsilon < \<bar>win 1 - (win 1 + lose 1) / 2\<bar>"
    unfolding e using assms(3) by (simp add: abs_divide)
  have w1: "getME s0 s1 n 0 k 0 c T P = win 1" "getME s0 s1 n 0 k 1 c T P = lose 1"
    by (simp_all add: win_def lose_def)
  show "getGammonPrice s0 s1 n k c T P ! 0 = max 0 (2 * (win 2 - win 1) / (win 1 - lose 1))"
    using big price_reduce [OF ne, of "win 2"]
    unfolding getGammonPrice_def Let_def w1 win_def [symmetric] lose_def [symmetric]
    by (simp add: max_def)
  show "getGammonPrice s0 s1 n k c T P ! 1 = max 0 (2 * (lose 1 - lose 2) / (win 1 - lose 1))"
    using big price_reduce' [OF ne, of "lose 2"]
    unfolding getGammonPrice_def Let_def w1 win_def [symmetric] lose_def [symmetric]
    by (simp add: max_def)
qed

section \<open>Cash points and doubling points\<close>

definition GetCubePrimeValue :: "int \<Rightarrow> int \<Rightarrow> int \<Rightarrow> int" where
  "GetCubePrimeValue i j nCubeValue =
     (if i < 2 * nCubeValue \<and> j \<ge> 2 * nCubeValue then 2 * nCubeValue else nCubeValue)"

text \<open>Gammon and backgammon ratios of the wins and of the losses.\<close>

definition win_ratios :: "real list \<Rightarrow> real \<times> real" where
  "win_ratios ar =
     (if ar ! OUTPUT_WIN > 0 then
        ((ar ! OUTPUT_WINGAMMON - ar ! OUTPUT_WINBACKGAMMON) / ar ! OUTPUT_WIN,
         ar ! OUTPUT_WINBACKGAMMON / ar ! OUTPUT_WIN)
      else (0, 0))"

definition lose_ratios :: "real list \<Rightarrow> real \<times> real" where
  "lose_ratios ar =
     (if ar ! OUTPUT_WIN < 1 then
        ((ar ! OUTPUT_LOSEGAMMON - ar ! OUTPUT_LOSEBACKGAMMON) / (1 - ar ! OUTPUT_WIN),
         ar ! OUTPUT_LOSEBACKGAMMON / (1 - ar ! OUTPUT_WIN))
      else (0, 0))"

text \<open>The value and level at which the cube is dead; a cube value of 0 or less loops for ever.\<close>

partial_function (option) dead_cube :: "int \<Rightarrow> int \<Rightarrow> int \<Rightarrow> nat \<Rightarrow> (int \<times> nat) option" where
  "dead_cube i j nDead nMax =
     (if i \<ge> 2 * nDead \<and> j \<ge> 2 * nDead then dead_cube i j (nDead * 2) (nMax + 1)
      else Some (nDead, nMax))"

text \<open>
  The body of the loop over cube values for player \<open>k\<close>: \<open>me\<close> holds his results of
  \<open>getMEMultiple\<close>, \<open>next_live\<close> is \<open>arCPLive[!k][n + 1]\<close>.
\<close>

definition cash_point ::
  "int \<Rightarrow> int \<Rightarrow> int \<Rightarrow> nat \<Rightarrow> real \<times> real \<Rightarrow> real \<times> real \<Rightarrow> real list \<Rightarrow> real \<Rightarrow> real" where
  "cash_point i j nCubeValue k own opp me next_live =
     (let (arG, arBG) = own; (arG', arBG') = opp in
      if i < 2 * nCubeValue \<or> j < 2 * nCubeValue then
        let rDTL = (1 - arG' - arBG') * me ! (if k \<noteq> 0 then 26 else 16)
              + arG' * me ! (if k \<noteq> 0 then 28 else 18)
              + arBG' * me ! (if k \<noteq> 0 then 29 else 19);
            rDP = me ! 0;
            rDTW = (1 - arG - arBG) * me ! (if k \<noteq> 0 then 21 else 11)
              + arG * me ! (if k \<noteq> 0 then 23 else 13)
              + arBG * me ! (if k \<noteq> 0 then 24 else 14)
        in (rDTL - rDP) / (rDTL - rDTW)
      else
        let rRDP = me ! 6;
            rDP = me ! 0;
            rDTW = (1 - arG - arBG) * me ! 1 + arG * me ! 3 + arBG * me ! 4
        in 1 - next_live * (rDP - rDTW) / (rRDP - rDTW))"

definition GetPoints :: "real list \<Rightarrow> cubeinfo \<Rightarrow> met \<Rightarrow> met \<Rightarrow> (real \<times> real) option" where
  "GetPoints ar pci T P =
     (let (score0, score1) = ci_anScore pci;
          i = ci_nMatchTo pci - score0 - 1;
          j = ci_nMatchTo pci - score1 - 1;
          nCube = ci_nCube pci;
          (r0, r1) = (if ci_fMove pci = 0 then (win_ratios ar, lose_ratios ar)
                      else (lose_ratios ar, win_ratios ar))
      in map_option (\<lambda>(nDead, nMax).
           fold (\<lambda>n (live0, live1).
               let nCubeValue = drop_bit (nMax - n) nDead;
                   (me0, me1) = getMEMultiple score0 score1 (ci_nMatchTo pci) nCubeValue
                     (GetCubePrimeValue i j nCubeValue) (GetCubePrimeValue j i nCubeValue)
                     (ci_fCrawford pci) T P
               in (cash_point i j nCubeValue 0 r0 r1 me0 live1,
                   cash_point i j nCubeValue 1 r1 r0 me1 live0))
             (rev [0..<nMax + 1]) (0, 0))
         (dead_cube i j nCube 0))"

definition GetDoublePointDeadCube :: "real list \<Rightarrow> cubeinfo \<Rightarrow> met \<Rightarrow> met \<Rightarrow> real" where
  "GetDoublePointDeadCube ar pci T P =
     (if ci_nMatchTo pci = 0 then
        let rW = (if ar ! 0 > 0 then 1 + (ar ! 1 + ar ! 2) / ar ! 0 else 1);
            rL = (if ar ! 0 < 1 then 1 + (ar ! 3 + ar ! 4) / (1 - ar ! 0) else 1)
        in if ci_fCubeOwner pci = - 1 \<and> ci_fJacoby pci \<noteq> 0 then
             (if ci_fBeavers pci \<noteq> 0 then (rL - 1 / 4) / (rW + rL - 1 / 2)
              else (rL - 1 / 2) / (rW + rL - 1))
           else rL / (rL + rW)
      else
        let (rG1, rBG1) = win_ratios ar;
            (rG2, rBG2) = lose_ratios ar;
            (me0, me1) = getMEMultiple (fst (ci_anScore pci)) (snd (ci_anScore pci)) (ci_nMatchTo pci)
              (ci_nCube pci) (- 1) (- 1) (ci_fCrawford pci) T P;
            me = (if ci_fMove pci = 0 then me0 else me1);
            rDTW = (1 - rG1 - rBG1) * me ! 1 + rG1 * me ! 3 + rBG1 * me ! 4;
            rNDW = (1 - rG1 - rBG1) * me ! 0 + rG1 * me ! 1 + rBG1 * me ! 2;
            rDTL = (1 - rG2 - rBG2) * me ! 6 + rG2 * me ! 8 + rBG2 * me ! 9;
            rNDL = (1 - rG2 - rBG2) * me ! 5 + rG2 * me ! 6 + rBG2 * me ! 7;
            rRisk = rNDL - rDTL;
            rGain = rDTW - rNDW
        in rRisk / (rRisk + rGain))"

text \<open>
  The loop ends for every legal cube, at a level inside the arrays of \<open>MAXCUBELEVEL\<close> (7)
  entries, and \<open>GetPoints\<close> returns.
\<close>

lemma dead_cube_returns:
  "1 \<le> nDead \<Longrightarrow> \<exists>d m. dead_cube i j nDead nMax = Some (d, nMax + m) \<and> d = nDead * 2 ^ m \<and>
     (i < 2 * d \<or> j < 2 * d) \<and> (m = 0 \<or> (d \<le> i \<and> d \<le> j))"
proof (induction "nat (i - nDead)" arbitrary: nDead nMax rule: less_induct)
  case less
  show ?case
  proof (cases "i \<ge> 2 * nDead \<and> j \<ge> 2 * nDead")
    case False
    then show ?thesis by (subst dead_cube.simps) (auto intro!: exI [of _ 0])
  next
    case True
    then have "nat (i - nDead * 2) < nat (i - nDead)" using less.prems by linarith
    moreover have "1 \<le> nDead * 2" using less.prems by simp
    ultimately obtain d m where
      d: "dead_cube i j (nDead * 2) (nMax + 1) = Some (d, nMax + 1 + m)" "d = nDead * 2 * 2 ^ m"
        "i < 2 * d \<or> j < 2 * d" "m = 0 \<or> (d \<le> i \<and> d \<le> j)"
      using less.hyps by blast
    then show ?thesis using True
      by (subst dead_cube.simps) (auto intro!: exI [of _ "Suc m"])
  qed
qed

lemma dead_cube_level:
  assumes "1 \<le> nCube" "i \<le> 63"
  shows "\<exists>m. dead_cube i j nCube 0 = Some (nCube * 2 ^ m, m) \<and> m < 7"
proof -
  obtain d m where d: "dead_cube i j nCube 0 = Some (d, 0 + m)" "d = nCube * 2 ^ m" "m = 0 \<or> d \<le> i"
    using dead_cube_returns [OF assms(1), of i j 0] by blast
  have "m < 7"
  proof (rule ccontr)
    assume "\<not> m < 7"
    then have "(2 :: int) ^ 7 \<le> 2 ^ m" by (intro power_increasing) auto
    also have "\<dots> \<le> nCube * 2 ^ m" using assms(1) by simp
    finally show False using d assms(2) \<open>\<not> m < 7\<close> by simp
  qed
  with d show ?thesis by auto
qed

text \<open>The cash points are computed for every cube and score of a match: the recursion over dead cubes
  ends.\<close>

lemma GetPoints_returns:
  assumes "1 \<le> ci_nCube pci" "ci_nMatchTo pci - fst (ci_anScore pci) \<le> 64"
  shows "\<exists>cp. GetPoints ar pci T P = Some cp"
  using dead_cube_level [of "ci_nCube pci" "ci_nMatchTo pci - fst (ci_anScore pci) - 1"
      "ci_nMatchTo pci - snd (ci_anScore pci) - 1"] assms
  by (auto simp: GetPoints_def Let_def split_beta)

text \<open>In money play the doubling point of a dead cube is a proper probability.\<close>

lemma GetDoublePointDeadCube_money:
  assumes "ci_nMatchTo pci = 0" "0 \<le> ar ! 1" "0 \<le> ar ! 2" "0 \<le> ar ! 3" "0 \<le> ar ! 4"
  shows "0 < GetDoublePointDeadCube ar pci T P \<and> GetDoublePointDeadCube ar pci T P < 1"
proof -
  define rW where "rW = (if ar ! 0 > 0 then 1 + (ar ! 1 + ar ! 2) / ar ! 0 else 1)"
  define rL where "rL = (if ar ! 0 < 1 then 1 + (ar ! 3 + ar ! 4) / (1 - ar ! 0) else 1)"
  have ge: "1 \<le> rW" "1 \<le> rL" using assms by (simp_all add: rW_def rL_def)
  then have "0 < (rL - 1 / 4) / (rW + rL - 1 / 2)" "(rL - 1 / 4) / (rW + rL - 1 / 2) < 1"
    "0 < (rL - 1 / 2) / (rW + rL - 1)" "(rL - 1 / 2) / (rW + rL - 1) < 1"
    "0 < rL / (rL + rW)" "rL / (rL + rW) < 1"
    by (auto simp: divide_less_eq)
  then show ?thesis
    using assms(1) unfolding GetDoublePointDeadCube_def rW_def [symmetric] rL_def [symmetric] Let_def
    by simp
qed

section \<open>Match winning chances and equity\<close>

definition mwc_win_lose :: "cubeinfo \<Rightarrow> met \<Rightarrow> met \<Rightarrow> real \<times> real" where
  "mwc_win_lose pci T P =
     (getME (fst (ci_anScore pci)) (snd (ci_anScore pci)) (ci_nMatchTo pci)
        (ci_fMove pci) (ci_nCube pci) (ci_fMove pci) (ci_fCrawford pci) T P,
      getME (fst (ci_anScore pci)) (snd (ci_anScore pci)) (ci_nMatchTo pci)
        (ci_fMove pci) (ci_nCube pci) (cnot (ci_fMove pci)) (ci_fCrawford pci) T P)"

definition mwc2eq :: "real \<Rightarrow> cubeinfo \<Rightarrow> met \<Rightarrow> met \<Rightarrow> real" where
  "mwc2eq rMwc pci T P =
     (let (rMwcWin, rMwcLose) = mwc_win_lose pci T P
      in (2 * rMwc - (rMwcWin + rMwcLose)) / (rMwcWin - rMwcLose))"

definition eq2mwc :: "real \<Rightarrow> cubeinfo \<Rightarrow> met \<Rightarrow> met \<Rightarrow> real" where
  "eq2mwc rEq pci T P =
     (let (rMwcWin, rMwcLose) = mwc_win_lose pci T P
      in 1 / 2 * (rEq * (rMwcWin - rMwcLose) + (rMwcWin + rMwcLose)))"

definition se_mwc2eq :: "real \<Rightarrow> cubeinfo \<Rightarrow> met \<Rightarrow> met \<Rightarrow> real" where
  "se_mwc2eq rMwc pci T P =
     (let (rMwcWin, rMwcLose) = mwc_win_lose pci T P in 2 / (rMwcWin - rMwcLose) * rMwc)"

definition se_eq2mwc :: "real \<Rightarrow> cubeinfo \<Rightarrow> met \<Rightarrow> met \<Rightarrow> real" where
  "se_eq2mwc rEq pci T P =
     (let (rMwcWin, rMwcLose) = mwc_win_lose pci T P in 1 / 2 * rEq * (rMwcWin - rMwcLose))"

text \<open>A score at which the game matters.\<close>

definition live_score :: "cubeinfo \<Rightarrow> met \<Rightarrow> met \<Rightarrow> bool" where
  "live_score pci T P \<longleftrightarrow> fst (mwc_win_lose pci T P) \<noteq> snd (mwc_win_lose pci T P)"

lemma mwc_eq_inverses:
  assumes "live_score pci T P"
  shows "mwc2eq (eq2mwc e pci T P) pci T P = e" and "eq2mwc (mwc2eq m pci T P) pci T P = m"
  using assms by (simp_all add: live_score_def mwc2eq_def eq2mwc_def split_beta field_simps)

lemma se_eq_inverse:
  assumes "live_score pci T P"
  shows "se_mwc2eq (se_eq2mwc e pci T P) pci T P = e" and "se_eq2mwc (se_mwc2eq m pci T P) pci T P = m"
  using assms by (simp_all add: live_score_def se_mwc2eq_def se_eq2mwc_def split_beta field_simps)

text \<open>Winning the game at the current cube is equity 1, losing it is -1.\<close>

lemma mwc2eq_unit:
  assumes "live_score pci T P"
  shows "mwc2eq (fst (mwc_win_lose pci T P)) pci T P = 1 \<and> mwc2eq (snd (mwc_win_lose pci T P)) pci T P = - 1"
  using assms by (simp add: live_score_def mwc2eq_def split_beta field_simps)

section \<open>Conversions and prices\<close>

text \<open>Conversion between equity and match winning chance is invertible at every score where the game
  matters, and maps a win to 1 and a loss to -1.\<close>

lemma mwc_eq_inverse:
  assumes "live_score pci T P"
  shows "mwc2eq (eq2mwc e pci T P) pci T P = e \<and> eq2mwc (mwc2eq m pci T P) pci T P = m \<and>
    mwc2eq (fst (mwc_win_lose pci T P)) pci T P = 1 \<and> mwc2eq (snd (mwc_win_lose pci T P)) pci T P = - 1"
  using mwc_eq_inverses [OF assms] mwc2eq_unit [OF assms] by simp

text \<open>The gammon prices of both players are the ratio of what a gammon gains to what the game decides.\<close>

lemma getGammonPrice_exact:
  assumes "2 * price_epsilon < \<bar>getME s0 s1 n 0 k 0 c T P - getME s0 s1 n 0 k 1 c T P\<bar>"
  shows "getGammonPrice s0 s1 n k c T P ! 0 =
      max 0 (2 * (getME s0 s1 n 0 (2 * k) 0 c T P - getME s0 s1 n 0 k 0 c T P) /
        (getME s0 s1 n 0 k 0 c T P - getME s0 s1 n 0 k 1 c T P)) \<and>
    getGammonPrice s0 s1 n k c T P ! 1 =
      max 0 (2 * (getME s0 s1 n 0 k 1 c T P - getME s0 s1 n 0 (2 * k) 1 c T P) /
        (getME s0 s1 n 0 k 0 c T P - getME s0 s1 n 0 k 1 c T P)) \<and>
    (\<forall>p\<in>set (getGammonPrice s0 s1 n k c T P). 0 \<le> p)"
  using getGammonPrice_formula [of s0 s1 n k c T P] getGammonPrice_nonneg assms by simp

text \<open>A table linear in the points to go.\<close>

definition linear_met :: met where "linear_met i j = 1 / 2 + (real j - real i) / 10"

end
