(* ===== verification/Cube_Decision.thy ===== *)
theory Cube_Decision
  imports Match_Equity Eval_Outputs
begin

text \<open>
  The cube (eval.c): the cube information of a position, whether a double is possible
  (\<open>GetDPEq\<close>), the cube positions one decision leads to (\<open>MakeCubePos\<close>) with the equity of
  choosing among them (\<open>GetECF3\<close>), and the recommended action (\<open>FindBestCubeDecision\<close>).  The match
  equity tables \<open>aafMET\<close> and \<open>aafMETPostCrawford\<close> are the last two arguments.
\<close>

section \<open>Cube information\<close>

text \<open>The record \<open>memset\<close> leaves.\<close>

definition zero_cubeinfo :: cubeinfo where
  "zero_cubeinfo = \<lparr>ci_nCube = 0, ci_fCubeOwner = 0, ci_fMove = 0, ci_nMatchTo = 0, ci_anScore = (0, 0),
     ci_fCrawford = 0, ci_fJacoby = 0, ci_fBeavers = 0, ci_arGammonPrice = [0, 0, 0, 0],
     ci_bgv = VARIATION_STANDARD\<rparr>"

definition SetCubeInfoMoney :: "int \<Rightarrow> int \<Rightarrow> int \<Rightarrow> int \<Rightarrow> int \<Rightarrow> bgvariation \<Rightarrow> int \<times> cubeinfo" where
  "SetCubeInfoMoney cube owner player jacoby beavers variation =
     (if cube < 1 \<or> owner < - 1 \<or> owner > 1 \<or> player < 0 \<or> player > 1 then (- 1, zero_cubeinfo)
      else (0, \<lparr>ci_nCube = cube, ci_fCubeOwner = owner, ci_fMove = player, ci_nMatchTo = 0,
        ci_anScore = (0, 0), ci_fCrawford = 0, ci_fJacoby = jacoby, ci_fBeavers = beavers,
        ci_arGammonPrice = replicate 4 (if jacoby \<noteq> 0 \<and> owner = - 1 then 0 else 1), ci_bgv = variation\<rparr>))"

text \<open>\<open>None\<close> is a cube without a logarithm; the tables are those of \<open>gammon_prices\<close>.\<close>

definition SetCubeInfoMatch ::
  "int \<Rightarrow> int \<Rightarrow> int \<Rightarrow> int \<Rightarrow> int \<times> int \<Rightarrow> int \<Rightarrow> bgvariation \<Rightarrow> met \<Rightarrow> met \<Rightarrow> (int \<times> cubeinfo) option" where
  "SetCubeInfoMatch cube owner player length_to score crawford variation T P =
     (if cube < 1 \<or> owner < - 1 \<or> owner > 1 \<or> player < 0 \<or> player > 1 \<or> length_to < 1 \<or>
         fst score \<ge> length_to \<or> snd score \<ge> length_to then Some (- 1, zero_cubeinfo)
      else
        let nAway0 = length_to - fst score - 1; nAway1 = length_to - snd score - 1 in
        map_option (\<lambda>log.
            (0, \<lparr>ci_nCube = cube, ci_fCubeOwner = owner, ci_fMove = player, ci_nMatchTo = length_to,
              ci_anScore = score, ci_fCrawford = crawford, ci_fJacoby = 0, ci_fBeavers = 0,
              ci_arGammonPrice =
                (if (nAway0 = 0 \<or> nAway1 = 0) \<and> crawford = 0 then
                   (if nAway0 = 0 then gammon_prices_post T P (nat log) (nat nAway1) 0
                    else gammon_prices_post T P (nat log) (nat nAway0) 1)
                 else gammon_prices T P (nat log) (nat nAway0) (nat nAway1)),
              ci_bgv = variation\<rparr>))
          (LogCube cube))"

definition SetCubeInfo ::
  "int \<Rightarrow> int \<Rightarrow> int \<Rightarrow> int \<Rightarrow> int \<times> int \<Rightarrow> int \<Rightarrow> int \<Rightarrow> int \<Rightarrow> bgvariation \<Rightarrow> met \<Rightarrow> met \<Rightarrow> (int \<times> cubeinfo) option" where
  "SetCubeInfo cube owner player length_to score crawford jacoby beavers variation T P =
     (if length_to \<noteq> 0 then SetCubeInfoMatch cube owner player length_to score crawford variation T P
      else Some (SetCubeInfoMoney cube owner player jacoby beavers variation))"

definition fDoCubeful :: "cubeinfo \<Rightarrow> bool" where
  "fDoCubeful pci \<longleftrightarrow>
     \<not> (fst (ci_anScore pci) + ci_nCube pci \<ge> ci_nMatchTo pci \<and> snd (ci_anScore pci) + ci_nCube pci \<ge> ci_nMatchTo pci) \<and>
     \<not> (fst (ci_anScore pci) = ci_nMatchTo pci - 2 \<and> snd (ci_anScore pci) = ci_nMatchTo pci - 2) \<and>
     ci_fCrawford pci = 0"

text \<open>Whether a double is possible, and the equity of a pass.\<close>

definition GetDPEq :: "cubeinfo \<Rightarrow> met \<Rightarrow> met \<Rightarrow> bool \<times> real" where
  "GetDPEq pci T P =
     (let (s0, s1) = ci_anScore pci; n = ci_nMatchTo pci;
          own = ci_fCubeOwner pci = - 1 \<or> ci_fCubeOwner pci = ci_fMove pci in
      if n = 0 then (own, 1)
      else
        let fPostCrawford = ci_fCrawford pci = 0 \<and> (s0 = n - 1 \<or> s1 = n - 1);
            mine = side_of (ci_fMove pci) (s0, s1)
        in (ci_fCrawford pci = 0 \<and> mine + ci_nCube pci < n \<and> \<not> (fPostCrawford \<and> mine = n - 1) \<and> own,
            getME s0 s1 n (ci_fMove pci) (ci_nCube pci) (ci_fMove pci) (ci_fCrawford pci) T P))"

section \<open>The positions of the cube\<close>

text \<open>
  Two entries for every cube position: after no double, and after a double taken; \<open>nCube\<close> is
  \<open>- 1\<close> in an entry that is not available.  \<open>aci\<close> is the array before.
\<close>

definition cube_at :: "cubeinfo \<Rightarrow> bool \<Rightarrow> int \<Rightarrow> int \<Rightarrow> met \<Rightarrow> met \<Rightarrow> cubeinfo option" where
  "cube_at c fInvert n owner T P =
     map_option snd
       (SetCubeInfo n owner (if fInvert then cnot (ci_fMove c) else ci_fMove c) (ci_nMatchTo c)
          (ci_anScore c) (ci_fCrawford c) (ci_fJacoby c) (ci_fBeavers c) (ci_bgv c) T P)"

definition no_double_pos :: "cubeinfo \<Rightarrow> bool \<Rightarrow> cubeinfo \<Rightarrow> met \<Rightarrow> met \<Rightarrow> cubeinfo option" where
  "no_double_pos c fInvert a T P =
     (if ci_nCube c > 0 then cube_at c fInvert (ci_nCube c) (ci_fCubeOwner c) T P
      else Some (a\<lparr>ci_nCube := - 1\<rparr>))"

definition double_pos :: "cubeinfo \<Rightarrow> bool \<Rightarrow> bool \<Rightarrow> cubeinfo \<Rightarrow> met \<Rightarrow> met \<Rightarrow> cubeinfo option" where
  "double_pos c fTop fInvert b T P =
     (if \<not> fTop \<and> ci_nCube c > 0 \<and> fst (GetDPEq c T P)
      then cube_at c fInvert (2 * ci_nCube c) (cnot (ci_fMove c)) T P
      else Some (b\<lparr>ci_nCube := - 1\<rparr>))"

fun MakeCubePos :: "cubeinfo list \<Rightarrow> bool \<Rightarrow> cubeinfo list \<Rightarrow> bool \<Rightarrow> met \<Rightarrow> met \<Rightarrow> cubeinfo list option" where
  "MakeCubePos [] fTop aci fInvert T P = Some aci"
| "MakeCubePos (c # cs) fTop (a # b # aci) fInvert T P =
     (case (no_double_pos c fInvert a T P, double_pos c fTop fInvert b T P, MakeCubePos cs fTop aci fInvert T P) of
        (Some a, Some b, Some aci) \<Rightarrow> Some (a # b # aci)
      | _ \<Rightarrow> None)"
| "MakeCubePos (c # cs) fTop aci fInvert T P = None"

text \<open>The choice between the two entries of every position.\<close>

definition choose_double :: "real \<Rightarrow> real \<Rightarrow> real \<Rightarrow> real" where
  "choose_double rND rDT rDP =
     (if rDT \<ge> rND \<and> rDP \<ge> rND then (if rDT \<ge> rDP then rDP else rDT) else rND)"

definition GetECF3 :: "nat \<Rightarrow> real list \<Rightarrow> cubeinfo list \<Rightarrow> met \<Rightarrow> met \<Rightarrow> real list" where
  "GetECF3 cci arCf aci T P =
     map (\<lambda>ici. let i = 2 * ici in
         if ci_nCube (aci ! (i + 1)) > 0 then
           choose_double (arCf ! i)
             (if ci_nMatchTo (aci ! 0) \<noteq> 0 then arCf ! (i + 1) else 2 * arCf ! (i + 1))
             (snd (GetDPEq (aci ! i) T P))
         else arCf ! i)
       [0..<cci]"

section \<open>The recommended action\<close>

datatype cubedecision =
    DOUBLE_TAKE | DOUBLE_PASS | NODOUBLE_TAKE | TOOGOOD_TAKE | TOOGOOD_PASS | DOUBLE_BEAVER
  | NODOUBLE_BEAVER | REDOUBLE_TAKE | REDOUBLE_PASS | NO_REDOUBLE_TAKE | TOOGOODRE_TAKE
  | TOOGOODRE_PASS | NO_REDOUBLE_BEAVER | NODOUBLE_DEADCUBE | NO_REDOUBLE_DEADCUBE | NOT_AVAILABLE
  | OPTIONAL_DOUBLE_TAKE | OPTIONAL_REDOUBLE_TAKE | OPTIONAL_DOUBLE_BEAVER | OPTIONAL_DOUBLE_PASS
  | OPTIONAL_REDOUBLE_PASS

text \<open>The indices of \<open>arDouble\<close>.\<close>

definition OUTPUT_OPTIMAL :: nat where "OUTPUT_OPTIMAL = 0"
definition OUTPUT_NODOUBLE :: nat where "OUTPUT_NODOUBLE = 1"
definition OUTPUT_TAKE :: nat where "OUTPUT_TAKE = 2"
definition OUTPUT_DROP :: nat where "OUTPUT_DROP = 3"

lemmas double_outputs = OUTPUT_OPTIMAL_def OUTPUT_NODOUBLE_def OUTPUT_TAKE_def OUTPUT_DROP_def

definition isOptional :: "real \<Rightarrow> real \<Rightarrow> bool" where
  "isOptional r1 r2 \<longleftrightarrow> \<bar>r1 - r2\<bar> \<le> 1 / 10 ^ 5"

definition winGammon :: "real list \<Rightarrow> bool" where
  "winGammon arOutput \<longleftrightarrow> arOutput ! OUTPUT_WINGAMMON > 0"

text \<open>\<open>out0\<close> are the outputs after no double; the result holds \<open>arDouble\<close> with its optimum set.\<close>

definition FindBestCubeDecision ::
  "real list \<Rightarrow> real list \<Rightarrow> cubeinfo \<Rightarrow> met \<Rightarrow> met \<Rightarrow> cubedecision \<times> real list" where
  "FindBestCubeDecision arDouble out0 pci T P =
     (let centred = ci_fCubeOwner pci = - 1;
          ND = arDouble ! OUTPUT_NODOUBLE; DT = arDouble ! OUTPUT_TAKE; DP = arDouble ! OUTPUT_DROP;
          opt = (\<lambda>r. arDouble[OUTPUT_OPTIMAL := r]) in
      if \<not> fst (GetDPEq pci T P) then
        (if ci_nMatchTo pci \<noteq> 0 \<and> (ci_fCubeOwner pci < 0 \<or> ci_fCubeOwner pci = ci_fMove pci)
         then (if centred then NODOUBLE_DEADCUBE else NO_REDOUBLE_DEADCUBE) else NOT_AVAILABLE, opt ND)
      else if DT \<ge> ND \<and> DP \<ge> ND then
        (if DP > DT then
           (let f = isOptional DT ND in
            if ci_nMatchTo pci = 0 \<and> DT \<ge> - 2 \<and> DT \<le> 0 \<and> ci_fBeavers pci \<noteq> 0 then
              (if DT * 2 < ND then NODOUBLE_BEAVER
               else if f then OPTIONAL_DOUBLE_BEAVER else DOUBLE_BEAVER, opt DT)
            else if f then (if centred then OPTIONAL_DOUBLE_TAKE else OPTIONAL_REDOUBLE_TAKE, opt DT)
            else (if centred then DOUBLE_TAKE else REDOUBLE_TAKE, opt DT))
         else if isOptional ND DP \<and>
           (winGammon out0 \<and> (ci_nMatchTo pci \<noteq> 0 \<or> \<not> centred \<or> ci_fJacoby pci = 0))
         then (if centred then OPTIONAL_DOUBLE_PASS else OPTIONAL_REDOUBLE_PASS, opt DP)
         else (if centred then DOUBLE_PASS else REDOUBLE_PASS, opt DP))
      else if ND > DT then
        (if DT > DP then
           (if winGammon out0 then (if centred then TOOGOOD_PASS else TOOGOODRE_PASS)
            else (if centred then DOUBLE_PASS else REDOUBLE_PASS), opt ND)
         else if ND > DP then
           (if winGammon out0 then (if centred then TOOGOOD_TAKE else TOOGOODRE_TAKE)
            else (if centred then NODOUBLE_TAKE else NO_REDOUBLE_TAKE), opt ND)
         else
           (if DT \<ge> - 2 \<and> DT \<le> 0 \<and> ci_nMatchTo pci = 0 \<and> ci_fBeavers pci \<noteq> 0
            then (if centred then NODOUBLE_BEAVER else NO_REDOUBLE_BEAVER)
            else (if centred then NODOUBLE_TAKE else NO_REDOUBLE_TAKE), opt ND))
      else
        (if winGammon out0 then (if centred then TOOGOOD_PASS else TOOGOODRE_PASS)
         else (if centred then DOUBLE_PASS else REDOUBLE_PASS), opt ND))"

definition FindCubeDecision ::
  "real list \<Rightarrow> real list \<Rightarrow> real list \<Rightarrow> cubeinfo \<Rightarrow> met \<Rightarrow> met \<Rightarrow> cubedecision \<times> real list" where
  "FindCubeDecision arDouble out0 out1 pci T P =
     (let arDouble = arDouble[OUTPUT_DROP := snd (GetDPEq pci T P), OUTPUT_NODOUBLE := out0 ! OUTPUT_CUBEFUL_EQUITY,
            OUTPUT_TAKE := out1 ! OUTPUT_CUBEFUL_EQUITY];
          arDouble = (if ci_nMatchTo pci \<noteq> 0
            then fold (\<lambda>i ar. ar[i := mwc2eq (ar ! i) pci T P]) [1..<4] arDouble else arDouble)
      in FindBestCubeDecision arDouble out0 pci T P)"

definition isCloseCubedecision :: "real list \<Rightarrow> bool" where
  "isCloseCubedecision arDouble \<longleftrightarrow> arDouble ! OUTPUT_OPTIMAL - min (arDouble ! OUTPUT_TAKE) 1 < 16 / 100"

definition isMissedDouble :: "real list \<Rightarrow> real list \<Rightarrow> bool \<Rightarrow> cubeinfo \<Rightarrow> met \<Rightarrow> met \<Rightarrow> bool" where
  "isMissedDouble arDouble out0 fDouble pci T P \<longleftrightarrow>
     fst (FindBestCubeDecision arDouble out0 pci T P)
       \<in> {DOUBLE_TAKE, DOUBLE_PASS, DOUBLE_BEAVER, REDOUBLE_TAKE, REDOUBLE_PASS} \<and> \<not> fDouble"

datatype doubletype = DT_NORMAL | DT_BEAVER | DT_RACCOON

definition DoubleType :: "int \<Rightarrow> int \<Rightarrow> int \<Rightarrow> doubletype" where
  "DoubleType doubled player turn =
     (if doubled \<noteq> 0 then (if turn \<noteq> player then DT_BEAVER else DT_RACCOON) else DT_NORMAL)"

section \<open>The cube as it is used\<close>

text \<open>The cube information the engine works with: a power of two, and a match in progress.\<close>

definition valid_cube :: "cubeinfo \<Rightarrow> bool" where
  "valid_cube c \<longleftrightarrow> (\<exists>k. ci_nCube c = 2 ^ k) \<and> ci_fCubeOwner c \<in> {- 1, 0, 1} \<and> ci_fMove c \<in> {0, 1} \<and>
     (ci_nMatchTo c = 0 \<or> 0 < ci_nMatchTo c \<and> fst (ci_anScore c) < ci_nMatchTo c \<and> snd (ci_anScore c) < ci_nMatchTo c)"

text \<open>What \<open>SetCubeInfo\<close> takes over of the cube it is called for.\<close>

definition same_game :: "cubeinfo \<Rightarrow> cubeinfo \<Rightarrow> bool" where
  "same_game c d \<longleftrightarrow> ci_nMatchTo d = ci_nMatchTo c \<and> ci_bgv d = ci_bgv c \<and>
     (if ci_nMatchTo c = 0 then ci_fJacoby d = ci_fJacoby c \<and> ci_fBeavers d = ci_fBeavers c
      else ci_anScore d = ci_anScore c \<and> ci_fCrawford d = ci_fCrawford c)"

lemma valid_cubeI:
  "ci_nCube c = 2 ^ k \<Longrightarrow> ci_fCubeOwner c \<in> {- 1, 0, 1} \<Longrightarrow> ci_fMove c \<in> {0, 1} \<Longrightarrow>
   ci_nMatchTo c = 0 \<or> 0 < ci_nMatchTo c \<and> fst (ci_anScore c) < ci_nMatchTo c \<and> snd (ci_anScore c) < ci_nMatchTo c \<Longrightarrow>
   valid_cube c"
  unfolding valid_cube_def by blast

lemma cube_at_valid:
  assumes "valid_cube c" "owner \<in> {- 1, 0, 1}" "n = 2 ^ k"
  shows "\<exists>d. cube_at c fInvert n owner T P = Some d \<and> valid_cube d \<and> same_game c d \<and> ci_nCube d = n \<and>
    ci_fCubeOwner d = owner \<and> ci_fMove d = (if fInvert then cnot (ci_fMove c) else ci_fMove c)"
proof -
  define player where "player = (if fInvert then cnot (ci_fMove c) else ci_fMove c)"
  have n: "\<not> n < 1" "LogCube n = Some (int k)" using assms(3) by (simp_all add: not_less)
  have p: "\<not> player < 0" "\<not> 1 < player" "player \<in> {0, 1}" "\<not> owner < - 1" "\<not> 1 < owner"
    using assms(1,2) by (auto simp: player_def valid_cube_def cnot_def)
  have m: "ci_nMatchTo c = 0 \<or> 0 < ci_nMatchTo c \<and> fst (ci_anScore c) < ci_nMatchTo c \<and> snd (ci_anScore c) < ci_nMatchTo c"
    using assms(1) by (simp add: valid_cube_def)
  show ?thesis
  proof (cases "ci_nMatchTo c = 0")
    case True
    with n p assms show ?thesis unfolding cube_at_def player_def [symmetric]
      by (auto simp: SetCubeInfo_def SetCubeInfoMoney_def same_game_def intro!: valid_cubeI [of _ k])
  next
    case False
    with n p m assms show ?thesis unfolding cube_at_def player_def [symmetric]
      by (auto simp: SetCubeInfo_def SetCubeInfoMatch_def same_game_def Let_def intro!: valid_cubeI [of _ k])
  qed
qed

text \<open>
  \<open>MakeCubePos\<close> makes of every cube the two that one decision can leave: the same cube, and, when
  the player may double, the cube at twice its value with the opponent.
\<close>

definition decided :: "cubeinfo \<Rightarrow> bool \<Rightarrow> bool \<Rightarrow> met \<Rightarrow> met \<Rightarrow> cubeinfo \<Rightarrow> cubeinfo \<Rightarrow> bool" where
  "decided c fTop fInvert T P a b \<longleftrightarrow>
     (let player = (if fInvert then cnot (ci_fMove c) else ci_fMove c) in
      valid_cube a \<and> same_game c a \<and> ci_nCube a = ci_nCube c \<and> ci_fCubeOwner a = ci_fCubeOwner c \<and> ci_fMove a = player \<and>
      (if \<not> fTop \<and> fst (GetDPEq c T P)
       then valid_cube b \<and> same_game c b \<and> ci_nCube b = 2 * ci_nCube c \<and> ci_fCubeOwner b = cnot (ci_fMove c) \<and>
         ci_fMove b = player
       else ci_nCube b = - 1))"

lemma decided_pos:
  assumes "valid_cube c"
  shows "\<exists>d e. no_double_pos c fInvert a T P = Some d \<and> double_pos c fTop fInvert b T P = Some e \<and>
    decided c fTop fInvert T P d e"
proof -
  obtain k where k: "ci_nCube c = 2 ^ k" using assms by (auto simp: valid_cube_def)
  then have k': "2 * ci_nCube c = 2 ^ Suc k" "0 < ci_nCube c" by simp_all
  have o: "ci_fCubeOwner c \<in> {- 1, 0, 1}" "cnot (ci_fMove c) \<in> {- 1, 0, 1}"
    using assms by (auto simp: valid_cube_def cnot_def)
  show ?thesis
    using cube_at_valid [OF assms o(1) k, of fInvert T P] cube_at_valid [OF assms o(2) k'(1), of fInvert T P] k'(2)
    by (auto simp: no_double_pos_def double_pos_def decided_def Let_def)
qed

lemma MakeCubePos_decided:
  "list_all valid_cube cs \<Longrightarrow> length aci = 2 * length cs \<Longrightarrow>
   \<exists>aci'. MakeCubePos cs fTop aci fInvert T P = Some aci' \<and> length aci' = 2 * length cs \<and>
     (\<forall>i<length cs. decided (cs ! i) fTop fInvert T P (aci' ! (2 * i)) (aci' ! (2 * i + 1)))"
proof (induction cs arbitrary: aci)
  case (Cons c cs)
  then obtain a b rest where aci: "aci = a # b # rest" by (auto simp: length_Suc_conv)
  with Cons obtain rest' where rest': "MakeCubePos cs fTop rest fInvert T P = Some rest'" "length rest' = 2 * length cs"
    "\<forall>i<length cs. decided (cs ! i) fTop fInvert T P (rest' ! (2 * i)) (rest' ! (2 * i + 1))" by force
  obtain d e where "no_double_pos c fInvert a T P = Some d" "double_pos c fTop fInvert b T P = Some e"
    "decided c fTop fInvert T P d e" using decided_pos Cons.prems(1) by fastforce
  then show ?case using aci rest' by (auto simp: less_Suc_eq_0_disj)
qed auto

section \<open>The choices are optimal\<close>

text \<open>The doubler may keep the cube, the opponent answers a double with what is worse for the doubler.\<close>

lemma choose_double_minimax: "choose_double rND rDT rDP = max rND (min rDT rDP)"
  by (auto simp: choose_double_def max_def min_def)

lemma decided_available:
  assumes "decided c fTop fInvert T P a b"
  shows "0 < ci_nCube b \<longleftrightarrow> \<not> fTop \<and> fst (GetDPEq c T P)"
proof (cases "\<not> fTop \<and> fst (GetDPEq c T P)")
  case True
  with assms have "valid_cube b" by (simp add: decided_def Let_def)
  with True show ?thesis by (auto simp: valid_cube_def)
next
  case False
  with assms show ?thesis by (simp add: decided_def Let_def)
qed

lemma GetDPEq_same:
  "same_game c d \<Longrightarrow> ci_nCube d = ci_nCube c \<Longrightarrow> ci_fCubeOwner d = ci_fCubeOwner c \<Longrightarrow> ci_fMove d = ci_fMove c \<Longrightarrow>
   GetDPEq d T P = GetDPEq c T P"
  by (simp add: GetDPEq_def same_game_def split: if_splits prod.splits)


text \<open>The parts of a recommendation.\<close>

definition doubles :: "cubedecision \<Rightarrow> bool" where
  "doubles cd \<longleftrightarrow> cd \<in> {DOUBLE_TAKE, DOUBLE_PASS, DOUBLE_BEAVER, REDOUBLE_TAKE, REDOUBLE_PASS,
     OPTIONAL_DOUBLE_TAKE, OPTIONAL_REDOUBLE_TAKE, OPTIONAL_DOUBLE_BEAVER, OPTIONAL_DOUBLE_PASS,
     OPTIONAL_REDOUBLE_PASS}"

definition passes :: "cubedecision \<Rightarrow> bool" where
  "passes cd \<longleftrightarrow> cd \<in> {DOUBLE_PASS, TOOGOOD_PASS, REDOUBLE_PASS, TOOGOODRE_PASS, OPTIONAL_DOUBLE_PASS,
     OPTIONAL_REDOUBLE_PASS}"

definition beavers :: "cubedecision \<Rightarrow> bool" where
  "beavers cd \<longleftrightarrow> cd \<in> {DOUBLE_BEAVER, NODOUBLE_BEAVER, NO_REDOUBLE_BEAVER, OPTIONAL_DOUBLE_BEAVER}"

lemmas advice = doubles_def passes_def beavers_def


text \<open>
  One recommendation contradicts the optimum stored with it: a double that would be beavered is not
  recommended, but the optimum stays at the equity of the double.
\<close>

lemma beavered_optimum:
  "FindBestCubeDecision [0, - 1 / 2, - 4 / 10, 1] out0
     \<lparr>ci_nCube = 1, ci_fCubeOwner = - 1, ci_fMove = 0, ci_nMatchTo = 0, ci_anScore = (0, 0), ci_fCrawford = 0,
      ci_fJacoby = 1, ci_fBeavers = 1, ci_arGammonPrice = [0, 0, 0, 0], ci_bgv = VARIATION_STANDARD\<rparr> T P =
   (NODOUBLE_BEAVER, [- 4 / 10, - 1 / 2, - 4 / 10, 1])"
  by (simp add: FindBestCubeDecision_def GetDPEq_def double_outputs Let_def)

section \<open>Instances\<close>



end
