(* ===== verification/Position_Class.thy ===== *)
theory Position_Class
  imports Eval_Types Bearoff_Index
begin

text \<open>
  The class of a position (\<open>ClassifyPosition\<close>, eval.c; \<open>isBearoff\<close>, bearoff.c), the evaluation of
  a finished game (\<open>EvalOver\<close>, \<open>GameStatus\<close>), and the exchange of the players in an evaluation
  (\<open>InvertEvaluation\<close>, \<open>InvertEvaluationR\<close>).  An array of floats is a list of reals: the
  arithmetic is the exact one.
\<close>

section \<open>Bear-off databases\<close>

datatype bearofftype = BEAROFF_INVALID | BEAROFF_ONESIDED | BEAROFF_TWOSIDED | BEAROFF_HYPERGAMMON

record bearoffcontext =
  bt :: bearofftype
  nPoints :: u32
  nChequers :: u32

text \<open>The highest occupied point, with the loop's final value when there is none.\<close>

fun scan_from :: "side \<Rightarrow> nat \<Rightarrow> nat" where
  "scan_from s 0 = 0"
| "scan_from s (Suc n) = (if s ! Suc n \<noteq> 0 then Suc n else scan_from s n)"

definition isBearoff :: "bearoffcontext option \<Rightarrow> TanBoard \<Rightarrow> bool" where
  "isBearoff pbc b =
     (case pbc of None \<Rightarrow> False
      | Some pbc \<Rightarrow>
          let nOppBack = scan_from (fst b) 24; nBack = scan_from (snd b) 24 in
          if fst b ! nOppBack = 0 \<or> snd b ! nBack = 0 then False
          else if nBack + nOppBack > 22 \<and> \<not> bt pbc = BEAROFF_HYPERGAMMON then False
          else
            let nOpp = fold (\<lambda>i n. n + fst b ! i) [0..<nOppBack + 1] 0;
                n = fold (\<lambda>i n. n + snd b ! i) [0..<nBack + 1] 0
            in n \<le> nChequers pbc \<and> nOpp \<le> nChequers pbc \<and>
               of_nat nBack < nPoints pbc \<and> of_nat nOppBack < nPoints pbc)"

section \<open>ClassifyPosition\<close>

datatype positionclass = CLASS_OVER | CLASS_HYPERGAMMON1 | CLASS_HYPERGAMMON2 | CLASS_HYPERGAMMON3
  | CLASS_BEAROFF2 | CLASS_BEAROFF_TS | CLASS_BEAROFF1 | CLASS_BEAROFF_OS | CLASS_RACE
  | CLASS_CRASHED | CLASS_CONTACT

text \<open>The code compares classes by their number: an order from the easiest to evaluate up.\<close>

fun class_number :: "positionclass \<Rightarrow> nat" where
  "class_number CLASS_OVER = 0"
| "class_number CLASS_HYPERGAMMON1 = 1"
| "class_number CLASS_HYPERGAMMON2 = 2"
| "class_number CLASS_HYPERGAMMON3 = 3"
| "class_number CLASS_BEAROFF2 = 4"
| "class_number CLASS_BEAROFF_TS = 5"
| "class_number CLASS_BEAROFF1 = 6"
| "class_number CLASS_BEAROFF_OS = 7"
| "class_number CLASS_RACE = 8"
| "class_number CLASS_CRASHED = 9"
| "class_number CLASS_CONTACT = 10"

lemma class_number_inject: "class_number x = class_number y \<longleftrightarrow> x = y"
  by (cases x; cases y; simp)

instantiation positionclass :: linorder
begin

definition less_eq_positionclass :: "positionclass \<Rightarrow> positionclass \<Rightarrow> bool" where
  "less_eq_positionclass x y \<longleftrightarrow> class_number x \<le> class_number y"

definition less_positionclass :: "positionclass \<Rightarrow> positionclass \<Rightarrow> bool" where
  "less_positionclass x y \<longleftrightarrow> class_number x < class_number y"

instance
  by standard (auto simp: less_eq_positionclass_def less_positionclass_def class_number_inject)

end

lemmas positionclass_order = less_eq_positionclass_def less_positionclass_def

fun back_index :: "side \<Rightarrow> nat \<Rightarrow> int" where
  "back_index s 0 = - 1"
| "back_index s (Suc n) = (if s ! n \<noteq> 0 then int n else back_index s n)"

text \<open>The test of one side for \<open>CLASS_CRASHED\<close>, with its unsigned arithmetic.\<close>

definition crashed :: "side \<Rightarrow> bool" where
  "crashed s =
     (let N = 6; tot = fold (\<lambda>i tot. tot + s ! i) [0..<25] 0 in
      if tot \<le> N then True
      else if s ! 0 > 1 then
        (if tot \<le> N + s ! 0 then True
         else if 1 + tot - (s ! 0 + s ! 1) \<le> N \<and> s ! 1 > 1 then True else False)
      else (if tot \<le> N + (s ! 1 - 1) then True else False))"

text \<open>The four databases are the globals \<open>pbc2\<close>, \<open>pbcTS\<close>, \<open>pbc1\<close>, \<open>pbcOS\<close>.\<close>

record databases =
  pbc2 :: "bearoffcontext option"
  pbcTS :: "bearoffcontext option"
  pbc1 :: "bearoffcontext option"
  pbcOS :: "bearoffcontext option"

definition ClassifyPosition :: "databases \<Rightarrow> TanBoard \<Rightarrow> bgvariation \<Rightarrow> positionclass" where
  "ClassifyPosition dbs b bgv =
     (let nOppBack = back_index (fst b) 25; nBack = back_index (snd b) 25 in
      if nBack < 0 \<or> nOppBack < 0 then CLASS_OVER
      else case bgv of
        VARIATION_HYPERGAMMON_1 \<Rightarrow> CLASS_HYPERGAMMON1
      | VARIATION_HYPERGAMMON_2 \<Rightarrow> CLASS_HYPERGAMMON2
      | VARIATION_HYPERGAMMON_3 \<Rightarrow> CLASS_HYPERGAMMON3
      | _ \<Rightarrow>
          if nBack + nOppBack > 22 then
            (if crashed (fst b) \<or> crashed (snd b) then CLASS_CRASHED else CLASS_CONTACT)
          else if isBearoff (pbc2 dbs) b then CLASS_BEAROFF2
          else if isBearoff (pbcTS dbs) b then CLASS_BEAROFF_TS
          else if isBearoff (pbc1 dbs) b then CLASS_BEAROFF1
          else if isBearoff (pbcOS dbs) b then CLASS_BEAROFF_OS
          else CLASS_RACE)"

section \<open>EvalOver, GameStatus\<close>

definition count_all :: "side \<Rightarrow> u32" where
  "count_all s = fold (\<lambda>i c. c + s ! i) [0..<25] 0"

definition EvalOver :: "TanBoard \<Rightarrow> real list \<Rightarrow> bgvariation \<Rightarrow> real list" where
  "EvalOver b ar bgv =
     (let n = of_nat (anChequers bgv) in
      if \<not> list_ex (\<lambda>i. fst b ! i \<noteq> 0) [0..<25] then
        let ar = ar[OUTPUT_WIN := 0, OUTPUT_WINGAMMON := 0, OUTPUT_WINBACKGAMMON := 0] in
        if count_all (snd b) = n then
          let ar = ar[OUTPUT_LOSEGAMMON := 1] in
          if list_ex (\<lambda>i. snd b ! i \<noteq> 0) [18..<25] then ar[OUTPUT_LOSEBACKGAMMON := 1]
          else ar[OUTPUT_LOSEBACKGAMMON := 0]
        else ar[OUTPUT_LOSEGAMMON := 0, OUTPUT_LOSEBACKGAMMON := 0]
      else if \<not> list_ex (\<lambda>i. snd b ! i \<noteq> 0) [0..<25] then
        let ar = ar[OUTPUT_WIN := 1, OUTPUT_LOSEGAMMON := 0, OUTPUT_LOSEBACKGAMMON := 0] in
        if count_all (fst b) = n then
          let ar = ar[OUTPUT_WINGAMMON := 1] in
          if list_ex (\<lambda>i. fst b ! i \<noteq> 0) [18..<25] then ar[OUTPUT_WINBACKGAMMON := 1]
          else ar[OUTPUT_WINBACKGAMMON := 0]
        else ar[OUTPUT_WINGAMMON := 0, OUTPUT_WINBACKGAMMON := 0]
      else ar)"

definition GameStatus :: "databases \<Rightarrow> TanBoard \<Rightarrow> bgvariation \<Rightarrow> nat" where
  "GameStatus dbs b bgv =
     (if ClassifyPosition dbs b bgv \<noteq> CLASS_OVER then 0
      else
        let ar = EvalOver b [0, 0, 0, 0, 0] bgv in
        if ar ! OUTPUT_WINBACKGAMMON > 0 \<or> ar ! OUTPUT_LOSEBACKGAMMON > 0 then 3
        else if ar ! OUTPUT_WINGAMMON > 0 \<or> ar ! OUTPUT_LOSEGAMMON > 0 then 2
        else 1)"

section \<open>InvertEvaluation\<close>

definition InvertEvaluation :: "real list \<Rightarrow> real list" where
  "InvertEvaluation ar =
     (let ar = ar[OUTPUT_WIN := 1 - ar ! OUTPUT_WIN];
          r = ar ! OUTPUT_WINGAMMON;
          ar = ar[OUTPUT_WINGAMMON := ar ! OUTPUT_LOSEGAMMON];
          ar = ar[OUTPUT_LOSEGAMMON := r];
          r = ar ! OUTPUT_WINBACKGAMMON;
          ar = ar[OUTPUT_WINBACKGAMMON := ar ! OUTPUT_LOSEBACKGAMMON]
      in ar[OUTPUT_LOSEBACKGAMMON := r])"

text \<open>\<open>nMatchTo\<close> is the field of the \<open>cubeinfo\<close>: 0 in money play.\<close>

definition InvertEvaluationR :: "int \<Rightarrow> real list \<Rightarrow> real list" where
  "InvertEvaluationR nMatchTo ar =
     (let ar = InvertEvaluation ar;
          ar = ar[OUTPUT_EQUITY := - ar ! OUTPUT_EQUITY]
      in if nMatchTo \<noteq> 0 then ar[OUTPUT_CUBEFUL_EQUITY := 1 - ar ! OUTPUT_CUBEFUL_EQUITY]
         else ar[OUTPUT_CUBEFUL_EQUITY := - ar ! OUTPUT_CUBEFUL_EQUITY])"

section \<open>Properties\<close>

lemma list_7: "length ar = 7 \<Longrightarrow> \<exists>a b c d e f g. ar = [a, b, c, d, e, f, g]"
  by (auto simp: length_Suc_conv eval_nat_numeral)

lemma InvertEvaluationR_list:
  "InvertEvaluationR n [w, wg, wb, lg, lb, q, cq] =
   [1 - w, lg, lb, wg, wb, - q, if n \<noteq> 0 then 1 - cq else - cq]"
  by (simp add: InvertEvaluationR_def InvertEvaluation_def outputs)

lemma InvertEvaluationR_involutive:
  "length ar = 7 \<Longrightarrow> InvertEvaluationR n (InvertEvaluationR n ar) = ar"
  using list_7 [of ar] by (auto simp: InvertEvaluationR_list)

lemma back_index_neg: "back_index s n < 0 \<longleftrightarrow> (\<forall>i<n. s ! i = 0)"
  by (induction n) (auto simp: less_Suc_eq)

lemma chequers_zero: "chequers s = 0 \<longleftrightarrow> (\<forall>i<length s. s ! i = 0)"
  by (auto simp: chequers_def all_set_conv_all_nth)

lemma back_index_chequers: "length s = 25 \<Longrightarrow> back_index s 25 < 0 \<longleftrightarrow> chequers s = 0"
  by (simp add: back_index_neg chequers_zero)

lemma list_ex_chequers: "length s = 25 \<Longrightarrow> list_ex (\<lambda>i. s ! i \<noteq> 0) [0..<25] \<longleftrightarrow> chequers s \<noteq> 0"
  by (auto simp: list_ex_iff chequers_zero)

lemma count_all_of_nat: "length s = 25 \<Longrightarrow> count_all s = of_nat (chequers s)"
proof -
  assume l: "length s = 25"
  have "fold (\<lambda>i c. c + s ! i) [0..<n] 0 = of_nat (\<Sum>i<n. unat (s ! i))" for n
    by (induction n) simp_all
  then show ?thesis by (simp add: l count_all_def chequers_def sum_list_sum_nth atLeast0LessThan)
qed

lemma unat_count_all: "length s = 25 \<Longrightarrow> chequers s < 2 ^ 32 \<Longrightarrow> unat (count_all s) = chequers s"
  by (simp add: count_all_of_nat unat_of_nat_u32)

text \<open>The game is over exactly when a side has no chequer left, in every variation.\<close>

lemma ClassifyPosition_over:
  assumes "wf_board b"
  shows "ClassifyPosition dbs b bgv = CLASS_OVER \<longleftrightarrow> chequers (fst b) = 0 \<or> chequers (snd b) = 0"
proof -
  have "length (fst b) = 25" "length (snd b) = 25" using assms by (simp_all add: wf_board_def)
  then show ?thesis
    by (cases bgv) (auto simp: ClassifyPosition_def Let_def back_index_chequers)
qed

text \<open>The result of a finished game by the rules: single, gammon, backgammon.\<close>

definition game_result :: "TanBoard \<Rightarrow> nat \<Rightarrow> nat" where
  "game_result b n =
     (if chequers (fst b) \<noteq> 0 \<and> chequers (snd b) \<noteq> 0 then 0
      else let loser = (if chequers (fst b) = 0 then snd b else fst b) in
        if chequers loser \<noteq> n then 1
        else if \<exists>i\<in>{18..24}. loser ! i \<noteq> 0 then 3 else 2)"

lemma GameStatus_exact:
  assumes "wf_board b" "chequers (fst b) \<le> 15" "chequers (snd b) \<le> 15"
  shows "GameStatus dbs b bgv = game_result b (anChequers bgv)"
proof -
  have l: "length (fst b) = 25" "length (snd b) = 25" using assms by (simp_all add: wf_board_def)
  have a: "1 \<le> anChequers bgv" "anChequers bgv \<le> 15" by (cases bgv; simp add: anChequers_def)+
  have n: "count_all s = of_nat (anChequers bgv) \<longleftrightarrow> chequers s = anChequers bgv"
    if "length s = 25" "chequers s \<le> 15" for s
    using that a by (simp add: count_all_of_nat word_unat_eq_iff unat_of_nat_u32)
  have ex: "list_ex (\<lambda>i. s ! i \<noteq> 0) [18..<25] \<longleftrightarrow> (\<exists>i\<in>{18..24}. s ! i \<noteq> 0)" for s :: side
    unfolding list_ex_iff set_upt by (rule bex_cong) auto
  show ?thesis
    unfolding GameStatus_def ClassifyPosition_over [OF assms(1)] EvalOver_def Let_def
      list_ex_chequers [OF l(1)] list_ex_chequers [OF l(2)] n [OF l(1) assms(2)] n [OF l(2) assms(3)] ex
    using a by (auto simp: Let_def game_result_def outputs)
qed

text \<open>C28: The result of a game is 0 while both sides have chequers, and otherwise 1, 2 or 3 by whether the
  loser has borne off a chequer and stands on the bar or in the winner's home board.\<close>

theorem GameStatus_result:
  assumes "wf_board b" "chequers (fst b) \<le> 15" "chequers (snd b) \<le> 15"
  shows "GameStatus dbs b bgv = game_result b (anChequers bgv)"
  by (rule GameStatus_exact [OF assms])

text \<open>A race is classified the same for both players, and so is a contact position.\<close>

lemma isBearoff_swap: "isBearoff pbc (snd b, fst b) = isBearoff pbc b"
  by (auto simp: isBearoff_def Let_def add.commute split: option.split)

text \<open>The class of a position does not depend on whose turn it is.\<close>

lemma ClassifyPosition_SwapSides:
  "wf_board b \<Longrightarrow> ClassifyPosition dbs (SwapSides b) bgv = ClassifyPosition dbs b bgv"
  by (cases bgv) (auto simp: ClassifyPosition_def Let_def isBearoff_swap add.commute disj_commute)

text \<open>The crashed test, without wrap-around: too few chequers off the first two points.\<close>

definition few_active :: "side \<Rightarrow> bool" where
  "few_active s \<longleftrightarrow>
     (let t = chequers s; a = unat (s ! 0); c = unat (s ! 1) in
      t \<le> 6 \<or> (if a > 1 then t \<le> 6 + a \<or> (c > 1 \<and> t + 1 \<le> 6 + a + c) else c > 0 \<and> t + 1 \<le> 6 + c))"

text \<open>The test for a crashed position compares the chequers off the ace and deuce points, as the rule
  states.\<close>

lemma crashed_iff:
  assumes "length s = 25" "chequers s \<le> 15"
  shows "crashed s \<longleftrightarrow> few_active s"
proof -
  let ?t = "count_all s"
  have t: "unat ?t = chequers s" using assms by (simp add: unat_count_all)
  have a: "unat (s ! 0) \<le> 15" "unat (s ! 1) \<le> 15"
    using chequers_ge [of 0 s] chequers_ge [of 1 s] assms by auto
  have split: "s = s ! 0 # s ! 1 # drop 2 s"
    using assms(1) by (metis Cons_nth_drop_Suc One_nat_def Suc_1 drop0 numeral_less_iff one_less_numeral_iff
        rel_simps(51) semiring_norm(75) semiring_norm(77) zero_less_numeral)
  then have sum: "unat (s ! 0) + unat (s ! 1) \<le> chequers s"
    by (metis chequers_Cons le_add1 add.assoc)
  have u: "unat (6 + s ! 0) = 6 + unat (s ! 0)" "unat (s ! 0 + s ! 1) = unat (s ! 0) + unat (s ! 1)"
    "unat (1 + ?t) = 1 + chequers s"
    using a t assms(2) by (subst unat_plus_small; simp)+
  have le: "s ! 0 + s ! 1 \<le> 1 + ?t" using u sum by (simp add: word_le_nat_alt)
  have d: "unat (1 + ?t - (s ! 0 + s ! 1)) = 1 + chequers s - (unat (s ! 0) + unat (s ! 1))"
    using le u by (simp add: unat_sub)
  have w: "s ! 1 = 0 \<Longrightarrow> 6 + (s ! 1 - 1) = 5" by simp
  have u1: "s ! 1 \<noteq> 0 \<Longrightarrow> unat (6 + (s ! 1 - 1)) = 5 + unat (s ! 1)"
  proof -
    assume n: "s ! 1 \<noteq> 0"
    then obtain m where m: "unat (s ! 1) = Suc m" by (metis not0_implies_Suc unat_eq_zero_u32)
    have "unat (s ! 1 - 1) = m" using unat_minus_one_u32 [OF n] m by simp
    with m a show ?thesis by (subst unat_plus_small) auto
  qed
  have pos: "s ! 1 \<noteq> 0 \<longleftrightarrow> unat (s ! 1) > 0" by (metis gr0I unat_eq_zero_u32 less_irrefl)
  show ?thesis
  proof (cases "s ! 1 = 0")
    case True
    then show ?thesis
      using t u d w unfolding crashed_def few_active_def count_all_def [symmetric] Let_def
      by (auto simp: word_le_nat_alt word_less_nat_alt)
  next
    case False
    with u1 pos show ?thesis
      using t u d sum unfolding crashed_def few_active_def count_all_def [symmetric] Let_def
      by (auto simp: word_le_nat_alt word_less_nat_alt)
  qed
qed

text \<open>
  A position classified for a database is in it: the index \<open>PositionBearoff\<close> computes for
  either side is that of one of its records.
\<close>

lemma scan_from_above: "scan_from s n < p \<Longrightarrow> p \<le> n \<Longrightarrow> s ! p = 0"
  by (induction n) (auto simp: le_Suc_eq split: if_splits)

lemma sum_prefix_u32: "fold (\<lambda>i n. n + s ! i) [0..<k] 0 = of_nat (\<Sum>i<k. unat (s ! i))" for s :: side
  by (induction k) simp_all

lemma chequers_prefix:
  assumes "length s = 25" "k \<le> 25" "\<And>i. k \<le> i \<Longrightarrow> i < 25 \<Longrightarrow> s ! i = 0"
  shows "(\<Sum>i<k. unat (s ! i)) = chequers s" and "sum_list (map unat (take k s)) = chequers s"
proof -
  have "chequers s = (\<Sum>i<25. unat (s ! i))"
    using assms(1) by (simp add: chequers_def sum_list_sum_nth atLeast0LessThan)
  also have "\<dots> = (\<Sum>i<k. unat (s ! i))"
    using assms by (intro sum.mono_neutral_right) auto
  finally show 1: "(\<Sum>i<k. unat (s ! i)) = chequers s" by simp
  have "sum_list (map unat (take k s)) = (\<Sum>i<k. unat (s ! i))"
    using assms by (simp add: sum_list_sum_nth atLeast0LessThan)
  with 1 show "sum_list (map unat (take k s)) = chequers s" by simp
qed

text \<open>A position accepted by a bear-off database has, for each side, a record index inside the database.\<close>

lemma isBearoff_record:
  assumes "wf_board b" "chequers (fst b) < 2 ^ 32" "chequers (snd b) < 2 ^ 32"
    and db: "isBearoff (Some pbc) b" and size: "bearoff_size (unat (nPoints pbc)) (unat (nChequers pbc))"
    and s: "s = fst b \<or> s = snd b"
  shows "\<exists>k. PositionBearoff s (unat (nPoints pbc)) (unat (nChequers pbc)) = Some k \<and>
    unat k < ((unat (nChequers pbc) + unat (nPoints pbc)) choose unat (nPoints pbc))"
proof -
  let ?n = "unat (nPoints pbc)" and ?c = "unat (nChequers pbc)"
  have len: "length s = 25" and ch: "chequers s < 2 ^ 32" using assms by (auto simp: wf_board_def)
  have bk: "scan_from s 24 \<le> 24" for s by (induction "24 :: nat") (auto simp: numeral_eq_Suc)
  from db s have n: "of_nat (scan_from s 24) < nPoints pbc"
    and c: "fold (\<lambda>i n. n + s ! i) [0..<scan_from s 24 + 1] 0 \<le> nChequers pbc"
    by (auto simp: isBearoff_def Let_def split: if_splits)
  let ?k = "scan_from s 24 + 1"
  have k: "?k \<le> 25" "\<And>i. ?k \<le> i \<Longrightarrow> i < 25 \<Longrightarrow> s ! i = 0"
    using bk [of s] scan_from_above [of s 24] by auto
  have "(\<Sum>i<?k. unat (s ! i)) = chequers s" by (rule chequers_prefix(1) [OF len k])
  then have "of_nat (chequers s) \<le> nChequers pbc" using c unfolding sum_prefix_u32 by metis
  then have cs: "chequers s \<le> ?c" using ch by (simp add: word_le_nat_alt unat_of_nat_u32)
  have kn: "?k \<le> ?n" using n bk [of s] by (simp add: word_less_nat_alt unat_of_nat_u32)
  have n25: "?n \<le> 25" using size by (simp add: bearoff_size_def)
  have "sum_list (map unat (take ?n s)) = chequers s"
    using kn n25 k(2) by (intro chequers_prefix(2) len) auto
  then have "bearoff_board ?n ?c (take ?n s)"
    using cs len n25 by (simp add: bearoff_board_def)
  from PositionBearoff_ranked [OF size this] show ?thesis
    using len n25 by (auto simp: PositionBearoff_take)
qed

section \<open>Instances\<close>

text \<open>A gammon, and a race with bear-off positions.\<close>

definition gammon_board :: TanBoard where
  "gammon_board = (replicate 25 0, (replicate 25 0)[5 := 15])"

definition no_databases :: databases where
  "no_databases = \<lparr>pbc2 = None, pbcTS = None, pbc1 = None, pbcOS = None\<rparr>"

theorem GameStatus_result_witness: "GameStatus no_databases gammon_board VARIATION_STANDARD = 2"
proof -
  have c: "chequers (fst gammon_board) = 0" "chequers (snd gammon_board) = 15" by code_simp+
  have "\<not> (\<exists>i\<in>{18..24}. snd gammon_board ! i \<noteq> 0)" by (auto simp: gammon_board_def nth_list_update)
  then show ?thesis
    using GameStatus_result [of gammon_board no_databases VARIATION_STANDARD] c
    by (simp add: game_result_def wf_board_def gammon_board_def anChequers_def)
qed

end
