(* ===== verification/Cubeful.thy ===== *)
theory Cubeful
  imports Cube_Decision Position_Class
begin

text \<open>
  From cubeless outputs to cubeful equity (eval.c): Janowski's formulas for money
  (\<open>MoneyLive\<close>, \<open>Cl2CfMoney\<close>), their generalisation to match play (\<open>Cl2CfMatch\<close>), and the cube
  efficiency of a position (\<open>EvalEfficiency\<close>).
\<close>

section \<open>Money\<close>

definition MoneyLive :: "real \<Rightarrow> real \<Rightarrow> real \<Rightarrow> cubeinfo \<Rightarrow> real" where
  "MoneyLive rW rL p pci =
     (if ci_fCubeOwner pci = - 1 then
        let rTP = (rL - 1 / 2) / (rW + rL + 1 / 2); rCP = (rL + 1) / (rW + rL + 1 / 2) in
        if p < rTP then (if ci_fJacoby pci \<noteq> 0 then - 1 else - rL + (- 1 + rL) * p / rTP)
        else if p < rCP then - 1 + 2 * (p - rTP) / (rCP - rTP)
        else (if ci_fJacoby pci \<noteq> 0 then 1 else 1 + (rW - 1) * (p - rCP) / (1 - rCP))
      else if ci_fCubeOwner pci = ci_fMove pci then
        let rCP = (rL + 1) / (rW + rL + 1 / 2) in
        if p < rCP then - rL + (1 + rL) * p / rCP
        else 1 + (rW - 1) * (p - rCP) / (1 - rCP)
      else
        let rTP = (rL - 1 / 2) / (rW + rL + 1 / 2) in
        if p < rTP then - rL + (- 1 + rL) * p / rTP
        else - 1 + (rW + 1) * (p - rTP) / (1 - rTP))"

definition Cl2CfMoney :: "real list \<Rightarrow> cubeinfo \<Rightarrow> real \<Rightarrow> real" where
  "Cl2CfMoney ar pci rCubeX =
     (let epsilon = 1 / 10 ^ 7; omepsilon = 9999999 / 10 ^ 7; win = ar ! OUTPUT_WIN in
      if \<not> win > epsilon then Utility ar pci
      else if \<not> win < omepsilon then Utility ar pci
      else
        let rW = 1 + (ar ! OUTPUT_WINGAMMON + ar ! OUTPUT_WINBACKGAMMON) / win;
            rL = 1 + (ar ! OUTPUT_LOSEGAMMON + ar ! OUTPUT_LOSEBACKGAMMON) / (1 - win)
        in Utility ar pci * (1 - rCubeX) + MoneyLive rW rL win pci * rCubeX)"

section \<open>Match play\<close>

text \<open>
  What the three functions begin with: the ratios, the chances of the dead cube, the cash points,
  and the chances after winning and losing the game at its present value.  \<open>None\<close> is the loop of
  \<open>GetPoints\<close> on a cube of no value.
\<close>

record match_values =
  rMWCDead :: real
  mv_arCP :: "real \<times> real"
  rMWCCash :: real
  rMWCOppCash :: real
  rMWCWin :: real
  rMWCLose :: real

definition match_values :: "real list \<Rightarrow> cubeinfo \<Rightarrow> met \<Rightarrow> met \<Rightarrow> match_values option" where
  "match_values ar pci T P =
     (let (rG0, rBG0) = win_ratios ar; (rG1, rBG1) = lose_ratios ar;
          (s0, s1) = ci_anScore pci;
          me = side_of (ci_fMove pci)
            (getMEMultiple s0 s1 (ci_nMatchTo pci) (ci_nCube pci) (- 1) (- 1) (ci_fCrawford pci) T P)
      in map_option (\<lambda>cp. \<lparr>rMWCDead = eq2mwc (Utility ar pci) pci T P, mv_arCP = cp,
            rMWCCash = me ! 0, rMWCOppCash = me ! 5,
            rMWCWin = (1 - rG0 - rBG0) * me ! 0 + rG0 * me ! 1 + rBG0 * me ! 2,
            rMWCLose = (1 - rG1 - rBG1) * me ! 5 + rG1 * me ! 6 + rBG1 * me ! 7\<rparr>)
          (GetPoints ar pci T P))"

text \<open>Below the opponent's cash point he plays on for a gammon; above one's own one plays on.\<close>

definition below_cash :: "match_values \<Rightarrow> real \<Rightarrow> real \<Rightarrow> real" where
  "below_cash v rOppTG p =
     (if rOppTG > 0 then rMWCLose v + (rMWCOppCash v - rMWCLose v) * p / rOppTG else rMWCLose v)"

definition above_cash :: "match_values \<Rightarrow> real \<Rightarrow> real \<Rightarrow> real" where
  "above_cash v rTG p =
     (if rTG < 1 then rMWCCash v + (rMWCWin v - rMWCCash v) * (p - rTG) / (1 - rTG) else rMWCWin v)"

definition Cl2CfMatchCentered :: "real list \<Rightarrow> cubeinfo \<Rightarrow> real \<Rightarrow> met \<Rightarrow> met \<Rightarrow> real option" where
  "Cl2CfMatchCentered ar pci rCubeX T P =
     map_option (\<lambda>v.
         let p = ar ! OUTPUT_WIN;
             rOppTG = 1 - side_of (cnot (ci_fMove pci)) (mv_arCP v);
             rTG = side_of (ci_fMove pci) (mv_arCP v);
             rMWCLive =
               (if p \<le> rOppTG then below_cash v rOppTG p
                else if p < rTG then
                  rMWCOppCash v + (rMWCCash v - rMWCOppCash v) * (p - rOppTG) / (rTG - rOppTG)
                else above_cash v rTG p)
         in rMWCDead v * (1 - rCubeX) + rMWCLive * rCubeX)
       (match_values ar pci T P)"

definition Cl2CfMatchOwned :: "real list \<Rightarrow> cubeinfo \<Rightarrow> real \<Rightarrow> met \<Rightarrow> met \<Rightarrow> real option" where
  "Cl2CfMatchOwned ar pci rCubeX T P =
     map_option (\<lambda>v.
         let p = ar ! OUTPUT_WIN;
             rTG = side_of (ci_fMove pci) (mv_arCP v);
             rMWCLive =
               (if p \<le> rTG then
                  (if rTG > 0 then rMWCLose v + (rMWCCash v - rMWCLose v) * p / rTG else rMWCLose v)
                else above_cash v rTG p)
         in rMWCDead v * (1 - rCubeX) + rMWCLive * rCubeX)
       (match_values ar pci T P)"

definition Cl2CfMatchUnavailable :: "real list \<Rightarrow> cubeinfo \<Rightarrow> real \<Rightarrow> met \<Rightarrow> met \<Rightarrow> real option" where
  "Cl2CfMatchUnavailable ar pci rCubeX T P =
     map_option (\<lambda>v.
         let p = ar ! OUTPUT_WIN;
             rOppTG = 1 - side_of (cnot (ci_fMove pci)) (mv_arCP v);
             rMWCLive =
               (if p \<le> rOppTG then below_cash v rOppTG p
                else rMWCOppCash v + (rMWCWin v - rMWCOppCash v) * (p - rOppTG) / (1 - rOppTG))
         in rMWCDead v * (1 - rCubeX) + rMWCLive * rCubeX)
       (match_values ar pci T P)"

definition Cl2CfMatch :: "real list \<Rightarrow> cubeinfo \<Rightarrow> real \<Rightarrow> met \<Rightarrow> met \<Rightarrow> real option" where
  "Cl2CfMatch ar pci rCubeX T P =
     (if \<not> fDoCubeful pci then Some (eq2mwc (Utility ar pci) pci T P)
      else if ci_fCubeOwner pci = - 1 then Cl2CfMatchCentered ar pci rCubeX T P
      else if ci_fCubeOwner pci = ci_fMove pci then Cl2CfMatchOwned ar pci rCubeX T P
      else Cl2CfMatchUnavailable ar pci rCubeX T P)"

section \<open>Cube efficiency\<close>

text \<open>The parameters can be set; the values here are those the program starts with.\<close>

record efficiencies =
  rTSCubeX :: real
  rOSCubeX :: real
  rRaceFactorX :: real
  rRaceCoefficientX :: real
  rRaceMax :: real
  rRaceMin :: real
  rCrashedX :: real
  rContactX :: real

definition default_efficiencies :: efficiencies where
  "default_efficiencies = \<lparr>rTSCubeX = 6 / 10, rOSCubeX = 6 / 10, rRaceFactorX = 125 / 10 ^ 5,
     rRaceCoefficientX = 55 / 100, rRaceMax = 7 / 10, rRaceMin = 6 / 10, rCrashedX = 68 / 100,
     rContactX = 68 / 100\<rparr>"

fun EvalEfficiency :: "efficiencies \<Rightarrow> TanBoard \<Rightarrow> positionclass \<Rightarrow> real" where
  "EvalEfficiency X b CLASS_OVER = 0"
| "EvalEfficiency X b CLASS_HYPERGAMMON1 = 6 / 10"
| "EvalEfficiency X b CLASS_HYPERGAMMON2 = 6 / 10"
| "EvalEfficiency X b CLASS_HYPERGAMMON3 = 6 / 10"
| "EvalEfficiency X b CLASS_BEAROFF1 = rOSCubeX X"
| "EvalEfficiency X b CLASS_BEAROFF_OS = rOSCubeX X"
| "EvalEfficiency X b CLASS_RACE =
     (let rEff = real (unat (snd (PipCount b))) * rRaceFactorX X + rRaceCoefficientX X in
      if rEff > rRaceMax X then rRaceMax X else if rEff < rRaceMin X then rRaceMin X else rEff)"
| "EvalEfficiency X b CLASS_CONTACT = rContactX X"
| "EvalEfficiency X b CLASS_CRASHED = rCrashedX X"
| "EvalEfficiency X b CLASS_BEAROFF2 = rTSCubeX X"
| "EvalEfficiency X b CLASS_BEAROFF_TS = rTSCubeX X"

text \<open>The exact equities of the bear-off databases, by the owner of the cube.\<close>

definition CFMONEY :: "real list \<Rightarrow> cubeinfo \<Rightarrow> real" where
  "CFMONEY arEquity pci =
     (if ci_fCubeOwner pci = - 1 then arEquity ! 2
      else if ci_fCubeOwner pci = ci_fMove pci then arEquity ! 1 else arEquity ! 3)"

definition CFHYPER :: "real list \<Rightarrow> cubeinfo \<Rightarrow> real" where
  "CFHYPER arEquity pci =
     (if ci_fCubeOwner pci = - 1 then (if ci_fJacoby pci \<noteq> 0 then arEquity ! 2 else arEquity ! 1)
      else if ci_fCubeOwner pci = ci_fMove pci then arEquity ! 0 else arEquity ! 3)"

section \<open>The live cube\<close>

text \<open>A line through two points, and between them.\<close>

definition line :: "real \<Rightarrow> real \<Rightarrow> real \<Rightarrow> real \<Rightarrow> real \<Rightarrow> real" where
  "line x0 y0 x1 y1 p = y0 + (y1 - y0) * (p - x0) / (x1 - x0)"

lemma line_ends [simp]: "x0 < x1 \<Longrightarrow> line x0 y0 x1 y1 x0 = y0" "x0 < x1 \<Longrightarrow> line x0 y0 x1 y1 x1 = y1"
  by (simp_all add: line_def)

lemma line_mono:
  assumes "x0 < x1" "y0 \<le> y1" "p \<le> q"
  shows "line x0 y0 x1 y1 p \<le> line x0 y0 x1 y1 q"
  using assms by (simp add: line_def divide_right_mono mult_left_mono)

lemma line_between:
  assumes "x0 < x1" "y0 \<le> y1" "x0 \<le> p" "p \<le> x1"
  shows "y0 \<le> line x0 y0 x1 y1 p" and "line x0 y0 x1 y1 p \<le> y1"
  using line_mono [OF assms(1,2,3)] line_mono [OF assms(1,2,4)] assms(1) by simp_all

text \<open>Take and cash point of Janowski's live cube.\<close>

definition take_point :: "real \<Rightarrow> real \<Rightarrow> real" where
  "take_point rW rL = (rL - 1 / 2) / (rW + rL + 1 / 2)"

definition live_cash_point :: "real \<Rightarrow> real \<Rightarrow> real" where
  "live_cash_point rW rL = (rL + 1) / (rW + rL + 1 / 2)"

lemma live_points:
  assumes "1 \<le> rW" "1 \<le> rL"
  shows "0 < take_point rW rL" "take_point rW rL < live_cash_point rW rL" "live_cash_point rW rL < 1"
  using assms by (simp_all add: take_point_def live_cash_point_def divide_strict_right_mono)

text \<open>The function as lines between the points it interpolates.\<close>

lemma MoneyLive_lines:
  "MoneyLive rW rL p pci =
     (let tp = take_point rW rL; cp = live_cash_point rW rL in
      if ci_fCubeOwner pci = - 1 then
        if p < tp then (if ci_fJacoby pci \<noteq> 0 then - 1 else line 0 (- rL) tp (- 1) p)
        else if p < cp then line tp (- 1) cp 1 p
        else (if ci_fJacoby pci \<noteq> 0 then 1 else line cp 1 1 rW p)
      else if ci_fCubeOwner pci = ci_fMove pci then
        if p < cp then line 0 (- rL) cp 1 p else line cp 1 1 rW p
      else
        if p < tp then line 0 (- rL) tp (- 1) p else line tp (- 1) 1 rW p)"
  by (simp add: MoneyLive_def take_point_def live_cash_point_def line_def Let_def algebra_simps)

lemma glue_mono:
  fixes f g :: "real \<Rightarrow> real"
  assumes "\<And>p q. p \<le> q \<Longrightarrow> f p \<le> f q" "\<And>p q. p \<le> q \<Longrightarrow> g p \<le> g q" "f c \<le> g c" "p \<le> q"
  shows "(if p < c then f p else g p) \<le> (if q < c then f q else g q)"
proof -
  have "f p \<le> g q" if "p < c" "c \<le> q" using assms(1) [of p c] assms(2) [of c q] assms(3) that by linarith
  then show ?thesis using assms(1,2,4) by (auto simp: not_less)
qed

text \<open>The equity of a live cube grows with the chance of winning.\<close>

lemma MoneyLive_mono:
  assumes "1 \<le> rW" "1 \<le> rL" "p \<le> q"
  shows "MoneyLive rW rL p pci \<le> MoneyLive rW rL q pci"
proof -
  note pts = live_points [OF assms(1,2)]
  define tp cp where "tp = take_point rW rL" and "cp = live_cash_point rW rL"
  note d = tp_def [symmetric] cp_def [symmetric]
  note m = line_mono [of 0 tp "- rL" "- 1"] line_mono [of tp cp "- 1" 1] line_mono [of cp 1 1 rW]
    line_mono [of 0 cp "- rL" 1] line_mono [of tp 1 "- 1" rW]
  let ?J = "ci_fJacoby pci \<noteq> 0"
  let ?low = "\<lambda>p. if ?J then - 1 else line 0 (- rL) tp (- 1) p"
  let ?high = "\<lambda>p. if ?J then 1 else line cp 1 1 rW p"
  let ?mid = "\<lambda>p. if p < cp then line tp (- 1) cp 1 p else ?high p"
  have mid: "?mid p \<le> ?mid q" if "p \<le> q" for p q
    by (rule glue_mono) (use pts m assms that in \<open>auto simp: d\<close>)
  have "(if p < tp then ?low p else ?mid p) \<le> (if q < tp then ?low q else ?mid q)"
    by (rule glue_mono [OF _ mid]) (use pts m assms in \<open>auto simp: d\<close>)
  moreover have "(if p < cp then line 0 (- rL) cp 1 p else line cp 1 1 rW p)
      \<le> (if q < cp then line 0 (- rL) cp 1 q else line cp 1 1 rW q)"
    by (rule glue_mono) (use pts m assms in \<open>auto simp: d\<close>)
  moreover have "(if p < tp then line 0 (- rL) tp (- 1) p else line tp (- 1) 1 rW p)
      \<le> (if q < tp then line 0 (- rL) tp (- 1) q else line tp (- 1) 1 rW q)"
    by (rule glue_mono) (use pts m assms in \<open>auto simp: d\<close>)
  ultimately show ?thesis unfolding MoneyLive_lines Let_def d by simp
qed

text \<open>Its values at the ends: the average loss and win, or a single point under the Jacoby rule.\<close>

lemma MoneyLive_ends:
  assumes "1 \<le> rW" "1 \<le> rL"
  shows "MoneyLive rW rL 0 pci = (if ci_fCubeOwner pci = - 1 \<and> ci_fJacoby pci \<noteq> 0 then - 1 else - rL)"
    and "MoneyLive rW rL 1 pci = (if ci_fCubeOwner pci = - 1 \<and> ci_fJacoby pci \<noteq> 0 then 1 else rW)"
  using live_points [OF assms] by (simp_all add: MoneyLive_lines Let_def)

lemma MoneyLive_range:
  assumes "1 \<le> rW" "1 \<le> rL" "0 \<le> p" "p \<le> 1"
  shows "(if ci_fCubeOwner pci = - 1 \<and> ci_fJacoby pci \<noteq> 0 then - 1 else - rL) \<le> MoneyLive rW rL p pci"
    and "MoneyLive rW rL p pci \<le> (if ci_fCubeOwner pci = - 1 \<and> ci_fJacoby pci \<noteq> 0 then 1 else rW)"
  using MoneyLive_mono [OF assms(1,2,3), of pci] MoneyLive_mono [OF assms(1,2,4), of pci]
    MoneyLive_ends [OF assms(1,2), of pci] by auto

text \<open>The points of an average win and of an average loss.\<close>

definition average_win :: "real list \<Rightarrow> real" where
  "average_win ar = 1 + (ar ! OUTPUT_WINGAMMON + ar ! OUTPUT_WINBACKGAMMON) / ar ! OUTPUT_WIN"

definition average_loss :: "real list \<Rightarrow> real" where
  "average_loss ar = 1 + (ar ! OUTPUT_LOSEGAMMON + ar ! OUTPUT_LOSEBACKGAMMON) / (1 - ar ! OUTPUT_WIN)"

lemma Utility_money:
  assumes "SetCubeInfoMoney n ow m j b v = (0, pci)" "0 < ar ! OUTPUT_WIN" "ar ! OUTPUT_WIN < 1"
  shows "Utility ar pci = (if ci_fCubeOwner pci = - 1 \<and> ci_fJacoby pci \<noteq> 0 then 2 * ar ! OUTPUT_WIN - 1
    else ar ! OUTPUT_WIN * average_win ar - (1 - ar ! OUTPUT_WIN) * average_loss ar)"
proof -
  have p: "ci_nMatchTo pci = 0" "ci_arGammonPrice pci = replicate 4 (if j \<noteq> 0 \<and> ow = - 1 then 0 else 1)"
    "ci_fCubeOwner pci = ow" "ci_fJacoby pci = j"
    using assms(1) by (auto simp: SetCubeInfoMoney_def split: if_splits)
  have "ar ! OUTPUT_WIN * average_win ar = ar ! OUTPUT_WIN + ar ! OUTPUT_WINGAMMON + ar ! OUTPUT_WINBACKGAMMON"
    "(1 - ar ! OUTPUT_WIN) * average_loss ar = 1 - ar ! OUTPUT_WIN + ar ! OUTPUT_LOSEGAMMON + ar ! OUTPUT_LOSEBACKGAMMON"
    using assms(2,3) by (simp_all add: average_win_def average_loss_def field_simps)
  then show ?thesis using p by (auto simp: Utility_def)
qed

lemma between_mix:
  fixes a b x :: real
  assumes "l \<le> a" "a \<le> u" "l \<le> b" "b \<le> u" "0 \<le> x" "x \<le> 1"
  shows "l \<le> a * (1 - x) + b * x" and "a * (1 - x) + b * x \<le> u"
proof -
  have "l * (1 - x) + l * x \<le> a * (1 - x) + b * x" "a * (1 - x) + b * x \<le> u * (1 - x) + u * x"
    using assms by (intro add_mono mult_right_mono; simp)+
  then show "l \<le> a * (1 - x) + b * x" "a * (1 - x) + b * x \<le> u" by (simp_all add: algebra_simps)
qed

text \<open>C37: At money play the cubeful equity of a position lies between losing the average loss and winning the
  average win (a single point each way on a centred cube under the Jacoby rule), for every cube
  owner and every cube efficiency from 0 to 1, and the equity of the live cube it is mixed from never
  falls when the chance of winning rises.\<close>

theorem Cl2CfMoney_range:
  assumes cube: "SetCubeInfoMoney n ow m j b v = (0, pci)"
    and ar: "1 / 10 ^ 7 < ar ! OUTPUT_WIN" "ar ! OUTPUT_WIN < 9999999 / 10 ^ 7"
      "0 \<le> ar ! OUTPUT_WINGAMMON" "0 \<le> ar ! OUTPUT_WINBACKGAMMON" "0 \<le> ar ! OUTPUT_LOSEGAMMON"
      "0 \<le> ar ! OUTPUT_LOSEBACKGAMMON"
    and x: "0 \<le> x" "x \<le> 1"
  shows "(if ow = - 1 \<and> j \<noteq> 0 then - 1 else - average_loss ar) \<le> Cl2CfMoney ar pci x \<and>
    Cl2CfMoney ar pci x \<le> (if ow = - 1 \<and> j \<noteq> 0 then 1 else average_win ar) \<and>
    (\<forall>p q. p \<le> q \<longrightarrow> MoneyLive (average_win ar) (average_loss ar) p pci \<le> MoneyLive (average_win ar) (average_loss ar) q pci)"
proof -
  have w: "0 < ar ! OUTPUT_WIN" using ar(1) less_trans [of 0 "1 / 10 ^ 7"] by simp
  have w1: "ar ! OUTPUT_WIN < 1" using ar(2) less_trans [of _ "9999999 / 10 ^ 7" 1] by simp
  note w = w w1
  have av: "1 \<le> average_win ar" "1 \<le> average_loss ar"
    using ar w by (simp_all add: average_win_def average_loss_def)
  have p: "ci_fCubeOwner pci = ow" "ci_fJacoby pci = j"
    using cube by (auto simp: SetCubeInfoMoney_def split: if_splits)
  define J where "J \<longleftrightarrow> ow = - 1 \<and> j \<noteq> 0"
  have live: "(if J then - 1 else - average_loss ar) \<le> MoneyLive (average_win ar) (average_loss ar) (ar ! OUTPUT_WIN) pci"
    "MoneyLive (average_win ar) (average_loss ar) (ar ! OUTPUT_WIN) pci \<le> (if J then 1 else average_win ar)"
    using MoneyLive_range [OF av, of "ar ! OUTPUT_WIN" pci] w p by (simp_all add: J_def)
  have dead: "(if J then - 1 else - average_loss ar) \<le> Utility ar pci" "Utility ar pci \<le> (if J then 1 else average_win ar)"
    using Utility_money [OF cube w] between_mix [of "- average_loss ar" "- average_loss ar" "average_win ar"
      "average_win ar" "ar ! OUTPUT_WIN"] w av p by (auto simp: J_def algebra_simps)
  have "Cl2CfMoney ar pci x = Utility ar pci * (1 - x)
      + MoneyLive (average_win ar) (average_loss ar) (ar ! OUTPUT_WIN) pci * x"
    using ar(1,2) by (simp add: Cl2CfMoney_def Let_def average_win_def average_loss_def)
  then show ?thesis
    using between_mix [OF dead live x] MoneyLive_mono [OF av] by (auto simp: J_def)
qed

theorem Cl2CfMoney_range_witness:
  "Cl2CfMoney [3 / 4, 1 / 4, 0, 1 / 8, 0] (snd (SetCubeInfoMoney 1 0 0 0 0 VARIATION_STANDARD)) (68 / 100) \<le> 4 / 3"
  using Cl2CfMoney_range [of 1 0 0 0 0 VARIATION_STANDARD "snd (SetCubeInfoMoney 1 0 0 0 0 VARIATION_STANDARD)"
      "[3 / 4, 1 / 4, 0, 1 / 8, 0]" "68 / 100"]
  by (simp add: SetCubeInfoMoney_def outputs average_win_def)

end
