(* ===== verification/Moves.thy ===== *)
theory Moves
  imports Board
begin

text \<open>
  Playing chequers (eval.c): \<open>ApplySubMove\<close>, \<open>ApplyMove\<close> and \<open>LegalMove\<close>, against the rule
  \<open>can_move\<close> for one die and the mathematical effect \<open>sub_board\<close> of one legal step.
  The player to move owns \<open>anBoard[1]\<close> (\<open>snd\<close>); his point \<open>i\<close> is the opponent's \<open>23 - i\<close>.
\<close>

section \<open>The code\<close>

text \<open>
  The result is the return code with the board as the call leaves it (an illegal destination is
  found after the chequer was lifted); \<open>None\<close> is the read of \<open>anBoard[0][-1]\<close> of an unchecked
  roll of 0 from the bar.
\<close>

definition ApplySubMove :: "TanBoard \<Rightarrow> int \<Rightarrow> int \<Rightarrow> bool \<Rightarrow> (int \<times> TanBoard) option" where
  "ApplySubMove b iSrc nRoll fCheckLegal =
     (let iDest = iSrc - nRoll in
      if fCheckLegal \<and> (nRoll < 1 \<or> nRoll > 6) then Some (- 1, b)
      else if iSrc < 0 \<or> iSrc > 24 \<or> iDest > 24 \<or> snd b ! nat iSrc < 1 then Some (- 1, b)
      else
        let a1 = (snd b)[nat iSrc := snd b ! nat iSrc - 1] in
        if iDest < 0 then Some (0, (fst b, a1))
        else if iDest > 23 then None
        else let q = nat (23 - iDest) in
          if fst b ! q \<noteq> 0 then
            (if fst b ! q > 1 then Some (- 1, (fst b, a1))
             else let a1 = a1[nat iDest := 1]; a0 = (fst b)[q := 0]; a0 = a0[24 := a0 ! 24 + 1]
                  in Some (0, (a0, a1)))
          else Some (0, (fst b, a1[nat iDest := a1 ! nat iDest + 1])))"

text \<open>The loop of \<open>ApplyMove\<close> over the pairs of \<open>anMove[8]\<close>, ended by a negative source.\<close>

fun ApplyMove :: "TanBoard \<Rightarrow> int list \<Rightarrow> bool \<Rightarrow> (int \<times> TanBoard) option" where
  "ApplyMove b (iSrc # iDest # anMove) fCheckLegal =
     (if iSrc \<ge> 0 then
        (case ApplySubMove b iSrc (iSrc - iDest) fCheckLegal of
           None \<Rightarrow> None
         | Some (r, b) \<Rightarrow> if r \<noteq> 0 then Some (- 1, b) else ApplyMove b anMove fCheckLegal)
      else Some (0, b))"
| "ApplyMove b _ fCheckLegal = Some (0, b)"

text \<open>The rearmost occupied point, 0 when there is none above it.\<close>

fun back_point :: "side \<Rightarrow> nat \<Rightarrow> nat" where
  "back_point s 0 = 0"
| "back_point s (Suc n) = (if s ! Suc n > 0 then Suc n else back_point s n)"

definition LegalMove :: "TanBoard \<Rightarrow> int \<Rightarrow> int \<Rightarrow> bool" where
  "LegalMove b iSrc nPips =
     (let iDest = iSrc - nPips in
      if iDest \<ge> 0 then fst b ! nat (23 - iDest) < 2
      else let nBack = back_point (snd b) 24
           in nBack \<le> 5 \<and> (iSrc = int nBack \<or> iDest = - 1))"

section \<open>The rules\<close>

text \<open>Positions that can arise: whole boards, at most 15 chequers a side, no point shared.\<close>

definition no_shared :: "TanBoard \<Rightarrow> bool" where
  "no_shared b \<longleftrightarrow> (\<forall>i<24. fst b ! (23 - i) = 0 \<or> snd b ! i = 0)"

definition playable :: "TanBoard \<Rightarrow> bool" where
  "playable b \<longleftrightarrow> wf_board b \<and> chequers (fst b) \<le> 15 \<and> chequers (snd b) \<le> 15 \<and> no_shared b"

text \<open>Chequer \<open>i\<close> may play the die \<open>d\<close>: enter first, land on no made point, bear off last.\<close>

definition can_move :: "TanBoard \<Rightarrow> nat \<Rightarrow> nat \<Rightarrow> bool" where
  "can_move b i d \<longleftrightarrow>
     i \<le> 24 \<and> snd b ! i \<noteq> 0 \<and> (snd b ! 24 \<noteq> 0 \<longrightarrow> i = 24) \<and>
     (if d \<le> i then fst b ! (23 - (i - d)) < 2
      else (\<forall>p. 6 \<le> p \<and> p \<le> 24 \<longrightarrow> snd b ! p = 0) \<and>
           (d = i + 1 \<or> (\<forall>p. i < p \<and> p \<le> 24 \<longrightarrow> snd b ! p = 0)))"

text \<open>The position after it: a blot on the destination goes to the opponent's bar.\<close>

definition lift :: "side \<Rightarrow> nat \<Rightarrow> side" where "lift s i = s[i := s ! i - 1]"

definition hit :: "side \<Rightarrow> nat \<Rightarrow> side" where
  "hit s q = (if s ! q = 0 then s else s[q := 0, 24 := s ! 24 + 1])"

definition drop_on :: "side \<Rightarrow> nat \<Rightarrow> side" where "drop_on s p = s[p := s ! p + 1]"

definition sub_board :: "TanBoard \<Rightarrow> nat \<Rightarrow> nat \<Rightarrow> TanBoard" where
  "sub_board b i d =
     (if i < d then (fst b, lift (snd b) i)
      else (hit (fst b) (23 - (i - d)), drop_on (lift (snd b) i) (i - d)))"

section \<open>Basic facts\<close>

lemma length_ops [simp]:
  "length (lift s i) = length s" "length (hit s q) = length s" "length (drop_on s p) = length s"
  by (simp_all add: lift_def hit_def drop_on_def)

lemma lift_nth: "i < length s \<Longrightarrow> lift s i ! p = (if p = i then s ! i - 1 else s ! p)"
  by (simp add: lift_def nth_list_update)

lemma drop_on_nth: "i < length s \<Longrightarrow> drop_on s i ! p = (if p = i then s ! i + 1 else s ! p)"
  by (simp add: drop_on_def nth_list_update)

lemma hit_nth:
  "length s = 25 \<Longrightarrow> q < 24 \<Longrightarrow>
   hit s q ! p = (if s ! q = 0 then s ! p else if p = q then 0 else if p = 24 then s ! 24 + 1 else s ! p)"
  by (auto simp: hit_def nth_list_update)

lemma chequers_lift:
  assumes "i < length s" "s ! i \<noteq> 0"
  shows "chequers (lift s i) + 1 = chequers s"
proof -
  have "chequers (lift s i) + unat (s ! i) = chequers s + (unat (s ! i) - 1)"
    using chequers_update [OF assms(1), of "s ! i - 1"]
    unfolding lift_def unat_minus_one_u32 [OF assms(2)] .
  moreover have "unat (s ! i) \<noteq> 0" using assms(2) by simp
  ultimately show ?thesis by arith
qed

lemma chequers_drop_on:
  "i < length s \<Longrightarrow> chequers s < 2 ^ 32 - 1 \<Longrightarrow> chequers (drop_on s i) = chequers s + 1"
  using chequers_update [of i s "s ! i + 1"] chequers_ge [of i s] unat_plus_small [of "s ! i" 1]
  by (simp add: drop_on_def)

lemma chequers_hit:
  assumes "length s = 25" "q < 24" "s ! q < 2" "chequers s < 2 ^ 32 - 1"
  shows "chequers (hit s q) = chequers s"
proof (cases "s ! q = 0")
  case False
  with assms have q: "unat (s ! q) = 1"
    by (auto simp: word_less_nat_alt) (metis One_nat_def less_2_cases_iff unat_eq_zero_u32)
  have "chequers (s[q := 0]) + 1 = chequers s" using chequers_update [of q s 0] assms q by simp
  moreover have "chequers (drop_on (s[q := 0]) 24) = chequers (s[q := 0]) + 1"
    using assms calculation by (intro chequers_drop_on) auto
  moreover have "hit s q = drop_on (s[q := 0]) 24"
    using False assms by (simp add: hit_def drop_on_def)
  ultimately show ?thesis by simp
qed (simp add: hit_def)

lemma back_point_le: "back_point s n \<le> n"
  by (induction n) auto

lemma back_point_above: "back_point s n < p \<Longrightarrow> p \<le> n \<Longrightarrow> s ! p = 0"
  by (induction n) (auto simp: le_Suc_eq word_greater_zero_iff split: if_splits)

lemma back_point_eq: "0 < i \<Longrightarrow> i \<le> n \<Longrightarrow> s ! i \<noteq> 0 \<Longrightarrow> (\<forall>p. i < p \<and> p \<le> n \<longrightarrow> s ! p = 0) \<Longrightarrow> back_point s n = i"
  by (induction n) (auto simp: le_Suc_eq word_greater_zero_iff)

lemma back_point_occupied: "back_point s n \<noteq> 0 \<Longrightarrow> s ! back_point s n \<noteq> 0"
  by (induction n) auto

section \<open>The code follows the rules\<close>

lemma playableD:
  "playable b \<Longrightarrow> length (fst b) = 25" "playable b \<Longrightarrow> length (snd b) = 25"
  "playable b \<Longrightarrow> chequers (fst b) \<le> 15" "playable b \<Longrightarrow> chequers (snd b) \<le> 15"
  "playable b \<Longrightarrow> p < 24 \<Longrightarrow> snd b ! p \<noteq> 0 \<Longrightarrow> fst b ! (23 - p) = 0"
  by (auto simp: playable_def wf_board_def no_shared_def)

lemma can_moveD:
  "can_move b i d \<Longrightarrow> i \<le> 24" "can_move b i d \<Longrightarrow> snd b ! i \<noteq> 0"
  "can_move b i d \<Longrightarrow> d \<le> i \<Longrightarrow> fst b ! (23 - (i - d)) < 2"
  by (auto simp: can_move_def)

text \<open>\<open>LegalMove\<close> with the guards of its callers is the rule.\<close>

lemma bear_off_iff:
  assumes "playable b" "i \<le> 24" "snd b ! i \<noteq> 0" "i < d" "d \<le> 6"
  shows "(let nBack = back_point (snd b) 24 in nBack \<le> 5 \<and> (int i = int nBack \<or> int i - int d = - 1)) \<longleftrightarrow>
    (\<forall>p. 6 \<le> p \<and> p \<le> 24 \<longrightarrow> snd b ! p = 0) \<and> (d = i + 1 \<or> (\<forall>p. i < p \<and> p \<le> 24 \<longrightarrow> snd b ! p = 0))"
proof -
  let ?n = "back_point (snd b) 24"
  have i: "i \<le> ?n"
    using back_point_above [of "snd b" 24 i] assms by (meson leI)
  have above: "p \<le> 24 \<Longrightarrow> ?n < p \<Longrightarrow> snd b ! p = 0" for p
    by (rule back_point_above)
  have occ: "?n \<noteq> 0 \<Longrightarrow> snd b ! ?n \<noteq> 0" by (rule back_point_occupied)
  have n24: "?n \<le> 24" by (rule back_point_le)
  have home: "?n \<le> 5 \<longleftrightarrow> (\<forall>p. 6 \<le> p \<and> p \<le> 24 \<longrightarrow> snd b ! p = 0)"
  proof
    assume "?n \<le> 5"
    then show "\<forall>p. 6 \<le> p \<and> p \<le> 24 \<longrightarrow> snd b ! p = 0" using above by auto
  next
    assume h: "\<forall>p. 6 \<le> p \<and> p \<le> 24 \<longrightarrow> snd b ! p = 0"
    show "?n \<le> 5"
    proof (rule ccontr)
      assume "\<not> ?n \<le> 5"
      with h n24 occ show False by auto
    qed
  qed
  have rear: "i = ?n \<longleftrightarrow> (\<forall>p. i < p \<and> p \<le> 24 \<longrightarrow> snd b ! p = 0)"
    using above occ n24 i by (metis le_neq_implies_less le_zero_eq)
  have "int i - int d = - 1 \<longleftrightarrow> d = i + 1" by arith
  then show ?thesis unfolding Let_def home rear [symmetric] by auto
qed

lemma LegalMove_iff:
  assumes "playable b" "i \<le> 24" "snd b ! i \<noteq> 0" "1 \<le> d" "d \<le> 6" "snd b ! 24 \<noteq> 0 \<longrightarrow> i = 24"
  shows "LegalMove b (int i) (int d) \<longleftrightarrow> can_move b i d"
proof (cases "d \<le> i")
  case True
  then have "nat (23 - (int i - int d)) = 23 - (i - d)" by arith
  with True assms show ?thesis by (simp add: LegalMove_def can_move_def Let_def)
next
  case False
  with bear_off_iff [OF assms(1-3), of d] assms show ?thesis
    by (auto simp: LegalMove_def can_move_def Let_def)
qed

text \<open>A legal step is played: the call succeeds and leaves \<open>sub_board\<close>.\<close>

lemma u32_blot: "x < 2 \<Longrightarrow> x \<noteq> 0 \<Longrightarrow> x = (1 :: u32)"
  by (rule unat_eqI) (auto simp: word_less_nat_alt less_2_cases_iff)

lemma ApplySubMove_sub_board:
  assumes b: "playable b" and i: "i \<le> 24" "snd b ! i \<noteq> 0" and d: "1 \<le> d" "d \<le> 6"
    and opn: "d \<le> i \<Longrightarrow> fst b ! (23 - (i - d)) < 2"
  shows "ApplySubMove b (int i) (int d) f = Some (0, sub_board b i d)"
proof (cases "i < d")
  case True
  with i d show ?thesis
    by (auto simp: ApplySubMove_def Let_def sub_board_def lift_def word_less_nat_alt)
next
  case False
  let ?q = "23 - (i - d)"
  have n: "nat (23 - (int i - int d)) = ?q" "nat (int i - int d) = i - d" using False by arith+
  have len: "length (snd b) = 25" "length (fst b) = 25" using b by (simp_all add: playableD)
  have guards: "\<not> (int d < 1 \<or> int d > 6)" "\<not> (int i < 0 \<or> int i > 24 \<or> int i - int d > 24 \<or> snd b ! nat (int i) < 1)"
    "\<not> int i - int d < 0" "\<not> int i - int d > 23"
    using i d False by auto
  show ?thesis
  proof (cases "fst b ! ?q = 0")
    case True
    then show ?thesis using False guards n
      by (simp add: ApplySubMove_def Let_def sub_board_def hit_def lift_def drop_on_def)
  next
    case occ: False
    have e: "23 - ?q = i - d" "?q < 24" "i - d < 24" using i d False by auto
    have "snd b ! (i - d) = 0" using occ playableD(5) [OF b e(3)] by blast
    moreover have "i - d \<noteq> i" using i d False by simp
    ultimately have "lift (snd b) i ! (i - d) = 0" using i len by (simp add: lift_nth)
    moreover have "\<not> fst b ! ?q > 1" using opn False occ u32_blot [of "fst b ! ?q"] by auto
    ultimately show ?thesis using False guards n occ len e
      by (simp add: ApplySubMove_def Let_def sub_board_def hit_def drop_on_def lift_def)
  qed
qed

section \<open>What a legal step preserves\<close>

lemma snd_sub_board_nth:
  assumes "length (snd b) = 25" "i \<le> 24" "1 \<le> d"
  shows "snd (sub_board b i d) ! p =
    (if p = i then snd b ! i - 1 else if d \<le> i \<and> p = i - d then snd b ! p + 1 else snd b ! p)"
  using assms by (auto simp: sub_board_def lift_nth drop_on_nth)

lemma fst_sub_board_nth:
  assumes "length (fst b) = 25" "i \<le> 24" "1 \<le> d"
  shows "fst (sub_board b i d) ! p =
    (if i < d \<or> fst b ! (23 - (i - d)) = 0 then fst b ! p
     else if p = 23 - (i - d) then 0 else if p = 24 then fst b ! 24 + 1 else fst b ! p)"
  using assms by (auto simp: sub_board_def hit_nth)

lemma length_sub_board [simp]:
  "length (fst (sub_board b i d)) = length (fst b)" "length (snd (sub_board b i d)) = length (snd b)"
  by (simp_all add: sub_board_def)

lemma chequers_sub_board:
  assumes b: "playable b" and m: "can_move b i d" and d: "1 \<le> d"
  shows "chequers (fst (sub_board b i d)) = chequers (fst b)"
    and "chequers (snd (sub_board b i d)) + (if i < d then 1 else 0) = chequers (snd b)"
proof -
  have l: "chequers (lift (snd b) i) + 1 = chequers (snd b)"
    using b m by (intro chequers_lift) (auto simp: playableD dest: can_moveD)
  show "chequers (fst (sub_board b i d)) = chequers (fst b)"
    using b m d by (auto simp: sub_board_def playableD intro!: chequers_hit dest: playableD(3) can_moveD)
  show "chequers (snd (sub_board b i d)) + (if i < d then 1 else 0) = chequers (snd b)"
  proof (cases "i < d")
    case True
    with l show ?thesis by (simp add: sub_board_def)
  next
    case False
    have "chequers (drop_on (lift (snd b) i) (i - d)) = chequers (lift (snd b) i) + 1"
      using playableD(2,4) [OF b] can_moveD(1) [OF m] l by (intro chequers_drop_on) auto
    with False l show ?thesis by (simp add: sub_board_def)
  qed
qed

lemma playable_sub_board [board_wf]:
  assumes b: "playable b" and m: "can_move b i d" and d: "1 \<le> d"
  shows "playable (sub_board b i d)"
proof -
  have "fst (sub_board b i d) ! (23 - p) = 0 \<or> snd (sub_board b i d) ! p = 0" if p: "p < 24" for p
  proof -
    have f: "fst b ! (23 - p) = 0 \<or> snd b ! p = 0"
      using b p by (auto simp: playable_def no_shared_def)
    have q: "23 - p = 23 - (i - d) \<longleftrightarrow> p = i - d" if "d \<le> i"
      using p that can_moveD(1) [OF m] d by auto
    have i: "snd b ! i \<noteq> 0" "i \<le> 24" using m by (auto dest: can_moveD)
    show ?thesis using f q i d p playableD(1,2) [OF b]
      by (auto simp: snd_sub_board_nth fst_sub_board_nth split: if_splits)
  qed
  with chequers_sub_board [OF assms] b show ?thesis
    by (auto simp: playable_def wf_board_def no_shared_def split: if_splits)
qed

lemma pips_lift: "i < length s \<Longrightarrow> s ! i \<noteq> 0 \<Longrightarrow> pips (lift s i) + (i + 1) = pips s"
proof -
  assume i: "i < length s" "s ! i \<noteq> 0"
  have "pips (lift s i) + unat (s ! i) * (i + 1) = pips s + (unat (s ! i) - 1) * (i + 1)"
    using pips_update [OF i(1), of "s ! i - 1"] unfolding lift_def unat_minus_one_u32 [OF i(2)] .
  moreover obtain n where "unat (s ! i) = Suc n" using i(2) by (metis not0_implies_Suc unat_eq_zero_u32)
  ultimately show ?thesis by simp
qed

lemma pips_drop_on: "i < length s \<Longrightarrow> chequers s < 2 ^ 32 - 1 \<Longrightarrow> pips (drop_on s i) = pips s + (i + 1)"
  using pips_update [of i s "s ! i + 1"] chequers_ge [of i s] unat_plus_small [of "s ! i" 1]
  by (simp add: drop_on_def)

text \<open>A step takes the die, or what is left of the board, off the pip count.\<close>

lemma pips_sub_board:
  assumes b: "playable b" and m: "can_move b i d" and d: "1 \<le> d"
  shows "pips (snd (sub_board b i d)) + min d (i + 1) = pips (snd b)"
proof -
  have i: "i < length (snd b)" "snd b ! i \<noteq> 0" using b m by (auto simp: playableD dest: can_moveD)
  note l = pips_lift [OF i] chequers_lift [OF i]
  show ?thesis
  proof (cases "i < d")
    case True
    with l show ?thesis by (simp add: sub_board_def)
  next
    case False
    have "pips (drop_on (lift (snd b) i) (i - d)) = pips (lift (snd b) i) + (i - d + 1)"
      using playableD(4) [OF b] i l by (intro pips_drop_on) auto
    with False l show ?thesis by (simp add: sub_board_def)
  qed
qed

section \<open>Two steps with the same die commute\<close>

lemma fst_sub_board: "fst (sub_board b i d) = (if i < d then fst b else hit (fst b) (23 - (i - d)))"
  by (simp add: sub_board_def)

lemma hit_commute:
  assumes "length s = 25" "q < 24" "r < 24" "q \<noteq> r"
  shows "hit (hit s q) r = hit (hit s r) q"
proof (rule nth_equalityI)
  fix p
  show "hit (hit s q) r ! p = hit (hit s r) q ! p"
    using assms hit_nth [OF assms(1,2)] hit_nth [OF assms(1,3)] by (simp add: hit_nth)
qed simp

lemma board_eqI:
  assumes "length (fst b) = 25" "length (snd b) = 25" "length (fst c) = 25" "length (snd c) = 25"
    "\<And>p. p < 25 \<Longrightarrow> fst b ! p = fst c ! p" "\<And>p. p < 25 \<Longrightarrow> snd b ! p = snd c ! p"
  shows "b = c"
  using assms by (simp add: prod_eq_iff nth_equalityI)

text \<open>
  If chequer \<open>i\<close> and then a chequer \<open>j\<close> further back play the same number, they can play it in
  the order \<open>j\<close>, \<open>i\<close> and reach the same position.
\<close>

lemma can_move_swap:
  assumes b: "playable b" and d: "1 \<le> d" and i: "can_move b i d" and j: "can_move (sub_board b i d) j d"
    and ij: "i < j"
  shows "can_move b j d" "can_move (sub_board b j d) i d"
    "sub_board (sub_board b j d) i d = sub_board (sub_board b i d) j d"
proof -
  note len = playableD(1,2) [OF b]
  have i24: "i \<le> 24" "snd b ! i \<noteq> 0" "i < 24" and j24: "j \<le> 24"
    using i j ij by (auto dest: can_moveD)
  have bar: "snd b ! 24 = 0" using i i24 by (auto simp: can_move_def)
  note nth = snd_sub_board_nth [OF len(2) _ d] fst_sub_board_nth [OF len(1) _ d]
  have occ: "snd b ! j \<noteq> 0"
    using can_moveD(2) [OF j] ij i24 d len by (simp add: nth split: if_splits)
  then have j23: "j < 24" using bar j24 by (cases "j = 24") auto
  have dest: "fst b ! (23 - (j - d)) < 2" if "d \<le> j"
    using can_moveD(3) [OF j that] i24 d that ij j23 len by (auto simp: nth split: if_splits)
  show cj: "can_move b j d"
  proof (cases "d \<le> j")
    case True
    with dest occ bar j24 show ?thesis by (simp add: can_move_def)
  next
    case False
    with ij have "i < d" by simp
    have sub: "snd (sub_board b i d) ! p = (if p = i then snd b ! i - 1 else snd b ! p)" for p
      using \<open>i < d\<close> i24 by (simp add: nth)
    have home: "snd (sub_board b i d) ! p = 0" if "6 \<le> p" "p \<le> 24" for p
      using j False that by (simp add: can_move_def)
    have "j < 6" using home [of j] can_moveD(2) [OF j] j24 by (cases "j < 6") auto
    then have "\<forall>p. 6 \<le> p \<and> p \<le> 24 \<longrightarrow> snd b ! p = 0" using home ij by (auto simp: sub)
    moreover have "d = j + 1 \<or> (\<forall>p. j < p \<and> p \<le> 24 \<longrightarrow> snd b ! p = 0)"
      using j False ij by (auto simp: can_move_def sub)
    ultimately show ?thesis using False occ bar j24 by (simp add: can_move_def)
  qed
  have subj: "snd (sub_board b j d) ! p =
      (if p = j then snd b ! j - 1 else if d \<le> j \<and> p = j - d then snd b ! p + 1 else snd b ! p)" for p
    using j24 by (simp add: nth)
  have no_wrap: "snd b ! p + 1 \<noteq> 0" if "p < 25" for p
  proof
    assume "snd b ! p + 1 = 0"
    moreover have "unat (snd b ! p) \<le> 15"
      using chequers_ge [of p "snd b"] playableD(4) [OF b] len that by simp
    then have "unat (snd b ! p + 1) = unat (snd b ! p) + 1" by (subst unat_plus_small) auto
    ultimately show False by simp
  qed
  show "can_move (sub_board b j d) i d"
  proof (cases "d \<le> i")
    case True
    then have "fst (sub_board b j d) ! (23 - (i - d)) < 2"
      using can_moveD(3) [OF i] j24 i24 by (auto simp: nth split: if_splits)
    with True i24 bar j23 ij no_wrap [of i] show ?thesis by (auto simp: can_move_def subj)
  next
    case False
    have home: "snd b ! p = 0" if "6 \<le> p" "p \<le> 24" for p
      using i False that by (simp add: can_move_def)
    have j6: "j < 6" using home [of j] occ j24 by (cases "j < 6") auto
    have "d = i + 1" using i False ij occ j24 by (auto simp: can_move_def)
    with False i24 bar j23 j6 ij no_wrap [of i] home show ?thesis
      unfolding can_move_def subj by auto
  qed
  show "sub_board (sub_board b j d) i d = sub_board (sub_board b i d) j d"
  proof (rule prod_eqI)
    have "hit (hit (fst b) (23 - (j - d))) (23 - (i - d)) = hit (hit (fst b) (23 - (i - d))) (23 - (j - d))"
      if "d \<le> i" using that ij j23 d by (intro hit_commute len) auto
    then show "fst (sub_board (sub_board b j d) i d) = fst (sub_board (sub_board b i d) j d)"
      using ij unfolding fst_sub_board by (cases "d \<le> i"; cases "d \<le> j") auto
    have nij: "i \<noteq> j" using ij by simp
    show "snd (sub_board (sub_board b j d) i d) = snd (sub_board (sub_board b i d) j d)"
    proof (rule nth_equalityI)
      fix p
      show "snd (sub_board (sub_board b j d) i d) ! p = snd (sub_board (sub_board b i d) j d) ! p"
        unfolding snd_sub_board_nth [OF len(2) i24(1) d] snd_sub_board_nth [OF len(2) j24 d]
          snd_sub_board_nth [OF len(2) [folded length_sub_board(2) [of b i d]] j24 d]
          snd_sub_board_nth [OF len(2) [folded length_sub_board(2) [of b j d]] i24(1) d]
        using nij ij d by (cases "d \<le> i"; cases "d \<le> j"; cases "p = i"; cases "p = j"; simp)
    qed simp
  qed
qed

section \<open>Sequences of steps\<close>

lemma can_move_code [code]:
  "can_move b i d \<longleftrightarrow>
     i \<le> 24 \<and> snd b ! i \<noteq> 0 \<and> (snd b ! 24 \<noteq> 0 \<longrightarrow> i = 24) \<and>
     (if d \<le> i then fst b ! (23 - (i - d)) < 2
      else list_all (\<lambda>p. snd b ! p = 0) [6..<25] \<and>
           (d = i + 1 \<or> list_all (\<lambda>p. i < p \<longrightarrow> snd b ! p = 0) [0..<25]))"
  by (auto simp: can_move_def list_all_iff less_Suc_eq_le)

text \<open>The chequers \<open>is\<close> play the first of the dice \<open>ds\<close>, one each, in order.\<close>

fun play :: "nat list \<Rightarrow> nat list \<Rightarrow> TanBoard \<Rightarrow> TanBoard option" where
  "play ds [] b = Some b"
| "play [] (i # is) b = None"
| "play (d # ds) (i # is) b = (if can_move b i d then play ds is (sub_board b i d) else None)"

definition dice :: "nat list \<Rightarrow> bool" where
  "dice ds \<longleftrightarrow> (\<forall>d\<in>set ds. 1 \<le> d \<and> d \<le> 6)"

lemma dice_Nil [simp]: "dice []"
  by (simp add: dice_def)

lemma dice_Cons [simp]: "dice (d # ds) \<longleftrightarrow> 1 \<le> d \<and> d \<le> 6 \<and> dice ds"
  by (auto simp: dice_def)

lemma play_length: "play ds is b = Some c \<Longrightarrow> length is \<le> length ds"
  by (induction ds "is" b rule: play.induct) (auto split: if_splits)

text \<open>What a whole play keeps, by induction over its steps.\<close>

lemma play_playable:
  "playable b \<Longrightarrow> dice ds \<Longrightarrow> play ds is b = Some c \<Longrightarrow>
   playable c \<and> chequers (fst c) = chequers (fst b) \<and> chequers (snd c) \<le> chequers (snd b)"
proof (induction ds "is" b rule: play.induct)
  case (3 d ds i "is" b)
  then have m: "can_move b i d" by (auto split: if_splits)
  with 3 playable_sub_board [OF "3.prems"(1) m] chequers_sub_board [OF "3.prems"(1) m]
  show ?case by (auto split: if_splits)
qed auto

lemma play_pips:
  "playable b \<Longrightarrow> dice ds \<Longrightarrow> play ds is b = Some c \<Longrightarrow>
   pips (snd c) + length is \<le> pips (snd b) \<and> pips (snd b) \<le> pips (snd c) + sum_list (take (length is) ds)"
proof (induction ds "is" b rule: play.induct)
  case (3 d ds i "is" b)
  then have m: "can_move b i d" and d: "1 \<le> d" by (auto split: if_splits)
  have "1 \<le> min d (i + 1)" "min d (i + 1) \<le> d" using d by auto
  with 3 m playable_sub_board [OF "3.prems"(1) m d] pips_sub_board [OF "3.prems"(1) m d]
  show ?case by (auto split: if_splits)
qed auto

text \<open>The code's list of moves for a play, and what \<open>ApplyMove\<close> makes of it.\<close>

fun move_pairs :: "nat list \<Rightarrow> nat list \<Rightarrow> int list" where
  "move_pairs (d # ds) (i # is) = int i # (int i - int d) # move_pairs ds is"
| "move_pairs _ _ = []"

definition clip :: "int \<Rightarrow> int" where "clip m = (if m > - 1 then m else - 1)"

lemma ApplySubMove_can_move:
  assumes "playable b" "can_move b i d" "1 \<le> d" "d \<le> 6"
  shows "ApplySubMove b (int i) (int d) f = Some (0, sub_board b i d)"
  using assms by (intro ApplySubMove_sub_board) (auto dest: can_moveD)

text \<open>
  A destination below the board is written as \<open>-1\<close>: the chequer is then borne off with the
  roll that reaches it exactly.
\<close>

lemma ApplySubMove_clip:
  assumes b: "playable b" and m: "can_move b i d" and d: "1 \<le> d" "d \<le> 6"
  shows "ApplySubMove b (int i) (int i - clip (int i - int d)) True = Some (0, sub_board b i d)"
proof (cases "i < d")
  case True
  have "i \<le> 24" "snd b ! i \<noteq> 0" using m by (auto dest: can_moveD)
  then have "ApplySubMove b (int i) (int (i + 1)) True = Some (0, sub_board b i (i + 1))"
    using b True d by (intro ApplySubMove_sub_board) auto
  moreover have "sub_board b i (i + 1) = sub_board b i d" using True by (simp add: sub_board_def)
  moreover have "int i - clip (int i - int d) = int (i + 1)" using True by (simp add: clip_def)
  ultimately show ?thesis by metis
next
  case False
  then have "int i - clip (int i - int d) = int d" by (simp add: clip_def)
  with ApplySubMove_can_move [OF assms] show ?thesis by simp
qed

lemma ApplyMove_play:
  "playable b \<Longrightarrow> dice ds \<Longrightarrow> play ds is b = Some c \<Longrightarrow> rest = [] \<or> hd rest < 0 \<Longrightarrow>
   ApplyMove b (map clip (move_pairs ds is) @ rest) True = Some (0, c)"
proof (induction ds "is" b rule: play.induct)
  case (1 ds b)
  then show ?case by (cases rest rule: list.exhaust, simp, cases "tl rest") auto
next
  case (3 d ds i "is" b)
  then have m: "can_move b i d" by (auto split: if_splits)
  have "clip (int i) = int i" by (simp add: clip_def)
  with 3 m ApplySubMove_clip [OF "3.prems"(1) m] playable_sub_board [OF "3.prems"(1) m]
  show ?case by (simp split: if_splits)
qed auto

section \<open>Legal moves and their application\<close>

text \<open>C14: The legality test of the engine is the rule of the game, and a legal move of one chequer is applied
  as the rule says: it keeps the position playable and takes exactly the pips it moves.\<close>

theorem LegalMove_applies:
  assumes "playable b" "i \<le> 24" "snd b ! i \<noteq> 0" "1 \<le> d" "d \<le> 6" "snd b ! 24 \<noteq> 0 \<longrightarrow> i = 24"
  shows "(LegalMove b (int i) (int d) \<longleftrightarrow> can_move b i d) \<and>
    (can_move b i d \<longrightarrow>
       ApplySubMove b (int i) (int d) f = Some (0, sub_board b i d) \<and> playable (sub_board b i d) \<and>
       pips (snd (sub_board b i d)) + min d (i + 1) = pips (snd b))"
  using LegalMove_iff [OF assms] ApplySubMove_sub_board [OF assms(1-5)] playable_sub_board [OF assms(1)]
    pips_sub_board [OF assms(1)] assms
  by (auto simp: can_move_def)

text \<open>C15: Replaying the move list of any sequence of legal chequer moves gives the resulting position; the
  opponent keeps every chequer, and the pips used are within the dice.\<close>

theorem ApplyMove_plays:
  assumes "playable b" "dice ds" "play ds is b = Some c"
  shows "ApplyMove b (map clip (move_pairs ds is) @ [- 1]) True = Some (0, c) \<and>
    playable c \<and> chequers (fst c) = chequers (fst b) \<and> chequers (snd c) \<le> chequers (snd b) \<and>
    pips (snd c) + length is \<le> pips (snd b) \<and> pips (snd b) \<le> pips (snd c) + sum_list (take (length is) ds)"
  using ApplyMove_play [OF assms, of "[- 1]"] play_playable [OF assms] play_pips [OF assms] by simp

text \<open>A bear-off position with two chequers left, and the instances at it.\<close>

definition bear_board :: TanBoard where
  "bear_board = ((replicate 25 0)[20 := 2], (replicate 25 0)[0 := 1, 1 := 1])"

lemma bear_playable: "playable bear_board"
proof -
  have "list_all (\<lambda>i. fst bear_board ! (23 - i) = 0 \<or> snd bear_board ! i = 0) [0..<24]" by code_simp
  moreover have "chequers (fst bear_board) = 2" "chequers (snd bear_board) = 2" by code_simp+
  moreover have "wf_board bear_board" by (simp add: wf_board_def bear_board_def)
  ultimately show ?thesis by (simp add: playable_def no_shared_def list_all_iff)
qed

theorem LegalMove_applies_witness:
  "LegalMove bear_board 1 2 \<and> ApplySubMove bear_board 1 2 True = Some (0, sub_board bear_board 1 2)"
proof -
  have "can_move bear_board 1 2" by code_simp
  moreover have "(1 :: nat) \<le> 24" "(1 :: nat) \<le> 2" "(2 :: nat) \<le> 6" by simp_all
  moreover have "snd bear_board ! 1 \<noteq> 0" "snd bear_board ! 24 \<noteq> 0 \<longrightarrow> (1 :: nat) = 24" by code_simp+
  ultimately show ?thesis using LegalMove_applies [OF bear_playable, of 1 2 True] by simp
qed

theorem ApplyMove_plays_witness:
  "ApplyMove bear_board [1, - 1, 0, - 1, - 1] True = Some (0, the (play [2, 1] [1, 0] bear_board))"
proof -
  have "dice [2, 1]" "play [2, 1] [1, 0] bear_board = Some (the (play [2, 1] [1, 0] bear_board))" by code_simp+
  from ApplyMove_plays [OF bear_playable this] show ?thesis by (simp add: clip_def)
qed

end
