(* ===== verification/Move_Gen.thy ===== *)
theory Move_Gen
  imports Complex_Main Moves Position_Key "HOL-Library.Multiset"
begin

text \<open>
  The move generator of eval.c: \<open>SaveMoves\<close>, \<open>GenerateMovesSub\<close>, \<open>GenerateMoves\<close>.  The array
  \<open>amMoves\<close> of a \<open>movelist\<close> is the list of its first \<open>cMoves\<close> entries, so emptying the list is
  \<open>cMoves = 0\<close>; of an entry's \<open>anMove[8]\<close> the part that is written is kept, up to and including
  the terminating \<open>-1\<close>.
\<close>

section \<open>The code\<close>

datatype CMark = CMARK_NONE | CMARK_ROLLOUT

record move =
  pm_anMove :: "int list"
  pm_key :: positionkey
  pm_cMoves :: nat
  pm_cPips :: nat
  pm_arEvalMove :: "real list"
  pm_cmark :: CMark

record movelist =
  cMaxMoves :: nat
  cMaxPips :: nat
  iMoveBest :: int
  amMoves :: "move list"
  asserts_hold :: bool

definition MAX_INCOMPLETE_MOVES :: int where "MAX_INCOMPLETE_MOVES = 3875"
definition MAX_MOVES :: int where "MAX_MOVES = 3060"
definition NUM_OUTPUTS :: nat where "NUM_OUTPUTS = 5"

definition copy_moves :: "nat \<Rightarrow> int list \<Rightarrow> int list" where
  "copy_moves cMoves anMoves =
     map (\<lambda>m. if m > - 1 then m else - 1) (take (cMoves * 2) anMoves)
     @ (if cMoves < 4 then [- 1] else [])"

text \<open>The search for an entry with the same key: improve it, or append a new one.\<close>

fun store_move :: "nat \<Rightarrow> nat \<Rightarrow> int list \<Rightarrow> positionkey \<Rightarrow> move list \<Rightarrow> move list" where
  "store_move cMoves cPip anMoves key [] =
     [\<lparr>pm_anMove = copy_moves cMoves anMoves, pm_key = key, pm_cMoves = cMoves, pm_cPips = cPip,
       pm_arEvalMove = replicate NUM_OUTPUTS 0, pm_cmark = CMARK_NONE\<rparr>]"
| "store_move cMoves cPip anMoves key (pm # pms) =
     (if EqualKeys key (pm_key pm) then
        (if cMoves > pm_cMoves pm \<or> cPip > pm_cPips pm
         then pm\<lparr>pm_anMove := copy_moves cMoves anMoves, pm_cMoves := cMoves, pm_cPips := cPip\<rparr>
         else pm) # pms
      else pm # store_move cMoves cPip anMoves key pms)"

text \<open>
  The entry is counted and \<open>SaveMoves\<close> asserts that there is room for another; the flag
  \<open>asserts_hold\<close> of the list records whether all these assertions have held.  (On the early return
  the list has the length that the assertion has already accepted.)
\<close>

definition save_entry :: "nat \<Rightarrow> nat \<Rightarrow> int list \<Rightarrow> positionkey \<Rightarrow> movelist \<Rightarrow> movelist" where
  "save_entry cMoves cPip anMoves key pml =
     (let ms = store_move cMoves cPip anMoves key (amMoves pml)
      in pml\<lparr>amMoves := ms, asserts_hold := asserts_hold pml \<and> int (length ms) < MAX_INCOMPLETE_MOVES\<rparr>)"

definition SaveMoves ::
  "movelist \<Rightarrow> nat \<Rightarrow> nat \<Rightarrow> int list \<Rightarrow> TanBoard \<Rightarrow> bool \<Rightarrow> movelist" where
  "SaveMoves pml cMoves cPip anMoves b fPartial =
     (if fPartial then
        save_entry cMoves cPip anMoves (PositionKey b)
          (pml\<lparr>cMaxMoves := if cMoves > cMaxMoves pml then cMoves else cMaxMoves pml,
               cMaxPips := if cPip > cMaxPips pml then cPip else cMaxPips pml\<rparr>)
      else if cMoves < cMaxMoves pml \<or> cPip < cMaxPips pml then pml
      else
        let pml = (if cMoves > cMaxMoves pml \<or> cPip > cMaxPips pml then pml\<lparr>amMoves := []\<rparr> else pml)
        in save_entry cMoves cPip anMoves (PositionKey b)
             (pml\<lparr>cMaxMoves := cMoves, cMaxPips := cPip\<rparr>))"

lemma save_entry_simps [simp]:
  "amMoves (save_entry n p an k pml) = store_move n p an k (amMoves pml)"
  "cMaxMoves (save_entry n p an k pml) = cMaxMoves pml" "cMaxPips (save_entry n p an k pml) = cMaxPips pml"
  "asserts_hold (save_entry n p an k pml) \<longleftrightarrow>
     asserts_hold pml \<and> int (length (store_move n p an k (amMoves pml))) < MAX_INCOMPLETE_MOVES"
  by (simp_all add: save_entry_def Let_def)

text \<open>The generator ignores the return code of \<open>ApplySubMove\<close>.\<close>

definition after_sub_move :: "TanBoard \<Rightarrow> int \<Rightarrow> int \<Rightarrow> TanBoard" where
  "after_sub_move b iSrc nRoll =
     (case ApplySubMove b iSrc nRoll True of Some (_, b') \<Rightarrow> b' | None \<Rightarrow> b)"

function (sequential) GenerateMovesSub ::
  "movelist \<Rightarrow> int list \<Rightarrow> nat \<Rightarrow> nat \<Rightarrow> nat \<Rightarrow> TanBoard \<Rightarrow> int list \<Rightarrow> bool \<Rightarrow> bool \<times> movelist" where
  "GenerateMovesSub pml anRoll nMoveDepth iPip cPip b anMoves fPartial =
     (if nMoveDepth > 3 \<or> anRoll ! nMoveDepth = 0 then (True, pml)
      else
        let nRoll = anRoll ! nMoveDepth; cPip = cPip + nat nRoll in
        if snd b ! 24 \<noteq> 0 then
          (if fst b ! nat (nRoll - 1) \<ge> 2 then (True, pml)
           else
             let anMoves = anMoves[nMoveDepth * 2 := 24, nMoveDepth * 2 + 1 := 24 - nRoll];
                 anBoardNew = after_sub_move b 24 nRoll;
                 (f, pml) = GenerateMovesSub pml anRoll (nMoveDepth + 1) 23 cPip anBoardNew anMoves fPartial;
                 pml = (if f then SaveMoves pml (nMoveDepth + 1) cPip anMoves anBoardNew fPartial else pml)
             in (fPartial, pml))
        else
          let (fUsed, pml) =
            fold (\<lambda>i (fUsed, pml).
              if snd b ! i \<noteq> 0 \<and> LegalMove b (int i) nRoll then
                let anMoves = anMoves[nMoveDepth * 2 := int i, nMoveDepth * 2 + 1 := int i - nRoll];
                    anBoardNew = after_sub_move b (int i) nRoll;
                    (f, pml) = GenerateMovesSub pml anRoll (nMoveDepth + 1)
                      (if anRoll ! 0 = anRoll ! 1 then i else 23) cPip anBoardNew anMoves fPartial;
                    pml = (if f then SaveMoves pml (nMoveDepth + 1) cPip anMoves anBoardNew fPartial
                           else pml)
                in (True, pml)
              else (fUsed, pml)) (rev [0..<iPip + 1]) (False, pml)
          in (\<not> fUsed \<or> fPartial, pml))"
  by pat_completeness auto

termination GenerateMovesSub
  by (relation "measure (\<lambda>(pml, anRoll, nMoveDepth, iPip, cPip, b, anMoves, fPartial). 4 - nMoveDepth)")
    auto

declare GenerateMovesSub.simps [simp del]

definition GenerateMoves :: "TanBoard \<Rightarrow> int \<Rightarrow> int \<Rightarrow> bool \<Rightarrow> movelist" where
  "GenerateMoves b n0 n1 fPartial =
     (let n2 = (if n0 = n1 then n0 else 0);
          anRoll = [n0, n1, n2, n2];
          pml = \<lparr>cMaxMoves = 0, cMaxPips = 0, iMoveBest = 0, amMoves = [], asserts_hold = True\<rparr>;
          anMoves = replicate 8 0;
          (_, pml) = GenerateMovesSub pml anRoll 0 23 0 b anMoves fPartial
      in if anRoll ! 0 \<noteq> anRoll ! 1 then
           snd (GenerateMovesSub pml (anRoll[0 := anRoll ! 1, 1 := anRoll ! 0]) 0 23 0 b anMoves fPartial)
         else pml)"

definition MoveKey :: "TanBoard \<Rightarrow> int list \<Rightarrow> positionkey option" where
  "MoveKey b anMove = map_option (\<lambda>(_, b). PositionKey b) (ApplyMove b anMove False)"

section \<open>The plays the generator walks through\<close>

text \<open>
  \<open>sources\<close> are the chequers tried for one die: from \<open>hi\<close> down, or the bar.
  \<open>enum_plays\<close> lists the plays handed to \<open>SaveMoves\<close>: with doubles (\<open>dbl\<close>) the sources
  descend; a play is handed over when it cannot be continued, or always in partial mode.
\<close>

definition sources :: "nat \<Rightarrow> TanBoard \<Rightarrow> nat \<Rightarrow> nat list" where
  "sources hi b d =
     filter (\<lambda>i. can_move b i d) (if snd b ! 24 \<noteq> 0 then [24] else rev [0..<hi + 1])"

fun stuck :: "nat list \<Rightarrow> nat \<Rightarrow> TanBoard \<Rightarrow> bool" where
  "stuck [] hi b = True"
| "stuck (d # ds) hi b = (sources hi b d = [])"

definition next_hi :: "bool \<Rightarrow> TanBoard \<Rightarrow> nat \<Rightarrow> nat" where
  "next_hi dbl b i = (if dbl \<and> snd b ! 24 = 0 then i else 23)"

fun enum_plays :: "bool \<Rightarrow> bool \<Rightarrow> nat list \<Rightarrow> nat \<Rightarrow> TanBoard \<Rightarrow> (nat list \<times> TanBoard) list" where
  "enum_plays dbl fP [] hi b = []"
| "enum_plays dbl fP (d # ds) hi b =
     concat (map (\<lambda>i. map (\<lambda>(is, c). (i # is, c))
                        (enum_plays dbl fP ds (next_hi dbl b i) (sub_board b i d))
                      @ (if fP \<or> stuck ds (next_hi dbl b i) (sub_board b i d)
                         then [([i], sub_board b i d)] else []))
              (sources hi b d))"

fun write_moves :: "int list \<Rightarrow> nat \<Rightarrow> nat list \<Rightarrow> nat list \<Rightarrow> int list" where
  "write_moves anMoves d (r # ds) (i # is) =
     write_moves (anMoves[d * 2 := int i, d * 2 + 1 := int i - int r]) (d + 1) ds is"
| "write_moves anMoves d _ _ = anMoves"

definition save_play ::
  "bool \<Rightarrow> nat \<Rightarrow> nat \<Rightarrow> int list \<Rightarrow> nat list \<Rightarrow> nat list \<times> TanBoard \<Rightarrow> movelist \<Rightarrow> movelist" where
  "save_play fP d cPip anMoves ds = (\<lambda>(is, c) pml.
     SaveMoves pml (d + length is) (cPip + sum_list (take (length is) ds))
       (write_moves anMoves d ds is) c fP)"

lemma save_play_Cons:
  "save_play fP d cPip an (r # ds) (i # is, c) =
   save_play fP (d + 1) (cPip + r) (an[d * 2 := int i, d * 2 + 1 := int i - int r]) ds (is, c)"
  by (simp add: save_play_def add_ac)

lemma write_moves_Nil [simp]: "write_moves anMoves d ds [] = anMoves"
  by (cases ds) simp_all

lemma save_play_single:
  "save_play fP d cPip an (r # ds) ([i], c) pml =
   SaveMoves pml (d + 1) (cPip + r) (an[d * 2 := int i, d * 2 + 1 := int i - int r]) c fP"
  by (simp add: save_play_def)

lemma fold_save_play_Cons:
  "fold (save_play fP d cPip an (r # ds)) (map (\<lambda>(is, c). (i # is, c)) ps) =
   fold (save_play fP (d + 1) (cPip + r) (an[d * 2 := int i, d * 2 + 1 := int i - int r]) ds) ps"
  by (simp add: fold_map comp_def split_beta save_play_Cons)

lemma after_sub_move_legal:
  "playable b \<Longrightarrow> can_move b i d \<Longrightarrow> 1 \<le> d \<Longrightarrow> d \<le> 6 \<Longrightarrow>
   after_sub_move b (int i) (int d) = sub_board b i d"
  by (simp add: after_sub_move_def ApplySubMove_can_move)

lemma can_move_bar:
  "snd b ! 24 \<noteq> 0 \<Longrightarrow> 1 \<le> d \<Longrightarrow> d \<le> 6 \<Longrightarrow> can_move b 24 d \<longleftrightarrow> fst b ! (d - 1) < 2"
proof -
  assume "snd b ! 24 \<noteq> 0" "1 \<le> d" "d \<le> 6"
  moreover from this have "23 - (24 - d) = d - 1" by simp
  ultimately show ?thesis by (simp add: can_move_def)
qed

text \<open>One call of the generator, from the bar and otherwise.\<close>

lemma GenerateMovesSub_bar:
  assumes "\<not> d > 3" "anRoll ! d = int x" "1 \<le> x" "snd b ! 24 \<noteq> 0"
  shows "GenerateMovesSub pml anRoll d hi cPip b an fP =
    (if fst b ! (x - 1) < 2 then
       let an' = an[d * 2 := int 24, Suc (d * 2) := int 24 - int x]; c = after_sub_move b (int 24) (int x);
           r = GenerateMovesSub pml anRoll (Suc d) 23 (cPip + x) c an' fP
       in (fP, if fst r then SaveMoves (snd r) (Suc d) (cPip + x) an' c fP else snd r)
     else (True, pml))"
proof -
  have n: "nat (int x - 1) = x - 1" using assms(3) by simp
  show ?thesis
    using assms by (subst GenerateMovesSub.simps) (auto simp: n Let_def split_beta not_less)
qed

lemma GenerateMovesSub_points:
  assumes "\<not> d > 3" "anRoll ! d = int x" "1 \<le> x" "snd b ! 24 = 0"
  shows "GenerateMovesSub pml anRoll d hi cPip b an fP =
    (let r = fold (\<lambda>i (fUsed, pml).
        if snd b ! i \<noteq> 0 \<and> LegalMove b (int i) (int x) then
          (True, let an' = an[d * 2 := int i, Suc (d * 2) := int i - int x];
                     c = after_sub_move b (int i) (int x);
                     r = GenerateMovesSub pml anRoll (Suc d)
                           (if anRoll ! 0 = anRoll ! 1 then i else 23) (cPip + x) c an' fP
                 in if fst r then SaveMoves (snd r) (Suc d) (cPip + x) an' c fP else snd r)
        else (fUsed, pml)) (rev [0..<hi + 1]) (False, pml)
     in (\<not> fst r \<or> fP, snd r))"
proof -
  have c: "(False \<or> int x = 0) = False" "(0 :: u32) \<noteq> 0 \<longleftrightarrow> False" using assms(1,3) by auto
  show ?thesis
    by (subst GenerateMovesSub.simps)
      (simp only: assms c if_False Let_def case_prod_unfold fst_conv snd_conv nat_int Suc_eq_plus1 not_False_eq_True)
qed

text \<open>The code is the enumeration, each play handed to \<open>SaveMoves\<close> in turn.\<close>

lemma GenerateMovesSub_enum:
  assumes "playable b" "dice ds" "anRoll = map int (rs @ ds) @ replicate z 0" "length anRoll = 4"
    "d = length rs" "hi \<le> 23" "dbl = (anRoll ! 0 = anRoll ! 1)"
  shows "GenerateMovesSub pml anRoll d hi cPip b an fP =
    (stuck ds hi b \<or> fP,
     fold (save_play fP d cPip an ds) (enum_plays dbl fP ds hi b) pml)"
  using assms
proof (induction ds arbitrary: d rs pml hi cPip b an)
  case Nil
  then have "d > 3 \<or> anRoll ! d = 0" by (cases z) (auto simp: nth_append)
  then show ?case by (subst GenerateMovesSub.simps) simp
next
  case (Cons x ds)
  have roll: "anRoll ! d = int x" "\<not> d > 3" using Cons.prems by (auto simp: nth_append)
  have x: "1 \<le> x" "x \<le> 6" "dice ds" using Cons.prems(2) by auto
  let ?an = "\<lambda>i. an[d * 2 := int i, Suc (d * 2) := int i - int x]"
  let ?c = "\<lambda>i. sub_board b i x"
  have IH: "GenerateMovesSub pml anRoll (Suc d) l (cPip + x) (?c i) an' fP =
      (stuck ds l (?c i) \<or> fP,
       fold (save_play fP (Suc d) (cPip + x) an' ds) (enum_plays dbl fP ds l (?c i)) pml)"
    if "can_move b i x" "l \<le> 23" for pml l i an'
    using Cons.prems that x
    by (intro Cons.IH [where rs = "rs @ [x]"] playable_sub_board) auto
  define g where "g = (\<lambda>i. fold (save_play fP d cPip an (x # ds))
      (map (\<lambda>(is, c). (i # is, c)) (enum_plays dbl fP ds (next_hi dbl b i) (?c i))
       @ (if fP \<or> stuck ds (next_hi dbl b i) (?c i) then [([i], ?c i)] else [])))"
  have g: "(if stuck ds l (?c i) \<or> fP
        then SaveMoves (fold (save_play fP (Suc d) (cPip + x) (?an i) ds) (enum_plays dbl fP ds l (?c i)) pml)
               (Suc d) (cPip + x) (?an i) (?c i) fP
        else fold (save_play fP (Suc d) (cPip + x) (?an i) ds) (enum_plays dbl fP ds l (?c i)) pml) = g i pml"
    if "l = next_hi dbl b i" for i pml l
    using that by (auto simp: g_def fold_save_play_Cons save_play_single)
  have call: "(let c = after_sub_move b (int i) (int x);
                    r = GenerateMovesSub pml anRoll (Suc d) l (cPip + x) c (?an i) fP
                in if fst r then SaveMoves (snd r) (Suc d) (cPip + x) (?an i) c fP else snd r) = g i pml"
    if "can_move b i x" "l = next_hi dbl b i" "l \<le> 23" for i pml l
    unfolding after_sub_move_legal [OF Cons.prems(1) that(1) x(1,2)] Let_def IH [OF that(1,3)] fst_conv snd_conv
    by (rule g [OF that(2)])
  have rhs: "fold (save_play fP d cPip an (x # ds)) (enum_plays dbl fP (x # ds) hi b) pml =
      fold g (sources hi b x) pml"
    by (simp only: enum_plays.simps fold_concat_map g_def)
  show ?case
  proof (cases "snd b ! 24 = 0")
    case False
    note bar = can_move_bar [OF False x(1,2)]
    note gen = GenerateMovesSub_bar [OF roll(2,1) x(1) False]
    show ?thesis
    proof (cases "can_move b 24 x")
      case True
      have "next_hi dbl b 24 = 23" using False by (simp add: next_hi_def)
      with call [OF True, of 23 pml] True False bar show ?thesis
        unfolding rhs gen by (simp add: Let_def sources_def del: of_nat_numeral)
    next
      case no: False
      with False bar show ?thesis unfolding rhs gen by (simp add: sources_def)
    qed
  next
    case True
    have legal: "snd b ! i \<noteq> 0 \<and> LegalMove b (int i) (int x) \<longleftrightarrow> can_move b i x" if "i \<le> 23" for i
      using LegalMove_iff [OF Cons.prems(1), of i x] that x True by (auto dest: can_moveD)
    have "GenerateMovesSub pml anRoll d hi cPip b an fP =
        (let r = fold (\<lambda>i (u, pml). if can_move b i x then (True, g i pml) else (u, pml))
                  (rev [0..<hi + 1]) (False, pml)
         in (\<not> fst r \<or> fP, snd r))"
      unfolding GenerateMovesSub_points [OF roll(2,1) x(1) True]
    proof (rule arg_cong [where f = "\<lambda>r. let r = r in (\<not> fst r \<or> fP, snd r)"], rule fold_cong [OF refl refl])
      fix i assume "i \<in> set (rev [0..<hi + 1])"
      then have i: "i \<le> 23" using Cons.prems(6) by auto
      have l: "(if anRoll ! 0 = anRoll ! 1 then i else 23) = next_hi dbl b i" "next_hi dbl b i \<le> 23"
        using True Cons.prems(7) i by (simp_all add: next_hi_def)
      show "(\<lambda>(fUsed, pml).
          if snd b ! i \<noteq> 0 \<and> LegalMove b (int i) (int x) then
            (True, let an' = ?an i; c = after_sub_move b (int i) (int x);
                       r = GenerateMovesSub pml anRoll (Suc d)
                             (if anRoll ! 0 = anRoll ! 1 then i else 23) (cPip + x) c an' fP
                   in if fst r then SaveMoves (snd r) (Suc d) (cPip + x) an' c fP else snd r)
          else (fUsed, pml)) = (\<lambda>(u, pml). if can_move b i x then (True, g i pml) else (u, pml))"
        unfolding legal [OF i] l(1) using call [OF _ refl l(2)] by (auto simp: fun_eq_iff Let_def)
    qed
    also have "\<dots> = (sources hi b x = [] \<or> fP, fold g (sources hi b x) pml)"
      using True unfolding fold_flagged by (auto simp: sources_def filter_empty_conv Let_def)
    finally show ?thesis unfolding rhs by simp
  qed
qed

section \<open>What \<open>SaveMoves\<close> keeps\<close>

text \<open>A play offered to \<open>SaveMoves\<close>: chequers moved, pips, the move array and the position.\<close>

type_synonym offer = "nat \<times> nat \<times> int list \<times> TanBoard"

definition entry :: "offer \<Rightarrow> move" where
  "entry = (\<lambda>(n, p, an, c).
     \<lparr>pm_anMove = copy_moves n an, pm_key = PositionKey c, pm_cMoves = n, pm_cPips = p,
      pm_arEvalMove = replicate NUM_OUTPUTS 0, pm_cmark = CMARK_NONE\<rparr>)"

definition save_offer :: "bool \<Rightarrow> offer \<Rightarrow> movelist \<Rightarrow> movelist" where
  "save_offer fP = (\<lambda>(n, p, an, c) pml. SaveMoves pml n p an c fP)"

definition offer_key :: "offer \<Rightarrow> positionkey" where
  "offer_key x = PositionKey (snd (snd (snd x)))"

lemma pm_entry [simp]:
  "pm_key (entry x) = offer_key x" "pm_cMoves (entry x) = fst x" "pm_cPips (entry x) = fst (snd x)"
  by (auto simp: entry_def offer_key_def split: prod.splits)

lemma length_offer_key [simp]: "length (offer_key x) = 7"
  by (simp add: offer_key_def)

text \<open>Storing an offer in a list of entries with distinct keys.\<close>

lemma set_store_move:
  assumes "set ms \<subseteq> range entry"
  shows "set (store_move n p an (PositionKey c) ms) \<subseteq> insert (entry (n, p, an, c)) (set ms)"
  using assms
proof (induction ms)
  case Nil
  then show ?case by (simp add: entry_def)
next
  case (Cons m ms)
  then obtain x where m: "m = entry x" by auto
  have "EqualKeys (PositionKey c) (pm_key m) \<Longrightarrow> PositionKey c = pm_key m"
    by (simp add: m EqualKeys_iff)
  then have "EqualKeys (PositionKey c) (pm_key m) \<Longrightarrow>
      m\<lparr>pm_anMove := copy_moves n an, pm_cMoves := n, pm_cPips := p\<rparr> = entry (n, p, an, c)"
    by (cases x) (simp add: m entry_def offer_key_def)
  with Cons show ?case by auto
qed

lemma keys_store_move:
  assumes "set ms \<subseteq> range entry"
  shows "pm_key ` set (store_move n p an (PositionKey c) ms) = insert (PositionKey c) (pm_key ` set ms)"
    and "distinct (map pm_key ms) \<Longrightarrow> distinct (map pm_key (store_move n p an (PositionKey c) ms))"
proof -
  have "map pm_key (store_move n p an (PositionKey c) ms) =
      (if PositionKey c \<in> pm_key ` set ms then map pm_key ms else map pm_key ms @ [PositionKey c])"
    using assms by (induction ms) (auto simp: EqualKeys_iff)
  then show "pm_key ` set (store_move n p an (PositionKey c) ms) = insert (PositionKey c) (pm_key ` set ms)"
    and "distinct (map pm_key ms) \<Longrightarrow> distinct (map pm_key (store_move n p an (PositionKey c) ms))"
    by (auto simp flip: set_map split: if_splits)
qed

text \<open>The offers of greatest count and pips.\<close>

definition offer_le :: "offer \<Rightarrow> offer \<Rightarrow> bool" where
  "offer_le x y \<longleftrightarrow> fst x \<le> fst y \<and> fst (snd x) \<le> fst (snd y)"

definition best_offers :: "offer set \<Rightarrow> offer set" where
  "best_offers X = {x \<in> X. \<forall>y\<in>X. offer_le y x}"

definition holds :: "move list \<Rightarrow> offer set \<Rightarrow> bool" where
  "holds ms X \<longleftrightarrow> distinct (map pm_key ms) \<and> set ms \<subseteq> entry ` X \<and> pm_key ` set ms = offer_key ` X"

lemma holds_store:
  assumes "holds ms X"
  shows "holds (store_move n p an (PositionKey c) ms) (insert (n, p, an, c) X)"
proof -
  from assms have d: "distinct (map pm_key ms)" and s: "set ms \<subseteq> entry ` X"
    and k: "pm_key ` set ms = offer_key ` X" by (auto simp: holds_def)
  then have r: "set ms \<subseteq> range entry" by blast
  have "offer_key (n, p, an, c) = PositionKey c" by (simp add: offer_key_def)
  then show ?thesis
    unfolding holds_def image_insert keys_store_move(1) [OF r] k
    using keys_store_move(2) [OF r d] order_trans [OF set_store_move [OF r] insert_mono [OF s]]
    by simp
qed

lemma holds_empty: "holds [] {}"
  by (simp add: holds_def)

text \<open>Partial mode keeps every position offered.\<close>

lemma partial_saves:
  "holds (amMoves pml) X \<Longrightarrow> holds (amMoves (fold (save_offer True) L pml)) (X \<union> set L)"
proof (induction L arbitrary: pml X)
  case (Cons x L)
  obtain n p an c where x: "x = (n, p, an, c)" by (metis surj_pair)
  have "holds (amMoves (save_offer True x pml)) (insert x X)"
    using holds_store [OF Cons.prems] by (simp add: x save_offer_def SaveMoves_def)
  from Cons.IH [OF this] show ?case by simp
qed simp

text \<open>Otherwise the best positions remain, when the offers are ordered.\<close>

definition ordered_offers :: "offer set \<Rightarrow> bool" where
  "ordered_offers X \<longleftrightarrow> (\<forall>x\<in>X. \<forall>y\<in>X. offer_le x y \<or> offer_le y x)"

definition saved :: "offer set \<Rightarrow> movelist \<Rightarrow> bool" where
  "saved X pml \<longleftrightarrow> holds (amMoves pml) (best_offers X) \<and>
     (if X = {} then cMaxMoves pml = 0 \<and> cMaxPips pml = 0
      else \<exists>x\<in>best_offers X. cMaxMoves pml = fst x \<and> cMaxPips pml = fst (snd x))"

lemma saved_step:
  assumes "saved X pml" "ordered_offers (insert x X)"
  shows "saved (insert x X) (save_offer False x pml)"
proof -
  obtain n p an c where x: "x = (n, p, an, c)" by (metis surj_pair)
  show ?thesis
  proof (cases "X = {}")
    case True
    with assms holds_store [OF holds_empty, of n p an c] show ?thesis
      by (auto simp: saved_def best_offers_def holds_def x save_offer_def SaveMoves_def Let_def offer_le_def)
  next
    case False
    with assms obtain z where z: "z \<in> best_offers X" "cMaxMoves pml = fst z" "cMaxPips pml = fst (snd z)"
      unfolding saved_def by (metis (no_types, lifting))
    have zX: "z \<in> X" "\<And>y. y \<in> X \<Longrightarrow> offer_le y z" using z by (auto simp: best_offers_def)
    consider (worse) "\<not> offer_le z x" | (equal) "offer_le z x" "offer_le x z"
      | (better) "offer_le z x" "\<not> offer_le x z" by blast
    then show ?thesis
    proof cases
      case worse
      then have "offer_le x z" using assms(2) zX by (auto simp: ordered_offers_def)
      with worse zX have "best_offers (insert x X) = best_offers X"
        by (auto simp: best_offers_def offer_le_def)
      moreover have "save_offer False x pml = pml"
        using worse z by (auto simp: x save_offer_def SaveMoves_def offer_le_def)
      ultimately show ?thesis using assms(1) False by (auto simp: saved_def)
    next
      case equal
      then have "best_offers (insert x X) = insert x (best_offers X)"
        using zX by (auto simp: best_offers_def offer_le_def; fastforce)
      moreover have "fst z = n" "fst (snd z) = p" using equal by (auto simp: x offer_le_def)
      ultimately show ?thesis
        using assms(1) False z holds_store [of "amMoves pml" "best_offers X" n p an c]
        by (auto simp: saved_def x save_offer_def SaveMoves_def Let_def)
    next
      case better
      then have "best_offers (insert x X) = {x}"
        using zX by (auto simp: best_offers_def offer_le_def; fastforce)
      with better z holds_store [OF holds_empty, of n p an c] show ?thesis
        by (auto simp: saved_def x save_offer_def SaveMoves_def Let_def offer_le_def holds_def)
    qed
  qed
qed

lemma full_saves:
  "saved X pml \<Longrightarrow> ordered_offers (X \<union> set L) \<Longrightarrow> saved (X \<union> set L) (fold (save_offer False) L pml)"
proof (induction L arbitrary: pml X)
  case (Cons x L)
  have "ordered_offers (insert x X)" using Cons.prems(2) by (auto simp: ordered_offers_def)
  from Cons.IH [OF saved_step [OF Cons.prems(1) this]] Cons.prems(2) show ?case by simp
qed simp

section \<open>The plays enumerated are the plays of the rules\<close>

lemma sources_can_move: "i \<in> set (sources hi b d) \<Longrightarrow> can_move b i d"
  by (auto simp: sources_def split: if_splits)

lemma can_move_sources:
  assumes "can_move b i d" "snd b ! 24 = 0 \<Longrightarrow> i \<le> hi"
  shows "i \<in> set (sources hi b d)"
  using assms by (auto simp: sources_def can_move_def)

lemma enum_plays_sound:
  "(is, c) \<in> set (enum_plays dbl fP ds hi b) \<Longrightarrow> is \<noteq> [] \<and> play ds is b = Some c"
proof (induction ds arbitrary: "is" hi b)
  case (Cons d ds)
  then obtain i where i: "i \<in> set (sources hi b d)"
    and e: "(is, c) \<in> set (map (\<lambda>(is, c). (i # is, c)) (enum_plays dbl fP ds (next_hi dbl b i) (sub_board b i d))
        @ (if fP \<or> stuck ds (next_hi dbl b i) (sub_board b i d) then [([i], sub_board b i d)] else []))"
    unfolding enum_plays.simps set_concat set_map by blast
  show ?case
    using e sources_can_move [OF i] Cons.IH [of _ "next_hi dbl b i" "sub_board b i d"]
    by (auto split: if_splits)
qed simp

text \<open>
  A play is enumerated if its sources descend in the case of doubles and, outside partial mode,
  if the dice allow no longer play.
\<close>

lemma enum_plays_complete:
  assumes "play ds is b = Some c" "is \<noteq> []" "dbl \<Longrightarrow> sorted_wrt (\<ge>) is"
    "snd b ! 24 = 0 \<Longrightarrow> hd is \<le> hi" "dbl \<or> hi = 23"
    "fP \<or> (\<forall>is' c'. play ds is' b = Some c' \<longrightarrow> length is' \<le> length is)"
  shows "(is, c) \<in> set (enum_plays dbl fP ds hi b)"
  using assms
proof (induction ds arbitrary: "is" hi b)
  case Nil
  then show ?case by (cases "is") auto
next
  case (Cons d ds)
  then obtain i is' where is_: "is = i # is'" by (cases "is") auto
  with Cons.prems have m: "can_move b i d" and p: "play ds is' (sub_board b i d) = Some c"
    by (auto split: if_splits)
  have src: "i \<in> set (sources hi b d)"
    using can_move_sources [OF m] Cons.prems(4) is_ by auto
  have longest: "fP \<or> (\<forall>js c'. play ds js (sub_board b i d) = Some c' \<longrightarrow> length js \<le> length is')"
    using Cons.prems(6) m is_ by (metis (no_types, lifting) Suc_le_mono length_Cons play.simps(3))
  let ?l = "next_hi dbl b i"
  show ?case
  proof (cases "is' = []")
    case True
    then have c: "c = sub_board b i d" using p by simp
    have "fP \<or> stuck ds ?l (sub_board b i d)"
    proof (rule ccontr)
      assume no: "\<not> (fP \<or> stuck ds ?l (sub_board b i d))"
      then obtain d' ds' j where "ds = d' # ds'" "j \<in> set (sources ?l (sub_board b i d) d')"
        by (cases ds) (force simp: neq_Nil_conv)+
      then have "play ds [j] (sub_board b i d) = Some (sub_board (sub_board b i d) j d')"
        using sources_can_move by simp
      with longest no True show False by fastforce
    qed
    with src True is_ c show ?thesis by auto
  next
    case False
    have "(is', c) \<in> set (enum_plays dbl fP ds ?l (sub_board b i d))"
    proof (rule Cons.IH [OF p False])
      show "dbl \<Longrightarrow> sorted_wrt (\<ge>) is'" using Cons.prems(3) is_ by simp
      show "dbl \<or> ?l = 23" by (simp add: next_hi_def)
      show "hd is' \<le> ?l" if bar: "snd (sub_board b i d) ! 24 = 0"
      proof -
        obtain d' ds' where ds: "ds = d' # ds'" using p False by (cases ds; cases is') auto
        then have hd: "can_move (sub_board b i d) (hd is') d'"
          using p False by (cases is') (auto split: if_splits)
        then have "hd is' \<noteq> 24" "hd is' \<le> 24" using bar by (auto dest: can_moveD)
        moreover have "dbl \<Longrightarrow> hd is' \<le> i" using Cons.prems(3) is_ False by (cases is') auto
        ultimately show ?thesis by (auto simp: next_hi_def)
      qed
      show "fP \<or> (\<forall>js c'. play ds js (sub_board b i d) = Some c' \<longrightarrow> length js \<le> length is')"
        by (rule longest)
    qed
    with src is_ show ?thesis by force
  qed
qed

text \<open>With doubles every play can be reordered so that its sources descend.\<close>

lemma play_insert:
  assumes "playable b" "1 \<le> d" "d \<le> 6" "can_move b i d"
    "play (replicate n d) is (sub_board b i d) = Some c" "sorted_wrt (\<ge>) is"
  shows "\<exists>js. play (replicate (Suc n) d) js b = Some c \<and> mset js = mset (i # is) \<and> sorted_wrt (\<ge>) js"
  using assms
proof (induction "is" arbitrary: b n i)
  case Nil
  then show ?case by (intro exI [of _ "[i]"]) simp
next
  case (Cons j js)
  obtain m where n: "n = Suc m" using Cons.prems(5) by (cases n) auto
  with Cons.prems have j: "can_move (sub_board b i d) j d"
    and p: "play (replicate m d) js (sub_board (sub_board b i d) j d) = Some c"
    by (auto split: if_splits)
  show ?case
  proof (cases "j \<le> i")
    case True
    with Cons.prems n show ?thesis by (intro exI [of _ "i # j # js"]) fastforce
  next
    case False
    then have ij: "i < j" by simp
    note swap = can_move_swap [OF Cons.prems(1,2,4) j ij]
    have "playable (sub_board b j d)" using Cons.prems(1,2) swap(1) by (intro playable_sub_board)
    from Cons.IH [OF this Cons.prems(2,3) swap(2), of m] p swap(3) Cons.prems(6) obtain ks
      where ks: "play (replicate (Suc m) d) ks (sub_board b j d) = Some c" "mset ks = mset (i # js)"
        "sorted_wrt (\<ge>) ks" by auto
    have "set ks = set (i # js)" using ks(2) by (metis set_mset_mset)
    then have "sorted_wrt (\<ge>) (j # ks)" using ks(3) Cons.prems(6) ij by auto
    with ks swap(1) n show ?thesis by (intro exI [of _ "j # ks"]) auto
  qed
qed

lemma play_descending:
  "playable b \<Longrightarrow> 1 \<le> d \<Longrightarrow> d \<le> 6 \<Longrightarrow> play (replicate n d) is b = Some c \<Longrightarrow>
   \<exists>js. play (replicate n d) js b = Some c \<and> mset js = mset is \<and> sorted_wrt (\<ge>) js"
proof (induction "is" arbitrary: b n)
  case Nil
  then show ?case by auto
next
  case (Cons i "is")
  then obtain m where n: "n = Suc m" by (cases n) auto
  with Cons.prems have m: "can_move b i d" and p: "play (replicate m d) is (sub_board b i d) = Some c"
    by (auto split: if_splits)
  from Cons.IH [OF playable_sub_board [OF Cons.prems(1) m Cons.prems(2)] Cons.prems(2,3) p] obtain js
    where js: "play (replicate m d) js (sub_board b i d) = Some c" "mset js = mset is" "sorted_wrt (\<ge>) js"
    by auto
  from play_insert [OF Cons.prems(1-3) m js(1,3)] js(2) n show ?case by auto
qed

section \<open>GenerateMoves\<close>

text \<open>The orders in which a roll can be played, and the plays the rules of the game allow.\<close>

definition dice_orders :: "nat \<Rightarrow> nat \<Rightarrow> nat list list" where
  "dice_orders n0 n1 = (if n0 = n1 then [replicate 4 n0] else [[n0, n1], [n1, n0]])"

definition pips_used :: "nat list \<Rightarrow> nat list \<Rightarrow> nat" where
  "pips_used ds is = sum_list (take (length is) ds)"

definition possible_play :: "TanBoard \<Rightarrow> nat \<Rightarrow> nat \<Rightarrow> nat list \<Rightarrow> nat list \<Rightarrow> TanBoard \<Rightarrow> bool" where
  "possible_play b n0 n1 ds is c \<longleftrightarrow>
     ds \<in> set (dice_orders n0 n1) \<and> is \<noteq> [] \<and> play ds is b = Some c"

text \<open>As many dice as possible must be played, and the larger one if only one can be.\<close>

definition legal_play :: "TanBoard \<Rightarrow> nat \<Rightarrow> nat \<Rightarrow> nat list \<Rightarrow> nat list \<Rightarrow> TanBoard \<Rightarrow> bool" where
  "legal_play b n0 n1 ds is c \<longleftrightarrow>
     possible_play b n0 n1 ds is c \<and>
     (\<forall>ds' is' c'. possible_play b n0 n1 ds' is' c' \<longrightarrow>
        length is' < length is \<or> (length is' = length is \<and> pips_used ds' is' \<le> pips_used ds is))"

definition offer_of :: "nat list \<Rightarrow> nat list \<times> TanBoard \<Rightarrow> offer" where
  "offer_of ds = (\<lambda>(is, c).
     (length is, pips_used ds is, write_moves (replicate 8 0) 0 ds is, c))"

lemma save_play_offer: "save_play fP 0 0 (replicate 8 0) ds = save_offer fP \<circ> offer_of ds"
  by (auto simp: fun_eq_iff save_play_def save_offer_def offer_of_def pips_used_def)

definition offers :: "bool \<Rightarrow> TanBoard \<Rightarrow> nat \<Rightarrow> nat \<Rightarrow> offer list" where
  "offers fP b n0 n1 =
     concat (map (\<lambda>ds. map (offer_of ds) (enum_plays (n0 = n1) fP ds 23 b)) (dice_orders n0 n1))"

text \<open>The whole generator hands \<open>offers\<close> to \<open>SaveMoves\<close>.\<close>

lemma GenerateMoves_offers:
  assumes "playable b" "1 \<le> n0" "n0 \<le> 6" "1 \<le> n1" "n1 \<le> 6"
  shows "GenerateMoves b (int n0) (int n1) fP =
    fold (save_offer fP) (offers fP b n0 n1)
      \<lparr>cMaxMoves = 0, cMaxPips = 0, iMoveBest = 0, amMoves = [], asserts_hold = True\<rparr>"
proof -
  have fold_play: "fold (save_play fP 0 0 (replicate 8 0) ds) xs pml = fold (save_offer fP) (map (offer_of ds) xs) pml"
    for ds xs pml by (simp add: save_play_offer fold_map)
  show ?thesis
  proof (cases "n0 = n1")
    case True
    have "GenerateMovesSub pml [int n0, int n0, int n0, int n0] 0 23 0 b (replicate 8 0) fP =
      (stuck [n0, n0, n0, n0] 23 b \<or> fP,
       fold (save_play fP 0 0 (replicate 8 0) [n0, n0, n0, n0]) (enum_plays True fP [n0, n0, n0, n0] 23 b) pml)" for pml
      using assms True by (intro GenerateMovesSub_enum [where rs = "[]" and z = 0]) auto
    moreover have "replicate 4 n0 = [n0, n0, n0, n0]" by (simp add: eval_nat_numeral)
    ultimately show ?thesis
      using True by (simp add: GenerateMoves_def Let_def offers_def dice_orders_def fold_play
        del: enum_plays.simps)
  next
    case False
    have one: "GenerateMovesSub pml [int x, int y, 0, 0] 0 23 0 b (replicate 8 0) fP =
      (stuck [x, y] 23 b \<or> fP, fold (save_play fP 0 0 (replicate 8 0) [x, y]) (enum_plays False fP [x, y] 23 b) pml)"
      if "x \<noteq> y" "x \<in> {n0, n1}" "y \<in> {n0, n1}" for x y pml
      using assms that by (intro GenerateMovesSub_enum [where rs = "[]" and z = 2]) (auto simp: eval_nat_numeral)
    have "(int n0 = int n1) = False" "int n0 \<noteq> int n1" using False by auto
    then show ?thesis
      using False one [of n0 n1] one [of n1 n0]
      by (simp add: GenerateMoves_def Let_def offers_def dice_orders_def fold_play
        del: enum_plays.simps of_nat_eq_iff)
  qed
qed

lemma dice_orders_dice:
  "1 \<le> n0 \<Longrightarrow> n0 \<le> 6 \<Longrightarrow> 1 \<le> n1 \<Longrightarrow> n1 \<le> 6 \<Longrightarrow> ds \<in> set (dice_orders n0 n1) \<Longrightarrow> dice ds"
  by (auto simp: dice_orders_def dice_def split: if_splits)

lemma dice_orders_double: "ds \<in> set (dice_orders n n) \<longleftrightarrow> ds = replicate 4 n"
  by (simp add: dice_orders_def)

lemma offers_possible:
  "x \<in> set (offers fP b n0 n1) \<longleftrightarrow>
   (\<exists>ds is c. ds \<in> set (dice_orders n0 n1) \<and> (is, c) \<in> set (enum_plays (n0 = n1) fP ds 23 b)
      \<and> x = offer_of ds (is, c))"
  by (auto simp: offers_def)

lemma offer_possible_play:
  assumes "x \<in> set (offers fP b n0 n1)"
  obtains ds "is" c where "possible_play b n0 n1 ds is c" "x = offer_of ds (is, c)"
  using assms enum_plays_sound unfolding offers_possible possible_play_def by metis

text \<open>Playing more dice plays more pips, so the offers are ordered.\<close>

lemma possible_play_ordered:
  assumes "1 \<le> n0" "1 \<le> n1" "possible_play b n0 n1 ds is c" "possible_play b n0 n1 ds' is' c'"
  shows "length is' < length is \<Longrightarrow> pips_used ds' is' < pips_used ds is"
    and "offer_le (offer_of ds (is, c)) (offer_of ds' (is', c')) \<or>
         offer_le (offer_of ds' (is', c')) (offer_of ds (is, c))"
proof -
  obtain k k' where k: "length is = k" "length is' = k'" by blast
  have l: "k \<le> length ds" "k' \<le> length ds'" "k \<noteq> 0" "k' \<noteq> 0"
    and ds: "ds \<in> set (dice_orders n0 n1)" "ds' \<in> set (dice_orders n0 n1)"
    using assms(3,4) play_length unfolding possible_play_def k [symmetric] by fastforce+
  have p: "pips_used ds is = sum_list (take k ds)" "pips_used ds' is' = sum_list (take k' ds')"
    by (simp_all add: pips_used_def k)
  have pair: "sum_list (take m [x, y]) = (if m = 0 then 0 else if m = 1 then x else x + y)" for x y m :: nat
    by (cases m rule: nat.exhaust; cases "m - 1") auto
  show "length is' < length is \<Longrightarrow> pips_used ds' is' < pips_used ds is"
    using assms(1,2) l ds unfolding k p by (auto simp: dice_orders_def sum_list_replicate pair split: if_splits)
  have "length is = length is' \<or> pips_used ds' is' < pips_used ds is \<and> length is' < length is
    \<or> pips_used ds is < pips_used ds' is' \<and> length is < length is'"
    using assms(1,2) l ds unfolding k p by (auto simp: dice_orders_def sum_list_replicate pair split: if_splits)
  then show "offer_le (offer_of ds (is, c)) (offer_of ds' (is', c')) \<or>
         offer_le (offer_of ds' (is', c')) (offer_of ds (is, c))"
    by (auto simp: offer_le_def offer_of_def)
qed

lemma offers_ordered: "1 \<le> n0 \<Longrightarrow> 1 \<le> n1 \<Longrightarrow> ordered_offers (set (offers fP b n0 n1))"
  unfolding ordered_offers_def by (metis offer_possible_play possible_play_ordered(2))

text \<open>The move array written for a play.\<close>

lemma take_write_moves:
  "2 * (d + length is) \<le> length an \<Longrightarrow> length is \<le> length ds \<Longrightarrow>
   take (2 * (d + length is)) (write_moves an d ds is) = take (2 * d) an @ move_pairs ds is"
proof (induction an d ds "is" rule: write_moves.induct)
  case (1 an d r ds i "is")
  have "take (2 * (d + 1)) (an[d * 2 := int i, d * 2 + 1 := int i - int r]) =
      take (2 * d) an @ [int i, int i - int r]"
    using "1.prems" by (intro nth_equalityI) (auto simp: nth_append nth_list_update less_Suc_eq)
  with 1 show ?case by (simp add: add.commute add.left_commute)
qed auto

lemma length_move_pairs: "length is \<le> length ds \<Longrightarrow> length (move_pairs ds is) = 2 * length is"
  by (induction ds "is" rule: move_pairs.induct) auto

lemma copy_moves_offer:
  assumes "length is \<le> length ds" "length is \<le> 4"
  shows "copy_moves (length is) (write_moves (replicate 8 0) 0 ds is) =
    map clip (move_pairs ds is) @ (if length is < 4 then [- 1] else [])"
proof -
  have "take (length is * 2) (write_moves (replicate 8 0) 0 ds is) = move_pairs ds is"
    using take_write_moves [of 0 "is" "replicate 8 0" ds] assms by (simp add: mult.commute)
  then show ?thesis by (simp add: copy_moves_def clip_def [abs_def])
qed

lemma possible_play_length: "possible_play b n0 n1 ds is c \<Longrightarrow> length is \<le> length ds \<and> length is \<le> 4"
  using play_length [of ds "is" b c] by (auto simp: possible_play_def dice_orders_def split: if_splits)

text \<open>What an entry of the list says of the play it came from.\<close>

definition entry_describes :: "TanBoard \<Rightarrow> nat list \<Rightarrow> nat list \<Rightarrow> TanBoard \<Rightarrow> move \<Rightarrow> bool" where
  "entry_describes b ds is c m \<longleftrightarrow>
     pm_key m = PositionKey c \<and> pm_cMoves m = length is \<and> pm_cPips m = pips_used ds is \<and>
     pm_anMove m = map clip (move_pairs ds is) @ (if length is < 4 then [- 1] else []) \<and>
     ApplyMove b (pm_anMove m) True = Some (0, c)"

lemma entry_describes_offer:
  assumes "playable b" "1 \<le> n0" "n0 \<le> 6" "1 \<le> n1" "n1 \<le> 6" "possible_play b n0 n1 ds is c"
  shows "entry_describes b ds is c (entry (offer_of ds (is, c)))"
proof -
  have "ApplyMove b (map clip (move_pairs ds is) @ (if length is < 4 then [- 1] else [])) True = Some (0, c)"
    using assms dice_orders_dice [OF assms(2-5)] by (intro ApplyMove_play) (auto simp: possible_play_def)
  then show ?thesis
    using possible_play_length [OF assms(6)]
    by (simp add: entry_describes_def entry_def offer_of_def copy_moves_offer)
qed

text \<open>Some play is best, if there is a play at all; and it is offered.\<close>

lemma legal_play_exists:
  assumes "1 \<le> n0" "1 \<le> n1" "possible_play b n0 n1 ds is c"
  shows "\<exists>ds is c. legal_play b n0 n1 ds is c"
proof -
  let ?P = "\<lambda>(ds, is, c). possible_play b n0 n1 ds is c"
  let ?m = "\<lambda>(ds, is, c :: TanBoard). length is + pips_used ds is"
  have bound: "?m x \<le> 4 + (4 * (n0 + n1))" if "?P x" for x
  proof -
    obtain ds "is" c where x: "x = (ds, is, c)" by (metis surj_pair)
    have "sum_list (take k ds) \<le> sum_list ds" for k and ds :: "nat list"
      by (metis append_take_drop_id le_add1 sum_list_append)
    moreover have "sum_list ds \<le> 4 * (n0 + n1)" if "ds \<in> set (dice_orders n0 n1)"
      using that by (auto simp: dice_orders_def sum_list_replicate split: if_splits)
    ultimately have "pips_used ds is \<le> 4 * (n0 + n1)"
      using that unfolding x possible_play_def pips_used_def by (metis (no_types, lifting) case_prod_conv le_trans)
    with possible_play_length [of b n0 n1 ds "is" c] that show ?thesis by (simp add: x)
  qed
  have "\<exists>x. ?P x \<and> (\<forall>y. ?P y \<longrightarrow> ?m y \<le> ?m x)"
    by (rule Lattices_Big.ex_has_greatest_nat [where k = "(ds, is, c)" and b = "5 + (4 * (n0 + n1))"])
      (use bound assms(3) in \<open>force simp: less_Suc_eq_le\<close>)+
  then obtain x where x: "?P x" "\<And>y. ?P y \<Longrightarrow> ?m y \<le> ?m x" by blast
  obtain ds' is' c' where x': "x = (ds', is', c')" by (metis surj_pair)
  have "length is2 < length is' \<or> (length is2 = length is' \<and> pips_used ds2 is2 \<le> pips_used ds' is')"
    if y: "possible_play b n0 n1 ds2 is2 c2" for ds2 is2 c2
  proof -
    have "length is2 + pips_used ds2 is2 \<le> length is' + pips_used ds' is'"
      using x(2) [of "(ds2, is2, c2)"] y by (simp add: x')
    moreover have "length is' < length is2 \<Longrightarrow> pips_used ds' is' < pips_used ds2 is2"
      using x(1) y possible_play_ordered(1) [OF assms(1,2)] by (auto simp: x')
    ultimately show ?thesis by linarith
  qed
  with x(1) have "legal_play b n0 n1 ds' is' c'" unfolding legal_play_def x' by simp
  then show ?thesis by blast
qed

lemma play_offered:
  assumes "playable b" "1 \<le> n0" "n0 \<le> 6" "possible_play b n0 n1 ds is c"
    "fP \<or> (\<forall>is' c'. play ds is' b = Some c' \<longrightarrow> length is' \<le> length is)"
  shows "\<exists>js. offer_of ds (js, c) \<in> set (offers fP b n0 n1) \<and> length js = length is"
proof -
  have p: "ds \<in> set (dice_orders n0 n1)" "is \<noteq> []" "play ds is b = Some c"
    using assms(4) by (auto simp: possible_play_def)
  obtain js where js: "play ds js b = Some c" "length js = length is" "n0 = n1 \<Longrightarrow> sorted_wrt (\<ge>) js"
  proof (cases "n0 = n1")
    case True
    with p have ds: "ds = replicate 4 n0" by (simp add: dice_orders_double)
    with play_descending [OF assms(1-3)] p(3) that show ?thesis by (metis size_mset)
  qed (use p that in auto)
  have "hd js \<le> 23" if bar: "snd b ! 24 = 0"
  proof -
    obtain d ds' where ds: "ds = d # ds'" using js(1,2) p(2) by (cases ds; cases js) auto
    have "can_move b (hd js) d" using js(1,2) p(2) unfolding ds by (cases js) (auto split: if_splits)
    then have "hd js \<le> 24" "hd js \<noteq> 24" using bar by (auto dest: can_moveD)
    then show ?thesis by simp
  qed
  with js p(2) assms(5) have "(js, c) \<in> set (enum_plays (n0 = n1) fP ds 23 b)"
    by (intro enum_plays_complete) auto
  with p(1) js(2) show ?thesis unfolding offers_possible by blast
qed

text \<open>The best offers are the legal plays.\<close>

lemma best_offer_legal:
  assumes "playable b" "1 \<le> n0" "n0 \<le> 6" "1 \<le> n1" "n1 \<le> 6"
    and x: "x \<in> best_offers (set (offers False b n0 n1))"
  shows "\<exists>ds is c. legal_play b n0 n1 ds is c \<and> x = offer_of ds (is, c)"
proof -
  have "x \<in> set (offers False b n0 n1)" using x by (simp add: best_offers_def)
  then obtain ds "is" c where p: "possible_play b n0 n1 ds is c" "x = offer_of ds (is, c)"
    by (rule offer_possible_play)
  obtain ds0 is0 c0 where l: "legal_play b n0 n1 ds0 is0 c0"
    using legal_play_exists [OF assms(2,4) p(1)] by blast
  have "length is' \<le> length is0" if "play ds0 is' b = Some c'" for is' c'
    using l that by (cases "is' = []") (fastforce simp: legal_play_def possible_play_def)+
  with l play_offered [OF assms(1-3), of n1 ds0 is0 c0 False] obtain js
    where js: "offer_of ds0 (js, c0) \<in> set (offers False b n0 n1)" "length js = length is0"
    by (auto simp: legal_play_def)
  then have "offer_le (offer_of ds0 (js, c0)) x" using x by (simp add: best_offers_def)
  then have "length is0 \<le> length is" "pips_used ds0 is0 \<le> pips_used ds is"
    using js(2) p(2) by (simp_all add: offer_le_def offer_of_def pips_used_def)
  with l p(1) have "legal_play b n0 n1 ds is c"
    unfolding legal_play_def by (metis le_trans order_le_less_trans linorder_not_less less_le_trans)
  with p(2) show ?thesis by blast
qed

lemma legal_play_best:
  assumes "playable b" "1 \<le> n0" "n0 \<le> 6" "1 \<le> n1" "n1 \<le> 6" and l: "legal_play b n0 n1 ds is c"
  shows "\<exists>x\<in>best_offers (set (offers False b n0 n1)). offer_key x = PositionKey c"
proof -
  have p: "possible_play b n0 n1 ds is c" using l by (simp add: legal_play_def)
  have "length is' \<le> length is" if "play ds is' b = Some c'" for is' c'
    using l that by (cases "is' = []") (fastforce simp: legal_play_def possible_play_def)+
  with play_offered [OF assms(1-3) p, of False] obtain js
    where js: "offer_of ds (js, c) \<in> set (offers False b n0 n1)" "length js = length is" by blast
  have "offer_le y (offer_of ds (js, c))" if y: "y \<in> set (offers False b n0 n1)" for y
  proof -
    obtain ds' is' c' where y': "possible_play b n0 n1 ds' is' c'" "y = offer_of ds' (is', c')"
      using y by (rule offer_possible_play)
    then have "length is' < length is \<or> length is' = length is \<and> pips_used ds' is' \<le> pips_used ds is"
      using l unfolding legal_play_def by blast
    moreover have "length is' < length is \<Longrightarrow> pips_used ds' is' < pips_used ds is"
      by (rule possible_play_ordered(1) [OF assms(2,4) p y'(1)])
    ultimately show ?thesis using js(2) by (auto simp: y'(2) offer_le_def offer_of_def pips_used_def)
  qed
  with js(1) have "offer_of ds (js, c) \<in> best_offers (set (offers False b n0 n1))"
    by (simp add: best_offers_def)
  then show ?thesis by (rule bexI [rotated]) (simp add: offer_key_def offer_of_def)
qed

lemma GenerateMoves_holds:
  assumes "playable b" "1 \<le> n0" "n0 \<le> 6" "1 \<le> n1" "n1 \<le> 6"
  shows "holds (amMoves (GenerateMoves b (int n0) (int n1) False)) (best_offers (set (offers False b n0 n1)))"
    and "holds (amMoves (GenerateMoves b (int n0) (int n1) True)) (set (offers True b n0 n1))"
proof -
  let ?e = "\<lparr>cMaxMoves = 0, cMaxPips = 0, iMoveBest = 0, amMoves = [], asserts_hold = True\<rparr>"
  have "saved {} ?e" by (simp add: saved_def best_offers_def holds_def)
  from full_saves [OF this, of "offers False b n0 n1"] offers_ordered [OF assms(2,4)]
  show "holds (amMoves (GenerateMoves b (int n0) (int n1) False)) (best_offers (set (offers False b n0 n1)))"
    unfolding GenerateMoves_offers [OF assms] by (simp add: saved_def)
  from partial_saves [of ?e "{}" "offers True b n0 n1"]
  show "holds (amMoves (GenerateMoves b (int n0) (int n1) True)) (set (offers True b n0 n1))"
    unfolding GenerateMoves_offers [OF assms] by (simp add: holds_def)
qed

text \<open>
  Every entry of the generated list is a legal play: its moves, applied to the board, succeed
  and give the position of its key.
\<close>

lemma GenerateMoves_entries:
  assumes "playable b" "1 \<le> n0" "n0 \<le> 6" "1 \<le> n1" "n1 \<le> 6"
  shows "\<forall>m\<in>set (amMoves (GenerateMoves b (int n0) (int n1) False)).
    \<exists>ds is c. legal_play b n0 n1 ds is c \<and> entry_describes b ds is c m"
proof
  fix m assume "m \<in> set (amMoves (GenerateMoves b (int n0) (int n1) False))"
  then obtain x where x: "x \<in> best_offers (set (offers False b n0 n1))" "m = entry x"
    using GenerateMoves_holds(1) [OF assms] by (auto simp: holds_def)
  from best_offer_legal [OF assms x(1)] obtain ds "is" c
    where l: "legal_play b n0 n1 ds is c" "x = offer_of ds (is, c)" by blast
  then have "possible_play b n0 n1 ds is c" by (simp add: legal_play_def)
  from entry_describes_offer [OF assms this] l x(2)
  show "\<exists>ds is c. legal_play b n0 n1 ds is c \<and> entry_describes b ds is c m" by blast
qed

text \<open>C1: Every generated move is a legal play of the roll, with as many dice as possible and the larger
  die if only one can be played, and its entry is truthful: its key, chequer and pip counts are
  those of the play, and replaying its move list gives the position.\<close>

theorem GenerateMoves_sound:
  assumes "playable b" "1 \<le> n0" "n0 \<le> 6" "1 \<le> n1" "n1 \<le> 6"
  shows "\<forall>m\<in>set (amMoves (GenerateMoves b (int n0) (int n1) False)).
    \<exists>ds is c. legal_play b n0 n1 ds is c \<and> entry_describes b ds is c m"
  by (rule GenerateMoves_entries [OF assms])

text \<open>Every position that a legal play reaches is in the list, once.\<close>

text \<open>C2: The generated list has one entry for each position that a legal play reaches, no more and no less.\<close>

theorem GenerateMoves_complete:
  assumes "playable b" "1 \<le> n0" "n0 \<le> 6" "1 \<le> n1" "n1 \<le> 6"
  shows "let ms = amMoves (GenerateMoves b (int n0) (int n1) False) in
    distinct (map pm_key ms) \<and>
    pm_key ` set ms = PositionKey ` {c. \<exists>ds is. legal_play b n0 n1 ds is c}"
proof -
  let ?X = "best_offers (set (offers False b n0 n1))"
  have "offer_key ` ?X \<subseteq> PositionKey ` {c. \<exists>ds is. legal_play b n0 n1 ds is c}"
    using best_offer_legal [OF assms] by (fastforce simp: offer_key_def offer_of_def)
  moreover have "PositionKey ` {c. \<exists>ds is. legal_play b n0 n1 ds is c} \<subseteq> offer_key ` ?X"
    using legal_play_best [OF assms] by (auto simp: image_iff) metis
  ultimately show ?thesis
    using GenerateMoves_holds(1) [OF assms] by (simp add: holds_def Let_def)
qed

text \<open>In partial mode the list holds every position that one or more steps can reach.\<close>

text \<open>C12: With partial moves allowed, the list has one entry for each position that some sequence of the
  dice reaches, complete or not.\<close>

theorem GenerateMoves_partial:
  assumes "playable b" "1 \<le> n0" "n0 \<le> 6" "1 \<le> n1" "n1 \<le> 6"
  shows "let ms = amMoves (GenerateMoves b (int n0) (int n1) True) in
    distinct (map pm_key ms) \<and>
    pm_key ` set ms = PositionKey ` {c. \<exists>ds is. possible_play b n0 n1 ds is c}"
proof -
  let ?X = "set (offers True b n0 n1)"
  have "offer_key ` ?X \<subseteq> PositionKey ` {c. \<exists>ds is. possible_play b n0 n1 ds is c}"
  proof
    fix k assume "k \<in> offer_key ` ?X"
    then obtain x where x: "x \<in> ?X" "k = offer_key x" by blast
    from x(1) obtain ds "is" c where "possible_play b n0 n1 ds is c" "x = offer_of ds (is, c)"
      by (rule offer_possible_play)
    with x(2) show "k \<in> PositionKey ` {c. \<exists>ds is. possible_play b n0 n1 ds is c}"
      unfolding offer_key_def offer_of_def by auto
  qed
  moreover have "PositionKey ` {c. \<exists>ds is. possible_play b n0 n1 ds is c} \<subseteq> offer_key ` ?X"
  proof clarsimp
    fix s0 s1 ds "is" assume "possible_play b n0 n1 ds is (s0, s1)"
    from play_offered [OF assms(1-3) this, of True] obtain js
      where "offer_of ds (js, s0, s1) \<in> ?X" by auto
    then show "PositionKey (s0, s1) \<in> offer_key ` ?X"
      by (rule rev_image_eqI) (simp add: offer_key_def offer_of_def)
  qed
  ultimately show ?thesis
    using GenerateMoves_holds(2) [OF assms] by (simp add: holds_def Let_def)
qed

section \<open>Instances\<close>

theorem GenerateMoves_sound_witness:
  "\<exists>ds is c. legal_play bear_board 2 1 ds is c \<and>
     entry_describes bear_board ds is c (hd (amMoves (GenerateMoves bear_board 2 1 False)))"
proof -
  have "length (amMoves (GenerateMoves bear_board 2 1 False)) = 2" by code_simp
  then have "hd (amMoves (GenerateMoves bear_board 2 1 False)) \<in> set (amMoves (GenerateMoves bear_board 2 1 False))"
    by (intro hd_in_set) auto
  then show ?thesis using GenerateMoves_sound [OF bear_playable, of 2 1] by simp
qed

theorem GenerateMoves_complete_witness:
  "PositionKey ` {c. \<exists>ds is. legal_play bear_board 2 1 ds is c} = {[0, 0, 0, 0, 0, 131072, 0], [1, 0, 0, 0, 0, 131072, 0]}"
proof -
  have "map pm_key (amMoves (GenerateMoves bear_board 2 1 False)) = [[0, 0, 0, 0, 0, 131072, 0], [1, 0, 0, 0, 0, 131072, 0]]" by code_simp
  then have "pm_key ` set (amMoves (GenerateMoves bear_board 2 1 False)) = {[0, 0, 0, 0, 0, 131072, 0], [1, 0, 0, 0, 0, 131072, 0]}"
    by (metis list.set(1) list.set(2) set_map)
  then show ?thesis using GenerateMoves_complete [OF bear_playable, of 2 1] by (simp add: Let_def)
qed

definition single_board :: TanBoard where
  "single_board = ((replicate 25 0)[20 := 2], (replicate 25 0)[2 := 1])"

lemma single_playable: "playable single_board"
proof -
  have "list_all (\<lambda>i. fst single_board ! (23 - i) = 0 \<or> snd single_board ! i = 0) [0..<24]" by code_simp
  moreover have "chequers (fst single_board) = 2" "chequers (snd single_board) = 1" by code_simp+
  moreover have "wf_board single_board" by (simp add: wf_board_def single_board_def)
  ultimately show ?thesis by (simp add: playable_def no_shared_def list_all_iff)
qed

theorem GenerateMoves_partial_witness:
  "card (PositionKey ` {c. \<exists>ds is. possible_play single_board 2 1 ds is c}) = 3"
proof -
  have "length (amMoves (GenerateMoves single_board 2 1 True)) = 3" by code_simp
  then show ?thesis
    using GenerateMoves_partial [OF single_playable, of 2 1]
      distinct_card [of "map pm_key (amMoves (GenerateMoves single_board 2 1 True))"]
    by (simp add: Let_def)
qed

end
