(* ===== verification/Eval_Run.thy ===== *)
theory Eval_Run
  imports Eval_Cache Cubeful Move_Gen
begin

text \<open>
  What an evaluation runs on (eval.c): the two evaluation caches, which are its state, the
  context it is asked for, and the engine: the settings, databases and tables, and the static
  evaluators of the position classes, which are trained networks and database files.
\<close>

section \<open>Evaluations\<close>

record caches =
  cEval :: evalCache
  cpEval :: evalCache

text \<open>
  An evaluation returns a result, or fails (\<open>None\<close>, the return value \<open>-1\<close>), with the caches; the
  outer \<open>None\<close> is an evaluation that does not return (an assertion, or a loop on a cube that is no
  power of two).
\<close>

type_synonym 'a eval = "caches \<Rightarrow> ('a option \<times> caches) option"

definition gives :: "'a \<Rightarrow> 'a eval" where "gives a s = Some (Some a, s)"
definition failed :: "'a eval" where "failed s = Some (None, s)"

definition and_then :: "'a eval \<Rightarrow> ('a \<Rightarrow> 'b eval) \<Rightarrow> 'b eval" where
  "and_then m f s =
     (case m s of None \<Rightarrow> None | Some (None, s) \<Rightarrow> Some (None, s) | Some (Some a, s) \<Rightarrow> f a s)"

text \<open>A value of the program that may not exist, and a call whose failure is not looked at.\<close>

definition returning :: "'a option \<Rightarrow> 'a eval" where
  "returning x s = map_option (\<lambda>a. (Some a, s)) x"

text \<open>A call outside of the evaluation, whose result, failure or not returning is known.\<close>

definition outcome :: "'a option option \<Rightarrow> 'a eval" where
  "outcome x s = map_option (\<lambda>r. (r, s)) x"

definition attempt :: "'a eval \<Rightarrow> 'a option eval" where
  "attempt m s = map_option (\<lambda>(r, s). (Some r, s)) (m s)"

text \<open>A loop that stops at the first failure.\<close>

fun each :: "('x \<Rightarrow> 'a \<Rightarrow> 'a eval) \<Rightarrow> 'x list \<Rightarrow> 'a \<Rightarrow> 'a eval" where
  "each f [] a = gives a"
| "each f (x # xs) a = and_then (f x a) (each f xs)"

section \<open>Contexts and engine\<close>

record evalcontext =
  ec_fCubeful :: int
  ec_nPlies :: nat
  ec_fUsePrune :: int
  ec_rNoise :: real

definition ecBasic :: evalcontext where
  "ecBasic = \<lparr>ec_fCubeful = 0, ec_nPlies = 0, ec_fUsePrune = 0, ec_rNoise = 0\<rparr>"

text \<open>
  \<open>trained_eval\<close> are the static evaluators of positions that are not over, \<open>pruning_net\<close> and \<open>race_backgammons\<close> the pruning networks and
  \<open>EvalRaceBG\<close>, \<open>noise\<close> is \<open>Noise\<close> at a standard deviation of 1, \<open>read_cubeful\<close> and \<open>read_hyper\<close>
  read a record of the database of a class.  They may fail or not return; Static_Eval builds an
  engine of the program's own.  \<open>sort_moves\<close> is \<open>qsort\<close> with \<open>CompareMoves\<close>, which leaves the
  order of equal moves open.
\<close>

record 'm engine =
  cCache :: u32
  trained_eval :: "positionclass \<Rightarrow> TanBoard \<Rightarrow> bgvariation \<Rightarrow> real list option option"
  pruning_net :: "positionclass \<Rightarrow> TanBoard \<Rightarrow> real list option"
  race_backgammons :: "TanBoard \<Rightarrow> real list \<Rightarrow> real list option"
  noise :: "TanBoard \<Rightarrow> nat \<Rightarrow> real"
  en_dbs :: databases
  en_pbc1 :: one_sided
  aafMET :: met
  aafMETPostCrawford :: met
  cube_efficiencies :: efficiencies
  read_cubeful :: "positionclass \<Rightarrow> u32 \<Rightarrow> real list option option"
  apbcHyper :: "nat \<Rightarrow> bearoffcontext option"
  read_hyper :: "nat \<Rightarrow> u32 \<Rightarrow> (real list \<times> real list) option option"
  sort_moves :: "'m list \<Rightarrow> 'm list"

definition CLASS_PERFECT :: positionclass where "CLASS_PERFECT = CLASS_BEAROFF_TS"
definition CLASS_GOOD :: positionclass where "CLASS_GOOD = CLASS_BEAROFF_OS"

section \<open>Static evaluation\<close>

definition acef :: "'m engine \<Rightarrow> positionclass \<Rightarrow> TanBoard \<Rightarrow> bgvariation \<Rightarrow> real list option option" where
  "acef E pc b v = (if pc = CLASS_OVER then Some (Some (EvalOver b (replicate 5 0) v)) else trained_eval E pc b v)"

definition add_noise :: "'m engine \<Rightarrow> evalcontext \<Rightarrow> TanBoard \<Rightarrow> positionclass \<Rightarrow> real list \<Rightarrow> real list" where
  "add_noise E pec b pc ar =
     (if ec_rNoise pec > 0 \<and> pc \<noteq> CLASS_OVER
      then map (\<lambda>i. ar ! i + ec_rNoise pec * noise E b i) [0..<NUM_OUTPUTS] else ar)"

definition checked :: "'m engine \<Rightarrow> evalcontext \<Rightarrow> TanBoard \<Rightarrow> positionclass \<Rightarrow> real list \<Rightarrow> real list eval" where
  "checked E pec b pc ar =
     returning (if pc > CLASS_GOOD \<or> ec_rNoise pec > 0 then SanityCheck (en_pbc1 E) b ar else Some ar)"

definition static_evaluation :: "'m engine \<Rightarrow> evalcontext \<Rightarrow> bgvariation \<Rightarrow> TanBoard \<Rightarrow> positionclass \<Rightarrow> real list eval" where
  "static_evaluation E pec v b pc =
     and_then (outcome (acef E pc b v)) (\<lambda>ar. checked E pec b pc (add_noise E pec b pc ar))"

text \<open>
  \<open>EvaluatePositionCache\<close> around \<open>full\<close>, the call of \<open>EvaluatePositionFull\<close>.  Where a missed
  evaluation will be added is known before it is made.
\<close>

definition EvaluatePositionCache ::
  "'m engine \<Rightarrow> evalcontext \<Rightarrow> nat \<Rightarrow> cubeinfo \<Rightarrow> TanBoard \<Rightarrow> real list eval \<Rightarrow> real list eval" where
  "EvaluatePositionCache E pec plies pci b full s =
     (if cCache E = 0 \<or> ec_rNoise pec \<noteq> 0 then full s
      else
        case EvalKey (ec_fCubeful pec) (ec_fUsePrune pec) (int plies) pci False of
          None \<Rightarrow> None
        | Some ctx \<Rightarrow>
            (case CacheLookup (cEval s) (PositionKey b) ctx of
               (l, c, Some (arOutput, _)) \<Rightarrow> gives arOutput (s\<lparr>cEval := c\<rparr>)
             | (l, c, None) \<Rightarrow>
                 and_then full (\<lambda>arOutput s. gives arOutput
                     (s\<lparr>cEval := CacheAdd (cEval s)
                          \<lparr>nd_key = PositionKey b, nEvalContext = ctx, nd_ar = take 5 arOutput @ [0]\<rparr> l\<rparr>))
                   (s\<lparr>cEval := c\<rparr>)))"

section \<open>Two runs with the same results\<close>

text \<open>
  From caches that satisfy \<open>I\<close> and \<open>J\<close> the two evaluations return the same, a result with \<open>Q\<close>, and
  leave such caches again; where \<open>T\<close>, they do return and do not fail.
\<close>

definition succeeds :: "bool \<Rightarrow> ('a option \<times> caches) option \<Rightarrow> bool" where
  "succeeds T x \<longleftrightarrow> (T \<longrightarrow> (\<exists>a t. x = Some (Some a, t)))"

definition alike ::
  "bool \<Rightarrow> (caches \<Rightarrow> bool) \<Rightarrow> (caches \<Rightarrow> bool) \<Rightarrow> ('a \<Rightarrow> bool) \<Rightarrow> 'a eval \<Rightarrow> 'a eval \<Rightarrow> bool" where
  "alike T I J Q m m' \<longleftrightarrow>
     (\<forall>s s'. I s \<longrightarrow> J s' \<longrightarrow>
        succeeds T (m s) \<and> rel_option (\<lambda>(r, t) (r', t'). r = r' \<and> pred_option Q r \<and> I t \<and> J t') (m s) (m' s'))"

lemma alikeI:
  "(\<And>s s'. I s \<Longrightarrow> J s' \<Longrightarrow>
     succeeds T (m s) \<and> rel_option (\<lambda>(r, t) (r', t'). r = r' \<and> pred_option Q r \<and> I t \<and> J t') (m s) (m' s')) \<Longrightarrow>
   alike T I J Q m m'"
  by (simp add: alike_def)

lemma alikeD:
  "alike T I J Q m m' \<Longrightarrow> I s \<Longrightarrow> J s' \<Longrightarrow>
   succeeds T (m s) \<and> rel_option (\<lambda>(r, t) (r', t'). r = r' \<and> pred_option Q r \<and> I t \<and> J t') (m s) (m' s')"
  by (simp add: alike_def)

lemmas alike_same = alikeD [THEN conjunct2]

lemma alike_cases:
  assumes "alike T I J Q m m'" "I s" "J s'"
  obtains "m s = None" "m' s' = None" "\<not> T"
  | t t' where "m s = Some (None, t)" "m' s' = Some (None, t')" "I t" "J t'" "\<not> T"
  | a t t' where "m s = Some (Some a, t)" "m' s' = Some (Some a, t')" "Q a" "I t" "J t'"
proof (cases "m s")
  case None
  with alikeD [OF assms] that(1) show ?thesis by (auto simp: succeeds_def)
next
  case (Some x)
  with alikeD [OF assms] that(2,3) show ?thesis
    by (cases x; cases "fst x") (auto simp: option_rel_Some1 succeeds_def)
qed

lemma alike_gives [intro]: "Q a \<Longrightarrow> alike T I J Q (gives a) (gives a)"
  by (simp add: alike_def gives_def succeeds_def)

lemma alike_failed [intro]: "\<not> T \<Longrightarrow> alike T I J Q failed failed"
  by (simp add: alike_def failed_def succeeds_def)

lemma alike_returning [intro]: "pred_option Q x \<Longrightarrow> T \<longrightarrow> x \<noteq> None \<Longrightarrow> alike T I J Q (returning x) (returning x)"
  by (cases x) (simp_all add: alike_def returning_def succeeds_def)

lemma alike_outcome:
  assumes "\<And>a. x = Some (Some a) \<Longrightarrow> Q a" "T \<Longrightarrow> \<exists>a. x = Some (Some a)"
  shows "alike T I J Q (outcome x) (outcome x)"
  using assms by (cases x) (auto simp: alike_def outcome_def succeeds_def option.pred_set)

lemma alike_and_then:
  assumes m: "alike T I J Q m m'" and f: "\<And>a. Q a \<Longrightarrow> alike T I J R (f a) (f' a)"
  shows "alike T I J R (and_then m f) (and_then m' f')"
proof (rule alikeI)
  fix s s' assume "I s" "J s'"
  from m this show "succeeds T (and_then m f s) \<and>
      rel_option (\<lambda>(r, t) (r', t'). r = r' \<and> pred_option R r \<and> I t \<and> J t') (and_then m f s) (and_then m' f' s')"
    by (cases rule: alike_cases) (auto simp: and_then_def succeeds_def dest: alikeD [OF f])
qed

lemma alike_attempt:
  assumes "alike T I J Q m m'"
  shows "alike T I J (\<lambda>r. pred_option Q r \<and> (T \<longrightarrow> r \<noteq> None)) (attempt m) (attempt m')"
proof (rule alikeI)
  fix s s' assume "I s" "J s'"
  from assms this show "succeeds T (attempt m s) \<and>
      rel_option (\<lambda>(r, t) (r', t'). r = r' \<and> pred_option (\<lambda>r. pred_option Q r \<and> (T \<longrightarrow> r \<noteq> None)) r \<and> I t \<and> J t')
      (attempt m s) (attempt m' s')"
    by (cases rule: alike_cases) (auto simp: attempt_def succeeds_def)
qed

section \<open>Runs that succeed\<close>

text \<open>From caches with \<open>I\<close> the evaluation succeeds with a result that has \<open>Q\<close>, and leaves such caches.\<close>

definition yields :: "(caches \<Rightarrow> bool) \<Rightarrow> 'a eval \<Rightarrow> ('a \<Rightarrow> bool) \<Rightarrow> bool" where
  "yields I m Q \<longleftrightarrow> (\<forall>s. I s \<longrightarrow> (\<exists>a t. m s = Some (Some a, t) \<and> Q a \<and> I t))"

lemma yieldsI: "(\<And>s. I s \<Longrightarrow> \<exists>a t. m s = Some (Some a, t) \<and> Q a \<and> I t) \<Longrightarrow> yields I m Q"
  by (simp add: yields_def)

lemma yieldsE:
  assumes "yields I m Q" "I s"
  obtains a t where "m s = Some (Some a, t)" "Q a" "I t"
  using assms by (auto simp: yields_def)

lemma yields_gives: "Q a \<Longrightarrow> yields I (gives a) Q"
  by (simp add: yields_def gives_def)

lemma yields_returning: "x \<noteq> None \<Longrightarrow> yields I (returning x) (\<lambda>a. x = Some a)"
  by (auto simp: yields_def returning_def)

lemma yields_weaken: "yields I m Q \<Longrightarrow> (\<And>a. Q a \<Longrightarrow> R a) \<Longrightarrow> yields I m R"
  unfolding yields_def by blast

lemma yields_and_then:
  assumes "yields I m Q" "\<And>a. Q a \<Longrightarrow> yields I (f a) R"
  shows "yields I (and_then m f) R"
proof (rule yieldsI)
  fix s assume "I s"
  with assms(1) obtain a t where "m s = Some (Some a, t)" "Q a" "I t" by (rule yieldsE)
  moreover from assms(2) [OF \<open>Q a\<close>] \<open>I t\<close> obtain b u where "f a t = Some (Some b, u)" "R b" "I u" by (rule yieldsE)
  ultimately show "\<exists>a t. and_then m f s = Some (Some a, t) \<and> R a \<and> I t" by (simp add: and_then_def)
qed

lemma yields_attempt:
  assumes "yields I m Q"
  shows "yields I (attempt m) (\<lambda>r. \<exists>a. r = Some a \<and> Q a)"
proof (rule yieldsI)
  fix s assume "I s"
  with assms obtain a t where "m s = Some (Some a, t)" "Q a" "I t" by (rule yieldsE)
  then show "\<exists>r t. attempt m s = Some (Some r, t) \<and> (\<exists>a. r = Some a \<and> Q a) \<and> I t"
    by (simp add: attempt_def)
qed

section \<open>Fresh caches\<close>

text \<open>A cache of one node as \<open>CacheFlush\<close> leaves it, and both caches so.\<close>

definition flushed_cache :: evalCache where
  "flushed_cache =
     (let d = \<lparr>nd_key = - 1 # replicate 6 0, nEvalContext = 0, nd_ar = replicate 6 0\<rparr> in
      \<lparr>entries = [\<lparr>nd_primary = d, nd_secondary = d\<rparr>], cache_size = 2, hashMask = 0\<rparr>)"

definition fresh_caches :: caches where
  "fresh_caches = \<lparr>cEval = flushed_cache, cpEval = flushed_cache\<rparr>"

lemma flushed_cache_ok: "cache_ok flushed_cache"
  by (simp add: flushed_cache_def cache_ok_def Let_def)

lemma flushed_cache_find: "cache_key k \<Longrightarrow> cache_find flushed_cache k = None"
  by (cases k; cases "fst k") (auto simp: flushed_cache_def cache_find_def cache_key_def Let_def GetHashKey_def slot_matches_iff)

end
