(* ===== verification/Move_Search.thy ===== *)
theory Move_Search
  imports Eval_Run
begin

text \<open>
  Choosing a move (eval.c): scoring the generated moves (\<open>ScoreMove\<close>, \<open>ScoreMoves\<close>), the search
  with move filters (\<open>FindnSaveBestMoves\<close>, \<open>FindBestMovePlied\<close>) and the search that prunes with the
  small networks (\<open>FindBestMoveInEval\<close>).  \<open>ev n\<close> is the call of \<open>GeneralEvaluationEPlied\<close> at
  \<open>n\<close> plies with the other arguments of the search, its seven outputs.
\<close>

section \<open>Scored moves\<close>

record scored_move = move +
  rScore :: real
  rScore2 :: real
  es_nPlies :: nat

type_synonym search_engine = "scored_move engine"
type_synonym evaluator = "nat \<Rightarrow> cubeinfo \<Rightarrow> TanBoard \<Rightarrow> real list eval"

text \<open>The list \<open>pml\<close>: the array, the number of moves in use, and the best of them.\<close>

record scored_list =
  sl_moves :: "scored_move list"
  sl_cMoves :: nat
  sl_iMoveBest :: nat
  sl_rBestScore :: real
  sl_cMaxMoves :: nat

text \<open>The generated moves; what their scores are before they are scored does not matter.\<close>

definition unscored :: "move \<Rightarrow> scored_move" where
  "unscored m = move.extend m \<lparr>rScore = 0, rScore2 = 0, es_nPlies = 0\<rparr>"

definition generated :: "TanBoard \<Rightarrow> nat \<Rightarrow> nat \<Rightarrow> scored_list" where
  "generated b n0 n1 =
     (let ml = GenerateMoves b (int n0) (int n1) False in
      \<lparr>sl_moves = map unscored (amMoves ml), sl_cMoves = length (amMoves ml), sl_iMoveBest = 0,
       sl_rBestScore = 0, sl_cMaxMoves = cMaxMoves ml\<rparr>)"

section \<open>Scores\<close>

text \<open>The outputs for the opponent as outputs for the player, and what a move keeps of them.\<close>

definition invert_outputs :: "search_engine \<Rightarrow> cubeinfo \<Rightarrow> real list \<Rightarrow> real list" where
  "invert_outputs E pci arEval =
     (let arEval = InvertEvaluationR (ci_nMatchTo pci) arEval in
      if ci_nMatchTo pci \<noteq> 0
      then arEval[OUTPUT_CUBEFUL_EQUITY := mwc2eq (arEval ! OUTPUT_CUBEFUL_EQUITY) pci (aafMET E) (aafMETPostCrawford E)]
      else arEval)"

definition move_score :: "evalcontext \<Rightarrow> real list \<Rightarrow> real" where
  "move_score pec arEval =
     (if ec_fCubeful pec \<noteq> 0 then arEval ! OUTPUT_CUBEFUL_EQUITY else arEval ! OUTPUT_EQUITY)"

definition keep_scores :: "evalcontext \<Rightarrow> nat \<Rightarrow> real list \<Rightarrow> scored_move \<Rightarrow> scored_move" where
  "keep_scores pec nPlies arEval pm =
     pm\<lparr>pm_arEvalMove := arEval, es_nPlies := nPlies, rScore := move_score pec arEval,
        rScore2 := arEval ! OUTPUT_EQUITY\<rparr>"

definition ScoreMove ::
  "search_engine \<Rightarrow> evalcontext \<Rightarrow> evaluator \<Rightarrow> cubeinfo \<Rightarrow> nat \<Rightarrow> scored_move \<Rightarrow> scored_move eval" where
  "ScoreMove E pec ev pci nPlies pm =
     and_then (ev nPlies (pci\<lparr>ci_fMove := cnot (ci_fMove pci)\<rparr>) (PositionFromKeySwapped (pm_key pm)))
       (\<lambda>arEval. gives (keep_scores pec nPlies (invert_outputs E pci arEval) pm))"

text \<open>The move \<open>i\<close> has been scored: is it the best so far?\<close>

definition note_best :: "nat \<Rightarrow> scored_list \<Rightarrow> scored_list" where
  "note_best i ml =
     (let m = sl_moves ml ! i in
      if rScore m > sl_rBestScore ml \<or>
         rScore m = sl_rBestScore ml \<and> rScore2 m > rScore2 (sl_moves ml ! sl_iMoveBest ml)
      then ml\<lparr>sl_iMoveBest := i, sl_rBestScore := rScore m\<rparr> else ml)"

text \<open>The loops of \<open>ScoreMoves\<close> and \<open>ScoreMovesPruned\<close> over the moves; a failed score ends them.\<close>

fun score_loop :: "(scored_move \<Rightarrow> scored_move eval) \<Rightarrow> nat list \<Rightarrow> scored_list \<Rightarrow> (bool \<times> scored_list) eval" where
  "score_loop score [] ml = gives (True, ml)"
| "score_loop score (i # is) ml =
     and_then (attempt (score (sl_moves ml ! i))) (\<lambda>r.
       case r of
         None \<Rightarrow> gives (False, ml)
       | Some m \<Rightarrow> score_loop score is (note_best i (ml\<lparr>sl_moves := (sl_moves ml)[i := m]\<rparr>)))"

text \<open>\<open>-99999.9f\<close>.\<close>

definition worst_score :: real where "worst_score = - 999999 / 10"

definition ScoreMoves ::
  "search_engine \<Rightarrow> evalcontext \<Rightarrow> evaluator \<Rightarrow> cubeinfo \<Rightarrow> nat \<Rightarrow> scored_list \<Rightarrow> (bool \<times> scored_list) eval" where
  "ScoreMoves E pec ev pci nPlies ml =
     score_loop (ScoreMove E pec ev pci nPlies) [0..<sl_cMoves ml] (ml\<lparr>sl_rBestScore := worst_score\<rparr>)"

definition ScoreMovesPruned ::
  "search_engine \<Rightarrow> evalcontext \<Rightarrow> evaluator \<Rightarrow> cubeinfo \<Rightarrow> nat list \<Rightarrow> scored_list \<Rightarrow> (bool \<times> scored_list) eval" where
  "ScoreMovesPruned E pec ev pci bmovesi ml =
     score_loop (ScoreMove E pec ev pci 0) bmovesi (ml\<lparr>sl_rBestScore := worst_score\<rparr>)"

text \<open>The comparison of \<open>qsort\<close>; it never finds two moves equal.\<close>

definition CompareMoves :: "scored_move \<Rightarrow> scored_move \<Rightarrow> int" where
  "CompareMoves pm0 pm1 =
     (if rScore pm1 > rScore pm0 \<or> rScore pm1 = rScore pm0 \<and> rScore2 pm1 > rScore2 pm0 then 1 else - 1)"

section \<open>The search with filters\<close>

record movefilter =
  Accept :: int
  Extra :: nat
  Threshold :: real

definition MAX_FILTER_PLIES :: nat where "MAX_FILTER_PLIES = 4"

definition NullFilter :: movefilter where "NullFilter = \<lparr>Accept = 0, Extra = 0, Threshold = 0\<rparr>"

text \<open>\<open>MOVEFILTER_NORMAL\<close>.\<close>

definition defaultFilters :: "nat \<Rightarrow> nat \<Rightarrow> movefilter" where
  "defaultFilters i j =
     (case [[(0, 8, 16 / 100), (0, 0, 0), (0, 0, 0), (0, 0, 0)],
      [(0, 8, 16 / 100), (- 1, 0, 0), (0, 0, 0), (0, 0, 0)],
      [(0, 8, 16 / 100), (- 1, 0, 0), (0, 2, 4 / 100), (0, 0, 0)],
      [(0, 8, 16 / 100), (- 1, 0, 0), (0, 2, 4 / 100), (- 1, 0, 0)]] ! i ! j of
        (a, e, t) \<Rightarrow> \<lparr>Accept = a, Extra = e, Threshold = t\<rparr>)"

definition sort_used :: "search_engine \<Rightarrow> scored_list \<Rightarrow> scored_list" where
  "sort_used E ml =
     ml\<lparr>sl_moves := sort_moves E (take (sl_cMoves ml) (sl_moves ml)) @ drop (sl_cMoves ml) (sl_moves ml),
        sl_iMoveBest := 0\<rparr>"

text \<open>The moves a filter lets through: \<open>Accept\<close>, and up to \<open>Extra\<close> more that score well enough.\<close>

definition filtered :: "movefilter \<Rightarrow> scored_list \<Rightarrow> nat" where
  "filtered mFilter ml =
     (let k = sl_cMoves ml;
          c = min (nat (Accept mFilter)) k;
          limit = min k (c + Extra mFilter) in
      c + length (takeWhile (\<lambda>m. \<not> rScore m < rScore (sl_moves ml ! 0) - Threshold mFilter)
            (drop c (take limit (sl_moves ml)))))"

text \<open>The loop over the plies; the results are whether one move is left, and the last ply used.\<close>

fun filter_plies ::
  "search_engine \<Rightarrow> evalcontext \<Rightarrow> evaluator \<Rightarrow> cubeinfo \<Rightarrow> (nat \<Rightarrow> movefilter) \<Rightarrow> nat list \<Rightarrow> nat \<Rightarrow> scored_list \<Rightarrow>
   (bool \<times> nat \<times> scored_list) eval" where
  "filter_plies E pec ev pci mFilters [] nMaxPly ml = gives (False, nMaxPly, ml)"
| "filter_plies E pec ev pci mFilters (iPly # plies) nMaxPly ml =
     (let mFilter = (if iPly < MAX_FILTER_PLIES then mFilters iPly else NullFilter) in
      if Accept mFilter < 0 then filter_plies E pec ev pci mFilters plies nMaxPly ml
      else
        and_then (ScoreMoves E pec ev pci iPly ml) (\<lambda>(ok, ml).
          if \<not> ok then failed
          else
            let ml = sort_used E ml;
                ml = ml\<lparr>sl_cMoves := filtered mFilter ml\<rparr>
            in if sl_cMoves ml = 1 \<and> Accept mFilter \<noteq> 1 then gives (True, iPly, ml)
               else filter_plies E pec ev pci mFilters plies iPly ml))"

text \<open>A score whose failure is not looked at leaves the move as it is.\<close>

definition rescore ::
  "search_engine \<Rightarrow> evalcontext \<Rightarrow> evaluator \<Rightarrow> cubeinfo \<Rightarrow> nat \<Rightarrow> nat \<Rightarrow> scored_list \<Rightarrow> scored_list eval" where
  "rescore E pec ev pci nPlies i ml =
     and_then (attempt (ScoreMove E pec ev pci nPlies (sl_moves ml ! i))) (\<lambda>r.
       gives (case r of None \<Rightarrow> ml | Some m \<Rightarrow> ml\<lparr>sl_moves := (sl_moves ml)[i := m]\<rparr>))"

definition move_up :: "nat \<Rightarrow> nat \<Rightarrow> 'm list \<Rightarrow> 'm list" where
  "move_up i j ms = (fold (\<lambda>k ms. ms[k + 1 := ms ! k]) (rev [j..<i]) ms)[j := ms ! i]"

text \<open>The move \<open>keyMove\<close> is evaluated as deeply as the best one.\<close>

definition save_key_move ::
  "search_engine \<Rightarrow> evalcontext \<Rightarrow> evaluator \<Rightarrow> cubeinfo \<Rightarrow> positionkey \<Rightarrow> real \<Rightarrow> nat \<Rightarrow> nat \<Rightarrow> scored_list \<Rightarrow>
   scored_list eval" where
  "save_key_move E pec ev pci key rThr cOldMoves nMaxPly ml =
     (case find (\<lambda>i. EqualKeys key (pm_key (sl_moves ml ! i))) [0..<sl_cMoves ml] of
        None \<Rightarrow> gives ml
      | Some i \<Rightarrow>
          let shallow = es_nPlies (sl_moves ml ! i) < nMaxPly in
          and_then (if shallow then rescore E pec ev pci nMaxPly i ml else gives ml) (\<lambda>ml.
            let blunder = \<bar>rScore (sl_moves ml ! i) - rScore (sl_moves ml ! 0)\<bar> > rThr \<and> nMaxPly < ec_nPlies pec;
                cOldMoves = (if blunder then 1 else cOldMoves) in
            and_then
              (if blunder then
                 and_then (rescore E pec ev pci (ec_nPlies pec) 0 ml) (rescore E pec ev pci (ec_nPlies pec) i)
               else gives ml)
              (\<lambda>ml.
                if (shallow \<or> blunder) \<and> ec_nPlies pec \<noteq> 0 then
                  let ms = move_up i cOldMoves (sl_moves ml) in
                  gives (ml\<lparr>sl_moves := sort_moves E (take (cOldMoves + 1) ms) @ drop (cOldMoves + 1) ms\<rparr>)
                else gives ml)))"

definition FindnSaveBestMoves ::
  "search_engine \<Rightarrow> evaluator \<Rightarrow> nat \<Rightarrow> nat \<Rightarrow> TanBoard \<Rightarrow> positionkey option \<Rightarrow> real \<Rightarrow> cubeinfo \<Rightarrow> evalcontext \<Rightarrow>
   (nat \<Rightarrow> nat \<Rightarrow> movefilter) \<Rightarrow> scored_list eval" where
  "FindnSaveBestMoves E ev nDice0 nDice1 b keyMove rThr pci pec aamf =
     (let ml = generated b nDice0 nDice1; nPlies = ec_nPlies pec in
      if sl_cMoves ml = 0 then gives ml
      else
        and_then
          (filter_plies E pec ev pci
             (aamf (if 0 < nPlies \<and> nPlies \<le> MAX_FILTER_PLIES then nPlies - 1 else MAX_FILTER_PLIES - 1))
             [0..<nPlies] 0 ml)
          (\<lambda>(finished, nMaxPly, ml).
            and_then
              (if finished then gives (nMaxPly, ml)
               else and_then (ScoreMoves E pec ev pci nPlies ml)
                      (\<lambda>(ok, ml). if \<not> ok then failed else gives (nPlies, sort_used E ml)))
              (\<lambda>(nMaxPly, ml).
                let cOldMoves = sl_cMoves ml; ml = ml\<lparr>sl_cMoves := length (sl_moves ml)\<rparr> in
                case keyMove of
                  None \<Rightarrow> gives ml
                | Some key \<Rightarrow> save_key_move E pec ev pci key rThr cOldMoves nMaxPly ml)))"

text \<open>The eight numbers of the move, the board after it and the return value.\<close>

definition FindBestMovePlied ::
  "search_engine \<Rightarrow> evaluator \<Rightarrow> nat \<Rightarrow> nat \<Rightarrow> TanBoard \<Rightarrow> cubeinfo \<Rightarrow> evalcontext \<Rightarrow> nat \<Rightarrow>
   (nat \<Rightarrow> nat \<Rightarrow> movefilter) \<Rightarrow> (int list \<times> TanBoard \<times> nat) eval" where
  "FindBestMovePlied E ev nDice0 nDice1 b pci pec nPlies aamf =
     and_then (FindnSaveBestMoves E ev nDice0 nDice1 b None 0 pci (pec\<lparr>ec_nPlies := nPlies\<rparr>) aamf) (\<lambda>ml.
       let n = 2 * sl_cMaxMoves ml; best = sl_moves ml ! sl_iMoveBest ml in
       if sl_cMoves ml = 0 then gives (replicate 8 (- 1), b, n)
       else gives (take n (pm_anMove best) @ replicate (8 - n) (- 1), PositionFromKey (pm_key best), n))"

definition FindBestMove ::
  "search_engine \<Rightarrow> evaluator \<Rightarrow> nat \<Rightarrow> nat \<Rightarrow> TanBoard \<Rightarrow> cubeinfo \<Rightarrow> evalcontext option \<Rightarrow>
   (nat \<Rightarrow> nat \<Rightarrow> movefilter) \<Rightarrow> (int list \<times> TanBoard \<times> nat) eval" where
  "FindBestMove E ev nDice0 nDice1 b pci pec aamf =
     (let pec = (case pec of Some pec \<Rightarrow> pec | None \<Rightarrow> ecBasic) in
      FindBestMovePlied E ev nDice0 nDice1 b pci pec (ec_nPlies pec) aamf)"

section \<open>The search with the pruning networks\<close>

definition PRUNE_MOVES :: nat where "PRUNE_MOVES = 10"

text \<open>
  \<open>bmovesi\<close>: the moves kept, the one that scores highest first.  The scores are the opponent's.
\<close>

definition keep_move :: "(nat \<Rightarrow> real) \<Rightarrow> nat \<Rightarrow> nat list \<Rightarrow> nat list" where
  "keep_move score i bm =
     (if i < PRUNE_MOVES then
        (let bm = bm @ [i] in
         if score i > score (bm ! 0) then bm[i := bm ! 0, 0 := i] else bm)
      else if score i < score (bm ! 0) then
        (let bm = bm[0 := i];
             m = fold (\<lambda>k m. if score (bm ! k) > score (bm ! m) then k else m) [1..<PRUNE_MOVES] 0
         in bm[0 := bm ! m, m := i])
      else bm)"

text \<open>The outputs of the small network for a move; they are cached under the key of the move.\<close>

definition net_outputs :: "search_engine \<Rightarrow> TanBoard \<Rightarrow> positionclass \<Rightarrow> real list option" where
  "net_outputs E b pc =
     Option.bind (pruning_net E pc b) (\<lambda>ar.
       Option.bind (if pc = CLASS_RACE then race_backgammons E b ar else Some ar) (SanityCheck (en_pbc1 E) b))"

definition prune_evaluation :: "search_engine \<Rightarrow> positionkey \<Rightarrow> TanBoard \<Rightarrow> positionclass \<Rightarrow> real list eval" where
  "prune_evaluation E key b pc s =
     (case CacheLookup (cpEval s) key 0 of
        (l, c, Some (ar, _)) \<Rightarrow> gives ar (s\<lparr>cpEval := c\<rparr>)
      | (l, c, None) \<Rightarrow>
          and_then (returning (net_outputs E b pc)) (\<lambda>ar s.
            gives ar (s\<lparr>cpEval := CacheAdd (cpEval s) \<lparr>nd_key = key, nEvalContext = 0, nd_ar = take 5 ar @ [0]\<rparr> l\<rparr>))
            (s\<lparr>cpEval := c\<rparr>))"

text \<open>
  The loop over the moves; it is left early when a position is over or exact, or when the classes
  differ.  The results are whether all moves were seen, the moves with their scores, and \<open>bmovesi\<close>.
\<close>

fun prune_loop ::
  "search_engine \<Rightarrow> cubeinfo \<Rightarrow> nat list \<Rightarrow> positionclass \<Rightarrow> scored_move list \<Rightarrow> nat list \<Rightarrow>
   (bool \<times> scored_move list \<times> nat list) eval" where
  "prune_loop E pci [] evalClass ms bm = gives (True, ms, bm)"
| "prune_loop E pci (i # is) evalClass ms bm =
     (let b = PositionFromKeySwapped (pm_key (ms ! i));
          pc = ClassifyPosition (en_dbs E) b VARIATION_STANDARD in
      if (if i = 0 then pc < CLASS_RACE else pc \<noteq> evalClass) then gives (False, ms, bm)
      else
        and_then (prune_evaluation E (pm_key (ms ! i)) b pc) (\<lambda>ar.
          let ms = ms[i := (ms ! i)\<lparr>rScore := UtilityME ar pci\<rparr>] in
          prune_loop E pci is (if i = 0 then pc else evalClass) ms (keep_move (\<lambda>k. rScore (ms ! k)) i bm)))"

definition FindBestMoveInEval ::
  "search_engine \<Rightarrow> evaluator \<Rightarrow> nat \<Rightarrow> nat \<Rightarrow> TanBoard \<Rightarrow> TanBoard \<Rightarrow> cubeinfo \<Rightarrow> evalcontext \<Rightarrow> TanBoard eval" where
  "FindBestMoveInEval E ev nDice0 nDice1 b bOut pci pec =
     (let ml = generated b nDice0 nDice1;
          board = (\<lambda>ml. PositionFromKey (pm_key (sl_moves ml ! sl_iMoveBest ml))) in
      if sl_cMoves ml = 0 then gives bOut
      else if sl_cMoves ml = 1 then gives (PositionFromKey (pm_key (sl_moves ml ! 0)))
      else if sl_cMoves ml \<le> PRUNE_MOVES then
        and_then (ScoreMoves E pec ev pci 0 ml) (\<lambda>(ok, ml). gives (board ml))
      else
        and_then
          (prune_loop E (pci\<lparr>ci_fMove := cnot (ci_fMove pci)\<rparr>) [0..<sl_cMoves ml] CLASS_OVER (sl_moves ml) [])
          (\<lambda>(all, ms, bm).
            let ml = ml\<lparr>sl_moves := ms\<rparr> in
            and_then
              (if all then ScoreMovesPruned E pec ev pci bm ml else ScoreMoves E pec ev pci 0 ml)
              (\<lambda>(ok, ml). gives (board ml))))"

end
