(* ===== verification/Bearoff_Db.thy ===== *)
theory Bearoff_Db
  imports Eval_Outputs Position_Class Complex_Main
begin

text \<open>
  The bear-off databases (bearoff.c): the header (\<open>BearoffInit\<close>), the records of two-sided,
  hypergammon and one-sided databases, compressed and not, and the evaluation of a position with
  them (\<open>BearoffEval\<close>).  A database is the bytes of its file, in memory or on disk.
\<close>

section \<open>The bytes\<close>

record bearoff_db = bearoffcontext +
  db_fCompressed :: int
  db_fGammon :: int
  db_fND :: int
  db_fHeuristic :: bool
  db_fCubeful :: int
  db_in_memory :: bool
  db_bytes :: "u8 list"

text \<open>
  A call can refuse (the return value \<open>-1\<close>), fail an assertion, or read or write outside of its
  arrays.
\<close>

datatype db_error = Refused | Assertion | Outside

type_synonym 'a db_result = "db_error + 'a"

definition db_bind :: "'a db_result \<Rightarrow> ('a \<Rightarrow> 'b db_result) \<Rightarrow> 'b db_result" where
  "db_bind m f = (case m of Inl e \<Rightarrow> Inl e | Inr a \<Rightarrow> f a)"

definition in_range :: "'a option \<Rightarrow> 'a db_result" where
  "in_range x = (case x of None \<Rightarrow> Inl Outside | Some a \<Rightarrow> Inr a)"

lemma db_bind_simps [simp]: "db_bind (Inl e) f = Inl e" "db_bind (Inr a) f = f a"
  by (simp_all add: db_bind_def)

lemma in_range_simps [simp]: "in_range None = Inl Outside" "in_range (Some a) = Inr a"
  by (simp_all add: in_range_def)

text \<open>\<open>ReadBearoffFile\<close>: what cannot be read is zero.\<close>

definition ReadBearoffFile :: "bearoff_db \<Rightarrow> u32 \<Rightarrow> nat \<Rightarrow> u8 list" where
  "ReadBearoffFile pbc offset nBytes =
     (if unat offset + nBytes \<le> length (db_bytes pbc) then take nBytes (drop (unat offset) (db_bytes pbc))
      else replicate nBytes 0)"

text \<open>
  The bytes at \<open>offset\<close>, of which \<open>nFile\<close> are read from a file; from memory all \<open>nBytes\<close> of them
  must be there.  The header of 40 bytes is added to the pointer, or to the offset in the file.
\<close>

definition db_read :: "bearoff_db \<Rightarrow> u32 \<Rightarrow> nat \<Rightarrow> nat \<Rightarrow> u8 list db_result" where
  "db_read pbc offset nBytes nFile =
     (if db_in_memory pbc then
        (let start = 40 + unat offset in
         if start + nBytes \<le> length (db_bytes pbc) then Inr (take nBytes (drop start (db_bytes pbc))) else Inl Outside)
      else Inr (ReadBearoffFile pbc (40 + offset) nFile))"

definition le16 :: "u8 list \<Rightarrow> nat \<Rightarrow> u16" where
  "le16 pc i = ucast (pc ! i) OR push_bit 8 (ucast (pc ! (i + 1)))"

definition le24 :: "u8 list \<Rightarrow> nat \<Rightarrow> u32" where
  "le24 pc i = ucast (pc ! i) OR push_bit 8 (ucast (pc ! (i + 1))) OR push_bit 16 (ucast (pc ! (i + 2)))"

definition MakeInt :: "u8 \<Rightarrow> u8 \<Rightarrow> u8 \<Rightarrow> u8 \<Rightarrow> u32" where
  "MakeInt a b c d = ucast a OR push_bit 8 (ucast b) OR push_bit 16 (ucast c) OR push_bit 24 (ucast d)"

section \<open>Two-sided databases\<close>

text \<open>The number of a position; the arithmetic is on unsigned ints.\<close>

definition two_sided_index :: "bearoffcontext \<Rightarrow> TanBoard \<Rightarrow> u32 option" where
  "two_sided_index pbc b =
     (let points = unat (nPoints pbc); men = unat (nChequers pbc) in
      case (PositionBearoff (snd b) points men, PositionBearoff (fst b) points men,
            Combination (points + men) points) of
        (Some nUs, Some nThem, Some n) \<Rightarrow> Some (nUs * n + nThem)
      | _ \<Rightarrow> None)"

abbreviation db_context :: "bearoff_db \<Rightarrow> bearoffcontext" where
  "db_context pbc \<equiv> bearoffcontext.truncate pbc"

definition ReadTwoSidedBearoff :: "bearoff_db \<Rightarrow> u32 \<Rightarrow> (real list \<times> u16 list) db_result" where
  "ReadTwoSidedBearoff pbc iPos =
     (let k = (if db_fCubeful pbc \<noteq> 0 then 4 else 1) in
      db_bind (db_read pbc (2 * iPos * of_nat k) (2 * k) (2 * k)) (\<lambda>pc.
        let aus = map (\<lambda>i. le16 pc (2 * i)) [0..<k] in
        Inr (map (\<lambda>us. real (unat us) / (65535 / 2) - 1) aus, aus)))"

definition BearoffCubeful :: "bearoff_db \<Rightarrow> u32 \<Rightarrow> (real list \<times> u16 list) db_result" where
  "BearoffCubeful pbc iPos =
     (if db_fCubeful pbc = 0 then Inl Refused else ReadTwoSidedBearoff pbc iPos)"

definition BearoffEvalTwoSided :: "bearoff_db \<Rightarrow> TanBoard \<Rightarrow> real list db_result" where
  "BearoffEvalTwoSided pbc b =
     db_bind (in_range (two_sided_index (db_context pbc) b)) (\<lambda>iPos.
       db_bind (ReadTwoSidedBearoff pbc iPos) (\<lambda>(ar, aus).
         Inr ((replicate 5 0)[OUTPUT_WIN := ar ! 0 / 2 + 1 / 2])))"

section \<open>Hypergammon databases\<close>

definition ReadHypergammon :: "bearoff_db \<Rightarrow> u32 \<Rightarrow> (real list \<times> real list) db_result" where
  "ReadHypergammon pbc iPos =
     db_bind (db_read pbc (28 * iPos) 28 28) (\<lambda>pc.
       Inr (map (\<lambda>i. real (unat (le24 pc (3 * i))) / 16777215) [0..<5],
            map (\<lambda>i. (real (unat (le24 pc (15 + 3 * i))) / 16777215 - 1 / 2) * 6) [0..<4]))"

definition BearoffHyper :: "bearoff_db \<Rightarrow> u32 \<Rightarrow> (real list \<times> real list) db_result" where
  "BearoffHyper pbc iPos = ReadHypergammon pbc iPos"

definition BearoffEvalHypergammon :: "bearoff_db \<Rightarrow> TanBoard \<Rightarrow> real list db_result" where
  "BearoffEvalHypergammon pbc b =
     db_bind (in_range (two_sided_index (db_context pbc) b)) (\<lambda>iPos.
       db_bind (ReadHypergammon pbc iPos) (\<lambda>(arOutput, arEquity). Inr arOutput))"

section \<open>One-sided databases\<close>

text \<open>What \<open>BearoffDist\<close> hands out: the two distributions, their means and deviations, and the two as words.\<close>

record distribution =
  arProb :: "real list"
  arGammonProb :: "real list"
  d_ar :: "real list"
  ausProb :: "u16 list"
  ausGammonProb :: "u16 list"

definition AverageRolls :: "real list \<Rightarrow> real list" where
  "AverageRolls ar =
     (let sx = sum_list (map (\<lambda>i. real i * ar ! i) [1..<32]);
          sx2 = sum_list (map (\<lambda>i. real i * (real i * ar ! i)) [1..<32])
      in [sx, sqrt (sx2 - sx * sx)])"

definition fnd :: "real \<Rightarrow> real \<Rightarrow> real \<Rightarrow> real" where
  "fnd x mu sigma =
     (let epsilon = 1 / 10 ^ 7 in
      if sigma \<le> epsilon then (if \<bar>mu - x\<bar> < epsilon then 1 else 0)
      else let xm = (x - mu) / sigma in 1 / (sigma * sqrt (2 * pi) * exp (- xm * xm / 2)))"

text \<open>
  \<open>bits\<close> is the value of a \<open>float\<close>, given by its four bytes.  The record is read from the file,
  which is closed when the database is in memory.  A conversion to \<open>unsigned short\<close> of a value
  that does not fit is its last 16 bits here; C leaves it open.
\<close>

definition ReadBearoffOneSidedND :: "(u8 list \<Rightarrow> real) \<Rightarrow> bearoff_db \<Rightarrow> u32 \<Rightarrow> distribution db_result" where
  "ReadBearoffOneSidedND bits pbc nPosID =
     (if db_in_memory pbc then Inl Outside
      else
        let ac = ReadBearoffFile pbc (40 + nPosID * 16) 16;
            arx = map (\<lambda>i. bits (take 4 (drop (4 * i) ac))) [0..<4];
            probs = map (\<lambda>i. fnd (real i) (arx ! 0) (arx ! 1)) [0..<32];
            gammons = map (\<lambda>i. fnd (real i) (arx ! 2) (arx ! 3)) [0..<32];
            us = (\<lambda>r. word_of_int \<lfloor>r * 65535\<rfloor>)
        in Inr \<lparr>arProb = probs, arGammonProb = gammons, d_ar = arx, ausProb = map us probs, ausGammonProb = map us gammons\<rparr>)"

definition AssignOneSided :: "u16 list \<Rightarrow> distribution" where
  "AssignOneSided aus =
     (let arx = map (\<lambda>us. real (unat us) / 65535) aus in
      \<lparr>arProb = take 32 arx, arGammonProb = drop 32 arx,
       d_ar = AverageRolls (take 32 arx) @ AverageRolls (drop 32 arx),
       ausProb = take 32 aus, ausGammonProb = drop 32 aus\<rparr>)"

text \<open>The loops of \<open>CopyBytes\<close>; a write behind the array is an error.\<close>

fun copy_words :: "u8 list \<Rightarrow> nat \<Rightarrow> nat \<Rightarrow> nat \<Rightarrow> u16 list \<Rightarrow> u16 list db_result" where
  "copy_words ac i k 0 aus = Inr aus"
| "copy_words ac i k (Suc n) aus =
     (if k < length aus then copy_words ac (i + 2) (k + 1) n (aus[k := le16 ac i]) else Inl Outside)"

definition CopyBytes :: "u8 list \<Rightarrow> nat \<Rightarrow> nat \<Rightarrow> nat \<Rightarrow> nat \<Rightarrow> u16 list db_result" where
  "CopyBytes ac nz ioff nzg ioffg =
     db_bind (copy_words ac 0 ioff nz (replicate 64 0)) (copy_words ac (2 * nz) (32 + ioffg) nzg)"

definition GetDistCompressed :: "bearoff_db \<Rightarrow> u32 \<Rightarrow> u16 list db_result" where
  "GetDistCompressed pbc nPosID =
     db_bind (in_range (Combination (unat (nPoints pbc) + unat (nChequers pbc)) (unat (nPoints pbc)))) (\<lambda>nPos.
       let size = (if db_fGammon pbc \<noteq> 0 then 8 else 6) in
       db_bind (db_read pbc (nPosID * of_nat size) size size) (\<lambda>puch.
         let iOffset = MakeInt (puch ! 0) (puch ! 1) (puch ! 2) (puch ! 3);
             nz = unat (puch ! 4); ioff = unat (puch ! 5);
             nzg = (if db_fGammon pbc \<noteq> 0 then unat (puch ! 6) else 0);
             ioffg = (if db_fGammon pbc \<noteq> 0 then unat (puch ! 7) else 0)
         in
         if (iOffset > 64 * nPos \<and> 64 * nPos > 0) \<or> nz > 32 \<or> ioff > 32 \<or> nzg > 32 \<or> ioffg > 32 then Inl Assertion
         else
           db_bind (db_read pbc (nPos * of_nat size + 2 * iOffset) (2 * (nz + nzg)) (2 * (nz + nzg))) (\<lambda>puch.
             CopyBytes puch nz ioff nzg ioffg)))"

text \<open>
  128 bytes are copied whether or not the database has gammons; on disk the second half of the
  buffer is then what it was, which the argument \<open>junk\<close> stands for.
\<close>

definition GetDistUncompressed :: "u8 list \<Rightarrow> bearoff_db \<Rightarrow> u32 \<Rightarrow> u16 list db_result" where
  "GetDistUncompressed junk pbc nPosID =
     (let g = (db_fGammon pbc \<noteq> 0) in
      db_bind (db_read pbc (64 * nPosID * (if g then 2 else 1)) 128 (if g then 128 else 64)) (\<lambda>puch.
        CopyBytes (if g \<or> db_in_memory pbc then puch else puch @ junk) 32 0 32 0))"

definition ReadBearoffOneSidedExact :: "u8 list \<Rightarrow> bearoff_db \<Rightarrow> u32 \<Rightarrow> distribution db_result" where
  "ReadBearoffOneSidedExact junk pbc nPosID =
     db_bind (if db_fCompressed pbc \<noteq> 0 then GetDistCompressed pbc nPosID else GetDistUncompressed junk pbc nPosID)
       (\<lambda>pus. Inr (AssignOneSided pus))"

text \<open>What the reader takes from outside: the value of a float, and the bytes of a buffer before it is read.\<close>

type_synonym machine = "(u8 list \<Rightarrow> real) \<times> u8 list"

definition BearoffDist :: "machine \<Rightarrow> bearoff_db option \<Rightarrow> u32 \<Rightarrow> distribution db_result" where
  "BearoffDist mach pbc nPosID =
     (case pbc of
        None \<Rightarrow> Inl Refused
      | Some pbc \<Rightarrow>
          if bt pbc \<noteq> BEAROFF_ONESIDED then Inl Refused
          else if db_fND pbc \<noteq> 0 then ReadBearoffOneSidedND (fst mach) pbc nPosID
          else ReadBearoffOneSidedExact (snd mach) pbc nPosID)"

text \<open>
  \<open>probs\<close> is \<open>getBearoffGammonProbs\<close>, a table generated with the databases: how many of the 36, 36^2
  and 36^3 sequences bear off the first chequer at the first, second and third roll.  The results
  are \<open>g0\<close> and \<open>g1\<close>; \<open>d1\<close> is the reading of \<open>pbc1\<close>, the one-sided database, which is \<open>one_db\<close> below.
\<close>

definition gammon_makes :: "nat \<times> nat \<times> nat \<Rightarrow> real \<times> real \<times> real" where
  "gammon_makes gp =
     (case gp of (p0, p1, p2) \<Rightarrow>
        let m0 = real p0 / 36; m1 = m0 + real p1 / (36 * 36) in (m0, m1, m1 + real p2 / (36 * 36 * 36)))"

definition setGammonProb ::
  "(side \<Rightarrow> nat \<times> nat \<times> nat) \<Rightarrow> (u32 \<Rightarrow> distribution db_result) \<Rightarrow> TanBoard \<Rightarrow> u32 \<Rightarrow> u32 \<Rightarrow> (real \<times> real) db_result" where
  "setGammonProb probs d1 b bp0 bp1 =
     (let tot0 = fold (\<lambda>i n. n + fst b ! i) (rev [0..<6]) 0; tot1 = fold (\<lambda>i n. n + snd b ! i) (rev [0..<6]) 0;
          p = (\<lambda>d i. real (unat (ausProb d ! i)) / 65535) in
      if \<not> (tot0 = 15 \<or> tot1 = 15) then Inl Assertion
      else
        db_bind
          (if tot0 = 15 then
             db_bind (d1 bp1) (\<lambda>d. case gammon_makes (probs (fst b)) of (m0, m1, m2) \<Rightarrow>
               Inr (p d 1 + (1 - m0) * p d 2 + (1 - m1) * p d 3 + (1 - m2) * p d 4))
           else Inr 0)
          (\<lambda>g1.
             if tot1 = 15 then
               db_bind (d1 bp0) (\<lambda>d. case gammon_makes (probs (snd b)) of (m0, m1, m2) \<Rightarrow>
                 Inr (p d 1 * (1 - m0) + p d 2 * (1 - m1) + p d 3 * (1 - m2), g1))
             else Inr (0, g1)))"

text \<open>The chance that one side is off in \<open>i\<close> rolls and the other has not got there before roll \<open>i + k\<close>.\<close>

definition off_first :: "nat \<Rightarrow> real list \<Rightarrow> real list \<Rightarrow> real" where
  "off_first k p q = sum_list (map (\<lambda>i. sum_list (map (\<lambda>j. p ! i * q ! j) [i + k..<32])) [0..<32])"

definition BearoffEvalOneSided ::
  "machine \<Rightarrow> (side \<Rightarrow> nat \<times> nat \<times> nat) \<Rightarrow> bearoff_db option \<Rightarrow> bearoff_db \<Rightarrow> TanBoard \<Rightarrow> real list db_result" where
  "BearoffEvalOneSided mach probs one_db pbc b =
     (let an = (\<lambda>s. in_range (PositionBearoff s (unat (nPoints pbc)) (unat (nChequers pbc)))) in
      db_bind (an (fst b)) (\<lambda>an0. db_bind (BearoffDist mach (Some pbc) an0) (\<lambda>d0.
      db_bind (an (snd b)) (\<lambda>an1. db_bind (BearoffDist mach (Some pbc) an1) (\<lambda>d1.
        let win = off_first 0 (arProb d1) (arProb d0) in
        db_bind
          (if count_all (fst b) = 15 \<or> count_all (snd b) = 15 then
             (if db_fGammon pbc \<noteq> 0 then
                Inr (off_first 1 (arProb d0) (arGammonProb d1), off_first 0 (arProb d1) (arGammonProb d0))
              else setGammonProb probs (BearoffDist mach one_db) b an0 an1)
           else Inr (0, 0))
          (\<lambda>(lose, gammon).
            Inr ((replicate 5 0)[OUTPUT_WIN := win, OUTPUT_WINGAMMON := gammon, OUTPUT_LOSEGAMMON := lose])))))))"

text \<open>The outputs are left as they were when there is no database, or one of no type.\<close>

definition BearoffEval ::
  "machine \<Rightarrow> (side \<Rightarrow> nat \<times> nat \<times> nat) \<Rightarrow> bearoff_db option \<Rightarrow> bearoff_db option \<Rightarrow> TanBoard \<Rightarrow> real list \<Rightarrow> real list db_result" where
  "BearoffEval mach probs one_db pbc b arOutput =
     (case pbc of
        None \<Rightarrow> Inr arOutput
      | Some pbc \<Rightarrow>
          (case bt pbc of
             BEAROFF_TWOSIDED \<Rightarrow> BearoffEvalTwoSided pbc b
           | BEAROFF_ONESIDED \<Rightarrow> BearoffEvalOneSided mach probs one_db pbc b
           | BEAROFF_HYPERGAMMON \<Rightarrow> BearoffEvalHypergammon pbc b
           | BEAROFF_INVALID \<Rightarrow> Inr arOutput))"

section \<open>Opening a database\<close>

text \<open>\<open>atoi\<close>: blanks, a sign, and the digits up to the first other character.\<close>

definition digit_value :: "u8 \<Rightarrow> int option" where
  "digit_value c = (if 48 \<le> c \<and> c \<le> 57 then Some (uint c - 48) else None)"

fun read_digits :: "u8 list \<Rightarrow> int \<Rightarrow> int" where
  "read_digits [] n = n"
| "read_digits (c # cs) n = (case digit_value c of None \<Rightarrow> n | Some d \<Rightarrow> read_digits cs (10 * n + d))"

definition atoi :: "u8 list \<Rightarrow> int" where
  "atoi cs =
     (case dropWhile (\<lambda>c. c = 32 \<or> 9 \<le> c \<and> c \<le> 13) cs of
        [] \<Rightarrow> 0
      | c # ds \<Rightarrow> if c = 45 then - read_digits ds 0 else if c = 43 then read_digits ds 0 else read_digits (c # ds) 0)"

definition ascii :: "string \<Rightarrow> u8 list" where
  "ascii s = map (\<lambda>c. of_nat (of_char c)) s"

definition starts_at :: "nat \<Rightarrow> string \<Rightarrow> u8 list \<Rightarrow> bool" where
  "starts_at i s sz \<longleftrightarrow> take (length s) (drop i sz) = ascii s"

text \<open>
  \<open>content\<close> is the file, \<open>None\<close> if there is no name, no regular file, or one that cannot be opened;
  \<open>in_memory\<close> is \<open>BO_IN_MEMORY\<close>.  The numbers are cast to \<open>unsigned\<close>.
\<close>

definition BearoffInit :: "u8 list option \<Rightarrow> bool \<Rightarrow> bearoff_db option" where
  "BearoffInit content in_memory =
     (case content of
        None \<Rightarrow> None
      | Some file \<Rightarrow>
          let sz = take 40 file; num = (\<lambda>i. atoi (drop i sz)) in
          if length sz < 40 \<or> \<not> starts_at 0 ''gnubg'' sz then None
          else
            (case (if starts_at 6 ''TS'' sz then BEAROFF_TWOSIDED
                   else if starts_at 6 ''OS'' sz then BEAROFF_ONESIDED
                   else if starts_at 6 ''H'' sz then BEAROFF_HYPERGAMMON else BEAROFF_INVALID) of
               BEAROFF_INVALID \<Rightarrow> None
             | kind \<Rightarrow>
                 let small = (kind \<noteq> BEAROFF_HYPERGAMMON);
                     points = (if small then word_of_int (num 9) else 25);
                     men = word_of_int (if small then num 12 else num 7)
                 in
                 if small \<and> (points < 1 \<or> points \<ge> 24 \<or> men < 1 \<or> men > 15) then None
                 else
                   Some \<lparr>bt = kind, nPoints = points, nChequers = men,
                     db_fCompressed = (if kind = BEAROFF_ONESIDED then num 17 else 0),
                     db_fGammon = (if kind = BEAROFF_ONESIDED then num 15 else 0),
                     db_fND = (if kind = BEAROFF_ONESIDED then num 19 else 0), db_fHeuristic = False,
                     db_fCubeful = (if kind = BEAROFF_TWOSIDED then num 15 else 0),
                     db_in_memory = in_memory, db_bytes = file\<rparr>))"

section \<open>The bytes of words\<close>

definition word_bytes :: "u16 list \<Rightarrow> u8 list" where
  "word_bytes ws = concat (map (\<lambda>w. [ucast w, ucast (drop_bit 8 w)]) ws)"

definition int_bytes :: "u32 \<Rightarrow> u8 list" where
  "int_bytes w = map (\<lambda>i. ucast (drop_bit (8 * i) w)) [0..<4]"

lemma word_bytes_simps [simp]:
  "word_bytes [] = []" "word_bytes (w # ws) = ucast w # ucast (drop_bit 8 w) # word_bytes ws"
  by (simp_all add: word_bytes_def)

lemma length_word_bytes [simp]: "length (word_bytes ws) = 2 * length ws"
  by (induction ws) simp_all

lemma word_bytes_append: "word_bytes (xs @ ys) = word_bytes xs @ word_bytes ys"
  by (simp add: word_bytes_def)

lemma le16_bytes: "le16 (pre @ word_bytes (w # ws) @ post) (length pre) = w"
proof -
  have "ucast (ucast w :: u8) OR push_bit 8 (ucast (ucast (drop_bit 8 w) :: u8)) = w" for w :: u16
    by (rule bit_eqI) (auto simp: bit_or_iff bit_push_bit_iff bit_ucast_iff bit_drop_bit_eq; fastforce)
  then show ?thesis by (simp add: le16_def nth_append)
qed

lemma MakeInt_bytes: "MakeInt (int_bytes w ! 0) (int_bytes w ! 1) (int_bytes w ! 2) (int_bytes w ! 3) = w"
proof (rule bit_word_eqI)
  fix n assume n: "n < LENGTH(32)"
  have nth: "int_bytes w ! i = ucast (drop_bit (8 * i) w)" if "i < 4" for i using that by (simp add: int_bytes_def)
  from n consider "n < 8" | "8 \<le> n" "n < 16" | "16 \<le> n" "n < 24" | "24 \<le> n" "n < 32" by fastforce
  then show "bit (MakeInt (int_bytes w ! 0) (int_bytes w ! 1) (int_bytes w ! 2) (int_bytes w ! 3)) n = bit w n"
    by cases (auto simp: nth MakeInt_def bit_or_iff bit_push_bit_iff bit_ucast_iff bit_drop_bit_eq)
qed

lemma copy_words_bytes:
  "k + length ws \<le> length aus \<Longrightarrow>
   copy_words (pre @ word_bytes ws @ post) (length pre) k (length ws) aus = Inr (take k aus @ ws @ drop (k + length ws) aus)"
proof (induction ws arbitrary: pre k aus)
  case (Cons w ws)
  let ?ac = "pre @ word_bytes (w # ws) @ post" and ?pre = "pre @ word_bytes [w]"
  have "?ac = ?pre @ word_bytes ws @ post" "length pre + 2 = length ?pre" by simp_all
  moreover from Cons.prems have "copy_words (?pre @ word_bytes ws @ post) (length ?pre) (k + 1) (length ws) (aus[k := w])
      = Inr (take (k + 1) (aus[k := w]) @ ws @ drop (k + 1 + length ws) (aus[k := w]))"
    by (intro Cons.IH) simp
  moreover have "take (k + 1) (aus[k := w]) = take k aus @ [w]" using Cons.prems
    by (simp add: take_Suc_conv_app_nth)
  ultimately show ?case using Cons.prems le16_bytes [of pre w ws post] by simp
qed simp

text \<open>A distribution without its zeros in front and behind.\<close>

definition window :: "u16 list \<Rightarrow> nat \<Rightarrow> u16 list \<Rightarrow> bool" where
  "window d ioff ws \<longleftrightarrow> ioff + length ws \<le> 32 \<and> d = replicate ioff 0 @ ws @ replicate (32 - ioff - length ws) 0"

lemma CopyBytes_windows:
  assumes "window d ioff ws" "window g ioffg zs"
  shows "CopyBytes (word_bytes (ws @ zs)) (length ws) ioff (length zs) ioffg = Inr (d @ g)"
proof -
  let ?z = "replicate 64 0 :: u16 list"
  have w: "ioff + length ws \<le> 32" "ioffg + length zs \<le> 32" using assms by (simp_all add: window_def)
  define aus where "aus = take ioff ?z @ ws @ drop (ioff + length ws) ?z"
  have "copy_words (word_bytes (ws @ zs)) 0 ioff (length ws) ?z = Inr aus"
    using copy_words_bytes [of ioff ws ?z "[]" "word_bytes zs"] w by (simp add: word_bytes_append aus_def)
  moreover have aus: "aus = d @ replicate 32 0"
  proof -
    have "drop (ioff + length ws) ?z = replicate (32 - ioff - length ws) 0 @ replicate 32 0"
      using w by (simp add: replicate_add [symmetric])
    then show ?thesis using assms(1) w by (simp add: aus_def window_def)
  qed
  moreover have "copy_words (word_bytes (ws @ zs)) (2 * length ws) (32 + ioffg) (length zs) aus
      = Inr (take (32 + ioffg) aus @ zs @ drop (32 + ioffg + length zs) aus)"
    using copy_words_bytes [of "32 + ioffg" zs aus "word_bytes ws" "[]"] w assms(1)
    by (simp add: word_bytes_append aus window_def)
  moreover have "take (32 + ioffg) aus @ zs @ drop (32 + ioffg + length zs) aus = d @ g"
    using assms w unfolding aus by (simp add: window_def)
  ultimately show ?thesis by (simp add: CopyBytes_def)
qed

section \<open>Exact databases\<close>

definition bytes_at :: "bearoff_db \<Rightarrow> nat \<Rightarrow> u8 list \<Rightarrow> bool" where
  "bytes_at pbc start xs \<longleftrightarrow>
     start + length xs \<le> length (db_bytes pbc) \<and> take (length xs) (drop start (db_bytes pbc)) = xs \<and>
     length (db_bytes pbc) < 2 ^ 32"

lemma db_read_bytes:
  assumes "bytes_at pbc (40 + unat x) xs" "length xs = n"
  shows "db_read pbc x n n = Inr xs"
proof -
  have "unat (40 + x) = 40 + unat x"
    using assms by (intro unat_add_lem [THEN iffD1, THEN trans]) (simp_all add: bytes_at_def)
  then show ?thesis using assms by (simp add: db_read_def bytes_at_def ReadBearoffFile_def)
qed

text \<open>
  A database with gammons holds the 64 words \<open>aus\<close> at position \<open>k\<close>: uncompressed as they are, or
  compressed, as an index entry and the windows of the two distributions.
\<close>

definition stores_plain :: "bearoff_db \<Rightarrow> u32 \<Rightarrow> u16 list \<Rightarrow> bool" where
  "stores_plain pbc k aus \<longleftrightarrow> db_fCompressed pbc = 0 \<and> db_fGammon pbc \<noteq> 0 \<and> length aus = 64 \<and>
     128 * unat k < 2 ^ 32 \<and> bytes_at pbc (40 + 128 * unat k) (word_bytes aus)"

definition stores_packed :: "bearoff_db \<Rightarrow> u32 \<Rightarrow> u16 list \<Rightarrow> bool" where
  "stores_packed pbc k aus \<longleftrightarrow> db_fCompressed pbc \<noteq> 0 \<and> db_fGammon pbc \<noteq> 0 \<and> 8 * unat k < 2 ^ 32 \<and>
     (\<exists>d g ioff ws ioffg zs off n.
        aus = d @ g \<and> window d ioff ws \<and> window g ioffg zs \<and>
        Combination (unat (nPoints pbc) + unat (nChequers pbc)) (unat (nPoints pbc)) = Some n \<and>
        64 * unat n < 2 ^ 32 \<and> off \<le> 64 * n \<and> 8 * unat n + 2 * unat off < 2 ^ 32 \<and>
        bytes_at pbc (40 + 8 * unat k) (int_bytes off @ [of_nat (length ws), of_nat ioff, of_nat (length zs), of_nat ioffg]) \<and>
        bytes_at pbc (40 + (8 * unat n + 2 * unat off)) (word_bytes (ws @ zs)))"

lemma stores_packedI:
  assumes "db_fCompressed pbc \<noteq> 0" "db_fGammon pbc \<noteq> 0" "8 * unat k < 2 ^ 32" "window d ioff ws" "window g ioffg zs"
    "Combination (unat (nPoints pbc) + unat (nChequers pbc)) (unat (nPoints pbc)) = Some n"
    "64 * unat n < 2 ^ 32" "off \<le> 64 * n" "8 * unat n + 2 * unat off < 2 ^ 32"
    "bytes_at pbc (40 + 8 * unat k) (int_bytes off @ [of_nat (length ws), of_nat ioff, of_nat (length zs), of_nat ioffg])"
    "bytes_at pbc (40 + (8 * unat n + 2 * unat off)) (word_bytes (ws @ zs))"
  shows "stores_packed pbc k (d @ g)"
  unfolding stores_packed_def using assms by blast

lemma stores_plain_read:
  assumes "stores_plain pbc k aus"
  shows "GetDistUncompressed junk pbc k = Inr aus"
proof -
  have x: "unat (64 * k * 2) = 128 * unat k"
    using assms by (simp add: stores_plain_def unat_word_ariths)
  then have "db_read pbc (64 * k * 2) 128 128 = Inr (word_bytes aus)"
    using assms by (intro db_read_bytes) (simp_all add: stores_plain_def)
  moreover have "length aus = 64" using assms by (simp add: stores_plain_def)
  then have "CopyBytes (word_bytes (take 32 aus @ drop 32 aus)) (length (take 32 aus)) 0 (length (drop 32 aus)) 0
      = Inr (take 32 aus @ drop 32 aus)"
    by (intro CopyBytes_windows) (simp_all add: window_def)
  ultimately show ?thesis using assms by (simp add: GetDistUncompressed_def stores_plain_def Let_def)
qed

lemma stores_packed_read:
  assumes "stores_packed pbc k aus"
  shows "GetDistCompressed pbc k = Inr aus"
proof -
  obtain d g ioff ws ioffg zs off n where aus: "aus = d @ g" "window d ioff ws" "window g ioffg zs"
    and n: "Combination (unat (nPoints pbc) + unat (nChequers pbc)) (unat (nPoints pbc)) = Some n"
      "64 * unat n < 2 ^ 32" "off \<le> 64 * n" "8 * unat n + 2 * unat off < 2 ^ 32"
    and entry: "bytes_at pbc (40 + 8 * unat k) (int_bytes off @ [of_nat (length ws), of_nat ioff, of_nat (length zs), of_nat ioffg])"
    and data: "bytes_at pbc (40 + (8 * unat n + 2 * unat off)) (word_bytes (ws @ zs))"
    using assms unfolding stores_packed_def by blast
  have flags: "db_fGammon pbc \<noteq> 0" "8 * unat k < 2 ^ 32" using assms by (simp_all add: stores_packed_def)
  let ?e = "int_bytes off @ [of_nat (length ws), of_nat ioff, of_nat (length zs), of_nat ioffg]"
  have len: "length (int_bytes off) = 4" by (simp add: int_bytes_def)
  have k8: "unat (k * of_nat 8) = 8 * unat k" using flags(2) by (simp add: unat_word_ariths)
  have index: "db_read pbc (k * of_nat 8) 8 8 = Inr ?e"
    using entry len by (intro db_read_bytes) (simp_all only: k8, simp)
  have x: "unat (n * of_nat 8 + 2 * off) = 8 * unat n + 2 * unat off" using n(4) by (simp add: unat_word_ariths)
  have read: "db_read pbc (n * of_nat 8 + 2 * off) (2 * (length ws + length zs)) (2 * (length ws + length zs)) = Inr (word_bytes (ws @ zs))"
    using data by (intro db_read_bytes) (simp_all only: x, simp)
  have small: "length ws \<le> 32" "ioff \<le> 32" "length zs \<le> 32" "ioffg \<le> 32" using aus(2,3) by (simp_all add: window_def)
  then have u: "unat (of_nat (length ws) :: u8) = length ws" "unat (of_nat ioff :: u8) = ioff"
    "unat (of_nat (length zs) :: u8) = length zs" "unat (of_nat ioffg :: u8) = ioffg"
    by (simp_all add: unat_of_nat)
  have nth: "?e ! 0 = int_bytes off ! 0" "?e ! 1 = int_bytes off ! 1" "?e ! 2 = int_bytes off ! 2" "?e ! 3 = int_bytes off ! 3"
    "?e ! 4 = of_nat (length ws)" "?e ! 5 = of_nat ioff" "?e ! 6 = of_nat (length zs)" "?e ! 7 = of_nat ioffg"
    by (simp_all add: nth_append len)
  show ?thesis
    using flags n(1,3) small aus(1) CopyBytes_windows [OF aus(2,3)]
    unfolding GetDistCompressed_def Let_def n(1) in_range_simps db_bind_simps if_P [OF flags(1)] index nth u MakeInt_bytes
    using read by (simp add: not_less distrib_left del: of_nat_numeral)
qed


text \<open>The two positions of one chequer on one point, compressed: borne off, and off with the next roll.\<close>

definition packed_db :: bearoff_db where
  "packed_db = \<lparr>bt = BEAROFF_ONESIDED, nPoints = 1, nChequers = 1, db_fCompressed = 1, db_fGammon = 1, db_fND = 0,
     db_fHeuristic = False, db_fCubeful = 0, db_in_memory = True,
     db_bytes = replicate 40 0 @ [0, 0, 0, 0, 1, 0, 1, 0, 2, 0, 0, 0, 1, 1, 1, 1, 255, 255, 255, 255, 255, 255, 255, 255]\<rparr>"

lemma packed_db_stores:
  "stores_packed packed_db 1 ((0 # 65535 # replicate 30 0) @ (0 # 65535 # replicate 30 0))"
proof -
  have "window (0 # 65535 # replicate 30 0) 1 [65535]" by (simp add: window_def)
  moreover have "Combination (1 + 1) 1 = Some 2" by (simp add: Combination_binomial)
  moreover have "bytes_at packed_db 48 (int_bytes 2 @ [1, 1, 1, 1])"
    by (simp add: bytes_at_def packed_db_def int_bytes_def upt_rec)
  moreover have "bytes_at packed_db 60 (word_bytes ([65535] @ [65535]))"
    by (simp add: bytes_at_def packed_db_def)
  ultimately show ?thesis
    by (intro stores_packedI [where ioff = 1 and ioffg = 1 and ws = "[65535]" and zs = "[65535]" and off = 2 and n = 2])
      (simp_all add: packed_db_def)
qed


text \<open>
  The checks of a compressed entry do not bound the end of a window: an entry of a damaged file
  that passes them writes behind the array.
\<close>

definition damaged_db :: bearoff_db where
  "damaged_db = \<lparr>bt = BEAROFF_ONESIDED, nPoints = 1, nChequers = 1, db_fCompressed = 1, db_fGammon = 1, db_fND = 0,
     db_fHeuristic = False, db_fCubeful = 0, db_in_memory = False, db_bytes = replicate 46 0 @ [1, 32]\<rparr>"

lemma CopyBytes_overruns: "GetDistCompressed damaged_db 0 = Inl Outside"
proof -
  have "Combination (1 + 1) 1 = Some 2" by (simp add: Combination_binomial)
  moreover have "ReadBearoffFile damaged_db 40 8 = replicate 6 0 @ [1, 32]"
    by (simp add: ReadBearoffFile_def damaged_db_def)
  moreover have "CopyBytes ac 0 0 1 32 = Inl Outside" for ac
    by (simp add: CopyBytes_def eval_nat_numeral)
  ultimately show ?thesis
    by (simp add: GetDistCompressed_def Let_def db_read_def damaged_db_def MakeInt_def nth_append)
qed

section \<open>Two-sided databases\<close>

lemma le16_range: "real (unat (le16 pc i)) / (65535 / 2) - 1 \<in> {- 1..1}"
proof -
  have "real n / (65535 / 2) - 1 \<in> {- 1..1}" if "n < 2 ^ LENGTH(16)" for n using that by simp
  then show ?thesis using unsigned_less by blast
qed

text \<open>A two-sided database with a record for every pair of positions.\<close>

definition complete_two_sided :: "bearoff_db \<Rightarrow> bool" where
  "complete_two_sided pbc \<longleftrightarrow>
     bt pbc = BEAROFF_TWOSIDED \<and> bearoff_size (unat (nPoints pbc)) (unat (nChequers pbc)) \<and>
     (let N = (unat (nChequers pbc) + unat (nPoints pbc)) choose unat (nPoints pbc);
          k = (if db_fCubeful pbc \<noteq> 0 then 4 else 1)
      in length (db_bytes pbc) = 40 + 2 * k * N * N \<and> 40 + 2 * k * N * N < 2 ^ 32)"

lemma two_sided_index_bound:
  assumes b: "wf_board b" "chequers (fst b) \<le> 15" "chequers (snd b) \<le> 15"
    and db: "isBearoff (Some (db_context pbc)) b" "bearoff_size (unat (nPoints pbc)) (unat (nChequers pbc))"
  defines "N \<equiv> (unat (nChequers pbc) + unat (nPoints pbc)) choose unat (nPoints pbc)"
  assumes N: "N * N < 2 ^ 32"
  shows "\<exists>i. two_sided_index (db_context pbc) b = Some i \<and> unat i < N * N"
proof -
  let ?n = "unat (nPoints pbc)" and ?c = "unat (nChequers pbc)"
  have ctx: "nPoints (db_context pbc) = nPoints pbc" "nChequers (db_context pbc) = nChequers pbc"
    by (simp_all add: bearoffcontext.truncate_def)
  have entry: "\<exists>k. PositionBearoff s ?n ?c = Some k \<and> unat k < N" if "s = fst b \<or> s = snd b" for s
    using isBearoff_record [OF b(1) _ _ db(1) _ that] b(2,3) db(2) by (simp add: ctx N_def)
  obtain us them where k: "PositionBearoff (snd b) ?n ?c = Some us" "unat us < N" "PositionBearoff (fst b) ?n ?c = Some them" "unat them < N"
    using entry [of "snd b"] entry [of "fst b"] by auto
  have "Combination (?n + ?c) ?n = Some (of_nat N)"
    using db(2) by (simp add: Combination_binomial bearoff_size_def N_def add.commute)
  moreover have "unat (us * of_nat N + them) < N * N"
  proof -
    have "N \<noteq> 0" using k(2) by simp
    then have "N \<le> N * N" by simp
    with N have "N < 2 ^ 32" by (rule le_less_trans [rotated])
    then have u: "unat (of_nat N :: u32) = N" by (rule unat_of_nat_u32)
    have "unat us * N + unat them < (unat us + 1) * N" using k(4) by simp
    also have "\<dots> \<le> N * N" using k(2) by (intro mult_le_mono1) simp
    finally have lt: "unat us * N + unat them < N * N" .
    then have "unat (us * of_nat N + them) = unat us * N + unat them"
      using N u by (simp add: unat_word_ariths)
    with lt show ?thesis by simp
  qed
  ultimately show ?thesis using k by (simp add: two_sided_index_def ctx Let_def)
qed

text \<open>A position that a complete two-sided database accepts is evaluated from a record inside the file, and
  the outputs are consistent: a winning chance between 0 and 1, and no gammons.\<close>

lemma two_sided_evaluates:
  assumes "wf_board b" "chequers (fst b) \<le> 15" "chequers (snd b) \<le> 15"
    and "complete_two_sided pbc" "isBearoff (Some (db_context pbc)) b"
  shows "\<exists>ar. BearoffEvalTwoSided pbc b = Inr ar \<and> length ar = 5 \<and> consistent_outputs ar"
proof -
  let ?N = "(unat (nChequers pbc) + unat (nPoints pbc)) choose unat (nPoints pbc)"
  define k where "k = (if db_fCubeful pbc \<noteq> 0 then 4 else 1 :: nat)"
  have k: "1 \<le> k" "k \<le> 4" by (simp_all add: k_def)
  have size: "bearoff_size (unat (nPoints pbc)) (unat (nChequers pbc))" "length (db_bytes pbc) = 40 + 2 * k * ?N * ?N"
    "40 + 2 * k * ?N * ?N < 2 ^ 32" using assms(4) by (simp_all add: complete_two_sided_def k_def Let_def)
  have "?N * ?N \<le> 2 * k * ?N * ?N" using k(1) by simp
  then have "?N * ?N < 2 ^ 32" using size(3) by linarith
  from two_sided_index_bound [OF assms(1-3,5) size(1) this]
  obtain i where i: "two_sided_index (db_context pbc) b = Some i" "unat i < ?N * ?N" by blast
  have "2 * k * (unat i + 1) \<le> 2 * k * (?N * ?N)" using i(2) by (intro mult_le_mono2) simp
  then have bound: "2 * k * unat i + 2 * k \<le> 2 * k * ?N * ?N" by (simp add: algebra_simps)
  have u: "unat (2 * i * of_nat k) = 2 * k * unat i"
  proof -
    have "2 * i * of_nat k = of_nat (2 * k * unat i)" by simp
    moreover have "2 * k * unat i < 2 ^ 32" using bound size(3) by linarith
    ultimately show ?thesis by (simp only: unat_of_nat_u32)
  qed
  have "bytes_at pbc (40 + unat (2 * i * of_nat k)) (take (2 * k) (drop (40 + 2 * k * unat i) (db_bytes pbc)))"
    using bound size(2,3) unfolding u bytes_at_def by (simp add: min_def)
  then have "db_read pbc (2 * i * of_nat k) (2 * k) (2 * k) = Inr (take (2 * k) (drop (40 + 2 * k * unat i) (db_bytes pbc)))"
    by (rule db_read_bytes) (use bound size(2) in simp)
  then obtain pc where "db_read pbc (2 * i * of_nat k) (2 * k) (2 * k) = Inr pc" by blast
  moreover have "[0..<k] = 0 # [1..<k]" using k(1) by (simp add: upt_conv_Cons)
  ultimately have "\<exists>aus ar. ReadTwoSidedBearoff pbc i = Inr (ar, aus) \<and> ar ! 0 \<in> {- 1..1}"
    unfolding ReadTwoSidedBearoff_def k_def [symmetric] using le16_range [of pc 0] by (auto simp: Let_def)
  then obtain aus ar where r: "ReadTwoSidedBearoff pbc i = Inr (ar, aus)" "- 1 \<le> ar ! 0" "ar ! 0 \<le> 1" by auto
  have five: "(replicate 5 0)[OUTPUT_WIN := x] = [x, 0, 0, 0, 0]" for x :: real by (simp add: outputs eval_nat_numeral)
  show ?thesis using i(1) r by (simp add: BearoffEvalTwoSided_def five consistent_outputs_def outputs)
qed

section \<open>One-sided databases\<close>

text \<open>
  \<open>fnd\<close> divides by the exponential instead of multiplying with it, so the distribution it gives
  is least at its mean and grows without bound away from it.
\<close>

lemma fnd_least_at_mean:
  assumes "sigma > 1 / 10 ^ 7" "x \<noteq> mu"
  shows "fnd mu mu sigma < fnd x mu sigma"
proof -
  let ?t = "(x - mu) / sigma"
  have s: "0 < sigma * sqrt (2 * pi)" using assms(1) by simp
  have "?t \<noteq> 0" using assms by simp
  then have "0 < ?t * ?t" by (metis mult_pos_pos mult_neg_neg linorder_neqE_linordered_idom)
  then have "exp (- ?t * ?t / 2) < 1" by simp
  then have "sigma * sqrt (2 * pi) * exp (- ?t * ?t / 2) < sigma * sqrt (2 * pi) * 1" using s by (intro mult_strict_left_mono)
  then have "1 / (sigma * sqrt (2 * pi) * 1) < 1 / (sigma * sqrt (2 * pi) * exp (- ?t * ?t / 2))"
    using s by (intro divide_strict_left_mono) simp_all
  then show ?thesis using assms(1) by (simp add: fnd_def Let_def)
qed

end
