(* ===== verification/Evaluate.thy ===== *)
theory Evaluate
  imports Move_Search Bearoff_Db
begin

text \<open>
  Evaluating a position at any number of plies (eval.c): cubeless (\<open>EvaluatePositionFull\<close>,
  \<open>EvaluatePosition\<close>), with the cube (\<open>EvaluatePositionCubeful4\<close>, \<open>EvaluatePositionCubeful3\<close>) and
  the functions on top of them (\<open>GeneralEvaluationE\<close>, \<open>GeneralCubeDecisionE\<close>).  A node at
  \<open>n + 1\<close> plies plays every roll with the best move at 0 plies and evaluates the positions
  reached at \<open>n\<close> plies; the recursion on the plies is the program's.
\<close>

section \<open>The rolls\<close>

definition rolls :: "(nat \<times> nat) list" where
  "rolls = concat (map (\<lambda>n0. map (Pair n0) [1..<n0 + 1]) [1..<7])"

definition weight_of_roll :: "nat \<times> nat \<Rightarrow> real" where
  "weight_of_roll n = (if fst n = snd n then 1 else 2)"

definition add_weighted :: "real \<Rightarrow> real list \<Rightarrow> real list \<Rightarrow> real list" where
  "add_weighted w xs ys = map2 (\<lambda>x y. x + w * y) xs ys"

text \<open>
  The board after the roll: the move the search prefers, and the board as it is when there is
  none or when the search fails, which is not looked at.
\<close>

definition use_prune :: "evalcontext \<Rightarrow> bgvariation \<Rightarrow> bool" where
  "use_prune pec v \<longleftrightarrow> ec_fUsePrune pec \<noteq> 0 \<and> ec_rNoise pec = 0 \<and> v = VARIATION_STANDARD"

definition best_reply ::
  "search_engine \<Rightarrow> evaluator \<Rightarrow> evalcontext \<Rightarrow> cubeinfo \<Rightarrow> TanBoard \<Rightarrow> nat \<times> nat \<Rightarrow> TanBoard eval" where
  "best_reply E ev pec pci b n =
     (if use_prune pec (ci_bgv pci) then FindBestMoveInEval E ev (fst n) (snd n) b b pci pec
      else
        and_then (attempt (FindBestMovePlied E ev (fst n) (snd n) b pci pec 0 defaultFilters)) (\<lambda>r.
          gives (case r of Some (an, b', c) \<Rightarrow> b' | None \<Rightarrow> b)))"

definition opponent_cube :: "search_engine \<Rightarrow> cubeinfo \<Rightarrow> cubeinfo option" where
  "opponent_cube E pci =
     map_option snd
       (SetCubeInfo (ci_nCube pci) (ci_fCubeOwner pci) (cnot (ci_fMove pci)) (ci_nMatchTo pci)
          (ci_anScore pci) (ci_fCrawford pci) (ci_fJacoby pci) (ci_fBeavers pci) (ci_bgv pci)
          (aafMET E) (aafMETPostCrawford E))"

section \<open>Without the cube\<close>

text \<open>\<open>deeper\<close> evaluates at one ply less.  The flip of the outputs is \<open>InvertEvaluation\<close>.\<close>

definition one_roll ::
  "search_engine \<Rightarrow> evaluator \<Rightarrow> (cubeinfo \<Rightarrow> TanBoard \<Rightarrow> real list eval) \<Rightarrow> evalcontext \<Rightarrow> cubeinfo \<Rightarrow> TanBoard \<Rightarrow>
   nat \<times> nat \<Rightarrow> real list \<Rightarrow> real list eval" where
  "one_roll E ev deeper pec pci b n arOutput =
     and_then (best_reply E ev pec pci b n) (\<lambda>anBoardNew.
       and_then (returning (opponent_cube E pci)) (\<lambda>ciOpp.
         and_then (deeper ciOpp (SwapSides anBoardNew)) (\<lambda>arVariationOutput.
           gives (add_weighted (weight_of_roll n) arOutput arVariationOutput))))"

definition average_rolls ::
  "search_engine \<Rightarrow> evaluator \<Rightarrow> (cubeinfo \<Rightarrow> TanBoard \<Rightarrow> real list eval) \<Rightarrow> evalcontext \<Rightarrow> cubeinfo \<Rightarrow> TanBoard \<Rightarrow>
   real list eval" where
  "average_rolls E ev deeper pec pci b =
     and_then (each (one_roll E ev deeper pec pci b) rolls (replicate NUM_OUTPUTS 0)) (\<lambda>arOutput.
       gives (InvertEvaluation (map (\<lambda>r. r / 36) arOutput)))"

definition class_of :: "search_engine \<Rightarrow> cubeinfo \<Rightarrow> TanBoard \<Rightarrow> positionclass" where
  "class_of E pci b = ClassifyPosition (en_dbs E) b (ci_bgv pci)"

definition leaf_evaluation :: "search_engine \<Rightarrow> evalcontext \<Rightarrow> cubeinfo \<Rightarrow> TanBoard \<Rightarrow> real list eval" where
  "leaf_evaluation E pec pci b = static_evaluation E pec (ci_bgv pci) b (class_of E pci b)"

text \<open>\<open>EvaluatePosition\<close> with the default context, which is at 0 plies.\<close>

definition basic_evaluation :: "search_engine \<Rightarrow> cubeinfo \<Rightarrow> TanBoard \<Rightarrow> real list eval" where
  "basic_evaluation E pci b = EvaluatePositionCache E ecBasic 0 pci b (leaf_evaluation E ecBasic pci b)"

section \<open>The cube at a leaf\<close>

definition hyper_index :: "positionclass \<Rightarrow> nat" where
  "hyper_index pc = class_number pc - class_number CLASS_HYPERGAMMON1"

definition is_hyper :: "positionclass \<Rightarrow> bool" where
  "is_hyper pc \<longleftrightarrow> pc = CLASS_HYPERGAMMON1 \<or> pc = CLASS_HYPERGAMMON2 \<or> pc = CLASS_HYPERGAMMON3"

definition PerfectCubeful :: "search_engine \<Rightarrow> positionclass \<Rightarrow> bearoffcontext \<Rightarrow> TanBoard \<Rightarrow> real list eval" where
  "PerfectCubeful E pc pbc b =
     and_then (returning (two_sided_index pbc b)) (\<lambda>iPos. outcome (read_cubeful E pc iPos))"

text \<open>The assertions stop the program.\<close>

definition EvaluatePerfectCubeful :: "search_engine \<Rightarrow> TanBoard \<Rightarrow> bgvariation \<Rightarrow> real list eval" where
  "EvaluatePerfectCubeful E b v =
     (case ClassifyPosition (en_dbs E) b v of
        CLASS_BEAROFF2 \<Rightarrow> and_then (returning (pbc2 (en_dbs E))) (\<lambda>pbc. PerfectCubeful E CLASS_BEAROFF2 pbc b)
      | CLASS_BEAROFF_TS \<Rightarrow> and_then (returning (pbcTS (en_dbs E))) (\<lambda>pbc. PerfectCubeful E CLASS_BEAROFF_TS pbc b)
      | _ \<Rightarrow> returning None)"

text \<open>The cubeless outputs of a leaf and, where a database has them, the exact equities.\<close>

definition cubeful_leaf_outputs ::
  "search_engine \<Rightarrow> evalcontext \<Rightarrow> cubeinfo \<Rightarrow> TanBoard \<Rightarrow> (real list \<times> real list) eval" where
  "cubeful_leaf_outputs E pec pciMove b =
     (let pc = class_of E pciMove b in
      if is_hyper pc then
        (case apbcHyper E (hyper_index pc) of
           None \<Rightarrow> failed
         | Some pbc \<Rightarrow>
             and_then (returning (two_sided_index pbc b)) (\<lambda>iPos. outcome (read_hyper E (hyper_index pc) iPos)))
      else if pc > CLASS_OVER \<and> pc \<le> CLASS_PERFECT then
        and_then (EvaluatePerfectCubeful E b (ci_bgv pciMove)) (\<lambda>arEquity.
          gives ((arEquity ! 0 + 1) / 2 # replicate 4 0, arEquity))
      else
        and_then (basic_evaluation E pciMove b) (\<lambda>arOutput.
          and_then (checked E pec b pc (add_noise E pec b pc arOutput)) (\<lambda>arOutput. gives (arOutput, []))))"

definition money_cube :: "cubeinfo \<Rightarrow> cubeinfo" where
  "money_cube c = snd (SetCubeInfoMoney 1 (ci_fCubeOwner c) (ci_fMove c) 0 0 (ci_bgv c))"

text \<open>The cube efficiency that explains the exact equity for money; a difference below \<open>0.0001\<close> is none.\<close>

definition fitted_efficiency :: "real \<Rightarrow> real \<Rightarrow> real \<Rightarrow> real \<Rightarrow> real" where
  "fitted_efficiency rCl rCf rCfMoney rDefault =
     (if \<bar>rCl - rCf\<bar> > 1 / 10 ^ 4 then (rCfMoney - rCl) / (rCf - rCl) else rDefault)"

definition cube_equity ::
  "search_engine \<Rightarrow> positionclass \<Rightarrow> real list \<Rightarrow> real list \<Rightarrow> real \<Rightarrow> cubeinfo \<Rightarrow> real option" where
  "cube_equity E pc arOutput arEquity X c =
     (if ci_nMatchTo c = 0 then
        Some (if is_hyper pc then CFHYPER arEquity c
              else if pc = CLASS_BEAROFF2 \<or> pc = CLASS_BEAROFF_TS then CFMONEY arEquity c
              else Cl2CfMoney arOutput c X)
      else
        let ciMoney = money_cube c; rCf = Cl2CfMoney arOutput ciMoney 1 in
        Cl2CfMatch arOutput c
          (if is_hyper pc then
             fitted_efficiency (Utility arOutput ciMoney) rCf (CFHYPER arEquity ciMoney) 1
           else if pc = CLASS_BEAROFF2 \<or> pc = CLASS_BEAROFF_TS then
             (let r = fitted_efficiency (arEquity ! 0) rCf (CFMONEY arEquity ciMoney) X;
                  r = (if r < 0 then 0 else r) in
              if r > X then X else r)
           else X)
          (aafMET E) (aafMETPostCrawford E))"

text \<open>The entry of a cube position that is not available is never read; it stands as 0 here.\<close>

fun cube_equities ::
  "search_engine \<Rightarrow> positionclass \<Rightarrow> real list \<Rightarrow> real list \<Rightarrow> real \<Rightarrow> cubeinfo list \<Rightarrow> real list option" where
  "cube_equities E pc ar arEquity X [] = Some []"
| "cube_equities E pc ar arEquity X (c # cs) =
     (case (if ci_nCube c > 0 then cube_equity E pc ar arEquity X c else Some 0) of
        None \<Rightarrow> None
      | Some r \<Rightarrow> map_option ((#) r) (cube_equities E pc ar arEquity X cs))"

definition next_cubes :: "search_engine \<Rightarrow> cubeinfo list \<Rightarrow> bool \<Rightarrow> bool \<Rightarrow> cubeinfo list option" where
  "next_cubes E cs fTop fInvert =
     MakeCubePos cs fTop (replicate (2 * length cs) zero_cubeinfo) fInvert (aafMET E) (aafMETPostCrawford E)"

definition choose_cubes :: "search_engine \<Rightarrow> nat \<Rightarrow> real list \<Rightarrow> cubeinfo list \<Rightarrow> real list" where
  "choose_cubes E cci arCf aci = GetECF3 cci arCf aci (aafMET E) (aafMETPostCrawford E)"

definition cubeful_leaf ::
  "search_engine \<Rightarrow> evalcontext \<Rightarrow> cubeinfo list \<Rightarrow> cubeinfo \<Rightarrow> bool \<Rightarrow> TanBoard \<Rightarrow> (real list \<times> real list) eval" where
  "cubeful_leaf E pec cs pciMove fTop b =
     (let pc = class_of E pciMove b in
      and_then (cubeful_leaf_outputs E pec pciMove b) (\<lambda>(arOutput, arEquity).
        and_then (returning (next_cubes E cs fTop False)) (\<lambda>aci.
          and_then (returning (cube_equities E pc arOutput arEquity (EvalEfficiency (cube_efficiencies E) b pc) aci)) (\<lambda>arCf.
            gives (arOutput, choose_cubes E (length cs) arCf aci)))))"

section \<open>The cache of cubeful evaluations\<close>

text \<open>
  \<open>EvaluatePositionCubeful3\<close> around \<open>full\<close>, the call of \<open>EvaluatePositionCubeful4\<close>: every
  available cube position has an entry of its own, and all of them must be there.
\<close>

fun lookup_cubes ::
  "evalcontext \<Rightarrow> nat \<Rightarrow> positionkey \<Rightarrow> cubeinfo list \<Rightarrow> real list \<times> real list \<Rightarrow> (real list \<times> real list) option eval" where
  "lookup_cubes pec plies key [] r = gives (Some r)"
| "lookup_cubes pec plies key (c # cs) (ar, cf) =
     (if ci_nCube c < 0 then lookup_cubes pec plies key cs (ar, cf @ [0])
      else
        and_then (returning (EvalKey (ec_fCubeful pec) (ec_fUsePrune pec) (int plies) c True)) (\<lambda>ctx s.
          case CacheLookup (cEval s) key ctx of
            (l, ca, Some (ar, r)) \<Rightarrow> lookup_cubes pec plies key cs (ar, cf @ [r]) (s\<lparr>cEval := ca\<rparr>)
          | (l, ca, None) \<Rightarrow> gives None (s\<lparr>cEval := ca\<rparr>)))"

fun add_cubes ::
  "evalcontext \<Rightarrow> nat \<Rightarrow> positionkey \<Rightarrow> real list \<Rightarrow> (cubeinfo \<times> real) list \<Rightarrow> unit eval" where
  "add_cubes pec plies key ar [] = gives ()"
| "add_cubes pec plies key ar ((c, r) # cs) =
     (if ci_nCube c < 0 then add_cubes pec plies key ar cs
      else
        and_then (returning (EvalKey (ec_fCubeful pec) (ec_fUsePrune pec) (int plies) c True)) (\<lambda>ctx s.
          add_cubes pec plies key ar cs
            (s\<lparr>cEval := CacheAdd (cEval s) \<lparr>nd_key = key, nEvalContext = ctx, nd_ar = take 5 ar @ [r]\<rparr>
                 (GetHashKey (hashMask (cEval s)) key ctx)\<rparr>)))"

definition EvaluatePositionCubeful3 ::
  "search_engine \<Rightarrow> evalcontext \<Rightarrow> nat \<Rightarrow> cubeinfo list \<Rightarrow> bool \<Rightarrow> TanBoard \<Rightarrow> (real list \<times> real list) eval \<Rightarrow>
   (real list \<times> real list) eval" where
  "EvaluatePositionCubeful3 E pec plies cs fTop b full =
     (if cCache E = 0 \<or> ec_rNoise pec \<noteq> 0 \<or> fTop then full
      else
        and_then (lookup_cubes pec plies (PositionKey b) cs (replicate NUM_OUTPUTS 0, [])) (\<lambda>r.
          case r of
            Some found \<Rightarrow> gives found
          | None \<Rightarrow>
              and_then full (\<lambda>(arOutput, arCubeful).
                and_then (add_cubes pec plies (PositionKey b) arOutput (zip cs arCubeful)) (\<lambda>_.
                  gives (arOutput, arCubeful)))))"

section \<open>The recursion\<close>

text \<open>\<open>GeneralEvaluationEPlied\<close> with its two evaluations, cubeless and cubeful, as arguments.\<close>

definition general_evaluation ::
  "evalcontext \<Rightarrow> cubeinfo \<Rightarrow> real list eval \<Rightarrow> (real list \<times> real list) eval \<Rightarrow> real list eval" where
  "general_evaluation pec pci cubeless cubeful =
     (if ec_fCubeful pec \<noteq> 0 then
        and_then cubeful (\<lambda>(arOutput, arCubeful). gives (arOutput @ [UtilityME arOutput pci, arCubeful ! 0]))
      else and_then cubeless (\<lambda>arOutput. gives (arOutput @ [UtilityME arOutput pci, 0])))"

text \<open>The evaluation at 0 plies that the searches within an evaluation use.\<close>

definition shallow :: "search_engine \<Rightarrow> evalcontext \<Rightarrow> evaluator" where
  "shallow E pec n pci b =
     general_evaluation pec pci
       (EvaluatePositionCache E pec 0 pci b (leaf_evaluation E pec pci b))
       (EvaluatePositionCubeful3 E pec 0 [pci] False b (cubeful_leaf E pec [pci] pci False b))"

primrec EvaluatePositionFull :: "search_engine \<Rightarrow> evalcontext \<Rightarrow> nat \<Rightarrow> cubeinfo \<Rightarrow> TanBoard \<Rightarrow> real list eval" where
  "EvaluatePositionFull E pec 0 = leaf_evaluation E pec"
| "EvaluatePositionFull E pec (Suc n) =
     (\<lambda>pci b.
       if class_of E pci b > CLASS_PERFECT then
         average_rolls E (shallow E pec)
           (\<lambda>ci b. EvaluatePositionCache E pec n ci b (EvaluatePositionFull E pec n ci b)) pec pci b
       else leaf_evaluation E pec pci b)"

definition evaluate :: "search_engine \<Rightarrow> evalcontext \<Rightarrow> nat \<Rightarrow> cubeinfo \<Rightarrow> TanBoard \<Rightarrow> real list eval" where
  "evaluate E pec n pci b = EvaluatePositionCache E pec n pci b (EvaluatePositionFull E pec n pci b)"

definition EvaluatePosition :: "search_engine \<Rightarrow> TanBoard \<Rightarrow> cubeinfo \<Rightarrow> evalcontext option \<Rightarrow> real list eval" where
  "EvaluatePosition E b pci pec =
     (case pec of None \<Rightarrow> evaluate E ecBasic 0 pci b | Some pec \<Rightarrow> evaluate E pec (ec_nPlies pec) pci b)"

text \<open>
  A node of the cubeful evaluation.  The equities of the positions after a double are for the
  opponent, so \<open>fMove\<close> was inverted in \<open>aci\<close> and is turned back for the choice.
\<close>

definition cubeful_roll ::
  "search_engine \<Rightarrow> evaluator \<Rightarrow> (cubeinfo \<Rightarrow> TanBoard \<Rightarrow> (real list \<times> real list) eval) \<Rightarrow> evalcontext \<Rightarrow> cubeinfo \<Rightarrow>
   TanBoard \<Rightarrow> nat \<times> nat \<Rightarrow> real list \<times> real list \<Rightarrow> (real list \<times> real list) eval" where
  "cubeful_roll E ev deeper pec pciMove b n acc =
     and_then (best_reply E ev pec pciMove b n) (\<lambda>anBoardNew.
       and_then (returning (opponent_cube E pciMove)) (\<lambda>ciMoveOpp.
         and_then (deeper ciMoveOpp (SwapSides anBoardNew)) (\<lambda>(ar, arCfTemp).
           gives (add_weighted (weight_of_roll n) (fst acc) ar, add_weighted (weight_of_roll n) (snd acc) arCfTemp))))"

definition cubeful_node ::
  "search_engine \<Rightarrow> evaluator \<Rightarrow> (cubeinfo list \<Rightarrow> cubeinfo \<Rightarrow> TanBoard \<Rightarrow> (real list \<times> real list) eval) \<Rightarrow>
   evalcontext \<Rightarrow> cubeinfo list \<Rightarrow> cubeinfo \<Rightarrow> bool \<Rightarrow> TanBoard \<Rightarrow> (real list \<times> real list) eval" where
  "cubeful_node E ev deeper pec cs pciMove fTop b =
     and_then (returning (next_cubes E cs fTop True)) (\<lambda>aci.
       and_then
         (each (cubeful_roll E ev (deeper aci) pec pciMove b) rolls
            (replicate NUM_OUTPUTS 0, replicate (2 * length cs) 0))
         (\<lambda>(arOutput, arCf).
           let arCf = map (\<lambda>r. if ci_nMatchTo pciMove \<noteq> 0 then 1 - r / 36 else - r / 36) arCf;
               aci = map (\<lambda>c. c\<lparr>ci_fMove := cnot (ci_fMove c)\<rparr>) aci
           in gives (InvertEvaluation (map (\<lambda>r. r / 36) arOutput), choose_cubes E (length cs) arCf aci)))"

primrec EvaluatePositionCubeful4 ::
  "search_engine \<Rightarrow> evalcontext \<Rightarrow> nat \<Rightarrow> cubeinfo list \<Rightarrow> cubeinfo \<Rightarrow> bool \<Rightarrow> TanBoard \<Rightarrow> (real list \<times> real list) eval" where
  "EvaluatePositionCubeful4 E pec 0 = cubeful_leaf E pec"
| "EvaluatePositionCubeful4 E pec (Suc n) =
     (\<lambda>cs pciMove fTop b.
       let pc = class_of E pciMove b in
       if pc > CLASS_OVER \<and> \<not> (pc \<le> CLASS_PERFECT \<and> ci_nMatchTo pciMove = 0) then
         cubeful_node E (shallow E pec)
           (\<lambda>aci ci b. EvaluatePositionCubeful3 E pec n aci False b (EvaluatePositionCubeful4 E pec n aci ci False b))
           pec cs pciMove fTop b
       else cubeful_leaf E pec cs pciMove fTop b)"

definition evaluate_cubeful ::
  "search_engine \<Rightarrow> evalcontext \<Rightarrow> nat \<Rightarrow> cubeinfo list \<Rightarrow> cubeinfo \<Rightarrow> bool \<Rightarrow> TanBoard \<Rightarrow> (real list \<times> real list) eval" where
  "evaluate_cubeful E pec n cs pciMove fTop b =
     EvaluatePositionCubeful3 E pec n cs fTop b (EvaluatePositionCubeful4 E pec n cs pciMove fTop b)"

definition GeneralEvaluationEPlied :: "search_engine \<Rightarrow> evalcontext \<Rightarrow> evaluator" where
  "GeneralEvaluationEPlied E pec n pci b =
     general_evaluation pec pci (evaluate E pec n pci b) (evaluate_cubeful E pec n [pci] pci False b)"

definition GeneralEvaluationE :: "search_engine \<Rightarrow> TanBoard \<Rightarrow> cubeinfo \<Rightarrow> evalcontext \<Rightarrow> real list eval" where
  "GeneralEvaluationE E b pci pec = GeneralEvaluationEPlied E pec (ec_nPlies pec) pci b"

definition GeneralCubeDecisionE ::
  "search_engine \<Rightarrow> TanBoard \<Rightarrow> cubeinfo \<Rightarrow> evalcontext \<Rightarrow> (real list \<times> real list) eval" where
  "GeneralCubeDecisionE E b pci pec =
     (let doubled = pci\<lparr>ci_fCubeOwner := cnot (ci_fMove pci), ci_nCube := ci_nCube pci * 2\<rparr> in
      and_then (evaluate_cubeful E pec (ec_nPlies pec) [pci, doubled] pci True b) (\<lambda>(arOutput, arCubeful).
        let rTake = (if ci_nMatchTo pci = 0 then arCubeful ! 1 * 2 else arCubeful ! 1) in
        gives (arOutput @ [UtilityME arOutput pci, arCubeful ! 0], arOutput @ [UtilityME arOutput doubled, rTake])))"

lemma GeneralEvaluationEPlied_shallow: "GeneralEvaluationEPlied E pec 0 = shallow E pec m"
  by (simp add: fun_eq_iff GeneralEvaluationEPlied_def shallow_def evaluate_def evaluate_cubeful_def)

end
