(* ===== verification/Move_Choice.thy ===== *)
theory Move_Choice
  imports Move_Search
begin

text \<open>
  What the searches choose: the pruning keeps the moves the small networks like best, and the
  search with filters keeps every move of the list and puts the best one first.
\<close>

section \<open>Pruning\<close>

text \<open>
  After \<open>n\<close> moves \<open>bmovesi\<close> has the least ten scores of them, and the greatest of these first.
\<close>

definition keeps_lowest :: "(nat \<Rightarrow> real) \<Rightarrow> nat \<Rightarrow> nat list \<Rightarrow> bool" where
  "keeps_lowest score n bm \<longleftrightarrow>
     length bm = min n PRUNE_MOVES \<and> distinct bm \<and> set bm \<subseteq> {..<n} \<and>
     (\<forall>k\<in>set bm. score k \<le> score (bm ! 0)) \<and>
     (\<forall>k\<in>set bm. \<forall>j<n. j \<notin> set bm \<longrightarrow> score k \<le> score j)"

lemma keeps_lowest_cong:
  assumes "\<And>k. k < n \<Longrightarrow> score k = score' k" "keeps_lowest score n bm"
  shows "keeps_lowest score' n bm"
proof (cases "bm = []")
  case False
  then have "bm ! 0 \<in> set bm" by simp
  with assms show ?thesis unfolding keeps_lowest_def by (auto simp: subset_iff)
qed (use assms in \<open>auto simp: keeps_lowest_def\<close>)

text \<open>The scan for the greatest score.\<close>

lemma fold_greatest:
  fixes f :: "nat \<Rightarrow> real"
  shows "fold (\<lambda>k m. if f k > f m then k else m) xs m \<in> insert m (set xs) \<and>
    (\<forall>k\<in>insert m (set xs). f k \<le> f (fold (\<lambda>k m. if f k > f m then k else m) xs m))"
proof (induction xs arbitrary: m)
  case (Cons x xs)
  define m' where "m' = (if f x > f m then x else m)"
  have "m' \<in> {m, x}" "f m \<le> f m'" "f x \<le> f m'" by (auto simp: m'_def)
  with Cons [of m'] show ?case by (auto simp flip: m'_def)
qed simp

lemma keeps_lowest_first:
  assumes "keeps_lowest score n bm" "n < PRUNE_MOVES"
  shows "keeps_lowest score (Suc n) (keep_move score n bm)"
proof -
  have len: "length bm = n" and bm: "distinct bm" "set bm \<subseteq> {..<n}" "\<forall>k\<in>set bm. score k \<le> score (bm ! 0)"
    using assms by (auto simp: keeps_lowest_def)
  then have "set bm = {..<n}" by (intro card_subset_eq) (simp_all add: distinct_card)
  let ?b = "bm @ [n]"
  have b: "length ?b = Suc n" "distinct ?b" "set ?b = {..<Suc n}" using len bm \<open>set bm = {..<n}\<close> by auto
  let ?c = "keep_move score n bm"
  show ?thesis
  proof (cases "score n > score (?b ! 0)")
    case True
    then have n: "0 < n" using len by (cases n) auto
    have c: "?c = ?b[n := ?b ! 0, 0 := ?b ! n]" using True assms(2) len by (simp add: keep_move_def nth_append)
    have "set ?c = {..<Suc n}" "distinct ?c" "length ?c = Suc n" "?c ! 0 = n"
      using b n len unfolding c by (simp_all add: set_swap distinct_swap) (metis nth_append_length)
    moreover have "\<forall>k<n. score k \<le> score n"
    proof (intro allI impI)
      fix k assume "k < n"
      then have "score k \<le> score (bm ! 0)" using bm(3) \<open>set bm = {..<n}\<close> by auto
      with True n len show "score k \<le> score n" by (simp add: nth_append)
    qed
    ultimately show ?thesis using assms(2) by (auto simp: keeps_lowest_def less_Suc_eq)
  next
    case False
    then have "?c = ?b" using assms(2) by (simp add: keep_move_def)
    moreover have "\<forall>k\<in>set ?b. score k \<le> score (?b ! 0)"
      using False bm(3) len by (cases n) (auto simp: nth_append)
    ultimately have "keeps_lowest score (Suc n) ?b"
      unfolding keeps_lowest_def b(3) using b(1,2) assms(2) by simp
    with \<open>?c = ?b\<close> show ?thesis by simp
  qed
qed

lemma keeps_lowest_next:
  assumes "keeps_lowest score n bm" "PRUNE_MOVES \<le> n"
  shows "keeps_lowest score (Suc n) (keep_move score n bm)"
proof -
  have len: "length bm = PRUNE_MOVES" "0 < length bm" and bm: "distinct bm" "set bm \<subseteq> {..<n}"
      "\<forall>k\<in>set bm. score k \<le> score (bm ! 0)" "\<forall>k\<in>set bm. \<forall>j<n. j \<notin> set bm \<longrightarrow> score k \<le> score j"
    using assms by (auto simp: keeps_lowest_def PRUNE_MOVES_def)
  show ?thesis
  proof (cases "score n < score (bm ! 0)")
    case True
    define bm1 where "bm1 = bm[0 := n]"
    define m where "m = fold (\<lambda>k m. if score (bm1 ! k) > score (bm1 ! m) then k else m) [1..<PRUNE_MOVES] 0"
    obtain rest where r: "bm = bm ! 0 # rest" using len(2) by (cases bm) auto
    then have "bm1 = n # rest" by (metis bm1_def list_update_code(2))
    have "n \<notin> set bm" using bm(2) by auto
    then have b1: "distinct bm1" "length bm1 = PRUNE_MOVES" "bm1 ! 0 = n" "set bm1 = insert n (set bm - {bm ! 0})"
      using r \<open>bm1 = n # rest\<close> bm(1) len(1) by (metis distinct.simps(2) list.set_intros(2), metis bm1_def length_list_update,
        simp, metis Diff_insert_absorb distinct.simps(2) list.set(2))
    have "insert 0 (set [1..<PRUNE_MOVES]) = {..<PRUNE_MOVES}" by (auto simp: PRUNE_MOVES_def)
    then have m: "m < PRUNE_MOVES" "\<forall>k<PRUNE_MOVES. score (bm1 ! k) \<le> score (bm1 ! m)"
      using fold_greatest [of "\<lambda>k. score (bm1 ! k)" "[1..<PRUNE_MOVES]" 0, folded m_def] by auto
    let ?c = "keep_move score n bm"
    have c: "?c = bm1[0 := bm1 ! m, m := bm1 ! 0]"
      using True assms(2) b1(3) unfolding keep_move_def bm1_def [symmetric] m_def [symmetric] Let_def by simp
    have "set ?c = set bm1" "distinct ?c" "length ?c = PRUNE_MOVES"
      using m(1) b1(1,2) unfolding c by (simp_all add: set_swap distinct_swap)
    moreover have "?c ! 0 = bm1 ! m" using m(1) b1(2,3) unfolding c by (cases "m = 0") simp_all
    moreover have "\<forall>k\<in>set bm1. score k \<le> score (bm1 ! m)" using m(2) b1(2) by (auto simp: in_set_conv_nth)
    moreover have "score k \<le> score j" if "k \<in> set bm1" "j < Suc n" "j \<notin> set bm1" for k j
    proof -
      have "bm ! 0 \<in> set bm" using len(2) by simp
      with that b1(4) bm(3,4) True show ?thesis by (cases "j = bm ! 0") (force simp: less_Suc_eq)+
    qed
    ultimately show ?thesis using assms(2) b1(4) bm(2) by (auto simp: keeps_lowest_def)
  next
    case False
    have "bm ! 0 \<in> set bm" using len(2) by simp
    with False have "\<forall>k\<in>set bm. score k \<le> score n" using bm(3) by fastforce
    moreover have "keep_move score n bm = bm" using False assms(2) by (simp add: keep_move_def)
    ultimately show ?thesis using assms bm len by (auto simp: keeps_lowest_def less_Suc_eq)
  qed
qed

lemma keep_move_lowest: "keeps_lowest score n bm \<Longrightarrow> keeps_lowest score (Suc n) (keep_move score n bm)"
  by (cases "n < PRUNE_MOVES") (simp_all add: keeps_lowest_first keeps_lowest_next)

lemma prune_evaluation_yields:
  "net_outputs E b pc \<noteq> None \<Longrightarrow> yields (\<lambda>_. True) (prune_evaluation E key b pc) (\<lambda>_. True)"
  unfolding yields_def
  by (auto simp: prune_evaluation_def gives_def and_then_def returning_def split: option.splits prod.splits)

text \<open>The small network of the class of a position answers.\<close>

definition nets_answer :: "search_engine \<Rightarrow> positionkey \<Rightarrow> bool" where
  "nets_answer E key \<longleftrightarrow>
     (let b = PositionFromKeySwapped key; pc = ClassifyPosition (en_dbs E) b VARIATION_STANDARD in
      pc \<ge> CLASS_RACE \<longrightarrow> net_outputs E b pc \<noteq> None)"

lemma prune_loop_yields:
  assumes "keeps_lowest (\<lambda>k. rScore (ms ! k)) i bm" "i \<le> length ms" "0 < i \<longrightarrow> pc \<ge> CLASS_RACE"
    "\<forall>m\<in>set ms. nets_answer E (pm_key m)"
  shows "yields (\<lambda>_. True) (prune_loop E pci [i..<length ms] pc ms bm) (\<lambda>(all, ms', bm').
    map pm_key ms' = map pm_key ms \<and> (all \<longrightarrow> keeps_lowest (\<lambda>k. rScore (ms' ! k)) (length ms) bm'))"
  using assms
proof (induction "length ms - i" arbitrary: i ms bm pc)
  case 0
  then show ?case by (auto intro: yields_gives)
next
  case (Suc d)
  then have i: "i < length ms" "[i..<length ms] = i # [Suc i..<length ms]" by (simp_all add: upt_conv_Cons)
  let ?b = "PositionFromKeySwapped (pm_key (ms ! i))"
  let ?pc = "ClassifyPosition (en_dbs E) ?b VARIATION_STANDARD"
  have step: "yields (\<lambda>_. True) (prune_loop E pci [Suc i..<length ms] pc' ms' (keep_move (\<lambda>k. rScore (ms' ! k)) i bm))
      (\<lambda>(all, ms', bm'). map pm_key ms' = map pm_key ms \<and> (all \<longrightarrow> keeps_lowest (\<lambda>k. rScore (ms' ! k)) (length ms) bm'))"
    if pc': "pc' \<ge> CLASS_RACE" and ms': "ms' = ms[i := (ms ! i)\<lparr>rScore := r\<rparr>]" for ms' r pc'
  proof -
    have keys: "map pm_key ms' = map pm_key ms"
      using i(1) by (simp add: ms' map_update list_update_same_conv)
    then have "pm_key ` set ms' = pm_key ` set ms" by (metis list.set_map)
    then have nets: "\<forall>m\<in>set ms'. nets_answer E (pm_key m)"
      using Suc.prems(4) by (metis image_iff)
    have "keeps_lowest (\<lambda>k. rScore (ms' ! k)) i bm"
      by (rule keeps_lowest_cong [OF _ Suc.prems(1)]) (simp add: ms')
    from keep_move_lowest [OF this] Suc.hyps(1) [of ms' "Suc i"] nets keys Suc.hyps(2) i(1) pc'
    show ?thesis by (simp add: ms')
  qed
  show ?case
  proof (cases "if i = 0 then ?pc < CLASS_RACE else ?pc \<noteq> pc")
    case True
    then show ?thesis unfolding i(2) by (auto simp: Let_def intro: yields_gives)
  next
    case False
    with Suc.prems(3) have pc: "?pc \<ge> CLASS_RACE" "(if i = 0 then ?pc else pc) \<ge> CLASS_RACE"
      by (auto simp: not_less split: if_splits)
    have "nets_answer E (pm_key (ms ! i))" using Suc.prems(4) i(1) by simp
    with pc(1) have "net_outputs E ?b ?pc \<noteq> None" by (simp add: nets_answer_def Let_def)
    from yields_and_then [OF prune_evaluation_yields [OF this] step [OF pc(2) refl]] False
    show ?thesis unfolding i(2) by (simp add: Let_def)
  qed
qed


section \<open>The search with filters\<close>

text \<open>
  What \<open>qsort\<close> promises: the same moves, none before a better one.  Equal moves may come in any order.
\<close>

definition is_qsort :: "(scored_move list \<Rightarrow> scored_move list) \<Rightarrow> bool" where
  "is_qsort f \<longleftrightarrow> (\<forall>ms. mset (f ms) = mset ms \<and> sorted_wrt (\<lambda>a b. CompareMoves a b < 0) (f ms))"

lemma is_qsort_mset: "is_qsort f \<Longrightarrow> mset (f ms) = mset ms"
  and is_qsort_sorted: "is_qsort f \<Longrightarrow> sorted_wrt (\<lambda>a b. CompareMoves a b < 0) (f ms)"
  by (simp_all add: is_qsort_def)

lemma qsort_first:
  assumes "is_qsort f" "m \<in> set ms"
  shows "rScore m \<le> rScore (f ms ! 0)"
proof -
  have m: "m \<in> set (f ms)" using assms by (metis is_qsort_mset set_mset_mset)
  then obtain a as where f: "f ms = a # as" by (cases "f ms") auto
  with is_qsort_sorted [OF assms(1), of ms] m show ?thesis by (auto simp: CompareMoves_def split: if_splits)
qed

text \<open>The evaluator answers for the positions of \<open>K\<close>, with values that depend on the position and plies.\<close>

definition assesses ::
  "(caches \<Rightarrow> bool) \<Rightarrow> evaluator \<Rightarrow> cubeinfo \<Rightarrow> positionkey set \<Rightarrow> (nat \<Rightarrow> positionkey \<Rightarrow> real list) \<Rightarrow> bool" where
  "assesses I ev pci K V \<longleftrightarrow> (\<forall>n. \<forall>k\<in>K.
     yields I (ev n (pci\<lparr>ci_fMove := cnot (ci_fMove pci)\<rparr>) (PositionFromKeySwapped k)) (\<lambda>ar. ar = V n k))"

text \<open>A move scored by the evaluation of its position.\<close>

definition scored_by ::
  "search_engine \<Rightarrow> evalcontext \<Rightarrow> cubeinfo \<Rightarrow> (nat \<Rightarrow> positionkey \<Rightarrow> real list) \<Rightarrow> nat \<Rightarrow> scored_move \<Rightarrow> scored_move" where
  "scored_by E pec pci V n m = keep_scores pec n (invert_outputs E pci (V n (pm_key m))) m"

definition value_at :: "search_engine \<Rightarrow> evalcontext \<Rightarrow> cubeinfo \<Rightarrow> (nat \<Rightarrow> positionkey \<Rightarrow> real list) \<Rightarrow> nat \<Rightarrow> positionkey \<Rightarrow> real" where
  "value_at E pec pci V n k = move_score pec (invert_outputs E pci (V n k))"

lemma scored_by_fields [simp]:
  "pm_key (scored_by E pec pci V n m) = pm_key m" "es_nPlies (scored_by E pec pci V n m) = n"
  "rScore (scored_by E pec pci V n m) = value_at E pec pci V n (pm_key m)"
  "pm_anMove (scored_by E pec pci V n m) = pm_anMove m"
  by (simp_all add: scored_by_def keep_scores_def value_at_def)

lemma ScoreMove_yields:
  "assesses I ev pci K V \<Longrightarrow> pm_key m \<in> K \<Longrightarrow> yields I (ScoreMove E pec ev pci n m) (\<lambda>m'. m' = scored_by E pec pci V n m)"
  unfolding ScoreMove_def assesses_def scored_by_def by (blast intro: yields_and_then yields_gives)

lemma note_best_moves [simp]:
  "sl_moves (note_best i ml) = sl_moves ml" "sl_cMoves (note_best i ml) = sl_cMoves ml"
  "sl_cMaxMoves (note_best i ml) = sl_cMaxMoves ml"
  by (simp_all add: note_best_def Let_def)

lemma score_loop_yields:
  assumes "assesses I ev pci K V"
  shows "i \<le> c \<Longrightarrow> c \<le> length (sl_moves ml) \<Longrightarrow> pm_key ` set (sl_moves ml) \<subseteq> K \<Longrightarrow>
    yields I (score_loop (ScoreMove E pec ev pci n) [i..<c] ml) (\<lambda>(ok, ml'). ok \<and> sl_cMoves ml' = sl_cMoves ml \<and>
      sl_cMaxMoves ml' = sl_cMaxMoves ml \<and>
      sl_moves ml' = take i (sl_moves ml) @ map (scored_by E pec pci V n) (drop i (take c (sl_moves ml))) @ drop c (sl_moves ml))"
proof (induction "c - i" arbitrary: i ml)
  case 0
  then show ?case by (auto intro: yields_gives)
next
  case (Suc d)
  then have i: "i < length (sl_moves ml)" "[i..<c] = i # [Suc i..<c]" "i < c" by (simp_all add: upt_conv_Cons)
  let ?ms = "sl_moves ml"
  let ?m = "scored_by E pec pci V n (?ms ! i)"
  let ?ml = "note_best i (ml\<lparr>sl_moves := ?ms[i := ?m]\<rparr>)"
  have "pm_key (?ms ! i) \<in> K" using Suc.prems(3) i(1) by auto
  note s = yields_attempt [OF ScoreMove_yields [OF assms this]]
  have "pm_key ` set (?ms[i := ?m]) \<subseteq> K"
    using Suc.prems(3) \<open>pm_key (?ms ! i) \<in> K\<close> by (fastforce dest: set_update_subset_insert [THEN subsetD])
  then have "yields I (score_loop (ScoreMove E pec ev pci n) [Suc i..<c] ?ml) (\<lambda>(ok, ml'). ok \<and>
      sl_cMoves ml' = sl_cMoves ml \<and> sl_cMaxMoves ml' = sl_cMaxMoves ml \<and>
      sl_moves ml' = take (Suc i) (?ms[i := ?m]) @ map (scored_by E pec pci V n) (drop (Suc i) (take c (?ms[i := ?m]))) @ drop c (?ms[i := ?m]))"
    using Suc.hyps(1) [of "Suc i" ?ml] Suc.hyps(2) Suc.prems i by simp
  moreover have "take (Suc i) (?ms[i := ?m]) @ map (scored_by E pec pci V n) (drop (Suc i) (take c (?ms[i := ?m]))) @ drop c (?ms[i := ?m])
      = take i ?ms @ map (scored_by E pec pci V n) (drop i (take c ?ms)) @ drop c ?ms"
    using i Suc.prems(2) by (simp add: take_Suc_conv_app_nth take_update_swap list_update_append Cons_nth_drop_Suc [symmetric])
  ultimately show ?case unfolding i(2) using s by (auto intro!: yields_and_then [OF s])
qed

lemma ScoreMoves_yields:
  assumes "assesses I ev pci K V" "sl_cMoves ml \<le> length (sl_moves ml)" "pm_key ` set (sl_moves ml) \<subseteq> K"
  shows "yields I (ScoreMoves E pec ev pci n ml) (\<lambda>(ok, ml'). ok \<and> sl_cMoves ml' = sl_cMoves ml \<and>
    sl_cMaxMoves ml' = sl_cMaxMoves ml \<and>
    sl_moves ml' = map (scored_by E pec pci V n) (take (sl_cMoves ml) (sl_moves ml)) @ drop (sl_cMoves ml) (sl_moves ml))"
  using score_loop_yields [OF assms(1), of 0 "sl_cMoves ml" "ml\<lparr>sl_rBestScore := worst_score\<rparr>" E pec n] assms(2,3)
  by (simp add: ScoreMoves_def)

text \<open>
  The list during the search, before the evaluation at \<open>n\<close> plies: the moves are the generated ones;
  either none has been scored, or all have been, each at the depth it records, and the first one is
  scored at the greatest depth and is best of the moves scored so deep.
\<close>

definition ranked ::
  "search_engine \<Rightarrow> evalcontext \<Rightarrow> cubeinfo \<Rightarrow> (nat \<Rightarrow> positionkey \<Rightarrow> real list) \<Rightarrow> nat \<Rightarrow> scored_list \<Rightarrow> bool" where
  "ranked E pec pci V n ml \<longleftrightarrow> sl_moves ml \<noteq> [] \<and> sl_iMoveBest ml = 0 \<and>
     (\<forall>m\<in>set (sl_moves ml). es_nPlies m < n \<and> rScore m = value_at E pec pci V (es_nPlies m) (pm_key m) \<and>
        es_nPlies m \<le> es_nPlies (sl_moves ml ! 0) \<and>
        (es_nPlies m = es_nPlies (sl_moves ml ! 0) \<longrightarrow> rScore m \<le> rScore (sl_moves ml ! 0)))"

definition origin :: "scored_move \<Rightarrow> positionkey \<times> int list" where
  "origin m = (pm_key m, pm_anMove m)"

lemma origin_scored_by [simp]: "origin (scored_by E pec pci V n m) = origin m"
  by (simp add: origin_def)

definition same_list :: "scored_list \<Rightarrow> scored_list \<Rightarrow> bool" where
  "same_list ml ml' \<longleftrightarrow> mset (map origin (sl_moves ml')) = mset (map origin (sl_moves ml)) \<and>
     sl_cMoves ml' \<le> length (sl_moves ml') \<and> sl_cMaxMoves ml' = sl_cMaxMoves ml"

definition searching ::
  "search_engine \<Rightarrow> evalcontext \<Rightarrow> cubeinfo \<Rightarrow> (nat \<Rightarrow> positionkey \<Rightarrow> real list) \<Rightarrow> nat \<Rightarrow> scored_list \<Rightarrow> scored_list \<Rightarrow> bool" where
  "searching E pec pci V n g ml \<longleftrightarrow> same_list g ml \<and>
     (ranked E pec pci V n ml \<or> sl_moves ml \<noteq> [] \<and> sl_cMoves ml = length (sl_moves ml))"

lemma ranked_mono: "ranked E pec pci V n ml \<Longrightarrow> n \<le> n' \<Longrightarrow> ranked E pec pci V n' ml"
  unfolding ranked_def by (meson less_le_trans)

lemma ranked_cong:
  "sl_moves ml' = sl_moves ml \<Longrightarrow> sl_iMoveBest ml' = sl_iMoveBest ml \<Longrightarrow>
   ranked E pec pci V n ml' \<longleftrightarrow> ranked E pec pci V n ml"
  by (simp only: ranked_def)

lemma ranked_some: "ranked E pec pci V n ml \<Longrightarrow> sl_moves ml \<noteq> []"
  and ranked_best: "ranked E pec pci V n ml \<Longrightarrow> sl_iMoveBest ml = 0"
  unfolding ranked_def by blast+

lemma searching_moves: "searching E pec pci V n g ml \<Longrightarrow> sl_moves ml \<noteq> []"
  unfolding searching_def using ranked_some by blast

lemma same_list_origins:
  assumes "same_list g ml"
  shows "origin ` set (sl_moves ml) = origin ` set (sl_moves g)" "length (sl_moves ml) = length (sl_moves g)"
proof -
  have "mset (map origin (sl_moves ml)) = mset (map origin (sl_moves g))" using assms by (simp add: same_list_def)
  from mset_eq_setD [OF this] mset_eq_length [OF this]
  show "origin ` set (sl_moves ml) = origin ` set (sl_moves g)" "length (sl_moves ml) = length (sl_moves g)" by simp_all
qed

lemma same_list_keys:
  assumes "same_list g ml"
  shows "pm_key ` set (sl_moves ml) = pm_key ` set (sl_moves g)"
proof -
  have "pm_key ` set ms = fst ` origin ` set ms" for ms by (simp add: image_image origin_def)
  then show ?thesis using same_list_origins(1) [OF assms] by simp
qed

text \<open>One evaluation of the moves in use, and its sort.\<close>

lemma score_and_sort:
  assumes q: "is_qsort (sort_moves E)" and s: "searching E pec pci V n g ml"
    and ml': "sl_cMoves ml' = sl_cMoves ml" "sl_cMaxMoves ml' = sl_cMaxMoves ml"
      "sl_moves ml' = map (scored_by E pec pci V n) (take (sl_cMoves ml) (sl_moves ml)) @ drop (sl_cMoves ml) (sl_moves ml)"
  shows "same_list g (sort_used E ml') \<and> ranked E pec pci V (Suc n) (sort_used E ml') \<and>
    sl_cMoves (sort_used E ml') = sl_cMoves ml"
proof -
  let ?c = "sl_cMoves ml" and ?ms = "sl_moves ml" and ?S = "scored_by E pec pci V n"
  have c: "?c \<le> length ?ms" "?ms \<noteq> []" "mset (map origin ?ms) = mset (map origin (sl_moves g))"
    "sl_cMaxMoves ml = sl_cMaxMoves g"
    using s searching_moves [OF s] by (simp_all add: searching_def same_list_def)
  define top where "top = sort_moves E (map ?S (take ?c ?ms))"
  have top: "mset top = mset (map ?S (take ?c ?ms))" using is_qsort_mset [OF q] by (simp add: top_def)
  then have top_set: "set top = ?S ` set (take ?c ?ms)" by (metis list.set_map set_mset_mset)
  have moves: "sl_moves (sort_used E ml') = top @ drop ?c ?ms" "length top = ?c"
    using c(1) ml' mset_eq_length [OF top] by (simp_all add: sort_used_def top_def)
  have "mset (map origin (top @ drop ?c ?ms)) = image_mset origin (mset top) + mset (map origin (drop ?c ?ms))" by simp
  also have "image_mset origin (mset top) = mset (map origin (take ?c ?ms))"
    unfolding top by (simp add: multiset.map_comp comp_def)
  also have "\<dots> + mset (map origin (drop ?c ?ms)) = mset (map origin ?ms)"
    by (metis append_take_drop_id map_append mset_append)
  finally have "same_list g (sort_used E ml')"
    using moves c ml' by (simp add: same_list_def sort_used_def)
  moreover have "ranked E pec pci V (Suc n) (sort_used E ml')"
  proof (cases "?c = 0")
    case True
    with s c(2) have "ranked E pec pci V n ml" by (auto simp: searching_def)
    moreover have "sl_moves (sort_used E ml') = ?ms" using True moves by simp
    moreover have "sl_iMoveBest (sort_used E ml') = sl_iMoveBest ml" 
      using ranked_best [OF \<open>ranked E pec pci V n ml\<close>] by (simp add: sort_used_def)
    ultimately have "ranked E pec pci V n (sort_used E ml')" by (metis ranked_cong)
    then show ?thesis by (rule ranked_mono) simp
  next
    case False
    then obtain t ts where t: "top = t # ts" using moves(2) by (cases top) auto
    then have "t \<in> set top" by simp
    then have depth: "es_nPlies t = n" unfolding top_set by auto
    have used: "rScore m \<le> rScore t \<and> es_nPlies m = n \<and> rScore m = value_at E pec pci V n (pm_key m)" if "m \<in> set top" for m
    proof -
      have "m \<in> set (map ?S (take ?c ?ms))" using that by (simp add: top_set)
      from qsort_first [OF q this] have "rScore m \<le> rScore t" by (simp add: t top_def [symmetric])
      moreover have "es_nPlies m = n \<and> rScore m = value_at E pec pci V n (pm_key m)" using that unfolding top_set by auto
      ultimately show ?thesis by blast
    qed
    have rest: "es_nPlies m < n \<and> rScore m = value_at E pec pci V (es_nPlies m) (pm_key m)" if m: "m \<in> set (drop ?c ?ms)" for m
    proof -
      have "?c \<noteq> length ?ms" using m by auto
      then have "ranked E pec pci V n ml" using s unfolding searching_def by blast
      then show ?thesis using in_set_dropD [OF m] unfolding ranked_def by blast
    qed
    have "es_nPlies m < Suc n \<and> rScore m = value_at E pec pci V (es_nPlies m) (pm_key m) \<and> es_nPlies m \<le> es_nPlies t \<and>
        (es_nPlies m = es_nPlies t \<longrightarrow> rScore m \<le> rScore t)" if "m \<in> set (top @ drop ?c ?ms)" for m
    proof -
      from that consider "m \<in> set top" | "m \<in> set (drop ?c ?ms)" by auto
      then show ?thesis
      proof cases
        case 1
        note m = used [OF this]
        then have n: "es_nPlies m = n" by (rule conjunct1 [OF conjunct2])
        show ?thesis unfolding n depth using m by (intro conjI impI) (blast | simp only: lessI le_refl)+
      next
        case 2
        note m = rest [OF this]
        then have n: "es_nPlies m < n" by (rule conjunct1)
        have "rScore m = value_at E pec pci V (es_nPlies m) (pm_key m)" using m by (rule conjunct2)
        with n show ?thesis unfolding depth by (intro conjI impI) (assumption | linarith)+
      qed
    qed
    moreover have "(top @ drop ?c ?ms) ! 0 = t" "top @ drop ?c ?ms \<noteq> []" by (simp_all add: t)
    moreover have "sl_iMoveBest (sort_used E ml') = 0" by (simp add: sort_used_def)
    ultimately show ?thesis unfolding ranked_def moves(1) by metis
  qed
  ultimately show ?thesis using ml'(1) by (simp add: sort_used_def)
qed

text \<open>The evaluation of the moves in use, all three calls together.\<close>

lemma score_sort_yields:
  assumes "is_qsort (sort_moves E)" "assesses I ev pci K V" "pm_key ` set (sl_moves g) \<subseteq> K" "searching E pec pci V n g ml"
  shows "yields I (ScoreMoves E pec ev pci n ml) (\<lambda>(ok, ml'). ok \<and> same_list g (sort_used E ml') \<and>
    ranked E pec pci V (Suc n) (sort_used E ml') \<and> sl_cMoves (sort_used E ml') = sl_cMoves ml)"
proof -
  have l: "same_list g ml" using assms(4) by (simp add: searching_def)
  then have "sl_cMoves ml \<le> length (sl_moves ml)" by (simp add: same_list_def)
  moreover have "pm_key ` set (sl_moves ml) \<subseteq> K" using same_list_keys [OF l] assms(3) by simp
  ultimately show ?thesis
    by (rule yields_weaken [OF ScoreMoves_yields [OF assms(2)]]) (use score_and_sort [OF assms(1,4)] in auto)
qed

lemma filtered_le: "filtered f ml \<le> sl_cMoves ml"
proof -
  let ?k = "sl_cMoves ml"
  let ?c = "min (nat (Accept f)) ?k"
  have "length (takeWhile P (drop ?c (take (min ?k (?c + Extra f)) ms))) \<le> ?k - ?c" for P and ms :: "scored_move list"
    by (rule le_trans [OF length_takeWhile_le]) (simp, rule diff_le_mono, simp)
  then have "filtered f ml \<le> ?c + (?k - ?c)" unfolding filtered_def Let_def by (rule add_left_mono)
  then show ?thesis by simp
qed

lemma searching_mono: "searching E pec pci V n g ml \<Longrightarrow> n \<le> n' \<Longrightarrow> searching E pec pci V n' g ml"
  unfolding searching_def using ranked_mono by blast

lemma searching_fewer:
  assumes "same_list g ml" "ranked E pec pci V n ml" "c \<le> sl_cMoves ml"
  shows "searching E pec pci V n g (ml\<lparr>sl_cMoves := c\<rparr>)" "ranked E pec pci V n (ml\<lparr>sl_cMoves := c\<rparr>)"
proof -
  show "ranked E pec pci V n (ml\<lparr>sl_cMoves := c\<rparr>)"
    by (rule ranked_cong [THEN iffD2, OF _ _ assms(2)]) simp_all
  then show "searching E pec pci V n g (ml\<lparr>sl_cMoves := c\<rparr>)"
    using assms(1,3) by (simp add: searching_def same_list_def)
qed

lemma filter_plies_yields:
  assumes E: "is_qsort (sort_moves E)" "assesses I ev pci K V" "pm_key ` set (sl_moves g) \<subseteq> K"
  shows "searching E pec pci V i g ml \<Longrightarrow> i \<le> N \<Longrightarrow>
    yields I (filter_plies E pec ev pci fs [i..<N] nMax ml)
      (\<lambda>(finished, n, ml'). searching E pec pci V N g ml' \<and> (finished \<longrightarrow> ranked E pec pci V N ml'))"
proof (induction "N - i" arbitrary: i ml nMax)
  case 0
  then show ?case by (auto intro: yields_gives)
next
  case (Suc d)
  then have i: "[i..<N] = i # [Suc i..<N]" "i < N" "d = N - Suc i" "Suc i \<le> N" by (simp_all add: upt_conv_Cons)
  let ?f = "if i < MAX_FILTER_PLIES then fs i else NullFilter"
  show ?case
  proof (cases "Accept ?f < 0")
    case True
    with Suc.hyps(1) [OF i(3) searching_mono [OF Suc.prems(1)] i(4)] show ?thesis unfolding i(1) by (simp add: Let_def)
  next
    case False
    let ?R = "\<lambda>(finished, n, ml'). searching E pec pci V N g ml' \<and> (finished \<longrightarrow> ranked E pec pci V N ml')"
    let ?go = "\<lambda>ml. if sl_cMoves ml = 1 \<and> Accept ?f \<noteq> 1 then gives (True, i, ml)
        else filter_plies E pec ev pci fs [Suc i..<N] i ml"
    have step: "yields I (?go (sort_used E ml'\<lparr>sl_cMoves := c\<rparr>)) ?R"
      if "same_list g (sort_used E ml')" "ranked E pec pci V (Suc i) (sort_used E ml')" "c \<le> sl_cMoves (sort_used E ml')" for ml' c
    proof -
      note n = searching_fewer [OF that]
      have "?R (True, i, sort_used E ml'\<lparr>sl_cMoves := c\<rparr>)"
        using searching_mono [OF n(1) i(4)] ranked_mono [OF n(2) i(4)] by simp
      with Suc.hyps(1) [OF i(3) n(1) i(4)] show ?thesis by (auto intro: yields_gives)
    qed
    show ?thesis unfolding i(1) filter_plies.simps Let_def if_not_P [OF False]
      by (rule yields_and_then [OF score_sort_yields [OF E Suc.prems(1)]])
        (auto simp only: split_conv simp_thms if_False intro!: step filtered_le)
  qed
qed

text \<open>The generated list before the search, and the list the search returns.\<close>

lemma generated_searching:
  "amMoves (GenerateMoves b (int n0) (int n1) False) \<noteq> [] \<Longrightarrow>
   searching E pec pci V 0 (generated b n0 n1) (generated b n0 n1)"
  by (simp add: searching_def same_list_def generated_def Let_def)

lemma FindnSaveBestMoves_yields:
  assumes E: "is_qsort (sort_moves E)" "assesses I ev pci K V" "pm_key ` set (sl_moves (generated b n0 n1)) \<subseteq> K"
    and some: "amMoves (GenerateMoves b (int n0) (int n1) False) \<noteq> []"
  shows "yields I (FindnSaveBestMoves E ev n0 n1 b None r pci pec aamf) (\<lambda>ml.
    same_list (generated b n0 n1) ml \<and> ranked E pec pci V (Suc (ec_nPlies pec)) ml \<and>
    sl_cMoves ml = length (sl_moves ml))"
proof -
  let ?g = "generated b n0 n1" and ?N = "ec_nPlies pec"
  let ?fs = "aamf (if 0 < ?N \<and> ?N \<le> MAX_FILTER_PLIES then ?N - 1 else MAX_FILTER_PLIES - 1)"
  define Q where "Q = (\<lambda>(m :: nat, ml). same_list ?g ml \<and> ranked E pec pci V (Suc ?N) ml)"
  have top: "yields I (and_then (ScoreMoves E pec ev pci ?N ml) (\<lambda>(ok, ml). if \<not> ok then failed else gives (?N, sort_used E ml))) Q"
    if "searching E pec pci V ?N ?g ml" for ml
    by (rule yields_and_then [OF score_sort_yields [OF E that]]) (auto simp: Q_def intro!: yields_gives)
  have done': "yields I (if fin then gives (m, ml) else and_then (ScoreMoves E pec ev pci ?N ml)
      (\<lambda>(ok, ml). if \<not> ok then failed else gives (?N, sort_used E ml))) Q"
    if "searching E pec pci V ?N ?g ml" "fin \<longrightarrow> ranked E pec pci V ?N ml" for fin m ml
  proof (cases fin)
    case True
    then have "ranked E pec pci V (Suc ?N) ml" using that(2) ranked_mono [of E pec pci V ?N ml "Suc ?N"] by simp
    with that(1) True show ?thesis by (auto simp: Q_def searching_def intro!: yields_gives)
  qed (use top [OF that(1)] in simp)
  have last: "yields I (let cOldMoves = sl_cMoves ml; ml = ml\<lparr>sl_cMoves := length (sl_moves ml)\<rparr> in gives ml)
      (\<lambda>ml. same_list ?g ml \<and> ranked E pec pci V (Suc ?N) ml \<and> sl_cMoves ml = length (sl_moves ml))"
    if "Q (m, ml)" for m ml
  proof -
    have "ranked E pec pci V (Suc ?N) (ml\<lparr>sl_cMoves := length (sl_moves ml)\<rparr>)"
      by (rule ranked_cong [THEN iffD2]) (use that in \<open>auto simp: Q_def\<close>)
    moreover have "same_list ?g (ml\<lparr>sl_cMoves := length (sl_moves ml)\<rparr>)" using that by (simp add: Q_def same_list_def)
    ultimately show ?thesis by (simp add: yields_gives)
  qed
  have "sl_cMoves ?g \<noteq> 0" using some by (simp add: generated_def Let_def)
  show ?thesis
    unfolding FindnSaveBestMoves_def Let_def if_not_P [OF \<open>sl_cMoves ?g \<noteq> 0\<close>] option.case
    by (rule yields_and_then [OF filter_plies_yields [OF E generated_searching [OF some] le0]])
      (use done' last [unfolded Let_def] in \<open>auto simp only: split_conv split_paired_all intro!: yields_and_then\<close>)
qed

text \<open>All generated moves play the same number of chequers, the number the list records.\<close>

lemma generated_cMoves:
  assumes "playable b" "1 \<le> n0" "n0 \<le> 6" "1 \<le> n1" "n1 \<le> 6" and m: "m \<in> set (amMoves (GenerateMoves b (int n0) (int n1) False))"
  shows "pm_cMoves m = cMaxMoves (GenerateMoves b (int n0) (int n1) False)"
proof -
  let ?e = "\<lparr>cMaxMoves = 0, cMaxPips = 0, iMoveBest = 0, amMoves = [], asserts_hold = True\<rparr>"
  let ?X = "set (offers False b n0 n1)"
  have "saved {} ?e" by (simp add: saved_def best_offers_def holds_def)
  from full_saves [OF this, of "offers False b n0 n1"] offers_ordered [OF assms(2,4)]
  have s: "saved ?X (GenerateMoves b (int n0) (int n1) False)" unfolding GenerateMoves_offers [OF assms(1-5)] by simp
  then obtain x where x: "x \<in> best_offers ?X" "m = entry x" using m by (auto simp: saved_def holds_def)
  moreover from x(1) have "?X \<noteq> {}" by (auto simp: best_offers_def)
  ultimately obtain y where y: "y \<in> best_offers ?X" "cMaxMoves (GenerateMoves b (int n0) (int n1) False) = fst y"
    using s by (auto simp: saved_def)
  with x(1) have "fst x = fst y" by (auto simp: best_offers_def offer_le_def intro: le_antisym)
  with x(2) y(2) show ?thesis by (simp add: entry_def split: prod.splits)
qed

text \<open>The chequers of a generated move, replayed, give its position.\<close>

lemma generated_replay:
  assumes "playable b" "1 \<le> n0" "n0 \<le> 6" "1 \<le> n1" "n1 \<le> 6" and m: "m \<in> set (amMoves (GenerateMoves b (int n0) (int n1) False))"
  defines "n \<equiv> 2 * cMaxMoves (GenerateMoves b (int n0) (int n1) False)"
  shows "\<exists>ds is c. legal_play b n0 n1 ds is c \<and> pm_key m = PositionKey c \<and>
    ApplyMove b (take n (pm_anMove m) @ replicate (8 - n) (- 1)) True = Some (0, c)"
proof -
  obtain ds "is" c where l: "legal_play b n0 n1 ds is c" "entry_describes b ds is c m"
    using GenerateMoves_entries [OF assms(1-5)] m by blast
  have "pm_cMoves m = cMaxMoves (GenerateMoves b (int n0) (int n1) False)" by (rule generated_cMoves [OF assms(1-6)])
  then have n: "n = 2 * length is" using l(2) by (simp add: n_def entry_describes_def)
  have p: "possible_play b n0 n1 ds is c" using l(1) by (simp add: legal_play_def)
  have "length is \<le> length ds" "length is \<le> 4" using possible_play_length [OF p] by simp_all
  then have "length (map clip (move_pairs ds is)) = n" by (simp add: length_move_pairs n)
  then have "take n (pm_anMove m) = map clip (move_pairs ds is)"
    using l(2) by (simp add: entry_describes_def)
  moreover have "ApplyMove b (map clip (move_pairs ds is) @ replicate (8 - n) (- 1)) True = Some (0, c)"
    using p dice_orders_dice [OF assms(2-5)] assms(1)
    by (intro ApplyMove_play) (auto simp: possible_play_def, cases "8 - n", simp_all)
  moreover have "pm_key m = PositionKey c" using l(2) by (simp add: entry_describes_def)
  ultimately show ?thesis using l(1) by metis
qed

text \<open>The positions of the list, and the boards that legal plays reach.\<close>

lemma generated_keys:
  assumes "playable b" "1 \<le> n0" "n0 \<le> 6" "1 \<le> n1" "n1 \<le> 6"
  shows "pm_key ` set (amMoves (GenerateMoves b (int n0) (int n1) False)) = PositionKey ` {c. \<exists>ds is. legal_play b n0 n1 ds is c}"
proof
  show "pm_key ` set (amMoves (GenerateMoves b (int n0) (int n1) False)) \<subseteq> PositionKey ` {c. \<exists>ds is. legal_play b n0 n1 ds is c}"
    using GenerateMoves_entries [OF assms] by (fastforce simp: entry_describes_def)
  have "offer_key x \<in> pm_key ` set (amMoves (GenerateMoves b (int n0) (int n1) False))"
    if "x \<in> best_offers (set (offers False b n0 n1))" for x
    using GenerateMoves_holds(1) [OF assms] that by (simp add: holds_def)
  then show "PositionKey ` {c. \<exists>ds is. legal_play b n0 n1 ds is c} \<subseteq> pm_key ` set (amMoves (GenerateMoves b (int n0) (int n1) False))"
    using legal_play_best [OF assms] by (auto; metis)
qed

lemma legal_play_key:
  assumes "playable b" "1 \<le> n0" "n0 \<le> 6" "1 \<le> n1" "n1 \<le> 6" "legal_play b n0 n1 ds is c"
  shows "PositionFromKey (PositionKey c) = c" "PositionFromKeySwapped (PositionKey c) = SwapSides c"
proof -
  have "dice ds" "play ds is b = Some c"
    using dice_orders_dice [OF assms(2-5)] assms(6) by (auto simp: legal_play_def possible_play_def)
  from play_playable [OF assms(1) this]
  have "nibble_board c" by (simp add: playable_def few_chequers_nibble)
  then show "PositionFromKey (PositionKey c) = c" "PositionFromKeySwapped (PositionKey c) = SwapSides c"
    by (simp_all add: PositionFromKey_PositionKey PositionFromKeySwapped_eq)
qed

text \<open>What the evaluator says of the position of a play, for the player who makes it.\<close>

definition play_value ::
  "search_engine \<Rightarrow> evalcontext \<Rightarrow> cubeinfo \<Rightarrow> (nat \<Rightarrow> TanBoard \<Rightarrow> real list) \<Rightarrow> nat \<Rightarrow> TanBoard \<Rightarrow> real" where
  "play_value E pec pci W n c = move_score pec (invert_outputs E pci (W n (SwapSides c)))"


section \<open>Instances\<close>

text \<open>An engine without databases that counts pips, with an insertion sort for \<open>qsort\<close>.\<close>

fun insert_move :: "scored_move \<Rightarrow> scored_move list \<Rightarrow> scored_move list" where
  "insert_move m [] = [m]"
| "insert_move m (x # xs) = (if CompareMoves m x < 0 then m # x # xs else x # insert_move m xs)"

definition insertion_sort :: "scored_move list \<Rightarrow> scored_move list" where
  "insertion_sort ms = foldr insert_move ms []"

lemma CompareMoves_less: "CompareMoves a b < 0 \<longleftrightarrow> rScore b < rScore a \<or> rScore b = rScore a \<and> rScore2 b \<le> rScore2 a"
  by (auto simp: CompareMoves_def)

lemma mset_insert_move: "mset (insert_move m ms) = add_mset m (mset ms)"
  by (induction ms) auto

lemma set_insert_move: "set (insert_move m ms) = insert m (set ms)"
  by (induction ms) auto

lemma sorted_insert_move:
  "sorted_wrt (\<lambda>a b. CompareMoves a b < 0) ms \<Longrightarrow> sorted_wrt (\<lambda>a b. CompareMoves a b < 0) (insert_move m ms)"
  by (induction ms) (auto simp: CompareMoves_less set_insert_move)

lemma insertion_sort_qsort: "is_qsort insertion_sort"
proof -
  have "mset (foldr insert_move ms []) = mset ms" for ms by (induction ms) (simp_all add: mset_insert_move)
  moreover have "sorted_wrt (\<lambda>a b. CompareMoves a b < 0) (foldr insert_move ms [])" for ms
    by (induction ms) (simp_all add: sorted_insert_move)
  ultimately show ?thesis by (simp add: is_qsort_def insertion_sort_def)
qed

definition pip_outputs :: "TanBoard \<Rightarrow> real list" where
  "pip_outputs b = real (pips (fst b) + 1) / real (pips (fst b) + pips (snd b) + 2) # replicate 4 0"

definition pip_engine :: search_engine where
  "pip_engine = \<lparr>cCache = 0, trained_eval = \<lambda>pc b v. Some (Some (pip_outputs b)), pruning_net = \<lambda>pc b. Some (pip_outputs b),
     race_backgammons = \<lambda>b ar. Some ar, noise = \<lambda>b i. 0, en_dbs = no_databases, en_pbc1 = None,
     aafMET = linear_met, aafMETPostCrawford = linear_met, cube_efficiencies = default_efficiencies,
     read_cubeful = \<lambda>pc i. Some None, apbcHyper = \<lambda>i. None, read_hyper = \<lambda>k i. Some None, sort_moves = insertion_sort\<rparr>"

lemma pip_engine_nets: "nets_answer pip_engine key"
  by (simp add: nets_answer_def net_outputs_def pip_engine_def SanityCheck_def max_turns_def Let_def)

text \<open>The list with twelve copies of a move.\<close>

definition twelve_moves :: "scored_move list" where
  "twelve_moves = replicate 12 (unscored (hd (amMoves (GenerateMoves bear_board 2 1 False))))"



end
