(* ===== verification/Evaluate_Cached.thy ===== *)
theory Evaluate_Cached
  imports Evaluate Move_Choice
begin

text \<open>
  The caches change nothing: from caches whose entries are right, a cubeless evaluation with the
  cache returns what it returns without, at any number of plies, and leaves such caches.  And its
  outputs are consistent probabilities at every depth.
\<close>

section \<open>What the number of cache entries is not used for\<close>

lemma invert_outputs_cCache [simp]: "invert_outputs (E\<lparr>cCache := c\<rparr>) = invert_outputs E"
  by (simp add: invert_outputs_def fun_eq_iff Let_def cong: if_cong option.case_cong)

lemma ScoreMove_cCache [simp]: "ScoreMove (E\<lparr>cCache := c\<rparr>) = ScoreMove E"
  by (simp add: ScoreMove_def fun_eq_iff Let_def cong: if_cong option.case_cong)

lemma ScoreMoves_cCache [simp]: "ScoreMoves (E\<lparr>cCache := c\<rparr>) = ScoreMoves E"
  by (simp add: ScoreMoves_def fun_eq_iff Let_def cong: if_cong option.case_cong)

lemma ScoreMovesPruned_cCache [simp]: "ScoreMovesPruned (E\<lparr>cCache := c\<rparr>) = ScoreMovesPruned E"
  by (simp add: ScoreMovesPruned_def fun_eq_iff Let_def cong: if_cong option.case_cong)

lemma sort_used_cCache [simp]: "sort_used (E\<lparr>cCache := c\<rparr>) = sort_used E"
  by (simp add: sort_used_def fun_eq_iff Let_def cong: if_cong option.case_cong)

lemma net_outputs_cCache [simp]: "net_outputs (E\<lparr>cCache := c\<rparr>) = net_outputs E"
  by (intro ext) (simp add: net_outputs_def cong: if_cong)

lemma prune_evaluation_cCache [simp]: "prune_evaluation (E\<lparr>cCache := c\<rparr>) = prune_evaluation E"
  by (simp add: prune_evaluation_def fun_eq_iff Let_def cong: if_cong option.case_cong)

lemma prune_loop_cCache [simp]: "prune_loop (E\<lparr>cCache := c\<rparr>) pci is pc ms bm = prune_loop E pci is pc ms bm"
  by (induction "is" arbitrary: pc ms bm) (simp_all add: Let_def)

lemma FindBestMoveInEval_cCache [simp]: "FindBestMoveInEval (E\<lparr>cCache := c\<rparr>) = FindBestMoveInEval E"
  by (simp add: FindBestMoveInEval_def fun_eq_iff Let_def cong: if_cong option.case_cong)

lemma FindBestMovePlied_0:
  "FindBestMovePlied E ev n0 n1 b pci pec 0 aamf =
     (let g = generated b n0 n1 in
      if sl_cMoves g = 0 then gives (replicate 8 (- 1), b, 2 * sl_cMaxMoves g)
      else
        and_then (ScoreMoves E (pec\<lparr>ec_nPlies := 0\<rparr>) ev pci 0 g) (\<lambda>(ok, ml).
          if \<not> ok then failed
          else
            let ml = sort_used E ml; ml = ml\<lparr>sl_cMoves := length (sl_moves ml)\<rparr>;
                n = 2 * sl_cMaxMoves ml; best = sl_moves ml ! sl_iMoveBest ml in
            if sl_cMoves ml = 0 then gives (replicate 8 (- 1), b, n)
            else gives (take n (pm_anMove best) @ replicate (8 - n) (- 1), PositionFromKey (pm_key best), n)))"
  by (simp add: FindBestMovePlied_def FindnSaveBestMoves_def Let_def and_then_def gives_def failed_def fun_eq_iff
      split: option.splits prod.splits)

lemma best_reply_cCache [simp]: "best_reply (E\<lparr>cCache := c\<rparr>) = best_reply E"
  by (simp add: best_reply_def FindBestMovePlied_0 fun_eq_iff Let_def cong: if_cong option.case_cong)

lemma opponent_cube_cCache [simp]: "opponent_cube (E\<lparr>cCache := c\<rparr>) = opponent_cube E"
  by (simp add: opponent_cube_def fun_eq_iff Let_def cong: if_cong option.case_cong)

lemma one_roll_cCache [simp]: "one_roll (E\<lparr>cCache := c\<rparr>) = one_roll E"
  by (simp add: one_roll_def fun_eq_iff Let_def cong: if_cong option.case_cong)

lemma average_rolls_cCache [simp]: "average_rolls (E\<lparr>cCache := c\<rparr>) = average_rolls E"
  by (simp add: average_rolls_def fun_eq_iff Let_def cong: if_cong option.case_cong)

lemma class_of_cCache [simp]: "class_of (E\<lparr>cCache := c\<rparr>) = class_of E"
  by (simp add: class_of_def fun_eq_iff Let_def cong: if_cong option.case_cong)

lemma leaf_evaluation_cCache [simp]: "leaf_evaluation (E\<lparr>cCache := c\<rparr>) = leaf_evaluation E"
  by (simp add: leaf_evaluation_def static_evaluation_def checked_def add_noise_def acef_def fun_eq_iff Let_def cong: if_cong option.case_cong)

section \<open>The pruning cache\<close>

definition sane :: "real list \<Rightarrow> bool" where
  "sane ar \<longleftrightarrow> length ar = 5 \<and> consistent_outputs ar"

text \<open>
  What the engine's parts promise for the positions they are asked about: \<open>qsort\<close> sorts, networks and
  databases have five outputs, and the databases, which are not checked, consistent ones.
\<close>

definition sound_engine :: "search_engine \<Rightarrow> bool" where
  "sound_engine E \<longleftrightarrow> is_qsort (sort_moves E) \<and>
     (\<forall>pc b ar. pruning_net E pc b = Some ar \<longrightarrow> length ar = 5) \<and>
     (\<forall>b ar ar'. length ar = 5 \<longrightarrow> race_backgammons E b ar = Some ar' \<longrightarrow> length ar' = 5) \<and>
     (\<forall>b v ar. playable b \<longrightarrow> (let pc = ClassifyPosition (en_dbs E) b v in
        pc \<noteq> CLASS_OVER \<longrightarrow> trained_eval E pc b v = Some (Some ar) \<longrightarrow>
        length ar = 5 \<and> (pc \<le> CLASS_GOOD \<longrightarrow> consistent_outputs ar)))"

text \<open>An engine that lacks nothing, and one that is sound and, where \<open>T\<close>, complete.\<close>

definition complete_engine :: "bgvariation \<Rightarrow> search_engine \<Rightarrow> bool" where
  "complete_engine v E \<longleftrightarrow> (\<forall>b. playable b \<longrightarrow> (let pc = ClassifyPosition (en_dbs E) b v in
        pc \<noteq> CLASS_OVER \<longrightarrow> (\<exists>ar. trained_eval E pc b v = Some (Some ar)))) \<and>
     (\<forall>b. playable b \<longrightarrow> (let pc = ClassifyPosition (en_dbs E) b VARIATION_STANDARD in
        pc \<ge> CLASS_RACE \<longrightarrow> pruning_net E pc b \<noteq> None \<and>
        (pc = CLASS_RACE \<longrightarrow> (\<forall>ar. length ar = 5 \<longrightarrow> race_backgammons E b ar \<noteq> None)))) \<and>
     (\<forall>n c probs. en_pbc1 E = Some (n, c, probs) \<longrightarrow> bearoff_size n c \<and> 15 \<le> c)"

lemma sound_engineI:
  assumes "is_qsort (sort_moves E)" "\<And>pc b ar. pruning_net E pc b = Some ar \<Longrightarrow> length ar = 5"
    "\<And>b ar ar'. length ar = 5 \<Longrightarrow> race_backgammons E b ar = Some ar' \<Longrightarrow> length ar' = 5"
    "\<And>b v ar pc. playable b \<Longrightarrow> pc = ClassifyPosition (en_dbs E) b v \<Longrightarrow> pc \<noteq> CLASS_OVER \<Longrightarrow>
       trained_eval E pc b v = Some (Some ar) \<Longrightarrow> length ar = 5 \<and> (pc \<le> CLASS_GOOD \<longrightarrow> consistent_outputs ar)"
  shows "sound_engine E"
  unfolding sound_engine_def Let_def using assms by blast

lemma sound_engineD:
  assumes "sound_engine E"
  shows "is_qsort (sort_moves E)" "pruning_net E pc b = Some ar \<Longrightarrow> length ar = 5"
    "length ar = 5 \<Longrightarrow> race_backgammons E b ar = Some ar' \<Longrightarrow> length ar' = 5"
    "playable b \<Longrightarrow> pc = ClassifyPosition (en_dbs E) b v \<Longrightarrow> pc \<noteq> CLASS_OVER \<Longrightarrow>
       trained_eval E pc b v = Some (Some ar) \<Longrightarrow> length ar = 5 \<and> (pc \<le> CLASS_GOOD \<longrightarrow> consistent_outputs ar)"
  using assms unfolding sound_engine_def Let_def by blast+

lemma complete_engineI:
  assumes "\<And>b pc. playable b \<Longrightarrow> pc = ClassifyPosition (en_dbs E) b v \<Longrightarrow> pc \<noteq> CLASS_OVER \<Longrightarrow>
       \<exists>ar. trained_eval E pc b v = Some (Some ar)"
    "\<And>b pc. playable b \<Longrightarrow> pc = ClassifyPosition (en_dbs E) b VARIATION_STANDARD \<Longrightarrow> pc \<ge> CLASS_RACE \<Longrightarrow> pruning_net E pc b \<noteq> None"
    "\<And>b ar. playable b \<Longrightarrow> ClassifyPosition (en_dbs E) b VARIATION_STANDARD = CLASS_RACE \<Longrightarrow> length ar = 5 \<Longrightarrow> race_backgammons E b ar \<noteq> None"
    "\<And>n c probs. en_pbc1 E = Some (n, c, probs) \<Longrightarrow> bearoff_size n c \<and> 15 \<le> c"
  shows "complete_engine v E"
  unfolding complete_engine_def Let_def using assms by blast

lemma complete_engineD:
  assumes "complete_engine v E"
  shows "playable b \<Longrightarrow> pc = ClassifyPosition (en_dbs E) b v \<Longrightarrow> pc \<noteq> CLASS_OVER \<Longrightarrow> \<exists>ar. trained_eval E pc b v = Some (Some ar)"
    "playable b \<Longrightarrow> pc = ClassifyPosition (en_dbs E) b VARIATION_STANDARD \<Longrightarrow> pc \<ge> CLASS_RACE \<Longrightarrow> pruning_net E pc b \<noteq> None"
    "playable b \<Longrightarrow> ClassifyPosition (en_dbs E) b VARIATION_STANDARD = CLASS_RACE \<Longrightarrow> length ar = 5 \<Longrightarrow> race_backgammons E b ar \<noteq> None"
    "en_pbc1 E = Some (n, c, probs) \<Longrightarrow> bearoff_size n c \<and> 15 \<le> c"
  using assms order_refl [of CLASS_RACE] unfolding complete_engine_def Let_def by (blast, blast, metis, blast)

definition engine_ok :: "bool \<Rightarrow> bgvariation \<Rightarrow> search_engine \<Rightarrow> bool" where
  "engine_ok T v E \<longleftrightarrow> sound_engine E \<and> (T \<longrightarrow> complete_engine v E)"

lemma engine_okD: "engine_ok T v E \<Longrightarrow> sound_engine E" "engine_ok T v E \<Longrightarrow> T \<Longrightarrow> complete_engine v E"
  by (simp_all add: engine_ok_def)

lemma checks_total:
  assumes "complete_engine v E" "playable b"
  shows "SanityCheck (en_pbc1 E) b ar \<noteq> None"
  using SanityCheck_total [of b "en_pbc1 E" ar] complete_engineD(4) [OF assms(1)] assms(2) by (auto simp: playable_def)

lemma net_outputs_sane: "sound_engine E \<Longrightarrow> net_outputs E b pc = Some ar \<Longrightarrow> sane ar"
  unfolding net_outputs_def sane_def bind_eq_Some_conv
  by (elim exE conjE, drule SanityCheck_sane [rotated])
    (auto split: if_splits dest: sound_engineD(2) sound_engineD(3) simp: sound_engineD(2))

definition pruning_class :: "search_engine \<Rightarrow> TanBoard \<Rightarrow> positionclass" where
  "pruning_class E b = ClassifyPosition (en_dbs E) b VARIATION_STANDARD"

lemma net_outputs_total:
  assumes E: "complete_engine v E" "sound_engine E" and b: "playable b" "pruning_class E b \<ge> CLASS_RACE"
  shows "net_outputs E b (pruning_class E b) \<noteq> None"
proof -
  let ?pc = "pruning_class E b"
  obtain ar where ar: "pruning_net E ?pc b = Some ar"
    using complete_engineD(2) [OF E(1) b(1) pruning_class_def b(2)] by blast
  from sound_engineD(2) [OF E(2) this] have "?pc = CLASS_RACE \<longrightarrow> race_backgammons E b ar \<noteq> None"
    using complete_engineD(3) [OF E(1) b(1)] by (simp add: pruning_class_def)
  then obtain ar' where "(if ?pc = CLASS_RACE then race_backgammons E b ar else Some ar) = Some ar'" by fastforce
  with ar checks_total [OF E(1) b(1), of ar'] show ?thesis by (simp add: net_outputs_def)
qed

definition prune_entry :: "search_engine \<Rightarrow> positionkey \<times> int \<Rightarrow> real list \<Rightarrow> bool" where
  "prune_entry E k v \<longleftrightarrow> (\<forall>c. playable c \<longrightarrow> k = (PositionKey c, 0) \<longrightarrow>
     (\<exists>ar. net_outputs E (SwapSides c) (pruning_class E (SwapSides c)) = Some ar \<and> v = take 5 ar @ [0]))"

text \<open>The pruning cache is right, and the evaluation cache has the property \<open>A\<close>.\<close>

definition coherent :: "search_engine \<Rightarrow> (evalCache \<Rightarrow> bool) \<Rightarrow> caches \<Rightarrow> bool" where
  "coherent E A s \<longleftrightarrow> cache.holds_only (prune_entry E) (cpEval s) \<and> A (cEval s)"

lemma playable_nibble: "playable b \<Longrightarrow> nibble_board b"
  by (simp add: playable_def few_chequers_nibble)

lemma playable_cache_key: "playable b \<Longrightarrow> cache_key (PositionKey b, ctx)"
  by (simp add: playable_def few_chequers_cache_key)

lemma PositionKey_inject: "playable b \<Longrightarrow> playable c \<Longrightarrow> PositionKey b = PositionKey c \<longleftrightarrow> b = c"
  using playable_nibble PositionFromKey_PositionKey by metis

lemma playable_SwapSides: "playable b \<Longrightarrow> playable (SwapSides b)"
proof -
  assume p: "playable b"
  have "fst b ! i = 0 \<or> snd b ! (23 - i) = 0" if "i < 24" for i
  proof -
    have "23 - i < 24" "23 - (23 - i) = i" using that by simp_all
    then show ?thesis using p unfolding playable_def no_shared_def by metis
  qed
  then show ?thesis using p by (auto simp: playable_def no_shared_def wf_board_def)
qed

lemma hashMask_touch [simp]: "hashMask (cache_touch pc k) = hashMask pc"
  by (rule touch_cases [of pc k]) simp_all

lemma prune_evaluation_run:
  assumes E: "sound_engine E" and c: "playable c" and s: "coherent E A s"
  shows "rel_option (\<lambda>(r, t) ar. r = Some ar \<and> coherent E A t)
    (prune_evaluation E (PositionKey c) (SwapSides c) (pruning_class E (SwapSides c)) s)
    (net_outputs E (SwapSides c) (pruning_class E (SwapSides c)))"
proof -
  let ?k = "(PositionKey c, 0 :: int)" and ?net = "net_outputs E (SwapSides c) (pruning_class E (SwapSides c))"
  let ?ca = "cpEval s"
  have k: "cache_key ?k" by (rule playable_cache_key [OF c])
  have holds: "cache.holds_only (prune_entry E) ?ca" and A: "A (cEval s)" using s by (simp_all add: coherent_def)
  note touched = cache.holds_only_touch [OF holds k]
  show ?thesis
  proof (cases "cache_find ?ca ?k")
    case (Some v)
    from cache.holds_only_find [OF holds k this] c obtain ar where "?net = Some ar" "v = take 5 ar @ [0]"
      unfolding prune_entry_def by blast
    moreover from this(1) have "length ar = 5" using net_outputs_sane [OF E] by (simp add: sane_def)
    ultimately show ?thesis using Some touched A
      by (simp add: prune_evaluation_def CacheLookup_eq gives_def coherent_def)
  next
    case None
    show ?thesis
    proof (cases ?net)
      case net: (Some ar)
      have "prune_entry E ?k (take 5 ar @ [0])" 
        unfolding prune_entry_def using PositionKey_inject [OF c] net by (metis fst_conv)
      from cache.holds_only_store [OF touched k this] None net A
      show ?thesis by (simp add: prune_evaluation_def CacheLookup_eq gives_def coherent_def and_then_def returning_def
            cache_store_def hashMask_touch)
    qed (use None in \<open>simp add: prune_evaluation_def CacheLookup_eq and_then_def returning_def\<close>)
  qed
qed

section \<open>The searches\<close>

text \<open>Two runs that both return \<open>x\<close>.\<close>

lemma alike_runs:
  assumes "\<And>s. I s \<Longrightarrow> rel_option (\<lambda>(r, t) a. r = Some a \<and> I t) (m s) x"
    "\<And>s. J s \<Longrightarrow> rel_option (\<lambda>(r, t) a. r = Some a \<and> J t) (m' s) x" "pred_option Q x" "T \<longrightarrow> x \<noteq> None"
  shows "alike T I J Q m m'"
proof (rule alikeI)
  fix s s' assume "I s" "J s'"
  from assms(1) [OF this(1)] assms(2) [OF this(2)] assms(3,4)
  show "succeeds T (m s) \<and> rel_option (\<lambda>(r, t) (r', t'). r = r' \<and> pred_option Q r \<and> I t \<and> J t') (m s) (m' s')"
    by (cases x) (auto simp: option_rel_Some2 succeeds_def)
qed

lemma prune_evaluation_alike:
  assumes "engine_ok T v E" "playable c" "pruning_class E (SwapSides c) \<ge> CLASS_RACE"
  shows "alike T (coherent E A) (coherent E B) (\<lambda>_. True)
    (prune_evaluation E (PositionKey c) (SwapSides c) (pruning_class E (SwapSides c)))
    (prune_evaluation E (PositionKey c) (SwapSides c) (pruning_class E (SwapSides c)))"
proof (rule alike_runs)
  note run = prune_evaluation_run [OF engine_okD(1) [OF assms(1)] assms(2)]
  show "rel_option (\<lambda>(r, t) a. r = Some a \<and> coherent E A t)
      (prune_evaluation E (PositionKey c) (SwapSides c) (pruning_class E (SwapSides c)) s)
      (net_outputs E (SwapSides c) (pruning_class E (SwapSides c)))" if "coherent E A s" for s A by (rule run [OF that])
  then show "rel_option (\<lambda>(r, t) a. r = Some a \<and> coherent E B t)
      (prune_evaluation E (PositionKey c) (SwapSides c) (pruning_class E (SwapSides c)) s)
      (net_outputs E (SwapSides c) (pruning_class E (SwapSides c)))" if "coherent E B s" for s using that .
  show "T \<longrightarrow> net_outputs E (SwapSides c) (pruning_class E (SwapSides c)) \<noteq> None"
    using net_outputs_total [OF engine_okD(2) [OF assms(1)] engine_okD(1) [OF assms(1)] playable_SwapSides [OF assms(2)] assms(3)] by blast
qed (simp add: option.pred_set)

text \<open>The keys of a list of moves are those of playable boards.\<close>

definition playable_keys :: "scored_move list \<Rightarrow> bool" where
  "playable_keys ms \<longleftrightarrow> set (map pm_key ms) \<subseteq> PositionKey ` {c. playable c}"

definition good_list :: "nat \<Rightarrow> scored_list \<Rightarrow> bool" where
  "good_list n ml \<longleftrightarrow> length (sl_moves ml) = n \<and> playable_keys (sl_moves ml) \<and> sl_iMoveBest ml < n"

lemma playable_keys_nth:
  assumes "playable_keys ms" "i < length ms"
  obtains c where "playable c" "pm_key (ms ! i) = PositionKey c" "PositionFromKey (pm_key (ms ! i)) = c"
    "PositionFromKeySwapped (pm_key (ms ! i)) = SwapSides c"
proof -
  have "pm_key (ms ! i) \<in> set (map pm_key ms)" using assms(2) by simp
  with assms(1) obtain c where c: "playable c" "pm_key (ms ! i) = PositionKey c" unfolding playable_keys_def by blast
  with that show ?thesis using PositionFromKey_PositionKey [OF playable_nibble [OF c(1)]] by (simp add: PositionFromKeySwapped_eq)
qed

lemma playable_keys_cong: "map pm_key ms' = map pm_key ms \<Longrightarrow> playable_keys ms' \<longleftrightarrow> playable_keys ms"
  by (simp only: playable_keys_def)

lemma playable_keys_update:
  "playable_keys ms \<Longrightarrow> i < length ms \<Longrightarrow> pm_key m = pm_key (ms ! i) \<Longrightarrow> playable_keys (ms[i := m])"
  by (subst playable_keys_cong [of _ ms]) (simp_all add: map_update list_update_same_conv)

lemma good_list_best: "good_list n ml \<Longrightarrow> playable (PositionFromKey (pm_key (sl_moves ml ! sl_iMoveBest ml)))"
  unfolding good_list_def by (metis playable_keys_nth)

text \<open>The opponent's evaluations of playable boards agree.\<close>

definition evaluators_alike ::
  "bool \<Rightarrow> (caches \<Rightarrow> bool) \<Rightarrow> (caches \<Rightarrow> bool) \<Rightarrow> cubeinfo \<Rightarrow> evaluator \<Rightarrow> evaluator \<Rightarrow> bool" where
  "evaluators_alike T I J pci ev ev' \<longleftrightarrow>
     (\<forall>c. playable c \<longrightarrow> alike T I J (\<lambda>_. True)
        (ev 0 (pci\<lparr>ci_fMove := cnot (ci_fMove pci)\<rparr>) c) (ev' 0 (pci\<lparr>ci_fMove := cnot (ci_fMove pci)\<rparr>) c))"

lemma ScoreMove_alike:
  assumes "evaluators_alike T I J pci ev ev'" "playable_keys ms" "i < length ms"
  shows "alike T I J (\<lambda>m. pm_key m = pm_key (ms ! i)) (ScoreMove E pec ev pci 0 (ms ! i)) (ScoreMove E pec ev' pci 0 (ms ! i))"
proof -
  obtain c where c: "playable c" "PositionFromKeySwapped (pm_key (ms ! i)) = SwapSides c"
    using playable_keys_nth [OF assms(2,3)] .
  have "alike T I J (\<lambda>_. True) (ev 0 (pci\<lparr>ci_fMove := cnot (ci_fMove pci)\<rparr>) (SwapSides c))
      (ev' 0 (pci\<lparr>ci_fMove := cnot (ci_fMove pci)\<rparr>) (SwapSides c))"
    using assms(1) playable_SwapSides [OF c(1)] unfolding evaluators_alike_def by blast
  then show ?thesis unfolding ScoreMove_def c(2)
    by (rule alike_and_then) (rule alike_gives, simp add: keep_scores_def)
qed

lemma good_list_note_best: "good_list n ml \<Longrightarrow> i < n \<Longrightarrow> good_list n (note_best i ml)"
  by (simp add: good_list_def note_best_def Let_def)

lemma score_loop_alike:
  assumes "evaluators_alike T I J pci ev ev'"
  shows "good_list n ml \<Longrightarrow> \<forall>i\<in>set is. i < n \<Longrightarrow>
    alike T I J (\<lambda>(ok, ml). good_list n ml \<and> (T \<longrightarrow> ok)) (score_loop (ScoreMove E pec ev pci 0) is ml) (score_loop (ScoreMove E pec ev' pci 0) is ml)"
proof (induction "is" arbitrary: ml)
  case Nil
  then show ?case by (auto intro: alike_gives)
next
  case (Cons i "is")
  then have i: "i < n" "playable_keys (sl_moves ml)" "i < length (sl_moves ml)" by (simp_all add: good_list_def)
  have step: "alike T I J (\<lambda>(ok, ml). good_list n ml \<and> (T \<longrightarrow> ok)) (case r of None \<Rightarrow> gives (False, ml)
         | Some m \<Rightarrow> score_loop (ScoreMove E pec ev pci 0) is (note_best i (ml\<lparr>sl_moves := (sl_moves ml)[i := m]\<rparr>)))
      (case r of None \<Rightarrow> gives (False, ml)
         | Some m \<Rightarrow> score_loop (ScoreMove E pec ev' pci 0) is (note_best i (ml\<lparr>sl_moves := (sl_moves ml)[i := m]\<rparr>)))"
    if r: "pred_option (\<lambda>m. pm_key m = pm_key (sl_moves ml ! i)) r \<and> (T \<longrightarrow> r \<noteq> None)" for r
  proof (cases r)
    case None
    then show ?thesis using Cons.prems(1) r by (auto intro: alike_gives)
  next
    case (Some m)
    with r have "good_list n (ml\<lparr>sl_moves := (sl_moves ml)[i := m]\<rparr>)"
      using Cons.prems(1) i playable_keys_update [OF i(2,3)] by (simp add: good_list_def)
    from Cons.IH [OF good_list_note_best [OF this i(1)]] Cons.prems(2) Some show ?thesis by simp
  qed
  show ?case unfolding score_loop.simps
    by (rule alike_and_then [OF alike_attempt [OF ScoreMove_alike [OF assms i(2,3)]] step])
qed

lemma prune_loop_alike:
  assumes "engine_ok T v E"
  shows "playable_keys ms \<Longrightarrow> keeps_lowest (\<lambda>k. rScore (ms ! k)) i bm \<Longrightarrow> i \<le> length ms \<Longrightarrow> 0 < i \<longrightarrow> pc \<ge> CLASS_RACE \<Longrightarrow>
    alike T (coherent E A) (coherent E B)
      (\<lambda>(all, ms', bm'). map pm_key ms' = map pm_key ms \<and> (all \<longrightarrow> keeps_lowest (\<lambda>k. rScore (ms' ! k)) (length ms) bm'))
      (prune_loop E pci [i..<length ms] pc ms bm) (prune_loop E pci [i..<length ms] pc ms bm)"
proof (induction "length ms - i" arbitrary: i ms bm pc)
  case 0
  then show ?case by (auto intro: alike_gives)
next
  case (Suc d)
  then have i: "i < length ms" "[i..<length ms] = i # [Suc i..<length ms]" by (simp_all add: upt_conv_Cons)
  obtain c where c: "playable c" "pm_key (ms ! i) = PositionKey c" "PositionFromKeySwapped (pm_key (ms ! i)) = SwapSides c"
    using playable_keys_nth [OF Suc.prems(1) i(1)] by metis
  let ?Q = "\<lambda>(all, ms', bm'). map pm_key ms' = map pm_key ms \<and> (all \<longrightarrow> keeps_lowest (\<lambda>k. rScore (ms' ! k)) (length ms) bm')"
  let ?pc = "pruning_class E (SwapSides c)"
  have step: "alike T (coherent E A) (coherent E B) ?Q
      (prune_loop E pci [Suc i..<length ms] pc' ms' (keep_move (\<lambda>k. rScore (ms' ! k)) i bm))
      (prune_loop E pci [Suc i..<length ms] pc' ms' (keep_move (\<lambda>k. rScore (ms' ! k)) i bm))"
    if pc': "pc' \<ge> CLASS_RACE" and ms': "ms' = ms[i := (ms ! i)\<lparr>rScore := r\<rparr>]" for ms' r pc'
  proof -
    have keys: "map pm_key ms' = map pm_key ms"
      using i(1) by (simp add: ms' map_update list_update_same_conv)
    have "keeps_lowest (\<lambda>k. rScore (ms' ! k)) i bm"
      by (rule keeps_lowest_cong [OF _ Suc.prems(2)]) (simp add: ms')
    from Suc.hyps(1) [of ms' "Suc i", OF _ _ keep_move_lowest [OF this]] playable_keys_cong [OF keys] Suc.prems(1) keys Suc.hyps(2) i(1) pc'
    show ?thesis by (simp add: ms')
  qed
  have stop: "alike T (coherent E A) (coherent E B) ?Q (gives (False, ms, bm)) (gives (False, ms, bm))"
    by (rule alike_gives) simp
  have go: "alike T (coherent E A) (coherent E B) ?Q
      (and_then (prune_evaluation E (PositionKey c) (SwapSides c) ?pc) (\<lambda>ar.
         prune_loop E pci [Suc i..<length ms] pc' (ms[i := (ms ! i)\<lparr>rScore := UtilityME ar pci\<rparr>])
           (keep_move (\<lambda>k. rScore (ms[i := (ms ! i)\<lparr>rScore := UtilityME ar pci\<rparr>] ! k)) i bm)))
      (and_then (prune_evaluation E (PositionKey c) (SwapSides c) ?pc) (\<lambda>ar.
         prune_loop E pci [Suc i..<length ms] pc' (ms[i := (ms ! i)\<lparr>rScore := UtilityME ar pci\<rparr>])
           (keep_move (\<lambda>k. rScore (ms[i := (ms ! i)\<lparr>rScore := UtilityME ar pci\<rparr>] ! k)) i bm)))"
    if "?pc \<ge> CLASS_RACE" "pc' \<ge> CLASS_RACE" for pc'
    by (rule alike_and_then [OF prune_evaluation_alike [OF assms c(1) that(1)] step [OF that(2) refl]])
  have classes: "?pc \<ge> CLASS_RACE" "(if i = 0 then ?pc else pc) \<ge> CLASS_RACE" if "\<not> (if i = 0 then ?pc < CLASS_RACE else ?pc \<noteq> pc)"
    using that Suc.prems(4) by (auto simp: not_less split: if_splits)
  show ?case unfolding i(2) prune_loop.simps c(3) Let_def pruning_class_def [symmetric] unfolding c(2)
    using stop go [OF classes] by simp
qed

text \<open>The generated lists, and what the two searches make of them.\<close>

lemma legal_play_playable:
  assumes "playable b" "1 \<le> n0" "n0 \<le> 6" "1 \<le> n1" "n1 \<le> 6" "legal_play b n0 n1 ds is c"
  shows "playable c"
proof -
  have "dice ds" "play ds is b = Some c"
    using dice_orders_dice [OF assms(2-5)] assms(6) by (auto simp: legal_play_def possible_play_def)
  then show ?thesis using play_playable [OF assms(1)] by blast
qed

definition die :: "nat \<Rightarrow> bool" where "die n \<longleftrightarrow> 1 \<le> n \<and> n \<le> 6"

lemma generated_good:
  assumes "playable b" "die n0" "die n1"
  shows "playable_keys (sl_moves (generated b n0 n1))" "sl_iMoveBest (generated b n0 n1) = 0"
    "sl_cMoves (generated b n0 n1) = length (sl_moves (generated b n0 n1))"
proof -
  have d: "1 \<le> n0" "n0 \<le> 6" "1 \<le> n1" "n1 \<le> 6" using assms by (simp_all add: die_def)
  have "pm_key ` set (amMoves (GenerateMoves b (int n0) (int n1) False)) \<subseteq> PositionKey ` {c. playable c}"
    unfolding generated_keys [OF assms(1) d] using legal_play_playable [OF assms(1) d] by blast
  then show "playable_keys (sl_moves (generated b n0 n1))"
    by (simp add: playable_keys_def generated_def Let_def image_image unscored_def move.defs)
qed (simp_all add: generated_def Let_def)

lemma ScoreMoves_alike:
  assumes "evaluators_alike T I J pci ev ev'" "good_list n ml" "sl_cMoves ml = n"
  shows "alike T I J (\<lambda>(ok, ml). good_list n ml \<and> (T \<longrightarrow> ok)) (ScoreMoves E pec ev pci 0 ml) (ScoreMoves E pec ev' pci 0 ml)"
  unfolding ScoreMoves_def using assms(2,3) by (intro score_loop_alike [OF assms(1)]) (simp_all add: good_list_def)

lemma ScoreMovesPruned_alike:
  assumes "evaluators_alike T I J pci ev ev'" "good_list n ml" "\<forall>i\<in>set bm. i < n"
  shows "alike T I J (\<lambda>(ok, ml). good_list n ml \<and> (T \<longrightarrow> ok)) (ScoreMovesPruned E pec ev pci bm ml) (ScoreMovesPruned E pec ev' pci bm ml)"
  unfolding ScoreMovesPruned_def using assms(2,3) by (intro score_loop_alike [OF assms(1)]) (simp_all add: good_list_def)

lemma best_board_alike:
  assumes "alike T I J (\<lambda>(ok, ml). good_list n ml \<and> (T \<longrightarrow> ok)) m m'"
  shows "alike T I J playable (and_then m (\<lambda>(ok, ml). gives (PositionFromKey (pm_key (sl_moves ml ! sl_iMoveBest ml)))))
    (and_then m' (\<lambda>(ok, ml). gives (PositionFromKey (pm_key (sl_moves ml ! sl_iMoveBest ml)))))"
  by (rule alike_and_then [OF assms]) (auto intro!: alike_gives good_list_best)

lemma FindBestMoveInEval_alike:
  assumes E: "engine_ok T v E" and b: "playable b" "playable out" "die n0" "die n1"
    and ev: "evaluators_alike T (coherent E A) (coherent E B) pci ev ev'"
  shows "alike T (coherent E A) (coherent E B) playable
    (FindBestMoveInEval E ev n0 n1 b out pci pec) (FindBestMoveInEval E ev' n0 n1 b out pci pec)"
proof -
  let ?g = "generated b n0 n1" and ?flip = "pci\<lparr>ci_fMove := cnot (ci_fMove pci)\<rparr>"
  let ?ms = "sl_moves ?g"
  note g = generated_good [OF b(1,3,4)]
  have pruned: "alike T (coherent E A) (coherent E B) (\<lambda>(ok, ml). good_list (length ?ms) ml \<and> (T \<longrightarrow> ok))
      (if all then ScoreMovesPruned E pec ev pci bm (?g\<lparr>sl_moves := ms\<rparr>) else ScoreMoves E pec ev pci 0 (?g\<lparr>sl_moves := ms\<rparr>))
      (if all then ScoreMovesPruned E pec ev' pci bm (?g\<lparr>sl_moves := ms\<rparr>) else ScoreMoves E pec ev' pci 0 (?g\<lparr>sl_moves := ms\<rparr>))"
    if "map pm_key ms = map pm_key ?ms" "all \<longrightarrow> keeps_lowest (\<lambda>k. rScore (ms ! k)) (length ?ms) bm" "0 < length ?ms" for all ms bm
  proof -
    have "length ms = length ?ms" using map_eq_imp_length_eq [OF that(1)] .
    then have good: "good_list (length ?ms) (?g\<lparr>sl_moves := ms\<rparr>)" "sl_cMoves (?g\<lparr>sl_moves := ms\<rparr>) = length ?ms"
      using playable_keys_cong [OF that(1)] g that(3) by (simp_all add: good_list_def)
    show ?thesis
    proof (cases all)
      case True
      then have "\<forall>i\<in>set bm. i < length ?ms" using that(2) by (auto simp: keeps_lowest_def)
      from ScoreMovesPruned_alike [OF ev good(1) this] True show ?thesis by simp
    qed (use ScoreMoves_alike [OF ev good] in simp)
  qed
  have search: "alike T (coherent E A) (coherent E B) playable
      (and_then (prune_loop E ?flip [0..<sl_cMoves ?g] CLASS_OVER ?ms []) (\<lambda>(all, ms, bm).
         and_then (if all then ScoreMovesPruned E pec ev pci bm (?g\<lparr>sl_moves := ms\<rparr>) else ScoreMoves E pec ev pci 0 (?g\<lparr>sl_moves := ms\<rparr>))
           (\<lambda>(ok, ml). gives (PositionFromKey (pm_key (sl_moves ml ! sl_iMoveBest ml))))))
      (and_then (prune_loop E ?flip [0..<sl_cMoves ?g] CLASS_OVER ?ms []) (\<lambda>(all, ms, bm).
         and_then (if all then ScoreMovesPruned E pec ev' pci bm (?g\<lparr>sl_moves := ms\<rparr>) else ScoreMoves E pec ev' pci 0 (?g\<lparr>sl_moves := ms\<rparr>))
           (\<lambda>(ok, ml). gives (PositionFromKey (pm_key (sl_moves ml ! sl_iMoveBest ml))))))" if "0 < length ?ms"
  proof -
    have lowest: "keeps_lowest (\<lambda>k. rScore (?ms ! k)) 0 []" "0 < (0 :: nat) \<longrightarrow> CLASS_OVER \<ge> CLASS_RACE"
      by (simp_all add: keeps_lowest_def)
    note p = prune_loop_alike [OF E g(1) lowest(1) le0 lowest(2), of A B ?flip]
    show ?thesis unfolding g(3)
      by (rule alike_and_then [OF p]) 
        (simp only: split_paired_all split_conv, rule best_board_alike [OF pruned], use that in simp_all)
  qed
  show ?thesis
  proof (cases "length ?ms = 0")
    case True
    then show ?thesis using b(2) g(3) by (simp add: FindBestMoveInEval_def Let_def alike_gives)
  next
    case False
    then have "0 < length ?ms" by simp
    obtain c where "playable c" "PositionFromKey (pm_key (?ms ! 0)) = c" using playable_keys_nth [OF g(1) \<open>0 < length ?ms\<close>] .
    then have one: "alike T (coherent E A) (coherent E B) playable (gives (PositionFromKey (pm_key (?ms ! 0)))) (gives (PositionFromKey (pm_key (?ms ! 0))))"
      by (intro alike_gives) simp
    have "good_list (length ?ms) ?g" using g False by (simp add: good_list_def)
    note few = best_board_alike [OF ScoreMoves_alike [OF ev this g(3)]]
    show ?thesis unfolding FindBestMoveInEval_def Let_def
      using False one few search [OF \<open>0 < length ?ms\<close>] g(3) by simp
  qed
qed

lemma good_list_sort_used:
  assumes "is_qsort (sort_moves E)" "good_list n ml"
  shows "good_list n (sort_used E ml)"
proof -
  let ?c = "sl_cMoves ml" and ?ms = "sl_moves ml"
  have "mset (sl_moves (sort_used E ml)) = mset (take ?c ?ms @ drop ?c ?ms)"
    unfolding sort_used_def mset_append by (simp add: is_qsort_mset [OF assms(1)])
  then have m: "mset (sl_moves (sort_used E ml)) = mset ?ms" by (simp only: append_take_drop_id)
  from mset_eq_setD [OF m] mset_eq_length [OF m] assms(2) show ?thesis
    by (auto simp: good_list_def playable_keys_def sort_used_def)
qed

lemma FindBestMovePlied_alike:
  assumes E: "engine_ok T v E" and b: "playable b" "die n0" "die n1" and ev: "evaluators_alike T I J pci ev ev'"
  shows "alike T I J (\<lambda>(an, c, k). playable c) (FindBestMovePlied E ev n0 n1 b pci pec 0 aamf) (FindBestMovePlied E ev' n0 n1 b pci pec 0 aamf)"
proof -
  let ?g = "generated b n0 n1" and ?pec = "pec\<lparr>ec_nPlies := 0\<rparr>"
  let ?n = "length (sl_moves ?g)"
  note g = generated_good [OF b]
  show ?thesis
  proof (cases "?n = 0")
    case True
    then show ?thesis using b(1) g(3) by (simp add: FindBestMovePlied_0 Let_def alike_gives)
  next
    case False
    then have "good_list ?n ?g" using g by (simp add: good_list_def)
    note s = ScoreMoves_alike [OF ev this g(3), of E ?pec]
    have "playable (PositionFromKey (pm_key (sl_moves (sort_used E ml) ! sl_iMoveBest (sort_used E ml))))" if "good_list ?n ml" for ml
      using good_list_best [OF good_list_sort_used [OF _ that]] E by (simp add: engine_ok_def sound_engine_def)
    with False g(3) show ?thesis unfolding FindBestMovePlied_0 Let_def
      using b(1) by (auto intro!: alike_and_then [OF s] alike_gives alike_failed)
  qed
qed

lemma best_reply_alike:
  assumes E: "engine_ok T v E" and b: "playable b" "die (fst n)" "die (snd n)"
    and ev: "evaluators_alike T (coherent E A) (coherent E B) pci ev ev'"
  shows "alike T (coherent E A) (coherent E B) playable (best_reply E ev pec pci b n) (best_reply E ev' pec pci b n)"
proof -
  have "alike T (coherent E A) (coherent E B) playable
      (gives (case r of Some (an, b', c) \<Rightarrow> b' | None \<Rightarrow> b)) (gives (case r of Some (an, b', c) \<Rightarrow> b' | None \<Rightarrow> b))"
    if "pred_option (\<lambda>(an, c, k). playable c) r \<and> (T \<longrightarrow> r \<noteq> None)" for r :: "(int list \<times> TanBoard \<times> nat) option"
    by (rule alike_gives) (use that b(1) in \<open>cases r; auto\<close>)
  note plied = alike_and_then [OF alike_attempt [OF FindBestMovePlied_alike [OF E b ev]] this]
  show ?thesis unfolding best_reply_def
    using FindBestMoveInEval_alike [OF E b(1,1,2,3) ev] plied by simp
qed

section \<open>The evaluation\<close>

text \<open>A cube as \<open>SetCubeInfo\<close> sets it up; it is then so for the opponent too.\<close>

definition set_up :: "search_engine \<Rightarrow> cubeinfo \<Rightarrow> bool" where
  "set_up E pci \<longleftrightarrow>
     SetCubeInfo (ci_nCube pci) (ci_fCubeOwner pci) (ci_fMove pci) (ci_nMatchTo pci) (ci_anScore pci)
       (ci_fCrawford pci) (ci_fJacoby pci) (ci_fBeavers pci) (ci_bgv pci) (aafMET E) (aafMETPostCrawford E) = Some (0, pci)"

definition opponent :: "cubeinfo \<Rightarrow> cubeinfo" where
  "opponent pci = pci\<lparr>ci_fMove := cnot (ci_fMove pci)\<rparr>"

lemma set_up_move: "set_up E pci \<Longrightarrow> ci_fMove pci = 0 \<or> ci_fMove pci = 1"
  by (auto simp: set_up_def SetCubeInfo_def SetCubeInfoMatch_def SetCubeInfoMoney_def Let_def split: if_splits)

lemma opponent_opponent: "set_up E pci \<Longrightarrow> opponent (opponent pci) = pci"
  using set_up_move by (fastforce simp: opponent_def cnot_def)

lemma opponent_cube_set_up:
  assumes "set_up E pci"
  shows "opponent_cube E pci = Some (opponent pci)" "set_up E (opponent pci)"
proof -
  have "SetCubeInfo (ci_nCube pci) (ci_fCubeOwner pci) (cnot (ci_fMove pci)) (ci_nMatchTo pci) (ci_anScore pci)
       (ci_fCrawford pci) (ci_fJacoby pci) (ci_fBeavers pci) (ci_bgv pci) (aafMET E) (aafMETPostCrawford E) = Some (0, opponent pci)"
    using assms unfolding set_up_def SetCubeInfo_def SetCubeInfoMatch_def SetCubeInfoMoney_def Let_def opponent_def
    by (cases pci) (auto simp: cnot_def split: if_splits)
  then show "opponent_cube E pci = Some (opponent pci)" "set_up E (opponent pci)"
    by (simp_all add: opponent_cube_def set_up_def opponent_def)
qed

text \<open>Averages of consistent outputs are consistent, and so are the outputs of the other side.\<close>

definition partial_average :: "real \<Rightarrow> real list \<Rightarrow> bool" where
  "partial_average w ar \<longleftrightarrow> length ar = 5 \<and>
     0 \<le> ar ! OUTPUT_WIN \<and> ar ! OUTPUT_WIN \<le> w \<and>
     ar ! OUTPUT_WINGAMMON \<le> ar ! OUTPUT_WIN \<and> ar ! OUTPUT_LOSEGAMMON \<le> w - ar ! OUTPUT_WIN \<and>
     ar ! OUTPUT_WINBACKGAMMON \<le> ar ! OUTPUT_WINGAMMON \<and> ar ! OUTPUT_LOSEBACKGAMMON \<le> ar ! OUTPUT_LOSEGAMMON"

lemma partial_average_add:
  assumes "partial_average w ar" "sane ys" "0 \<le> v"
  shows "partial_average (w + v) (add_weighted v ar ys)"
proof -
  obtain a b c d e where ar: "ar = [a, b, c, d, e]" using assms(1) list_5 by (metis partial_average_def)
  obtain a' b' c' d' e' where ys: "ys = [a', b', c', d', e']" using assms(2) list_5 by (metis sane_def)
  have "b' \<le> a'" "c' \<le> b'" "e' \<le> d'" "d' \<le> 1 - a'" "a' \<le> 1" "0 \<le> a'"
    using assms(2) by (simp_all add: sane_def consistent_outputs_def ys outputs)
  note this [THEN mult_left_mono, OF assms(3)]
  with assms(1) show ?thesis
    by (simp add: partial_average_def add_weighted_def ar ys outputs algebra_simps)
qed

lemma InvertEvaluation_list:
  "InvertEvaluation [a, b, c, d, e] = [1 - a, d, e, b, c]"
  by (simp add: InvertEvaluation_def outputs Let_def)

lemma average_sane:
  assumes "partial_average 36 ar"
  shows "sane (InvertEvaluation (map (\<lambda>r. r / 36) ar))"
proof -
  obtain a b c d e where ar: "ar = [a, b, c, d, e]" using assms list_5 by (metis partial_average_def)
  show ?thesis using assms
    by (simp add: ar InvertEvaluation_list sane_def consistent_outputs_def partial_average_def outputs field_simps)
qed

lemma EvalOver_sane: "sane (EvalOver b (replicate 5 0) v)"
proof -
  have "replicate 5 0 = [0, 0, 0, 0, 0 :: real]" by (simp add: eval_nat_numeral)
  then show ?thesis by (simp add: EvalOver_def sane_def consistent_outputs_def outputs Let_def)
qed

lemma acef_sane:
  assumes "sound_engine E" "playable b" "pc = ClassifyPosition (en_dbs E) b v" "acef E pc b v = Some (Some ar)"
  shows "length ar = 5" "pc \<le> CLASS_GOOD \<Longrightarrow> sane ar"
proof -
  have "sane ar" if "pc = CLASS_OVER" using assms(4) EvalOver_sane [of b v] that by (simp add: acef_def)
  moreover have "length ar = 5 \<and> (pc \<le> CLASS_GOOD \<longrightarrow> consistent_outputs ar)" if "pc \<noteq> CLASS_OVER"
    using sound_engineD(4) [OF assms(1-3) that] assms(4) that by (simp add: acef_def)
  ultimately show "length ar = 5" "pc \<le> CLASS_GOOD \<Longrightarrow> sane ar" by (auto simp: sane_def)
qed

lemma acef_total:
  assumes "complete_engine v E" "playable b" "pc = ClassifyPosition (en_dbs E) b v"
  shows "\<exists>ar. acef E pc b v = Some (Some ar)"
  using complete_engineD(1) [OF assms] by (cases "pc = CLASS_OVER") (simp_all add: acef_def)

lemma leaf_alike:
  assumes E: "engine_ok T (ci_bgv pci) E" and b: "playable b"
  shows "alike T I J sane (leaf_evaluation E pec pci b) (leaf_evaluation E pec pci b)"
proof -
  let ?pc = "class_of E pci b"
  have "alike T I J sane (checked E pec b ?pc (add_noise E pec b ?pc ar)) (checked E pec b ?pc (add_noise E pec b ?pc ar))"
    if ar: "acef E ?pc b (ci_bgv pci) = Some (Some ar)" for ar
  proof (cases "?pc > CLASS_GOOD \<or> ec_rNoise pec > 0")
    case True
    have "length ar = 5" by (rule acef_sane(1) [OF engine_okD(1) [OF E] b class_of_def ar])
    then have "length (add_noise E pec b ?pc ar) = 5" by (simp add: add_noise_def NUM_OUTPUTS_def)
    with True show ?thesis unfolding checked_def using checks_total [OF engine_okD(2) [OF E] b]
      by (intro alike_returning) (auto simp: option.pred_set sane_def dest: SanityCheck_sane)
  next
    case False
    then have "sane ar" by (intro acef_sane(2) [OF engine_okD(1) [OF E] b class_of_def ar]) (simp add: not_less)
    with False show ?thesis unfolding checked_def by (intro alike_returning) (simp_all add: add_noise_def)
  qed
  note step = this
  show ?thesis unfolding leaf_evaluation_def static_evaluation_def
  proof (rule alike_and_then)
    show "alike T I J (\<lambda>ar. acef E ?pc b (ci_bgv pci) = Some (Some ar))
        (outcome (acef E ?pc b (ci_bgv pci))) (outcome (acef E ?pc b (ci_bgv pci)))"
      by (rule alike_outcome) (use acef_total [OF engine_okD(2) [OF E] b class_of_def] in simp_all)
  qed (rule step)
qed

text \<open>The evaluations one ply deeper agree on playable boards.\<close>

definition depths_alike ::
  "bool \<Rightarrow> (caches \<Rightarrow> bool) \<Rightarrow> (caches \<Rightarrow> bool) \<Rightarrow> cubeinfo \<Rightarrow> (cubeinfo \<Rightarrow> TanBoard \<Rightarrow> real list eval) \<Rightarrow>
   (cubeinfo \<Rightarrow> TanBoard \<Rightarrow> real list eval) \<Rightarrow> bool" where
  "depths_alike T I J pci deeper deeper' \<longleftrightarrow>
     (\<forall>c. playable c \<longrightarrow> alike T I J sane (deeper (opponent pci) c) (deeper' (opponent pci) c))"

lemma depths_alikeD:
  "depths_alike T I J pci deeper deeper' \<Longrightarrow> playable c \<Longrightarrow> alike T I J sane (deeper (opponent pci) c) (deeper' (opponent pci) c)"
  unfolding depths_alike_def by blast

lemma one_roll_alike:
  assumes E: "engine_ok T v E" and b: "playable b" "die (fst n)" "die (snd n)" and pci: "set_up E pci"
    and ev: "evaluators_alike T (coherent E A) (coherent E B) pci ev ev'"
    and deeper: "depths_alike T (coherent E A) (coherent E B) pci deeper deeper'"
    and ar: "partial_average w ar"
  shows "alike T (coherent E A) (coherent E B) (partial_average (w + weight_of_roll n))
    (one_roll E ev deeper pec pci b n ar) (one_roll E ev' deeper' pec pci b n ar)"
proof -
  have "0 \<le> weight_of_roll n" by (simp add: weight_of_roll_def)
  note add = partial_average_add [OF ar _ this]
  have returning_Some: "and_then (returning (Some x)) f = f x" for x :: cubeinfo and f :: "cubeinfo \<Rightarrow> real list eval"
    by (simp add: fun_eq_iff and_then_def returning_def)
  show ?thesis unfolding one_roll_def opponent_cube_set_up(1) [OF pci] returning_Some
    by (rule alike_and_then [OF best_reply_alike [OF E b ev]], rule alike_and_then [OF depths_alikeD [OF deeper]])
      (auto intro: playable_SwapSides alike_gives add)
qed

lemma each_roll_alike:
  assumes E: "engine_ok T v E" and b: "playable b" and pci: "set_up E pci"
    and ev: "evaluators_alike T (coherent E A) (coherent E B) pci ev ev'"
    and deeper: "depths_alike T (coherent E A) (coherent E B) pci deeper deeper'"
  shows "\<forall>n\<in>set ns. die (fst n) \<and> die (snd n) \<Longrightarrow> partial_average w ar \<Longrightarrow>
    alike T (coherent E A) (coherent E B) (partial_average (w + sum_list (map weight_of_roll ns)))
      (each (one_roll E ev deeper pec pci b) ns ar) (each (one_roll E ev' deeper' pec pci b) ns ar)"
proof (induction ns arbitrary: w ar)
  case Nil
  then show ?case by (simp add: alike_gives)
next
  case (Cons n ns)
  then have n: "die (fst n)" "die (snd n)" and ns: "\<forall>n\<in>set ns. die (fst n) \<and> die (snd n)" by simp_all
  note roll = one_roll_alike [OF E b n pci ev deeper Cons.prems(2)]
  have "alike T (coherent E A) (coherent E B) (partial_average (w + weight_of_roll n + sum_list (map weight_of_roll ns)))
      (each (one_roll E ev deeper pec pci b) (n # ns) ar) (each (one_roll E ev' deeper' pec pci b) (n # ns) ar)"
    unfolding each.simps by (rule alike_and_then [OF roll]) (rule Cons.IH [OF ns])
  then show ?case by (simp add: add.assoc)
qed

lemma rolls_dice: "\<forall>n\<in>set rolls. die (fst n) \<and> die (snd n)"
  by (auto simp: rolls_def die_def)

lemma rolls_weight: "sum_list (map weight_of_roll rolls) = 36"
  by (simp add: rolls_def weight_of_roll_def upt_rec)

lemma average_rolls_alike:
  assumes "engine_ok T v E" "playable b" "set_up E pci"
    and "evaluators_alike T (coherent E A) (coherent E B) pci ev ev'"
    and "depths_alike T (coherent E A) (coherent E B) pci deeper deeper'"
  shows "alike T (coherent E A) (coherent E B) sane (average_rolls E ev deeper pec pci b) (average_rolls E ev' deeper' pec pci b)"
proof -
  have "partial_average 0 (replicate NUM_OUTPUTS 0)"
    by (simp add: partial_average_def NUM_OUTPUTS_def outputs)
  from each_roll_alike [OF assms rolls_dice this] show ?thesis unfolding average_rolls_def rolls_weight
    by (rule alike_and_then) (auto intro: alike_gives average_sane)
qed

section \<open>The evaluation cache\<close>

text \<open>
  The contexts of a cubeless evaluation with the cube \<open>pci\<close>: the plies and whose turn it is are in
  the lowest bits of the key.
\<close>

definition eval_context :: "evalcontext \<Rightarrow> nat \<Rightarrow> cubeinfo \<Rightarrow> int option" where
  "eval_context pec n pci = EvalKey (ec_fCubeful pec) (ec_fUsePrune pec) (int n) pci False"

lemma take_bit_push_high: "k \<le> m \<Longrightarrow> take_bit k (push_bit m y) = 0" for y :: int
  by (rule bit_eqI) (auto simp: bit_take_bit_iff bit_push_bit_iff)

lemma eval_context_low:
  assumes "ec_fCubeful pec = 0" "eval_context pec n pci = Some ctx"
  shows "take_bit 6 ctx = take_bit 6 (int n OR push_bit 5 (ci_fMove pci))"
  using assms unfolding eval_context_def EvalKey_def
  by (auto simp: Let_def take_bit_push_high split: if_splits)

lemma eval_context_inject:
  assumes c: "ec_fCubeful pec = 0" and n: "n < 16" "n' < 16"
    and m: "ci_fMove p = 0 \<or> ci_fMove p = 1" "ci_fMove p' = 0 \<or> ci_fMove p' = 1"
    and eq: "eval_context pec n p = Some ctx" "eval_context pec n' p' = Some ctx"
  shows "n = n' \<and> ci_fMove p = ci_fMove p'"
proof -
  have e: "take_bit 6 (int n OR push_bit 5 (ci_fMove p)) = take_bit 6 (int n' OR push_bit 5 (ci_fMove p'))"
    using eval_context_low [OF c eq(1)] eval_context_low [OF c eq(2)] by simp
  have b: "bit (int n OR push_bit 5 (ci_fMove p)) i = bit (int n' OR push_bit 5 (ci_fMove p')) i" if "i < 6" for i
    using arg_cong [OF e, of "\<lambda>x. bit x i"] that by (simp only: bit_take_bit_iff simp_thms)
  have range: "0 \<le> int n" "int n < 2 ^ 4" "0 \<le> int n'" "int n' < 2 ^ 4" using n by simp_all
  have "int n = int n'"
  proof (rule small_bits_eqI [OF range])
    fix i :: nat assume "i < 4"
    then show "bit (int n) i = bit (int n') i" using b [of i] by (simp add: bit_or_iff bit_push_bit_iff)
  qed
  moreover have "\<not> bit (int n) 5" "\<not> bit (int n') 5"
    using bit_small [OF range(1,2)] bit_small [OF range(3,4)] by fastforce+
  then have "bit (ci_fMove p) 0 = bit (ci_fMove p') 0" using b [of 5] by (simp add: bit_or_iff bit_push_bit_iff)
  then have "ci_fMove p = ci_fMove p'" using m by auto
  ultimately show ?thesis by simp
qed

lemma eval_context_some:
  assumes "set_up E p" "ec_fCubeful pec = 0"
  shows "\<exists>ctx. eval_context pec n p = Some ctx"
proof -
  have "ci_nMatchTo p \<noteq> 0 \<longrightarrow> LogCube (ci_nCube p) \<noteq> None"
    using assms(1) by (auto simp: set_up_def SetCubeInfo_def SetCubeInfoMatch_def Let_def split: if_splits)
  then show ?thesis using assms(2) by (auto simp: eval_context_def EvalKey_def Let_def)
qed

definition no_cache :: "search_engine \<Rightarrow> search_engine" where
  "no_cache E = E\<lparr>cCache := 0\<rparr>"

abbreviation whose :: "cubeinfo \<Rightarrow> cubeinfo set" where
  "whose pci \<equiv> {pci, opponent pci}"

lemma whose_set_up: "set_up E pci \<Longrightarrow> p \<in> whose pci \<Longrightarrow> set_up E p \<and> opponent p \<in> whose pci"
  using opponent_cube_set_up(2) opponent_opponent by auto

lemma whose_bgv: "p \<in> whose pci \<Longrightarrow> ci_bgv p = ci_bgv pci"
  by (auto simp: opponent_def)

lemma whose_engine_ok: "p \<in> whose pci \<Longrightarrow> engine_ok T (ci_bgv pci) E \<Longrightarrow> engine_ok T (ci_bgv p) E"
  by (simp only: whose_bgv)

text \<open>
  A right entry: what the evaluation without the cache returns, if the key is one that evaluations
  with the cube \<open>pci\<close> use.  Entries of other contexts can be anything.
\<close>

definition eval_entry :: "search_engine \<Rightarrow> evalcontext \<Rightarrow> cubeinfo \<Rightarrow> positionkey \<times> int \<Rightarrow> real list \<Rightarrow> bool" where
  "eval_entry E pec pci k v \<longleftrightarrow> (\<forall>n p b. n < 16 \<longrightarrow> p \<in> whose pci \<longrightarrow> playable b \<longrightarrow>
     fst k = PositionKey b \<longrightarrow> eval_context pec n p = Some (snd k) \<longrightarrow>
     (\<forall>s. coherent E (\<lambda>_. True) s \<longrightarrow>
        (\<exists>ar t. EvaluatePositionFull (no_cache E) pec n p b s = Some (Some ar, t) \<and> v = take 5 ar @ [0])))"

definition right_cache :: "search_engine \<Rightarrow> evalcontext \<Rightarrow> cubeinfo \<Rightarrow> u32 \<Rightarrow> evalCache \<Rightarrow> bool" where
  "right_cache E pec pci h ca \<longleftrightarrow> hashMask ca = h \<and> cache.holds_only (eval_entry E pec pci) ca"

lemma shallow_cubeless:
  "ec_fCubeful pec = 0 \<Longrightarrow> shallow E pec n p b =
     and_then (EvaluatePositionCache E pec 0 p b (leaf_evaluation E pec p b)) (\<lambda>ar. gives (ar @ [UtilityME ar p, 0]))"
  by (simp add: shallow_def general_evaluation_def)

text \<open>Without the cache the results do not depend on the state at all.\<close>

lemma uncached_alike:
  assumes E: "engine_ok T (ci_bgv pci) E" and c: "ec_fCubeful pec = 0" and pci: "set_up E pci"
  shows "p \<in> whose pci \<Longrightarrow> playable b \<Longrightarrow> alike T (coherent E A) (coherent E B) sane
    (EvaluatePositionFull (no_cache E) pec n p b) (EvaluatePositionFull (no_cache E) pec n p b)"
proof (induction n arbitrary: p b)
  case 0
  then show ?case by (simp add: no_cache_def leaf_alike [OF whose_engine_ok [OF _ E]])
next
  case (Suc n)
  note p = whose_set_up [OF pci Suc.prems(1)]
  have uncached: "EvaluatePositionCache (no_cache E) pec m q a full = full" for m q a full
    by (simp add: EvaluatePositionCache_def no_cache_def fun_eq_iff)
  have "evaluators_alike T (coherent E A) (coherent E B) p (shallow (no_cache E) pec) (shallow (no_cache E) pec)"
    unfolding evaluators_alike_def shallow_cubeless [OF c] uncached
    using whose_engine_ok [OF conjunct2 [OF p] E]
    by (auto simp: no_cache_def opponent_def intro!: alike_and_then [OF leaf_alike] alike_gives simp del: split_paired_All)
  moreover have "depths_alike T (coherent E A) (coherent E B) p (EvaluatePositionFull (no_cache E) pec n) (EvaluatePositionFull (no_cache E) pec n)"
    unfolding depths_alike_def using Suc.IH p by blast
  ultimately have "alike T (coherent E A) (coherent E B) sane
      (average_rolls E (shallow (no_cache E) pec) (EvaluatePositionFull (no_cache E) pec n) pec p b)
      (average_rolls E (shallow (no_cache E) pec) (EvaluatePositionFull (no_cache E) pec n) pec p b)"
    by (intro average_rolls_alike [OF E Suc.prems(2)]) (use p in auto)
  then show ?case unfolding EvaluatePositionFull.simps uncached using leaf_alike [OF whose_engine_ok [OF Suc.prems(1) E] Suc.prems(2)] by (simp add: no_cache_def)
qed

lemma EvaluatePositionCache_eq:
  assumes "cCache E \<noteq> 0" "ec_rNoise pec = 0" "eval_context pec n p = Some ctx"
  shows "EvaluatePositionCache E pec n p b full s =
    (let k = (PositionKey b, ctx); s' = s\<lparr>cEval := cache_touch (cEval s) k\<rparr> in
     case cache_find (cEval s) k of
       Some v \<Rightarrow> gives (take 5 v) s'
     | None \<Rightarrow> and_then full (\<lambda>ar t. gives ar (t\<lparr>cEval := CacheAdd (cEval t) \<lparr>nd_key = fst k, nEvalContext = snd k, nd_ar = take 5 ar @ [0]\<rparr>
           (GetHashKey (hashMask (cEval s)) (fst k) (snd k))\<rparr>)) s')"
  using assms by (auto simp: EvaluatePositionCache_def eval_context_def CacheLookup_eq Let_def split: option.split)

text \<open>What a miss stores is right, and a right entry is what the evaluation would return.\<close>

lemma eval_entry_stored:
  assumes E: "engine_ok T (ci_bgv pci) E" and c: "ec_fCubeful pec = 0" and pci: "set_up E pci"
    and p: "p \<in> whose pci" "playable b" "n < 16" "eval_context pec n p = Some ctx"
    and run: "EvaluatePositionFull (no_cache E) pec n p b s = Some (Some ar, t)" "coherent E (\<lambda>_. True) s"
  shows "eval_entry E pec pci (PositionKey b, ctx) (take 5 ar @ [0])"
  unfolding eval_entry_def fst_conv snd_conv
proof (intro allI impI)
  fix n' p' b' s' assume q: "n' < 16" "p' \<in> whose pci" "playable b'" "PositionKey b = PositionKey b'"
    "eval_context pec n' p' = Some ctx" "coherent E (\<lambda>_. True) s'"
  have "b' = b" using PositionKey_inject [OF p(2) q(3)] q(4) by simp
  have m: "ci_fMove x = 0 \<or> ci_fMove x = 1" if "x \<in> whose pci" for x
    using set_up_move whose_set_up [OF pci that] by blast
  have "n = n' \<and> ci_fMove p = ci_fMove p'"
    by (rule eval_context_inject [OF c p(3) q(1) m [OF p(1)] m [OF q(2)] p(4) q(5)])
  moreover from this have "p' = p" using p(1) q(2) m [of pci] by (auto simp: opponent_def cnot_def)
  ultimately show "\<exists>ar' t. EvaluatePositionFull (no_cache E) pec n' p' b' s' = Some (Some ar', t) \<and> take 5 ar @ [0] = take 5 ar' @ [0]"
    using alike_same [OF uncached_alike [OF E c pci p(1,2)] run(2) q(6), of n] run(1) \<open>b' = b\<close>
    by (auto simp: option_rel_Some1)
qed

lemma cached_alike:
  assumes E: "engine_ok T (ci_bgv pci) E" and c: "ec_fCubeful pec = 0" and pci: "set_up E pci"
    and p: "p \<in> whose pci" "playable b" "n < 16"
    and full: "alike T (coherent E (right_cache E pec pci h)) (coherent E (\<lambda>_. True)) sane full (EvaluatePositionFull (no_cache E) pec n p b)"
  shows "alike T (coherent E (right_cache E pec pci h)) (coherent E (\<lambda>_. True)) sane
    (EvaluatePositionCache E pec n p b full) (EvaluatePositionFull (no_cache E) pec n p b)"
proof (cases "cCache E = 0 \<or> ec_rNoise pec \<noteq> 0")
  case True
  then have "EvaluatePositionCache E pec n p b full = full" by (auto simp: EvaluatePositionCache_def fun_eq_iff)
  with full show ?thesis by simp
next
  case False
  obtain ctx where ctx: "eval_context pec n p = Some ctx" using eval_context_some [OF _ c] whose_set_up [OF pci p(1)] by blast
  note eq = EvaluatePositionCache_eq [of E, OF _ _ ctx]
  let ?k = "(PositionKey b, ctx)" and ?F = "EvaluatePositionFull (no_cache E) pec n p b"
  let ?I = "coherent E (right_cache E pec pci h)" and ?J = "coherent E (\<lambda>_. True)"
  have k: "cache_key ?k" by (rule playable_cache_key [OF p(2)])
  show ?thesis
  proof (rule alikeI)
    fix s s' assume s: "?I s" and s': "?J s'"
    then have holds: "cache.holds_only (eval_entry E pec pci) (cEval s)" "hashMask (cEval s) = h"
      by (simp_all add: coherent_def right_cache_def)
    let ?t = "s\<lparr>cEval := cache_touch (cEval s) ?k\<rparr>"
    have t: "?I ?t" using s cache.holds_only_touch [OF holds(1) k] by (simp add: coherent_def right_cache_def)
    show "succeeds T (EvaluatePositionCache E pec n p b full s) \<and> rel_option (\<lambda>(r, t) (r', t'). r = r' \<and> pred_option sane r \<and> ?I t \<and> ?J t')
        (EvaluatePositionCache E pec n p b full s) (?F s')"
    proof (cases "cache_find (cEval s) ?k")
      case (Some v)
      from cache.holds_only_find [OF holds(1) k Some] s' p ctx obtain ar t'
        where ar: "?F s' = Some (Some ar, t')" "v = take 5 ar @ [0]" unfolding eval_entry_def fst_conv snd_conv by blast
      from alike_same [OF uncached_alike [OF E c pci p(1,2)] s' s', of n] ar(1) have "sane ar" "?J t'" by auto
      with ar t show ?thesis using Some False by (simp add: eq Let_def gives_def sane_def succeeds_def)
    next
      case None
      from full t s' show ?thesis
      proof (cases rule: alike_cases)
        case (3 ar u u')
        have u: "cache.holds_only (eval_entry E pec pci) (cEval u)" "hashMask (cEval u) = h"
          using 3(4) by (simp_all add: coherent_def right_cache_def)
        from cache.holds_only_store [OF u(1) k eval_entry_stored [OF E c pci p ctx 3(2) s']]
        have "right_cache E pec pci h (cache_store (cEval u) ?k (take 5 ar @ [0]))"
          using u(2) by (simp add: right_cache_def cache_store_def CacheAdd_def)
        with 3 None False holds(2) u(2) show ?thesis
          by (simp add: eq Let_def gives_def and_then_def coherent_def cache_store_def succeeds_def)
      qed (use None False in \<open>simp_all add: eq Let_def and_then_def succeeds_def\<close>)
    qed
  qed
qed

lemma evaluate_alike:
  assumes E: "engine_ok T (ci_bgv pci) E" and c: "ec_fCubeful pec = 0" and pci: "set_up E pci"
  shows "p \<in> whose pci \<Longrightarrow> playable b \<Longrightarrow> n < 16 \<Longrightarrow>
    alike T (coherent E (right_cache E pec pci h)) (coherent E (\<lambda>_. True)) sane
      (evaluate E pec n p b) (evaluate (no_cache E) pec n p b)"
proof (induction n arbitrary: p b)
  have uncached: "EvaluatePositionCache (no_cache E) pec m q a full = full" for m q a full
    by (simp add: EvaluatePositionCache_def no_cache_def fun_eq_iff)
  {
    case 0
    have "alike T (coherent E (right_cache E pec pci h)) (coherent E (\<lambda>_. True)) sane
        (EvaluatePositionFull E pec 0 p b) (EvaluatePositionFull (no_cache E) pec 0 p b)"
      using leaf_alike [OF whose_engine_ok [OF 0(1) E] 0(2)] by (simp add: no_cache_def)
    from cached_alike [OF E c pci 0 this] show ?case by (simp only: evaluate_def uncached)
  next
    case (Suc n)
    note q = whose_set_up [OF pci Suc.prems(1)]
    have n: "n < 16" "0 < (16 :: nat)" using Suc.prems(3) by simp_all
    have leaf: "alike T (coherent E (right_cache E pec pci h)) (coherent E (\<lambda>_. True)) sane
        (EvaluatePositionCache E pec 0 a x (leaf_evaluation E pec a x)) (leaf_evaluation E pec a x)"
      if "a \<in> whose pci" "playable x" for a x
      using cached_alike [OF E c pci that n(2), of h "leaf_evaluation E pec a x"] leaf_alike [OF whose_engine_ok [OF that(1) E] that(2)] by (simp add: no_cache_def)
    have "evaluators_alike T (coherent E (right_cache E pec pci h)) (coherent E (\<lambda>_. True)) p (shallow E pec) (shallow (no_cache E) pec)"
      unfolding evaluators_alike_def shallow_cubeless [OF c] uncached opponent_def [symmetric]
    proof (intro allI impI)
      fix x assume "playable x"
      have e: "leaf_evaluation (no_cache E) = leaf_evaluation E" by (simp add: no_cache_def)
      show "alike T (coherent E (right_cache E pec pci h)) (coherent E (\<lambda>_. True)) (\<lambda>_. True)
          (and_then (EvaluatePositionCache E pec 0 (opponent p) x (leaf_evaluation E pec (opponent p) x))
            (\<lambda>ar. gives (ar @ [UtilityME ar (opponent p), 0])))
          (and_then (leaf_evaluation (no_cache E) pec (opponent p) x) (\<lambda>ar. gives (ar @ [UtilityME ar (opponent p), 0])))"
        unfolding e by (rule alike_and_then [OF leaf [OF conjunct2 [OF q] \<open>playable x\<close>]]) (rule alike_gives, rule TrueI)
    qed
    moreover have "depths_alike T (coherent E (right_cache E pec pci h)) (coherent E (\<lambda>_. True)) p
        (\<lambda>ci b. EvaluatePositionCache E pec n ci b (EvaluatePositionFull E pec n ci b)) (EvaluatePositionFull (no_cache E) pec n)"
      unfolding depths_alike_def using Suc.IH [OF _ _ n(1)] q by (simp add: evaluate_def uncached)
    ultimately have "alike T (coherent E (right_cache E pec pci h)) (coherent E (\<lambda>_. True)) sane
        (average_rolls E (shallow E pec) (\<lambda>ci b. EvaluatePositionCache E pec n ci b (EvaluatePositionFull E pec n ci b)) pec p b)
        (average_rolls E (shallow (no_cache E) pec) (EvaluatePositionFull (no_cache E) pec n) pec p b)"
      by (intro average_rolls_alike [OF E Suc.prems(2)]) (use q in auto)
    then have "alike T (coherent E (right_cache E pec pci h)) (coherent E (\<lambda>_. True)) sane
        (EvaluatePositionFull E pec (Suc n) p b) (EvaluatePositionFull (no_cache E) pec (Suc n) p b)"
      unfolding EvaluatePositionFull.simps uncached using leaf_alike [OF whose_engine_ok [OF Suc.prems(1) E] Suc.prems(2)] by (simp add: no_cache_def)
    from cached_alike [OF E c pci Suc.prems this] show ?case by (simp only: evaluate_def uncached)
  }
qed

text \<open>Fresh caches are right.\<close>

lemma fresh_caches_coherent:
  "coherent E (right_cache E pec pci 0) fresh_caches" "coherent E (\<lambda>_. True) fresh_caches"
proof -
  have "cache.holds_only R flushed_cache" for R :: "positionkey \<times> int \<Rightarrow> real list \<Rightarrow> bool"
    using flushed_cache_find by (simp add: cache.holds_only_def flushed_cache_ok)
  moreover have "hashMask flushed_cache = 0" by (simp add: flushed_cache_def Let_def)
  ultimately show "coherent E (right_cache E pec pci 0) fresh_caches" "coherent E (\<lambda>_. True) fresh_caches"
    by (simp_all add: coherent_def right_cache_def fresh_caches_def)
qed



text \<open>C8: With an engine that is complete for the variation played, one whose databases cover fifteen chequers and
  whose evaluators answer for every playable position, \<open>EvaluatePosition\<close> returns outputs at any number of plies, with the cache or
  without: no search fails and no check or key is left without a value.\<close>

theorem EvaluatePosition_returns:
  assumes "sound_engine E" "complete_engine (ci_bgv pci) E" "ec_fCubeful pec = 0" "set_up E pci" "ec_nPlies pec < 16" "playable b"
    and "coherent E (right_cache E pec pci h) s"
  shows "\<exists>ar t. EvaluatePosition E b pci (Some pec) s = Some (Some ar, t) \<and> coherent E (right_cache E pec pci h) t"
proof -
  have "alike True (coherent E (right_cache E pec pci h)) (coherent E (\<lambda>_. True)) sane
      (evaluate E pec (ec_nPlies pec) pci b) (evaluate (no_cache E) pec (ec_nPlies pec) pci b)"
    by (rule evaluate_alike [OF _ assms(3,4) _ assms(6,5)]) (simp_all add: engine_ok_def assms(1,2))
  from alikeD [OF this assms(7) fresh_caches_coherent(2)] show ?thesis
    by (auto simp: EvaluatePosition_def succeeds_def option_rel_Some1)
qed

section \<open>Instances\<close>

text \<open>The engine that counts pips, with the cache turned on, and the cube of a game for money.\<close>

definition caching_engine :: search_engine where
  "caching_engine = pip_engine\<lparr>cCache := 1\<rparr>"

definition money_cubeinfo :: cubeinfo where
  "money_cubeinfo = \<lparr>ci_nCube = 1, ci_fCubeOwner = - 1, ci_fMove = 0, ci_nMatchTo = 0, ci_anScore = (0, 0),
     ci_fCrawford = 0, ci_fJacoby = 0, ci_fBeavers = 1, ci_arGammonPrice = replicate 4 1, ci_bgv = VARIATION_STANDARD\<rparr>"

definition two_plies :: evalcontext where
  "two_plies = \<lparr>ec_fCubeful = 0, ec_nPlies = 2, ec_fUsePrune = 1, ec_rNoise = 0\<rparr>"

lemma caching_engine_sound: "sound_engine caching_engine"
proof -
  have "length (pip_outputs b) = 5 \<and> consistent_outputs (pip_outputs b)" for b
    by (simp add: pip_outputs_def consistent_outputs_def outputs eval_nat_numeral)
  then show ?thesis
    using insertion_sort_qsort by (intro sound_engineI) (auto simp: caching_engine_def pip_engine_def)
qed

lemma money_cubeinfo_set_up: "set_up caching_engine money_cubeinfo"
  by (simp add: set_up_def SetCubeInfo_def SetCubeInfoMoney_def money_cubeinfo_def)


lemma caching_engine_complete: "complete_engine v caching_engine"
  by (rule complete_engineI) (simp_all add: caching_engine_def pip_engine_def)


theorem EvaluatePosition_returns_witness:
  "\<exists>ar t. EvaluatePosition caching_engine bear_board money_cubeinfo (Some two_plies) fresh_caches = Some (Some ar, t)"
proof -
  have "ec_fCubeful two_plies = 0" "ec_nPlies two_plies < 16" by (simp_all add: two_plies_def)
  from EvaluatePosition_returns [OF caching_engine_sound caching_engine_complete this(1) money_cubeinfo_set_up this(2) bear_playable fresh_caches_coherent(1)]
  show ?thesis by blast
qed

end
