(* ===== verification/Move_Bound.thy ===== *)
theory Move_Bound
  imports Move_Gen
begin

text \<open>
  The buffer of the move generator is large enough.  \<open>eval.h\<close> gives the capacity 3875 and calls
  it an upper bound; \<open>SaveMoves\<close> (eval.c) asserts that the count stays below it.  The positions a
  double reaches are tracked by how often each chequer has moved: at most four moves shared among at
  most fifteen chequers is 3875 ways, and at least one of them is lost, because two ways lead to
  the same position or the bar must be entered first.
\<close>

section \<open>Positions by how often each chequer has moved\<close>

text \<open>The chequers of a side, as the list of their points.\<close>

definition chequer_points :: "side \<Rightarrow> nat list" where
  "chequer_points s = concat (map (\<lambda>p. replicate (unat (s ! p)) p) [0..<25])"

text \<open>
  Chequer \<open>j\<close> started on \<open>xs ! j\<close> and has moved \<open>v ! j\<close> times the number \<open>d\<close>: the chequers now on
  \<open>p\<close>, and the points where some chequer has landed.
\<close>

definition now_on :: "nat \<Rightarrow> nat list \<Rightarrow> nat list \<Rightarrow> nat \<Rightarrow> nat" where
  "now_on d xs v p = (\<Sum>j<length xs. if xs ! j = p + d * v ! j then 1 else 0)"

definition landed :: "nat \<Rightarrow> nat list \<Rightarrow> nat list \<Rightarrow> nat \<Rightarrow> bool" where
  "landed d xs v p \<longleftrightarrow> (\<exists>j<length xs. \<exists>m. 1 \<le> m \<and> m \<le> v ! j \<and> xs ! j = p + d * m)"

definition tracks :: "nat \<Rightarrow> TanBoard \<Rightarrow> nat list \<Rightarrow> nat list \<Rightarrow> TanBoard \<Rightarrow> bool" where
  "tracks d b xs v c \<longleftrightarrow>
     length v = length xs \<and> (\<forall>p<25. unat (snd c ! p) = now_on d xs v p) \<and>
     (\<forall>q<24. fst c ! q = (if landed d xs v (23 - q) then 0 else fst b ! q))"

lemma sum_list_replicate_points: "sum_list (map (\<lambda>x. if x = p then 1 else 0) (replicate n q)) = (if q = p then n else 0)"
  by (induction n) auto

lemma sum_list_map_concat: "sum_list (map f (concat xss)) = sum_list (map (\<lambda>xs. sum_list (map f xs)) xss)"
  by (induction xss) auto

lemma now_on_start:
  assumes "p < 25" "xs = chequer_points s"
  shows "now_on d xs (replicate (length xs) 0) p = unat (s ! p)"
proof -
  have "now_on d xs (replicate (length xs) 0) p = (\<Sum>j<length xs. if xs ! j = p then 1 else 0)"
    by (simp add: now_on_def)
  also have "\<dots> = sum_list (map (\<lambda>x. if x = p then 1 else 0) xs)"
    by (simp add: sum_list_sum_nth atLeast0LessThan)
  also have "\<dots> = sum_list (map (\<lambda>q. if q = p then unat (s ! q) else 0) [0..<25])"
    by (simp add: assms(2) chequer_points_def sum_list_map_concat comp_def map_replicate sum_list_replicate
        if_distrib [of "(*) _"] cong: if_cong)
  also have "\<dots> = unat (s ! p)" using assms(1) by (simp add: interv_sum_list_conv_sum_set_nat)
  finally show ?thesis .
qed

lemma length_chequer_points: "length s = 25 \<Longrightarrow> length (chequer_points s) = chequers s"
  by (simp add: chequer_points_def length_concat comp_def chequers_def)
    (metis (no_types, lifting) map_nth map_map comp_def map_eq_conv)

lemma chequer_points_set: "x \<in> set (chequer_points s) \<longleftrightarrow> x < 25 \<and> s ! x \<noteq> 0"
  by (auto simp: chequer_points_def unat_eq_0)

lemma tracks_start: "xs = chequer_points (snd b) \<Longrightarrow> tracks d b xs (replicate (length xs) 0) b"
  by (auto simp: tracks_def now_on_start landed_def)

text \<open>A further move of chequer \<open>j\<close>.\<close>

lemma now_on_move:
  assumes "j < length xs" "length v = length xs" "1 \<le> d" "xs ! j = i + d * v ! j"
  shows "now_on d xs (v[j := v ! j + 1]) p =
    now_on d xs v p - (if p = i then 1 else 0) + (if p + d = i then 1 else 0)"
proof -
  let ?f = "\<lambda>v l. if xs ! l = p + d * v ! l then 1 else (0 :: nat)"
  let ?v = "v[j := v ! j + 1]"
  have s: "now_on d xs w p = ?f w j + (\<Sum>l\<in>{..<length xs} - {j}. ?f w l)" for w
    unfolding now_on_def using assms(1) by (intro sum.remove) auto
  have "(\<Sum>l\<in>{..<length xs} - {j}. ?f ?v l) = (\<Sum>l\<in>{..<length xs} - {j}. ?f v l)"
    by (rule sum.cong) (auto simp: nth_list_update)
  moreover have "?f ?v j = (if p + d = i then 1 else 0)" using assms by auto
  moreover have "?f v j = (if p = i then 1 else 0)" using assms by auto
  ultimately show ?thesis unfolding s by auto
qed

lemma landed_move:
  assumes "j < length xs" "length v = length xs" "xs ! j = i + d * v ! j"
  shows "landed d xs (v[j := v ! j + 1]) p \<longleftrightarrow> landed d xs v p \<or> p + d = i"
proof
  assume "landed d xs (v[j := v ! j + 1]) p"
  then obtain l m where l: "l < length xs" "1 \<le> m" "m \<le> v[j := v ! j + 1] ! l" "xs ! l = p + d * m"
    by (auto simp: landed_def)
  show "landed d xs v p \<or> p + d = i"
  proof (cases "l = j \<and> m = v ! j + 1")
    case True
    then show ?thesis using l assms by auto
  next
    case False
    then have "m \<le> v ! l" using l assms by (auto simp: nth_list_update split: if_splits)
    then show ?thesis using l by (auto simp: landed_def)
  qed
next
  assume "landed d xs v p \<or> p + d = i"
  then show "landed d xs (v[j := v ! j + 1]) p"
  proof
    assume "landed d xs v p"
    then obtain l m where l: "l < length xs" "1 \<le> m" "m \<le> v ! l" "xs ! l = p + d * m"
      by (auto simp: landed_def)
    moreover have "m \<le> v[j := v ! j + 1] ! l" using l assms by (auto simp: nth_list_update)
    ultimately show ?thesis unfolding landed_def by blast
  next
    assume "p + d = i"
    then have "xs ! j = p + d * (v ! j + 1)" using assms by simp
    then show ?thesis unfolding landed_def using assms by (intro exI [of _ j] conjI exI [of _ "v ! j + 1"]) auto
  qed
qed

text \<open>A legal move of the generator is a move of some chequer.\<close>

lemma tracks_move:
  assumes t: "tracks d b xs v c" and c: "playable c" and m: "can_move c i d" and d: "1 \<le> d"
  shows "\<exists>j<length xs. xs ! j = i + d * v ! j \<and> tracks d b xs (v[j := v ! j + 1]) (sub_board c i d)"
proof -
  have i: "i \<le> 24" "snd c ! i \<noteq> 0" using m by (auto dest: can_moveD)
  have on: "unat (snd c ! p) = now_on d xs v p" if "p < 25" for p using t that by (simp add: tracks_def)
  have "now_on d xs v i \<noteq> 0" using on [of i] i unat_eq_zero_u32 [of "snd c ! i"] by auto
  then obtain j where j: "j < length xs" "xs ! j = i + d * v ! j"
    by (auto simp: now_on_def split: if_splits)
  have v: "length v = length xs" using t by (simp add: tracks_def)
  let ?v = "v[j := v ! j + 1]"
  have few: "unat (snd c ! p) \<le> 15" if "p < 25" for p
    using chequers_ge [of p "snd c"] playableD(2,4) [OF c] that by simp
  have plus: "unat (snd c ! p + 1) = unat (snd c ! p) + 1" if "p < 25" for p
    using few [OF that] unat_plus_small [of "snd c ! p" 1] by simp
  have "unat (snd (sub_board c i d) ! p) = now_on d xs ?v p" if p: "p < 25" for p
  proof -
    have "snd (sub_board c i d) ! p =
        (if p = i then snd c ! i - 1 else if p + d = i then snd c ! p + 1 else snd c ! p)"
      using snd_sub_board_nth [OF playableD(2) [OF c] i(1) d, of p] d by auto
    moreover have "unat (snd c ! i - 1) = unat (snd c ! i) - 1" by (rule unat_minus_one_u32 [OF i(2)])
    ultimately show ?thesis
      unfolding now_on_move [OF j(1) v d j(2)] using on [OF p] plus [OF p] d by auto
  qed
  moreover have "fst (sub_board c i d) ! q = (if landed d xs ?v (23 - q) then 0 else fst b ! q)" if q: "q < 24" for q
  proof -
    have "23 - q + d = i \<longleftrightarrow> \<not> i < d \<and> q = 23 - (i - d)" using q i(1) d by auto
    then show ?thesis
      unfolding landed_move [OF j(1) v j(2)] fst_sub_board_nth [OF playableD(1) [OF c] i(1) d]
      using t q by (auto simp: tracks_def)
  qed
  ultimately have "tracks d b xs ?v (sub_board c i d)" using v by (simp add: tracks_def)
  with j show ?thesis by blast
qed

lemma sum_list_bump: "j < length v \<Longrightarrow> sum_list (v[j := v ! j + 1]) = sum_list v + (1 :: nat)"
  by (induction v arbitrary: j) (auto split: nat.splits)

lemma tracks_play:
  assumes "tracks d b xs v c" "playable c" "1 \<le> d" "d \<le> 6" "play (replicate n d) is c = Some c'"
  shows "\<exists>v'. tracks d b xs v' c' \<and> sum_list v' = sum_list v + length is \<and> (\<forall>j<length xs. v ! j \<le> v' ! j)"
  using assms
proof (induction "is" arbitrary: n v c)
  case Nil
  then show ?case by auto
next
  case (Cons i "is")
  then obtain m where n: "n = Suc m" by (cases n) auto
  with Cons.prems have can: "can_move c i d" and p: "play (replicate m d) is (sub_board c i d) = Some c'"
    by (auto split: if_splits)
  obtain j where j: "j < length xs" "tracks d b xs (v[j := v ! j + 1]) (sub_board c i d)"
    using tracks_move [OF Cons.prems(1,2) can Cons.prems(3)] by blast
  have v: "length v = length xs" using Cons.prems(1) by (simp add: tracks_def)
  from Cons.IH [OF j(2) playable_sub_board [OF Cons.prems(2) can Cons.prems(3)] Cons.prems(3,4) p] obtain v'
    where v': "tracks d b xs v' c'" "sum_list v' = sum_list (v[j := v ! j + 1]) + length is"
      "\<forall>l<length xs. v[j := v ! j + 1] ! l \<le> v' ! l" by blast
  have "v ! l \<le> v' ! l" if "l < length xs" for l
    using v'(3) that v by (cases "l = j") (auto simp: nth_list_update)
  with v' sum_list_bump [of j v] j(1) v show ?case by auto
qed

text \<open>Two boards tracked by the same vector are the same board.\<close>

lemma tracks_unique:
  assumes "tracks d b xs v c" "tracks d b xs v c'" "playable c" "playable c'"
    "chequers (fst c) = chequers (fst c')"
  shows "c = c'"
proof -
  have "snd c = snd c'"
    using assms(1-4) by (intro nth_equalityI) (auto simp: tracks_def playableD intro: unat_eqI)
  moreover have "fst c = fst c'"
  proof (rule nth_equalityI)
    have low: "fst c ! q = fst c' ! q" if "q < 24" for q using assms(1,2) that by (simp add: tracks_def)
    have split: "chequers s = sum_list (map unat (take 24 s)) + unat (s ! 24)" if "length s = 25" for s :: side
    proof -
      have "s = take 24 s @ [s ! 24]" using that by (metis One_nat_def Suc_eq_plus1 lessI numeral_plus_one
          semiring_norm(5) take_Suc_conv_app_nth take_all_iff order_refl add_One)
      then have "chequers s = sum_list (map unat (take 24 s @ [s ! 24]))" by (simp add: chequers_def)
      then show ?thesis by simp
    qed
    have "take 24 (fst c) = take 24 (fst c')"
      using low playableD(1) [OF assms(3)] playableD(1) [OF assms(4)] by (intro nth_equalityI) auto
    with assms(5) split playableD(1) [OF assms(3)] playableD(1) [OF assms(4)] have "fst c ! 24 = fst c' ! 24"
      by (metis add_left_cancel unat_eqI)
    with low show "fst c ! q = fst c' ! q" if "q < length (fst c)" for q
      using that playableD(1) [OF assms(3)] by (cases "q = 24") auto
    show "length (fst c) = length (fst c')" using assms(3,4) by (simp add: playableD)
  qed
  ultimately show ?thesis by (simp add: prod_eq_iff)
qed

section \<open>The bound for doubles\<close>

definition move_vectors :: "nat \<Rightarrow> nat list set" where
  "move_vectors n = {v. length v = n \<and> 1 \<le> sum_list v \<and> sum_list v \<le> 4}"

definition reached :: "nat \<Rightarrow> TanBoard \<Rightarrow> TanBoard set" where
  "reached d b = {c. \<exists>is. is \<noteq> [] \<and> play (replicate 4 d) is b = Some c}"

lemma move_vectors_split:
  "move_vectors n = (\<Union>k\<in>{1, 2, 3, 4}. {v. length v = n \<and> sum_list v = k})"
  by (auto simp: move_vectors_def)

lemma card_move_vectors: "n \<le> 15 \<Longrightarrow> finite (move_vectors n) \<and> card (move_vectors n) \<le> 3875"
  and card_move_vectors_14: "n \<le> 14 \<Longrightarrow> card (move_vectors n) < 3875"
proof -
  let ?V = "\<lambda>n k. {v :: nat list. length v = n \<and> sum_list v = k}"
  have fin: "finite (?V n k)" for n k
  proof -
    have "?V n k \<subseteq> {v. set v \<subseteq> {..k} \<and> length v = n}" using member_le_sum_list by fastforce
    then show ?thesis by (rule finite_subset) (simp add: finite_lists_length_eq)
  qed
  have c: "card (?V n k) = ((k + n - 1) choose k)" for n k by (rule card_length_sum_list)
  have mono: "((k + n - 1) choose k) \<le> ((k + m - 1) choose k)" if "n \<le> m" for k n m :: nat
    using that by (intro binomial_right_mono) auto
  have b: "card (move_vectors n) \<le> (\<Sum>k\<in>{1, 2, 3, 4}. (k + n - 1) choose k)" for n
    unfolding move_vectors_split using card_UN_le [of "{1, 2, 3, 4}" "?V n"] by (simp add: c)
  have "(\<Sum>k\<in>{1, 2, 3, 4}. (k + n - 1) choose k) \<le> (\<Sum>k\<in>{1, 2, 3, 4}. (k + m - 1) choose k)" if "n \<le> m" for n m
    using that mono by (intro sum_mono) auto
  moreover have "(\<Sum>k\<in>{1, 2, 3, 4}. (k + 15 - 1) choose k) = (3875 :: nat)"
    "(\<Sum>k\<in>{1, 2, 3, 4}. (k + 14 - 1) choose k) = (3059 :: nat)"
    by (simp_all add: binomial_fact' fact_numeral)
  ultimately show "n \<le> 15 \<Longrightarrow> finite (move_vectors n) \<and> card (move_vectors n) \<le> 3875"
    "n \<le> 14 \<Longrightarrow> card (move_vectors n) < 3875"
    using b [of n] fin by (fastforce simp: move_vectors_split)+
qed

text \<open>Each position reached is tracked by a vector of one to four moves.\<close>

lemma reached_tracks:
  assumes b: "playable b" and d: "1 \<le> d" "d \<le> 6" and xs: "xs = chequer_points (snd b)" and c: "c \<in> reached d b"
  shows "playable c \<and> chequers (fst c) = chequers (fst b) \<and>
    (\<exists>v\<in>move_vectors (length xs). tracks d b xs v c \<and>
       (snd b ! 24 \<noteq> 0 \<longrightarrow> (\<exists>j<length xs. xs ! j = 24 \<and> 1 \<le> v ! j)))"
proof -
  obtain "is" where p: "is \<noteq> []" "play (replicate 4 d) is b = Some c" using c by (auto simp: reached_def)
  have dice4: "dice (replicate 4 d)" using d by (simp add: dice_def)
  obtain i js where is_: "is = i # js" using p(1) by (cases "is") auto
  have r4: "replicate 4 d = d # replicate 3 d" by (simp add: eval_nat_numeral)
  have can: "can_move b i d" and q: "play (replicate 3 d) js (sub_board b i d) = Some c"
    using p(2) unfolding is_ r4 by (auto split: if_splits)
  from tracks_move [OF tracks_start [OF xs] b can d(1)] obtain j
    where j: "j < length xs" "xs ! j = i" "tracks d b xs ((replicate (length xs) 0)[j := 1]) (sub_board b i d)"
    by auto
  from tracks_play [OF j(3) playable_sub_board [OF b can d(1)] d q] obtain v
    where v: "tracks d b xs v c" "sum_list v = sum_list ((replicate (length xs) 0)[j := 1]) + length js"
      "\<forall>l<length xs. (replicate (length xs) 0)[j := 1] ! l \<le> v ! l" by blast
  have "length js \<le> 3" using play_length [OF q] by simp
  moreover have "sum_list ((replicate (length xs) 0)[j := 1]) = (1 :: nat)"
    using sum_list_bump [of j "replicate (length xs) 0"] j(1) by simp
  ultimately have "v \<in> move_vectors (length xs)" using v(1,2) by (simp add: move_vectors_def tracks_def)
  moreover have "snd b ! 24 \<noteq> 0 \<Longrightarrow> xs ! j = 24 \<and> 1 \<le> v ! j"
    using can j v(3) by (auto simp: can_move_def)
  ultimately show ?thesis
    using play_playable [OF b dice4 p(2)] v(1) j(1) by blast
qed

text \<open>If some vector is not needed, the positions reached are fewer than the vectors.\<close>

lemma reached_fewer:
  assumes b: "playable b" and d: "1 \<le> d" "d \<le> 6" and xs: "xs = chequer_points (snd b)" and n: "length xs \<le> 15"
    and w: "w \<in> move_vectors (length xs)"
    and cover: "\<And>c. c \<in> reached d b \<Longrightarrow> \<exists>v\<in>move_vectors (length xs) - {w}. tracks d b xs v c"
  shows "finite (reached d b) \<and> card (reached d b) < 3875"
proof -
  let ?V = "move_vectors (length xs)"
  define f where "f c = (SOME v. v \<in> ?V - {w} \<and> tracks d b xs v c)" for c
  have f: "f c \<in> ?V - {w} \<and> tracks d b xs (f c) c" if "c \<in> reached d b" for c
    unfolding f_def by (rule someI_ex) (use cover [OF that] in blast)
  have "inj_on f (reached d b)"
  proof (rule inj_onI)
    fix c c' assume r: "c \<in> reached d b" "c' \<in> reached d b" and eq: "f c = f c'"
    show "c = c'"
      using f [OF r(1)] f [OF r(2)] eq reached_tracks [OF b d xs r(1)] reached_tracks [OF b d xs r(2)]
      by (intro tracks_unique [of d b xs "f c"]) auto
  qed
  moreover have "f ` reached d b \<subseteq> ?V - {w}" using f by blast
  moreover have fin: "finite ?V" "card ?V \<le> 3875" using card_move_vectors [OF n] by auto
  moreover have "card (?V - {w}) < card ?V" using w fin(1) by (intro card_Diff1_less)
  ultimately show ?thesis
    using inj_on_finite [of f "reached d b" "?V - {w}"] card_inj_on_le [of f "reached d b" "?V - {w}"] by fastforce
qed

section \<open>A vector that is not needed\<close>

lemma now_on_pair:
  assumes "j < length xs" "k < length xs" "j \<noteq> k" "\<And>l. l < length xs \<Longrightarrow> l \<noteq> j \<Longrightarrow> l \<noteq> k \<Longrightarrow> v ! l = w ! l"
    "(if xs ! j = p + d * v ! j then 1 else 0) + (if xs ! k = p + d * v ! k then 1 else 0) =
     (if xs ! j = p + d * w ! j then 1 else 0) + (if xs ! k = p + d * w ! k then 1 else 0 :: nat)"
  shows "now_on d xs v p = now_on d xs w p"
proof -
  let ?f = "\<lambda>v l. if xs ! l = p + d * v ! l then 1 else (0 :: nat)"
  let ?R = "{..<length xs} - {j} - {k}"
  have s: "now_on d xs u p = ?f u j + (?f u k + (\<Sum>l\<in>?R. ?f u l))" for u
  proof -
    have "now_on d xs u p = ?f u j + (\<Sum>l\<in>{..<length xs} - {j}. ?f u l)"
      unfolding now_on_def using assms(1) by (intro sum.remove) auto
    also have "(\<Sum>l\<in>{..<length xs} - {j}. ?f u l) = ?f u k + (\<Sum>l\<in>?R. ?f u l)"
      using assms(2,3) by (intro sum.remove) auto
    finally show ?thesis .
  qed
  have "(\<Sum>l\<in>?R. ?f v l) = (\<Sum>l\<in>?R. ?f w l)" by (rule sum.cong) (use assms(4) in auto)
  with assms(5) show ?thesis unfolding s by presburger
qed

lemma tracks_same:
  assumes "length v = length xs" "length w = length xs" "\<And>p. now_on d xs v p = now_on d xs w p"
    "\<And>p. landed d xs v p = landed d xs w p"
  shows "tracks d b xs v c \<longleftrightarrow> tracks d b xs w c"
  using assms by (simp add: tracks_def)

lemma landed_update:
  assumes "j < length xs" "length v = length xs" "v ! j = 0"
  shows "landed d xs (v[j := k]) p \<longleftrightarrow> landed d xs v p \<or> (\<exists>m. 1 \<le> m \<and> m \<le> k \<and> xs ! j = p + d * m)"
proof
  assume "landed d xs (v[j := k]) p"
  then obtain l m where l: "l < length xs" "1 \<le> m" "m \<le> v[j := k] ! l" "xs ! l = p + d * m"
    unfolding landed_def by blast
  then show "landed d xs v p \<or> (\<exists>m. 1 \<le> m \<and> m \<le> k \<and> xs ! j = p + d * m)"
    using assms unfolding landed_def by (cases "l = j") auto
next
  assume "landed d xs v p \<or> (\<exists>m. 1 \<le> m \<and> m \<le> k \<and> xs ! j = p + d * m)"
  then show "landed d xs (v[j := k]) p"
  proof
    assume "landed d xs v p"
    then obtain l m where l: "l < length xs" "1 \<le> m" "m \<le> v ! l" "xs ! l = p + d * m"
      unfolding landed_def by blast
    then have "v[j := k] ! l = v ! l" using assms(3) by (cases "l = j") auto
    with l show ?thesis unfolding landed_def by metis
  next
    assume "\<exists>m. 1 \<le> m \<and> m \<le> k \<and> xs ! j = p + d * m"
    then show ?thesis unfolding landed_def using assms(1,2) by (intro exI [of _ j]) simp
  qed
qed

lemma landed_never: "\<not> landed d xs (replicate (length xs) 0) p"
  by (auto simp: landed_def)

lemma one_step: "(\<exists>m. 1 \<le> m \<and> m \<le> 1 \<and> x = p + d * m) \<longleftrightarrow> x = p + (d :: nat)"
  by (metis le_antisym mult.right_neutral order_refl)

lemma two_steps: "(\<exists>m. 1 \<le> m \<and> m \<le> 2 \<and> x = p + d * m) \<longleftrightarrow> x = p + d \<or> x = p + d + (d :: nat)"
proof -
  have "1 \<le> m \<and> m \<le> 2 \<longleftrightarrow> m = 1 \<or> m = 2" for m :: nat by auto
  then have "(\<exists>m. 1 \<le> m \<and> m \<le> 2 \<and> x = p + d * m) \<longleftrightarrow> x = p + d * 1 \<or> x = p + d * 2" by metis
  then show ?thesis by (simp add: mult_2_right add.assoc)
qed

definition moved_once :: "nat \<Rightarrow> nat \<Rightarrow> nat list" where
  "moved_once n j = (replicate n 0)[j := 1]"

lemma moved_once_vector: "j < n \<Longrightarrow> moved_once n j \<in> move_vectors n"
  using sum_list_bump [of j "replicate n 0"] by (simp add: moved_once_def move_vectors_def sum_list_replicate)

lemma landed_once: "j < length xs \<Longrightarrow> landed d xs (moved_once (length xs) j) p \<longleftrightarrow> xs ! j = p + d"
  unfolding moved_once_def by (subst landed_update) (simp_all only: landed_never one_step length_replicate nth_replicate simp_thms)

text \<open>Two chequers on one point: either may move.\<close>

lemma tracks_same_point:
  assumes "j < length xs" "k < length xs" "j \<noteq> k" "xs ! j = xs ! k"
  shows "tracks d b xs (moved_once (length xs) j) c \<longleftrightarrow> tracks d b xs (moved_once (length xs) k) c"
proof (rule tracks_same)
  show "now_on d xs (moved_once (length xs) j) p = now_on d xs (moved_once (length xs) k) p" for p
    by (rule now_on_pair [of j _ k]) (use assms in \<open>auto simp: moved_once_def nth_list_update\<close>)
  show "landed d xs (moved_once (length xs) j) p = landed d xs (moved_once (length xs) k) p" for p
    using assms by (simp add: landed_once)
qed (simp_all add: moved_once_def)

text \<open>Two chequers one move apart: the rear one moves twice, or each moves once.\<close>

lemma tracks_one_apart:
  assumes "j < length xs" "k < length xs" "j \<noteq> k" "xs ! j = xs ! k + d" "1 \<le> d"
  shows "tracks d b xs ((replicate (length xs) 0)[j := 2]) c \<longleftrightarrow>
    tracks d b xs ((replicate (length xs) 0)[j := 1, k := 1]) c"
proof (rule tracks_same)
  let ?v = "(replicate (length xs) 0)[j := 2 :: nat]" and ?w = "(replicate (length xs) 0)[j := 1, k := 1 :: nat]"
  show "now_on d xs ?v p = now_on d xs ?w p" for p
    by (rule now_on_pair [of j _ k]) (use assms in \<open>auto simp: nth_list_update\<close>)
  show "landed d xs ?v p = landed d xs ?w p" for p
  proof -
    have "landed d xs ?v p \<longleftrightarrow> xs ! j = p + d \<or> xs ! j = p + d + d"
      by (subst landed_update)
        (use assms(1) in \<open>simp_all only: landed_never two_steps length_replicate nth_replicate simp_thms\<close>)
    moreover have "landed d xs ?w p \<longleftrightarrow> xs ! j = p + d \<or> xs ! k = p + d"
    proof -
      have "landed d xs ?w p \<longleftrightarrow> landed d xs (moved_once (length xs) j) p \<or> xs ! k = p + d"
        unfolding moved_once_def
        by (subst landed_update)
          (use assms(1-3) in \<open>simp_all only: one_step length_replicate length_list_update nth_list_update_neq [OF assms(3)] nth_replicate\<close>)
      then show ?thesis by (simp only: landed_once [OF assms(1)])
    qed
    ultimately show ?thesis using assms(4) by auto
  qed
qed simp_all

text \<open>Fifteen different points below the bar include two that are one move apart.\<close>

lemma residues_few:
  assumes "1 \<le> d" "d \<le> (6 :: nat)"
  shows "card ((\<lambda>p. (p div (2 * d), p mod d)) ` {..<24}) \<le> 14"
proof -
  let ?l = "\<lambda>d. length (remdups (map (\<lambda>p. (p div (2 * d), p mod d)) [0..<24]))"
  have "list_all (\<lambda>d. ?l d \<le> 14) [1, 2, 3, 4, 5, 6]" by code_simp
  moreover have "d \<in> set [1, 2, 3, 4, 5, 6]" using assms by auto
  ultimately have "?l d \<le> 14" by (simp only: list_all_iff)
  moreover have "(\<lambda>p. (p div (2 * d), p mod d)) ` {..<24} = set (map (\<lambda>p. (p div (2 * d), p mod d)) [0..<24])"
    by (simp add: atLeast0LessThan [symmetric])
  ultimately show ?thesis by (simp only: length_remdups_card_conv)
qed

lemma no_pair_few:
  fixes d :: nat
  assumes "distinct xs" "set xs \<subseteq> {..<24}" "\<And>x y. x \<in> set xs \<Longrightarrow> y \<in> set xs \<Longrightarrow> x \<noteq> y + d" "1 \<le> d" "d \<le> 6"
  shows "length xs \<le> 14"
proof -
  let ?r = "\<lambda>p :: nat. (p div (2 * d), p mod d)"
  have apart: False if r: "?r x = ?r y" and xy: "x \<in> set xs" "y \<in> set xs" "x < y" for x y
  proof -
    define q where "q = y div (2 * d) * (2 * d)"
    have "x div (2 * d) = y div (2 * d)" using r by simp
    then have "q \<le> x" unfolding q_def by (metis div_times_less_eq_dividend)
    moreover have "y < q + 2 * d"
      using dividend_less_div_times [of "2 * d" y] assms(4) by (simp add: q_def add.commute)
    ultimately have "y - x < 2 * d" using assms(4) by linarith
    moreover have "d dvd y - x" using r xy(3) mod_eq_dvd_iff_nat [of x y d] by simp
    then obtain m where m: "y - x = d * m" by (rule dvdE)
    ultimately have "m < 2" using assms(4) by (simp add: mult.commute)
    moreover have "m \<noteq> 0" using m xy(3) by (cases m) auto
    ultimately have "y = x + d" using m xy(3) by (auto simp: less_2_cases_iff)
    then show False using assms(3) [OF xy(2,1)] by simp
  qed
  have "inj_on ?r (set xs)"
  proof (rule inj_onI)
    fix x y assume "x \<in> set xs" "y \<in> set xs" "?r x = ?r y"
    then show "x = y" using apart [of x y] apart [of y x] by (cases x y rule: linorder_cases) auto
  qed
  then have "card (set xs) = card (?r ` set xs)" by (simp only: card_image)
  also have "\<dots> \<le> card (?r ` {..<24})" by (rule card_mono) (use assms(2) in auto)
  also have "\<dots> \<le> 14" by (rule residues_few [OF assms(4,5)])
  finally show ?thesis using distinct_card [OF assms(1)] by simp
qed

section \<open>The assertions of SaveMoves hold\<close>

lemma reached_double:
  assumes b: "playable b" and d: "1 \<le> d" "d \<le> 6"
  shows "finite (reached d b) \<and> card (reached d b) < 3875"
proof -
  define xs where "xs = chequer_points (snd b)"
  have len: "length xs \<le> 15" using b by (simp add: xs_def length_chequer_points playableD)
  note fewer = reached_fewer [OF b d xs_def len] and tracked = reached_tracks [OF b d xs_def]
  have swap: ?thesis
    if "w \<in> move_vectors (length xs)" "v \<in> move_vectors (length xs) - {w}"
      "\<And>c. tracks d b xs w c \<longleftrightarrow> tracks d b xs v c" for v w
    using tracked that by (intro fewer [of w]) blast+
  show ?thesis
  proof (cases "\<exists>j k. j < length xs \<and> k < length xs \<and> j \<noteq> k \<and> (xs ! j = xs ! k \<or> xs ! j = xs ! k + d)")
    case True
    then obtain j k where jk: "j < length xs" "k < length xs" "j \<noteq> k" and "xs ! j = xs ! k \<or> xs ! j = xs ! k + d"
      by blast
    then consider (same) "xs ! j = xs ! k" | (apart) "xs ! j = xs ! k + d" by blast
    then show ?thesis
    proof cases
      case same
      have "moved_once (length xs) j ! j \<noteq> moved_once (length xs) k ! j"
        using jk by (simp add: moved_once_def)
      then have "moved_once (length xs) j \<noteq> moved_once (length xs) k" by metis
      then show ?thesis
        using moved_once_vector [OF jk(1)] moved_once_vector [OF jk(2)]
        by (intro swap [OF _ _ tracks_same_point [OF jk same]]) auto
    next
      case apart
      let ?v = "(replicate (length xs) 0)[j := 2 :: nat]" and ?w = "(replicate (length xs) 0)[j := 1, k := 1 :: nat]"
      have "?v ! k \<noteq> ?w ! k" using jk by simp
      then have "?v \<noteq> ?w" by metis
      moreover have "?v = (moved_once (length xs) j)[j := moved_once (length xs) j ! j + 1]"
        "?w = (moved_once (length xs) j)[k := moved_once (length xs) j ! k + 1]"
        using jk by (simp_all add: moved_once_def numeral_2_eq_2)
      then have "?v \<in> move_vectors (length xs)" "?w \<in> move_vectors (length xs)"
        using sum_list_bump [of j "moved_once (length xs) j"] sum_list_bump [of k "moved_once (length xs) j"]
          sum_list_bump [of j "replicate (length xs) 0"] jk
        by (simp_all add: move_vectors_def moved_once_def sum_list_replicate)
      ultimately show ?thesis
        using tracks_one_apart [OF jk apart d(1)] by (intro swap [of ?v ?w]) auto
    qed
  next
    case none: False
    then have dist: "distinct xs" by (auto simp: distinct_conv_nth)
    show ?thesis
    proof (cases "snd b ! 24 \<noteq> 0 \<and> 2 \<le> length xs")
      case True
      then obtain j0 where j0: "j0 < length xs" "xs ! j0 = 24"
        using chequer_points_set [of 24 "snd b"] by (auto simp: xs_def in_set_conv_nth)
      define k where "k = (if j0 = 0 then 1 else 0 :: nat)"
      have k: "k < length xs" "k \<noteq> j0" using True by (auto simp: k_def)
      show ?thesis
      proof (rule fewer [of "moved_once (length xs) k"])
        show "moved_once (length xs) k \<in> move_vectors (length xs)" by (rule moved_once_vector [OF k(1)])
        fix c assume "c \<in> reached d b"
        with tracked True obtain v j where v: "v \<in> move_vectors (length xs)" "tracks d b xs v c"
          and j: "j < length xs" "xs ! j = 24" "1 \<le> v ! j" by blast
        then have "j \<noteq> k" using dist j0 k by (metis nth_eq_iff_index_eq)
        with j have "v ! j \<noteq> moved_once (length xs) k ! j" by (simp add: moved_once_def)
        then have "v \<noteq> moved_once (length xs) k" by metis
        with v show "\<exists>v\<in>move_vectors (length xs) - {moved_once (length xs) k}. tracks d b xs v c" by blast
      qed
    next
      case no_bar: False
      have "length xs \<le> 14"
      proof (cases "length xs \<le> 1")
        case False
        then have "snd b ! 24 = 0" using no_bar by auto
        then have "set xs \<subseteq> {..<24}" by (auto simp: xs_def chequer_points_set less_Suc_eq_le le_less numeral_eq_Suc)
        moreover have "x \<noteq> y + d" if "x \<in> set xs" "y \<in> set xs" for x y
          using none that d(1) by (metis add_cancel_right_right in_set_conv_nth not_one_le_zero)
        ultimately show ?thesis by (rule no_pair_few [OF dist _ _ d])
      qed simp
      then have "card (move_vectors (length xs)) < 3875" "finite (move_vectors (length xs))"
        using card_move_vectors_14 card_move_vectors [OF len] by auto
      moreover define f where "f c = (SOME v. v \<in> move_vectors (length xs) \<and> tracks d b xs v c)" for c
      have f: "f c \<in> move_vectors (length xs) \<and> tracks d b xs (f c) c" if "c \<in> reached d b" for c
        unfolding f_def by (rule someI_ex) (use tracked [OF that] in blast)
      have "inj_on f (reached d b)"
        using f tracked by (intro inj_onI) (metis tracks_unique)
      ultimately show ?thesis
        using f inj_on_finite [of f "reached d b"] card_inj_on_le [of f "reached d b" "move_vectors (length xs)"]
        by (metis (no_types, lifting) image_subsetI le_less_trans)
    qed
  qed
qed

lemma reached_mixed:
  "finite {c. \<exists>ds\<in>{[n0, n1], [n1, n0]}. \<exists>is. play ds is b = Some c} \<and>
   card {c. \<exists>ds\<in>{[n0, n1], [n1, n0]}. \<exists>is. play ds is b = Some c} < 3875" (is "finite ?R \<and> card ?R < 3875")
proof -
  let ?I = "{is. set is \<subseteq> {..24 :: nat} \<and> length is \<le> 2}"
  let ?f = "\<lambda>(ds, is). the (play ds is b)"
  have range: "set is \<subseteq> {..24}" if "play ds is b = Some c" for ds "is" b c
    using that by (induction ds "is" b rule: play.induct) (auto split: if_splits dest: can_moveD)
  have sub: "?R \<subseteq> ?f ` ({[n0, n1], [n1, n0]} \<times> ?I)"
  proof
    fix c assume "c \<in> ?R"
    then obtain ds "is" where p: "ds \<in> {[n0, n1], [n1, n0]}" "play ds is b = Some c" by blast
    then have "is \<in> ?I" using range play_length [of ds "is" b c] by auto
    with p show "c \<in> ?f ` ({[n0, n1], [n1, n0]} \<times> ?I)" by force
  qed
  have fin: "finite ?I" by (rule finite_lists_length_le) simp
  have cI: "card ?I = 651"
    using card_lists_length_le [of "{..24 :: nat}" 2] by (simp add: numeral_2_eq_2 sum.atMost_Suc)
  have finp: "finite ({[n0, n1], [n1, n0]} \<times> ?I)" using fin by simp
  have "card ?R \<le> card ({[n0, n1], [n1, n0]} \<times> ?I)"
    by (rule order_trans [OF card_mono [OF finite_imageI [OF finp] sub] card_image_le [OF finp]])
  also have "\<dots> = card {[n0, n1], [n1, n0]} * 651" by (simp only: card_cartesian_product cI)
  finally have "card ?R \<le> card {[n0, n1], [n1, n0]} * 651" .
  moreover have "card {[n0, n1], [n1, n0]} \<le> 2" using card_length [of "[[n0, n1], [n1, n0]]"] by simp
  ultimately have "card ?R < 3875" by linarith
  then show ?thesis using finite_subset [OF sub finite_imageI [OF finp]] by simp
qed

text \<open>The positions offered to \<open>SaveMoves\<close> are fewer than the buffer has entries.\<close>

lemma offer_keys_few:
  assumes "playable b" "1 \<le> n0" "n0 \<le> 6" "1 \<le> n1" "n1 \<le> 6"
  shows "finite (offer_key ` set (offers fP b n0 n1)) \<and> card (offer_key ` set (offers fP b n0 n1)) < 3875"
proof -
  let ?R = "{c. \<exists>ds is. possible_play b n0 n1 ds is c}"
  have sub: "offer_key ` set (offers fP b n0 n1) \<subseteq> PositionKey ` ?R"
  proof
    fix k assume "k \<in> offer_key ` set (offers fP b n0 n1)"
    then obtain x where x: "x \<in> set (offers fP b n0 n1)" "k = offer_key x" by blast
    from x(1) obtain ds "is" c where "possible_play b n0 n1 ds is c" "x = offer_of ds (is, c)"
      by (rule offer_possible_play)
    with x(2) show "k \<in> PositionKey ` ?R" unfolding offer_key_def offer_of_def by auto
  qed
  have "finite ?R \<and> card ?R < 3875"
  proof (cases "n0 = n1")
    case True
    then have "?R = reached n0 b" by (auto simp: possible_play_def reached_def dice_orders_def)
    with reached_double [OF assms(1-3)] show ?thesis by simp
  next
    case False
    then have "?R \<subseteq> {c. \<exists>ds\<in>{[n0, n1], [n1, n0]}. \<exists>is. play ds is b = Some c}"
      by (auto simp: possible_play_def dice_orders_def)
    with reached_mixed [of n0 n1 b] show ?thesis by (meson card_mono finite_subset le_less_trans)
  qed
  then show ?thesis
    using sub by (meson card_image_le card_mono finite_imageI finite_subset le_less_trans order_trans)
qed

text \<open>The list during the generation: entries of offers, with different keys.\<close>

definition room_kept :: "offer set \<Rightarrow> movelist \<Rightarrow> bool" where
  "room_kept X pml \<longleftrightarrow>
     distinct (map pm_key (amMoves pml)) \<and> set (amMoves pml) \<subseteq> entry ` X \<and> asserts_hold pml"

lemma room_kept_entry:
  assumes "room_kept X pml" "(n, p, an, c) \<in> X" "finite (offer_key ` X)" "card (offer_key ` X) < 3875"
  shows "room_kept X (save_entry n p an (PositionKey c) pml)"
proof -
  let ?ms = "store_move n p an (PositionKey c) (amMoves pml)"
  have r: "set (amMoves pml) \<subseteq> range entry" using assms(1) by (auto simp: room_kept_def)
  have d: "distinct (map pm_key ?ms)"
    using keys_store_move(2) [OF r] assms(1) by (simp add: room_kept_def)
  have s: "set ?ms \<subseteq> entry ` X"
    using set_store_move [OF r, of n p an c] assms(1,2) by (force simp: room_kept_def)
  then have "pm_key ` set ?ms \<subseteq> offer_key ` X" by force
  then have "length ?ms \<le> card (offer_key ` X)"
    using distinct_card [OF d] card_mono [OF assms(3)] by (metis length_map set_map)
  with d s assms show ?thesis by (simp add: room_kept_def MAX_INCOMPLETE_MOVES_def)
qed

lemma room_kept_saves:
  assumes "finite (offer_key ` X)" "card (offer_key ` X) < 3875"
  shows "room_kept X pml \<Longrightarrow> set L \<subseteq> X \<Longrightarrow> room_kept X (fold (save_offer fP) L pml)"
proof (induction L arbitrary: pml)
  case (Cons x L)
  obtain n p an c where x: "x = (n, p, an, c)" by (metis surj_pair)
  have upd: "room_kept X (pml\<lparr>cMaxMoves := k, cMaxPips := l\<rparr>)" "room_kept X (pml\<lparr>amMoves := [], cMaxMoves := k, cMaxPips := l\<rparr>)"
    for k l using Cons.prems(1) by (simp_all add: room_kept_def)
  have "(n, p, an, c) \<in> X" using Cons.prems(2) x by simp
  with room_kept_entry [OF upd(1) this assms] room_kept_entry [OF upd(2) this assms] Cons.prems(1)
  have "room_kept X (save_offer fP x pml)"
    by (simp add: x save_offer_def SaveMoves_def Let_def)
  with Cons show ?case by simp
qed simp

text \<open>C13: The assertion of SaveMoves that the move buffer has room never fails, for any position of a game and
  any roll, with or without partial moves; at most 3874 of the 3875 entries are ever used.\<close>

theorem GenerateMoves_asserts:
  assumes "playable b" "1 \<le> n0" "n0 \<le> 6" "1 \<le> n1" "n1 \<le> 6"
  shows "asserts_hold (GenerateMoves b (int n0) (int n1) fP) \<and>
    int (length (amMoves (GenerateMoves b (int n0) (int n1) fP))) < MAX_INCOMPLETE_MOVES"
proof -
  note few = offer_keys_few [OF assms, of fP]
  let ?X = "set (offers fP b n0 n1)" and ?m = "GenerateMoves b (int n0) (int n1) fP"
  have kept: "room_kept ?X ?m"
    unfolding GenerateMoves_offers [OF assms]
    by (rule room_kept_saves) (use few in \<open>simp_all add: room_kept_def\<close>)
  then have d: "distinct (map pm_key (amMoves ?m))" and s: "pm_key ` set (amMoves ?m) \<subseteq> offer_key ` ?X"
    by (force simp: room_kept_def)+
  have "length (amMoves ?m) \<le> card (offer_key ` ?X)"
    using distinct_card [OF d] card_mono [OF _ s] few by (metis length_map set_map)
  with few kept show ?thesis by (simp add: room_kept_def MAX_INCOMPLETE_MOVES_def)
qed

theorem GenerateMoves_asserts_witness:
  "asserts_hold (GenerateMoves (InitBoard VARIATION_STANDARD) 3 3 True)"
proof -
  have "list_all (\<lambda>i. fst (InitBoard VARIATION_STANDARD) ! (23 - i) = 0 \<or> snd (InitBoard VARIATION_STANDARD) ! i = 0) [0..<24]"
    by code_simp
  then have "playable (InitBoard VARIATION_STANDARD)"
    by (simp add: playable_def no_shared_def list_all_iff InitBoard_chequers anChequers_def)
  from GenerateMoves_asserts [OF this, of 3 3 True] show ?thesis by simp
qed

end
