(* ===== verification/Game_Record.thy ===== *)
theory Game_Record
  imports Match_Types Move_Gen Eval_Types Position_Class
begin

text \<open>
  The records a game is made of and their effect on the match state (backgammon.h and play.c):
  \<open>ApplyMoveRecord\<close> with \<open>PlayMove\<close> and \<open>ApplyGameOver\<close>, and \<open>FixMatchState\<close>.  A game is the list
  of its records, the first one a \<open>MOVE_GAMEINFO\<close> that also receives the result; comments,
  analysis and luck are annotations the match state never depends on, and left out.
\<close>

section \<open>Records\<close>

record xmovegameinfo =
  g_i :: int
  g_nMatch :: int
  g_anScore :: "int \<times> int"
  g_fCrawford :: int
  g_fCrawfordGame :: int
  g_fJacoby :: int
  g_fWinner :: int
  g_nPoints :: int
  g_fResigned :: int
  g_nAutoDoubles :: nat
  g_bgv :: bgvariation
  g_fCubeUse :: int

text \<open>The player, where there is one, comes first; the record of a game is made for player 0.\<close>

datatype moverecord =
    MOVE_GAMEINFO xmovegameinfo
  | MOVE_NORMAL int "u32 \<times> u32" "int list"
  | MOVE_DOUBLE int int
  | MOVE_TAKE int
  | MOVE_DROP int
  | MOVE_RESIGN int int
  | MOVE_SETBOARD int positionkey
  | MOVE_SETDICE int "u32 \<times> u32"
  | MOVE_SETCUBEVAL int int
  | MOVE_SETCUBEPOS int int

text \<open>The enumeration \<open>movetype\<close>, whose order the code uses.\<close>

fun mt :: "moverecord \<Rightarrow> nat" where
  "mt (MOVE_GAMEINFO g) = 0"
| "mt (MOVE_NORMAL f d an) = 1"
| "mt (MOVE_DOUBLE f n) = 2"
| "mt (MOVE_TAKE f) = 3"
| "mt (MOVE_DROP f) = 4"
| "mt (MOVE_RESIGN f n) = 5"
| "mt (MOVE_SETBOARD f k) = 6"
| "mt (MOVE_SETDICE f d) = 7"
| "mt (MOVE_SETCUBEVAL f n) = 8"
| "mt (MOVE_SETCUBEPOS f n) = 9"

fun fPlayer :: "moverecord \<Rightarrow> int" where
  "fPlayer (MOVE_GAMEINFO g) = 0"
| "fPlayer (MOVE_NORMAL f d an) = f"
| "fPlayer (MOVE_DOUBLE f n) = f"
| "fPlayer (MOVE_TAKE f) = f"
| "fPlayer (MOVE_DROP f) = f"
| "fPlayer (MOVE_RESIGN f n) = f"
| "fPlayer (MOVE_SETBOARD f k) = f"
| "fPlayer (MOVE_SETDICE f d) = f"
| "fPlayer (MOVE_SETCUBEVAL f n) = f"
| "fPlayer (MOVE_SETCUBEPOS f n) = f"

definition MAX_CUBE :: int where "MAX_CUBE = 2 ^ 12"

section \<open>Playing a move\<close>

text \<open>The loop of \<open>PlayMove\<close>: an empty source is skipped, any opposing chequers are hit.\<close>

fun play_steps :: "TanBoard \<Rightarrow> int list \<Rightarrow> TanBoard" where
  "play_steps b (nSrc # nDest # anMove) =
     (if nSrc < 0 then b
      else if snd b ! nat nSrc = 0 then play_steps b anMove
      else
        let a1 = (snd b)[nat nSrc := snd b ! nat nSrc - 1];
            a1 = (if nDest \<ge> 0 then a1[nat nDest := a1 ! nat nDest + 1] else a1);
            a0 = (if nDest \<ge> 0 \<and> nDest \<le> 23 then
                    (fst b)[24 := fst b ! 24 + fst b ! nat (23 - nDest), nat (23 - nDest) := 0]
                  else fst b)
        in play_steps (a0, a1) anMove)"
| "play_steps b _ = b"

definition PlayMove :: "matchstate \<Rightarrow> int list \<Rightarrow> int \<Rightarrow> matchstate" where
  "PlayMove pms anMove fP =
     (let b = (if fMove pms \<noteq> - 1 \<and> fP \<noteq> fMove pms then SwapSides (anBoard pms) else anBoard pms)
      in pms\<lparr>anBoard := SwapSides (play_steps b anMove), fMove := cnot fP, fTurn := cnot fP\<rparr>)"

section \<open>Applying a record\<close>

definition ApplyGameOver :: "matchstate \<Rightarrow> xmovegameinfo \<Rightarrow> matchstate" where
  "ApplyGameOver pms g =
     (if g_fWinner g < 0 then pms
      else pms\<lparr>anScore := (if g_fWinner g = 0 then (fst (anScore pms) + g_nPoints g, snd (anScore pms))
                           else (fst (anScore pms), snd (anScore pms) + g_nPoints g)),
               cGames := cGames pms + 1\<rparr>)"

definition apply_gameinfo :: "matchstate \<Rightarrow> xmovegameinfo \<Rightarrow> matchstate" where
  "apply_gameinfo pms g =
     pms\<lparr>anBoard := InitBoard (g_bgv g), nMatchTo := g_nMatch g, anScore := g_anScore g, cGames := g_i g,
       gs := GAME_NONE, fMove := - 1, fTurn := - 1, fCubeOwner := - 1, anDice := (0, 0), cBeavers := 0,
       fDoubled := 0, nCube := 2 ^ g_nAutoDoubles g, fCrawford := g_fCrawfordGame g,
       fPostCrawford := of_bool (g_fCrawfordGame g = 0 \<and>
         (fst (g_anScore g) = g_nMatch g - 1 \<or> snd (g_anScore g) = g_nMatch g - 1)),
       bgv := g_bgv g, fCubeUse := g_fCubeUse g, fJacoby := g_fJacoby g\<rparr>"

definition apply_double :: "matchstate \<Rightarrow> int \<Rightarrow> matchstate" where
  "apply_double pms fP =
     (let pms = (if fMove pms < 0 then pms\<lparr>fMove := fP\<rparr> else pms) in
      if nCube pms \<ge> MAX_CUBE then pms
      else if fDoubled pms \<noteq> 0 then
        pms\<lparr>cBeavers := cBeavers pms + 1, nCube := 2 * nCube pms, fCubeOwner := cnot (fMove pms),
            fTurn := cnot fP\<rparr>
      else pms\<lparr>fDoubled := 1, fTurn := cnot fP\<rparr>)"

definition apply_take :: "matchstate \<Rightarrow> matchstate" where
  "apply_take pms =
     (if fDoubled pms = 0 then pms
      else pms\<lparr>nCube := 2 * nCube pms, cBeavers := 0, fDoubled := 0, fCubeOwner := cnot (fMove pms),
               fTurn := fMove pms\<rparr>)"

text \<open>Gammons do not count on a centred cube in a money session under the Jacoby rule.\<close>

definition points_of :: "matchstate \<Rightarrow> nat \<Rightarrow> int" where
  "points_of pms n =
     (if fJacoby pms \<noteq> 0 \<and> fCubeOwner pms = - 1 \<and> nMatchTo pms = 0 then 1 else int n)"

text \<open>
  The effect of the other records on the state and on the information of the game, which receives
  the winner and his points.
\<close>

fun apply_record :: "databases \<Rightarrow> matchstate \<Rightarrow> xmovegameinfo \<Rightarrow> moverecord \<Rightarrow> matchstate \<times> xmovegameinfo" where
  "apply_record dbs pms g (MOVE_GAMEINFO _) = (pms, g)"
| "apply_record dbs pms g (MOVE_DOUBLE fP _) = (apply_double pms fP, g)"
| "apply_record dbs pms g (MOVE_TAKE fP) = (apply_take pms, g)"
| "apply_record dbs pms g (MOVE_DROP fP) =
     (if fDoubled pms = 0 then (pms, g)
      else let g = g\<lparr>g_nPoints := nCube pms, g_fWinner := cnot fP, g_fResigned := 0\<rparr>
           in (ApplyGameOver (pms\<lparr>fDoubled := 0, cBeavers := 0, gs := GAME_DROP\<rparr>) g, g))"
| "apply_record dbs pms g (MOVE_NORMAL fP _ anMove) =
     (let pms = (PlayMove (pms\<lparr>fDoubled := 0\<rparr>) anMove fP)\<lparr>anDice := (0, 0)\<rparr>;
          n = GameStatus dbs (anBoard pms) (bgv pms)
      in if n \<noteq> 0 then
           let g = g\<lparr>g_nPoints := nCube pms * points_of pms n, g_fWinner := fP, g_fResigned := 0\<rparr>
           in (ApplyGameOver (pms\<lparr>gs := GAME_OVER\<rparr>) g, g)
         else (pms, g))"
| "apply_record dbs pms g (MOVE_RESIGN fP nResigned) =
     (let g = g\<lparr>g_nPoints := nCube pms * nResigned, g_fWinner := cnot fP, g_fResigned := 1\<rparr>
      in (ApplyGameOver (pms\<lparr>gs := GAME_RESIGNED, fResigned := nResigned\<rparr>) g, g))"
| "apply_record dbs pms g (MOVE_SETBOARD fP key) =
     (let pms = pms\<lparr>anBoard := PositionFromKey key\<rparr>;
          pms = (if fMove pms < 0 then pms\<lparr>fTurn := 0, fMove := 0\<rparr> else pms)
      in (if fMove pms \<noteq> 0 then pms\<lparr>anBoard := SwapSides (anBoard pms)\<rparr> else pms, g))"
| "apply_record dbs pms g (MOVE_SETDICE fP d) =
     (let pms = pms\<lparr>anDice := d\<rparr>;
          pms = (if fMove pms \<noteq> fP then pms\<lparr>anBoard := SwapSides (anBoard pms)\<rparr> else pms)
      in (pms\<lparr>fTurn := fP, fMove := fP, fDoubled := 0\<rparr>, g))"
| "apply_record dbs pms g (MOVE_SETCUBEVAL fP n) =
     (let pms = (if fMove pms < 0 then pms\<lparr>fMove := 0\<rparr> else pms)
      in (pms\<lparr>nCube := n, fDoubled := 0, fTurn := fMove pms\<rparr>, g))"
| "apply_record dbs pms g (MOVE_SETCUBEPOS fP n) =
     (let pms = (if fMove pms < 0 then pms\<lparr>fMove := 0\<rparr> else pms)
      in (pms\<lparr>fCubeOwner := n, fDoubled := 0, fTurn := fMove pms\<rparr>, g))"

text \<open>
  The result is the state with the game, whose first record may have been given a winner; \<open>None\<close>
  is a failed assertion: a record other than a \<open>MOVE_GAMEINFO\<close> in a game that has none.
\<close>

definition ApplyMoveRecord ::
  "databases \<Rightarrow> matchstate \<Rightarrow> moverecord list \<Rightarrow> moverecord \<Rightarrow> (matchstate \<times> moverecord list) option" where
  "ApplyMoveRecord dbs pms game pmr =
     (let pms = pms\<lparr>gs := GAME_PLAYING, fResigned := 0, fResignationDeclined := 0\<rparr> in
      case pmr of
        MOVE_GAMEINFO g \<Rightarrow> Some (apply_gameinfo pms g, game)
      | _ \<Rightarrow>
        (case game of
           MOVE_GAMEINFO g # rest \<Rightarrow>
             (let (pms, g) = apply_record dbs pms g pmr in Some (pms, MOVE_GAMEINFO g # rest))
         | _ \<Rightarrow> None))"

definition FixMatchState :: "matchstate \<Rightarrow> moverecord \<Rightarrow> matchstate" where
  "FixMatchState pms pmr =
     (if (mt pmr = 1 \<or> mt pmr = 2) \<and> fTurn pms \<noteq> fPlayer pmr then
        pms\<lparr>anBoard := SwapSides (anBoard pms), fMove := fPlayer pmr, fTurn := fPlayer pmr\<rparr>
      else pms)"

text \<open>
  \<open>CalculateBoard\<close> replays the current game up to its last move: the records are applied in
  order, with the first record of the game as it is when it is reached.
\<close>

fun replay :: "databases \<Rightarrow> nat \<Rightarrow> nat \<Rightarrow> matchstate \<times> moverecord list \<Rightarrow> (matchstate \<times> moverecord list) option" where
  "replay dbs i 0 (pms, game) = Some (pms, game)"
| "replay dbs i (Suc n) (pms, game) =
     (if i \<ge> length game then None
      else case ApplyMoveRecord dbs pms game (game ! i) of
        None \<Rightarrow> None
      | Some (pms, game) \<Rightarrow>
          replay dbs (Suc i) n
            (if Suc i < length game then FixMatchState pms (game ! Suc i) else pms, game))"

section \<open>PlayMove is ApplyMove\<close>

text \<open>A chequer that may move is moved by the loop as the rules say.\<close>

lemma play_steps_can_move:
  assumes b: "playable b" and m: "can_move b i d" and d: "1 \<le> d"
  shows "play_steps b (int i # clip (int i - int d) # an) = play_steps (sub_board b i d) an"
proof -
  note len = playableD(1,2) [OF b]
  have i: "i \<le> 24" "snd b ! i \<noteq> 0" using m by (auto dest: can_moveD)
  show ?thesis
  proof (cases "i < d")
    case True
    then show ?thesis using i by (simp add: clip_def sub_board_def lift_def Let_def)
  next
    case False
    then have dest: "clip (int i - int d) = int (i - d)" "nat (23 - int (i - d)) = 23 - (i - d)"
      by (simp_all add: clip_def nat_diff_distrib)
    have c: "fst b ! (23 - (i - d)) < 2" using m False by (simp add: can_move_def)
    have "(fst b)[24 := fst b ! 24 + fst b ! (23 - (i - d)), 23 - (i - d) := 0] = hit (fst b) (23 - (i - d))"
    proof (cases "fst b ! (23 - (i - d)) = 0")
      case True
      then show ?thesis by (simp add: hit_def list_update_same_conv len nth_list_update)
    next
      case False
      with c have "fst b ! (23 - (i - d)) = 1" by (auto simp: word_less_nat_alt unat_eqI less_2_cases_iff)
      then show ?thesis by (simp add: hit_def list_update_swap)
    qed
    moreover have "i - d \<le> 23" using i d by simp
    ultimately show ?thesis using False i d dest
      by (simp add: sub_board_def lift_def drop_on_def Let_def del: of_nat_diff)
  qed
qed

lemma play_steps_play:
  "playable b \<Longrightarrow> dice ds \<Longrightarrow> play ds is b = Some c \<Longrightarrow> rest = [] \<or> hd rest < 0 \<Longrightarrow>
   play_steps b (map clip (move_pairs ds is) @ rest) = c"
proof (induction ds "is" b rule: play.induct)
  case (1 ds b)
  then show ?case by (cases rest rule: list.exhaust, simp, cases "tl rest") auto
next
  case (3 d ds i "is" b)
  then have m: "can_move b i d" and d: "1 \<le> d" by (auto split: if_splits)
  have "clip (int i) = int i" by (simp add: clip_def)
  with 3 m d play_steps_can_move [OF "3.prems"(1) m d] playable_sub_board [OF "3.prems"(1) m d]
  show ?case by (simp split: if_splits)
qed auto

text \<open>C21: The game state and the move generator play moves with two different routines; on every entry of the
  generated list they reach the same position, which is then turned to the opponent.\<close>

theorem PlayMove_generated:
  assumes "playable (anBoard pms)" "1 \<le> n0" "n0 \<le> 6" "1 \<le> n1" "n1 \<le> 6" "fMove pms = fP"
    "m \<in> set (amMoves (GenerateMoves (anBoard pms) (int n0) (int n1) False))"
  shows "\<exists>c. ApplyMove (anBoard pms) (pm_anMove m) True = Some (0, c) \<and> playable c \<and>
    anBoard (PlayMove pms (pm_anMove m) fP) = (snd c, fst c) \<and>
    fMove (PlayMove pms (pm_anMove m) fP) = cnot fP"
proof -
  obtain ds "is" c where l: "legal_play (anBoard pms) n0 n1 ds is c" "entry_describes (anBoard pms) ds is c m"
    using GenerateMoves_entries [OF assms(1-5)] assms(7) by blast
  then have p: "play ds is (anBoard pms) = Some c" "dice ds"
    using dice_orders_dice [OF assms(2-5)] by (auto simp: legal_play_def possible_play_def)
  have "playable c" using play_playable [OF assms(1) p(2,1)] by simp
  moreover have "play_steps (anBoard pms) (pm_anMove m) = c"
    using l(2) play_steps_play [OF assms(1) p(2,1)] by (auto simp: entry_describes_def)
  moreover have "wf_board c" using calculation(1) by (simp add: playable_def)
  ultimately show ?thesis using l(2) assms(6) by (auto simp: entry_describes_def PlayMove_def)
qed

section \<open>An instance\<close>

definition bear_state :: matchstate where
  "bear_state = \<lparr>anBoard = bear_board, anDice = (2, 1), fTurn = 0, fResigned = 0, fResignationDeclined = 0,
     fDoubled = 0, cGames = 0, fMove = 0, fCubeOwner = - 1, fCrawford = 0, fPostCrawford = 0, nMatchTo = 7,
     anScore = (0, 0), nCube = 1, cBeavers = 0, bgv = VARIATION_STANDARD, fCubeUse = 1, fJacoby = 0,
     gs = GAME_PLAYING\<rparr>"

theorem PlayMove_generated_witness:
  "\<exists>(m :: move) c. ApplyMove bear_board (pm_anMove m) True = Some (0, c) \<and> playable c \<and>
     anBoard (PlayMove bear_state (pm_anMove m) 0) = (snd c, fst c)"
proof -
  have "length (amMoves (GenerateMoves bear_board 2 1 False)) = 2" by code_simp
  then have "hd (amMoves (GenerateMoves bear_board 2 1 False)) \<in> set (amMoves (GenerateMoves bear_board 2 1 False))"
    by (intro hd_in_set) auto
  moreover have "anBoard bear_state = bear_board" "fMove bear_state = 0" by (simp_all add: bear_state_def)
  ultimately show ?thesis
    using PlayMove_generated [of bear_state 2 1 0 "hd (amMoves (GenerateMoves bear_board 2 1 False))"] bear_playable
    by (simp del: One_nat_def) blast
qed

end
