(* ===== verification/Game_Play.thy ===== *)
theory Game_Play
  imports Game_Record
begin

text \<open>
  Playing a match (play.c): the list of games, \<open>AddMoveRecord\<close>, the commands of the players and
  the end of a game in \<open>NextTurn\<close>.  A command is a function of the settings and the session; it
  answers with what it told the user, or \<open>None\<close> when an assertion of the program fails.
\<close>

section \<open>The session\<close>

text \<open>
  \<open>lMatch\<close> is the list of games, \<open>plGame\<close> the index of the current one (the length of the list
  when there is none) and \<open>plLastMove\<close> the number of its records up to the last move.
\<close>

record session =
  ms :: matchstate
  lMatch :: "moverecord list list"
  plGame :: nat
  plLastMove :: nat
  fNextTurn :: bool

text \<open>
  The settings, the answers of the user to the questions of the program (\<open>GetInputYN\<close>,
  \<open>get_input_discard\<close>, \<open>GiveAdvice\<close>) and the databases \<open>GameStatus\<close> is called with.
\<close>

record settings =
  human :: "bool \<times> bool"
  fComputerDecision :: bool
  nBeavers :: u32
  fAutoCrawford :: bool
  cAutoDoubles :: nat
  fAutoGame :: bool
  fAutoMove :: bool
  fAutoBearoff :: bool
  fDisplay :: bool
  fRecord :: bool
  fConfirmNew :: bool
  fTutor :: bool
  fTutorCube :: bool
  fTutorChequer :: bool
  automaticTask :: bool
  GetInputYN :: bool
  get_input_discard :: bool
  GiveAdvice :: bool
  nDefaultLength :: nat
  bgvDefault :: bgvariation
  set_fCubeUse :: int
  set_fJacoby :: int
  databases_of :: databases

datatype reply =
    Accepted | No_game | Computers_turn | Crawford_rule | Cube_disabled | Not_last_move | Not_on_roll
  | Already_rolled | Not_owner | Cube_at_maximum | Match_play | Beavers_disabled | Beaver_limit
  | Not_offered | No_resignation | Bad_keyword | Declined_already | Cube_pending | Resignation_pending
  | Not_rolled | Illegal_move | Must_specify_move | Advice_taken | No_double_record | Match_over
  | Too_long | Not_discarded | Interrupted

type_synonym answer = "(reply \<times> session) option"

definition game_of :: "session \<Rightarrow> moverecord list" where
  "game_of s = (if plGame s < length (lMatch s) then lMatch s ! plGame s else [])"

definition PopGame :: "session \<Rightarrow> nat \<Rightarrow> bool \<Rightarrow> session" where
  "PopGame s i fInclusive =
     (let k = (if i < length (lMatch s) \<and> \<not> fInclusive then i + 1 else i) in
      if k \<ge> length (lMatch s) then s else s\<lparr>lMatch := take k (lMatch s)\<rparr>)"

definition PopMoveRecord :: "session \<Rightarrow> nat \<Rightarrow> session" where
  "PopMoveRecord s i =
     (if i \<ge> length (game_of s) then s
      else s\<lparr>lMatch := (lMatch s)[plGame s := take i (game_of s)], plLastMove := min (plLastMove s) i\<rparr>)"

definition move_is_last_in_match :: "session \<Rightarrow> bool" where
  "move_is_last_in_match s \<longleftrightarrow> length (game_of s) \<le> plLastMove s"

definition move_not_last_in_match_ok :: "settings \<Rightarrow> session \<Rightarrow> bool" where
  "move_not_last_in_match_ok S s \<longleftrightarrow> automaticTask S \<or> move_is_last_in_match s \<or> GetInputYN S"

text \<open>The record \<open>plLastMove\<close> points to, none at the head of the game.\<close>

definition last_record :: "session \<Rightarrow> moverecord option" where
  "last_record s = (if plLastMove s = 0 \<or> plLastMove s > length (game_of s) then None
     else Some (game_of s ! (plLastMove s - 1)))"

fun add_moverecord_sanity_check :: "moverecord \<Rightarrow> bool" where
  "add_moverecord_sanity_check (MOVE_GAMEINFO g) \<longleftrightarrow>
     0 \<le> g_nMatch g \<and> 0 \<le> g_i g \<and>
     (g_nMatch g = 0 \<or> (g_i g \<le> g_nMatch g * 2 + 1 \<and> fst (g_anScore g) < g_nMatch g \<and> snd (g_anScore g) < g_nMatch g)) \<and>
     (g_fCrawford g \<noteq> 0 \<or> g_fCrawfordGame g = 0)"
| "add_moverecord_sanity_check (MOVE_RESIGN f n) \<longleftrightarrow> 0 \<le> f \<and> f \<le> 1 \<and> 1 \<le> n \<and> n \<le> 3"
| "add_moverecord_sanity_check pmr \<longleftrightarrow> 0 \<le> fPlayer pmr \<and> fPlayer pmr \<le> 1"

text \<open>
  A roll is replaced by the move played with it, and a \<open>MOVE_SETxxx\<close> record by the next one of
  its kind.
\<close>

definition elide :: "session \<Rightarrow> moverecord \<Rightarrow> session option" where
  "elide s pmr =
     (if mt pmr = 1 then
        (case last_record s of
           None \<Rightarrow> None
         | Some old \<Rightarrow> Some (if mt old = 7 \<and> fPlayer old = fPlayer pmr then PopMoveRecord s (plLastMove s - 1) else s))
      else if mt pmr \<ge> 6 then
        (case last_record s of
           None \<Rightarrow> None
         | Some old \<Rightarrow> Some (if mt old = mt pmr \<and> fPlayer old = fPlayer pmr then PopMoveRecord s (plLastMove s - 1) else s))
      else Some s)"

definition AddMoveRecord :: "settings \<Rightarrow> session \<Rightarrow> moverecord \<Rightarrow> session option" where
  "AddMoveRecord S s pmr =
     (if \<not> add_moverecord_sanity_check pmr then None
      else
        let s = PopGame s (plGame s) False;
            s = PopMoveRecord s (plLastMove s)
        in case elide s pmr of
             None \<Rightarrow> None
           | Some s \<Rightarrow>
             (case ApplyMoveRecord (databases_of S) (FixMatchState (ms s) pmr) (game_of s) pmr of
                None \<Rightarrow> None
              | Some (pms, game) \<Rightarrow>
                  Some (s\<lparr>ms := pms, lMatch := (lMatch s)[plGame s := game @ [pmr]], plLastMove := length game + 1\<rparr>)))"

text \<open>Most commands end by adding their record and asking for the next turn.\<close>

definition submit :: "settings \<Rightarrow> session \<Rightarrow> moverecord \<Rightarrow> answer" where
  "submit S s pmr =
     (case AddMoveRecord S s pmr of None \<Rightarrow> None | Some s \<Rightarrow> Some (Accepted, s\<lparr>fNextTurn := True\<rparr>))"

definition computers_turn :: "settings \<Rightarrow> session \<Rightarrow> bool" where
  "computers_turn S s \<longleftrightarrow> \<not> side_of (fTurn (ms s)) (human S) \<and> \<not> fComputerDecision S"

section \<open>The cube\<close>

definition LinkToDouble :: "session \<Rightarrow> moverecord \<Rightarrow> moverecord option" where
  "LinkToDouble s pmr =
     (case last_record s of
        Some (MOVE_DOUBLE f n) \<Rightarrow>
          Some (case pmr of MOVE_DOUBLE fP nAnimals \<Rightarrow> MOVE_DOUBLE fP (1 + n) | _ \<Rightarrow> pmr)
      | _ \<Rightarrow> None)"

definition CommandRedouble :: "settings \<Rightarrow> session \<Rightarrow> answer" where
  "CommandRedouble S s =
     (if nMatchTo (ms s) > 0 then Some (Match_play, s)
      else if nBeavers S = 0 then Some (Beavers_disabled, s)
      else if cBeavers (ms s) \<ge> nBeavers S then Some (Beaver_limit, s)
      else if gs (ms s) \<noteq> GAME_PLAYING \<or> fDoubled (ms s) = 0 then Some (Not_offered, s)
      else if computers_turn S s then Some (Computers_turn, s)
      else if nCube (ms s) \<ge> MAX_CUBE div 2 then Some (Cube_at_maximum, s)
      else if \<not> move_not_last_in_match_ok S s then Some (Not_last_move, s)
      else
        let s = s\<lparr>ms := (ms s)\<lparr>fCubeOwner := cnot (fMove (ms s))\<rparr>\<rparr>;
            pmr = MOVE_DOUBLE (fTurn (ms s)) 0
        in submit S s (case LinkToDouble s pmr of None \<Rightarrow> pmr | Some pmr \<Rightarrow> pmr))"

definition CommandDouble :: "settings \<Rightarrow> session \<Rightarrow> answer" where
  "CommandDouble S s =
     (if gs (ms s) \<noteq> GAME_PLAYING then Some (No_game, s)
      else if computers_turn S s then Some (Computers_turn, s)
      else if fCrawford (ms s) \<noteq> 0 then Some (Crawford_rule, s)
      else if fCubeUse (ms s) = 0 then Some (Cube_disabled, s)
      else if \<not> move_not_last_in_match_ok S s then Some (Not_last_move, s)
      else if fDoubled (ms s) \<noteq> 0 then CommandRedouble S s
      else if fTurn (ms s) \<noteq> fMove (ms s) then Some (Not_on_roll, s)
      else if fst (anDice (ms s)) \<noteq> 0 then Some (Already_rolled, s)
      else if fCubeOwner (ms s) \<ge> 0 \<and> fCubeOwner (ms s) \<noteq> fTurn (ms s) then Some (Not_owner, s)
      else if nCube (ms s) \<ge> MAX_CUBE then Some (Cube_at_maximum, s)
      else if fTutor S \<and> fTutorCube S \<and> \<not> GiveAdvice S then Some (Advice_taken, s)
      else submit S s (MOVE_DOUBLE (fTurn (ms s)) 0))"

definition CommandDrop :: "settings \<Rightarrow> session \<Rightarrow> answer" where
  "CommandDrop S s =
     (if gs (ms s) \<noteq> GAME_PLAYING \<or> fDoubled (ms s) = 0 then Some (Not_offered, s)
      else if computers_turn S s then Some (Computers_turn, s)
      else if \<not> move_not_last_in_match_ok S s then Some (Not_last_move, s)
      else case LinkToDouble s (MOVE_DROP (fTurn (ms s))) of
        None \<Rightarrow> Some (No_double_record, s)
      | Some pmr \<Rightarrow>
          if fTutor S \<and> fTutorCube S \<and> \<not> GiveAdvice S then Some (Advice_taken, s) else submit S s pmr)"

text \<open>The test that the move is the last one of the match decides about the sound only.\<close>

definition CommandTake :: "settings \<Rightarrow> session \<Rightarrow> answer" where
  "CommandTake S s =
     (if gs (ms s) \<noteq> GAME_PLAYING \<or> fDoubled (ms s) = 0 then Some (Not_offered, s)
      else if computers_turn S s then Some (Computers_turn, s)
      else case LinkToDouble s (MOVE_TAKE (fTurn (ms s))) of
        None \<Rightarrow> Some (No_double_record, s)
      | Some pmr \<Rightarrow>
          if fTutor S \<and> fTutorCube S \<and> \<not> GiveAdvice S then Some (Advice_taken, s) else submit S s pmr)"

section \<open>Resignations\<close>

definition lower :: "char \<Rightarrow> char" where
  "lower c = (if 65 \<le> (of_char c :: nat) \<and> (of_char c :: nat) \<le> 90 then char_of ((of_char c :: nat) + 32) else c)"

text \<open>\<open>StrNCaseCmp (keyword, pch, strlen (pch)) = 0\<close> for a lower case keyword.\<close>

definition abbreviates :: "string \<Rightarrow> string \<Rightarrow> bool" where
  "abbreviates pch keyword \<longleftrightarrow> map lower pch = take (length pch) keyword"

fun digits :: "int \<Rightarrow> string \<Rightarrow> int" where
  "digits n (c # cs) =
     (if 48 \<le> (of_char c :: nat) \<and> (of_char c :: nat) \<le> 57 then digits (10 * n + (of_char c - 48)) cs else n)"
| "digits n [] = n"

fun atoi :: "string \<Rightarrow> int" where
  "atoi [] = 0"
| "atoi (c # cs) = (if c = CHR ''-'' then - digits 0 cs else if c = CHR ''+'' then digits 0 cs else digits 0 (c # cs))"

definition resign_value :: "string option \<Rightarrow> int" where
  "resign_value token = (case token of
     None \<Rightarrow> 1
   | Some pch \<Rightarrow>
       if abbreviates pch ''single'' \<or> abbreviates pch ''normal'' then 1
       else if abbreviates pch ''gammon'' then 2
       else if abbreviates pch ''backgammon'' then 3
       else atoi pch)"

definition CommandResign :: "settings \<Rightarrow> string option \<Rightarrow> session \<Rightarrow> answer" where
  "CommandResign S token s =
     (if gs (ms s) \<noteq> GAME_PLAYING then Some (No_game, s)
      else if computers_turn S s then Some (Computers_turn, s)
      else
        let n = resign_value token;
            cleared = s\<lparr>ms := (ms s)\<lparr>fResigned := 0\<rparr>\<rparr>
        in if n \<noteq> - 1 \<and> (n < 1 \<or> n > 3) then Some (Bad_keyword, cleared)
           else if n \<ge> 0 \<and> n \<le> fResignationDeclined (ms s) then Some (Declined_already, cleared)
           else Some (Accepted, s\<lparr>ms := (ms s)\<lparr>fResigned := n, fTurn := cnot (fTurn (ms s))\<rparr>, fNextTurn := True\<rparr>))"

definition CommandAgree :: "settings \<Rightarrow> session \<Rightarrow> answer" where
  "CommandAgree S s =
     (if gs (ms s) \<noteq> GAME_PLAYING then Some (No_game, s)
      else if computers_turn S s then Some (Computers_turn, s)
      else if fResigned (ms s) = 0 then Some (No_resignation, s)
      else if \<not> move_not_last_in_match_ok S s then Some (Not_last_move, s)
      else submit S s (MOVE_RESIGN (cnot (fTurn (ms s))) (fResigned (ms s))))"

definition CommandDecline :: "settings \<Rightarrow> session \<Rightarrow> answer" where
  "CommandDecline S s =
     (if gs (ms s) \<noteq> GAME_PLAYING then Some (No_game, s)
      else if computers_turn S s then Some (Computers_turn, s)
      else if fResigned (ms s) = 0 then Some (No_resignation, s)
      else Some (Accepted, s\<lparr>ms := (ms s)\<lparr>fResignationDeclined := fResigned (ms s), fResigned := 0,
                              fTurn := cnot (fTurn (ms s))\<rparr>, fNextTurn := True\<rparr>))"

definition CommandAccept :: "settings \<Rightarrow> session \<Rightarrow> answer" where
  "CommandAccept S s =
     (if fResigned (ms s) \<noteq> 0 then CommandAgree S s
      else if fDoubled (ms s) \<noteq> 0 then CommandTake S s
      else Some (Not_offered, s))"

definition CommandReject :: "settings \<Rightarrow> session \<Rightarrow> answer" where
  "CommandReject S s =
     (if fResigned (ms s) \<noteq> 0 then CommandDecline S s
      else if fDoubled (ms s) \<noteq> 0 then CommandDrop S s
      else Some (Not_offered, s))"

section \<open>Rolling and moving\<close>

text \<open>The two dice, the larger first, as the records keep them.\<close>

definition sorted_dice :: "u32 \<times> u32 \<Rightarrow> u32 \<times> u32" where
  "sorted_dice d = (max (fst d) (snd d), min (fst d) (snd d))"

definition legal_moves :: "matchstate \<Rightarrow> move list" where
  "legal_moves pms =
     amMoves (GenerateMoves (anBoard pms) (uint (fst (anDice pms))) (uint (snd (anDice pms))) False)"

definition normal_record :: "session \<Rightarrow> int list \<Rightarrow> moverecord" where
  "normal_record s anMove = MOVE_NORMAL (fTurn (ms s)) (sorted_dice (anDice (ms s))) anMove"

definition board_in_list :: "move list \<Rightarrow> TanBoard \<Rightarrow> TanBoard \<Rightarrow> int list option" where
  "board_in_list ml old_board board =
     map_option pm_anMove
       (List.find (\<lambda>m. map_option snd (ApplyMove old_board (pm_anMove m) False) = Some board) ml)"

text \<open>
  \<open>an\<close> is the move that \<open>ParseMove\<close> made of the text, \<open>None\<close> when it could not; applying it
  unchecked may fail half way, and the board is compared as it is then.
\<close>

definition parse_move_is_legal :: "int list option \<Rightarrow> matchstate \<Rightarrow> int list option" where
  "parse_move_is_legal parsed pms = (case parsed of
     None \<Rightarrow> None
   | Some an \<Rightarrow>
       (case ApplyMove (anBoard pms) an False of
          None \<Rightarrow> None
        | Some (_, anBoardNew) \<Rightarrow> board_in_list (legal_moves pms) (anBoard pms) anBoardNew))"

text \<open>The first \<open>n\<close> chequers of a move all bear off.\<close>

fun all_bear_off :: "nat \<Rightarrow> int list \<Rightarrow> bool" where
  "all_bear_off 0 an \<longleftrightarrow> True"
| "all_bear_off (Suc n) (nSrc # nDest # an) \<longleftrightarrow> 0 \<le> nSrc \<and> nDest = - 1 \<and> all_bear_off n an"
| "all_bear_off (Suc n) an \<longleftrightarrow> False"

definition bearoff_move :: "matchstate \<Rightarrow> int list option" where
  "bearoff_move pms =
     (let cMoves = (if fst (anDice pms) = snd (anDice pms) then 4 else 2)
      in map_option pm_anMove (List.find (\<lambda>m. all_bear_off cMoves (pm_anMove m)) (legal_moves pms)))"

definition TryBearoff :: "settings \<Rightarrow> session \<Rightarrow> int list option" where
  "TryBearoff S s =
     (if ClassifyPosition (databases_of S) (anBoard (ms s)) VARIATION_STANDARD > CLASS_RACE then None
      else bearoff_move (ms s))"

text \<open>The moves made for the player: none is legal, only one is, or every die bears a chequer off.\<close>

definition automatic_move :: "settings \<Rightarrow> session \<Rightarrow> int list option" where
  "automatic_move S s = (case legal_moves (ms s) of
     [] \<Rightarrow> Some [- 1, - 1]
   | ml \<Rightarrow>
       if length ml = 1 \<and> (fAutoMove S \<or>
            (ClassifyPosition (databases_of S) (anBoard (ms s)) (bgv (ms s)) \<le> CLASS_BEAROFF1 \<and> fAutoBearoff S))
       then Some (pm_anMove (hd ml))
       else if fAutoBearoff S then TryBearoff S s else None)"

definition CommandRoll :: "settings \<Rightarrow> u32 \<times> u32 \<Rightarrow> session \<Rightarrow> answer" where
  "CommandRoll S roll s =
     (if gs (ms s) \<noteq> GAME_PLAYING then Some (No_game, s)
      else if \<not> side_of (fTurn (ms s)) (human S) then Some (Computers_turn, s)
      else if fDoubled (ms s) \<noteq> 0 then Some (Cube_pending, s)
      else if fResigned (ms s) \<noteq> 0 then Some (Resignation_pending, s)
      else if fst (anDice (ms s)) \<noteq> 0 then Some (Already_rolled, s)
      else if \<not> move_not_last_in_match_ok S s then Some (Not_last_move, s)
      else if fTutor S \<and> fTutorCube S \<and> \<not> GiveAdvice S then Some (Advice_taken, s)
      else
        let s = s\<lparr>ms := (ms s)\<lparr>anDice := roll\<rparr>\<rparr>
        in case AddMoveRecord S s (MOVE_SETDICE (fTurn (ms s)) (sorted_dice roll)) of
             None \<Rightarrow> None
           | Some s \<Rightarrow>
             (case automatic_move S s of
                None \<Rightarrow> Some (Accepted, s)
              | Some anMove \<Rightarrow> submit S s (normal_record s anMove)))"

definition CommandMove :: "settings \<Rightarrow> int list option option \<Rightarrow> session \<Rightarrow> answer" where
  "CommandMove S text s =
     (if gs (ms s) \<noteq> GAME_PLAYING then Some (No_game, s)
      else if \<not> side_of (fTurn (ms s)) (human S) then Some (Computers_turn, s)
      else if fst (anDice (ms s)) = 0 then Some (Not_rolled, s)
      else if fResigned (ms s) \<noteq> 0 then Some (Resignation_pending, s)
      else if fDoubled (ms s) \<noteq> 0 then Some (Cube_pending, s)
      else if \<not> move_not_last_in_match_ok S s then Some (Not_last_move, s)
      else case text of
        None \<Rightarrow>
          (case legal_moves (ms s) of
             [] \<Rightarrow> submit S s (normal_record s [- 1, - 1])
           | [m] \<Rightarrow> submit S s (normal_record s (pm_anMove m))
           | _ \<Rightarrow>
             (case (if fAutoBearoff S then TryBearoff S s else None) of
                Some anMove \<Rightarrow> submit S s (normal_record s anMove)
              | None \<Rightarrow> Some (Must_specify_move, s)))
      | Some parsed \<Rightarrow>
          (case parse_move_is_legal parsed (ms s) of
             None \<Rightarrow> Some (Illegal_move, s)
           | Some an \<Rightarrow>
               if fTutor S \<and> fTutorChequer S \<and> \<not> GiveAdvice S then Some (Advice_taken, s)
               else submit S s (normal_record s an)))"

section \<open>A new game\<close>

definition new_game_info :: "settings \<Rightarrow> matchstate \<Rightarrow> xmovegameinfo" where
  "new_game_info S pms =
     \<lparr>g_i = cGames pms, g_nMatch = nMatchTo pms, g_anScore = anScore pms,
      g_fCrawford = of_bool (fAutoCrawford S \<and> nMatchTo pms > 1), g_fCrawfordGame = fCrawford pms,
      g_fJacoby = of_bool (fJacoby pms \<noteq> 0 \<and> nMatchTo pms = 0), g_fWinner = - 1, g_nPoints = 0,
      g_fResigned = 0, g_nAutoDoubles = 0, g_bgv = bgv pms, g_fCubeUse = fCubeUse pms\<rparr>"

text \<open>
  The opening roll is repeated until the dice differ; \<open>None\<close> when the rolls stop before that.
  An automatic double is counted in the record of the game, and the cube is turned by the
  expression that prints its value, so only when \<open>fDisplay\<close> is set.
\<close>

fun opening_roll :: "settings \<Rightarrow> matchstate \<Rightarrow> nat \<Rightarrow> (u32 \<times> u32) list \<Rightarrow> (matchstate \<times> nat) option" where
  "opening_roll S pms nAutoDoubles [] = None"
| "opening_roll S pms nAutoDoubles (roll # rolls) =
     (let pms = pms\<lparr>anDice := roll\<rparr> in
      if fst roll \<noteq> snd roll then Some (pms, nAutoDoubles)
      else if nMatchTo pms = 0 \<and> nCube pms < 2 ^ cAutoDoubles S \<and> fCubeUse pms \<noteq> 0 \<and> nCube pms < MAX_CUBE then
        opening_roll S (if fDisplay S then pms\<lparr>nCube := 2 * nCube pms\<rparr> else pms) (nAutoDoubles + 1) rolls
      else opening_roll S pms nAutoDoubles rolls)"

definition set_auto_doubles :: "nat \<Rightarrow> moverecord list \<Rightarrow> moverecord list" where
  "set_auto_doubles n game = (case game of MOVE_GAMEINFO g # rest \<Rightarrow> MOVE_GAMEINFO (g\<lparr>g_nAutoDoubles := n\<rparr>) # rest | _ \<Rightarrow> game)"

definition begin_game :: "settings \<Rightarrow> (u32 \<times> u32) list \<Rightarrow> session \<Rightarrow> answer" where
  "begin_game S rolls s =
     (let s = s\<lparr>ms := (ms s)\<lparr>anBoard := InitBoard (bgv (ms s))\<rparr>, lMatch := lMatch s @ [[]],
                plGame := length (lMatch s), plLastMove := 0\<rparr>
      in case AddMoveRecord S s (MOVE_GAMEINFO (new_game_info S (ms s))) of
           None \<Rightarrow> None
         | Some s \<Rightarrow>
           (case opening_roll S (ms s) 0 rolls of
              None \<Rightarrow> Some (Interrupted, s)
            | Some (pms, n) \<Rightarrow>
                if \<not> nCube pms \<le> MAX_CUBE then None
                else
                  let s = s\<lparr>ms := pms, lMatch := (lMatch s)[plGame s := set_auto_doubles n (game_of s)]\<rparr>;
                      d = anDice pms
                  in map_option (Pair Accepted)
                       (AddMoveRecord S s (MOVE_SETDICE (of_bool (snd d > fst d)) (sorted_dice d)))))"

text \<open>When only the active game is recorded, a session asks before it discards the games before.\<close>

definition NewGame :: "settings \<Rightarrow> (u32 \<times> u32) list \<Rightarrow> session \<Rightarrow> answer" where
  "NewGame S rolls s =
     (if \<not> fRecord S \<and> nMatchTo (ms s) = 0 \<and> lMatch s \<noteq> [] then
        (if get_input_discard S then begin_game S rolls (PopGame s 0 True) else Some (Not_discarded, s))
      else begin_game S rolls s)"

definition CommandNewGame :: "settings \<Rightarrow> (u32 \<times> u32) list \<Rightarrow> session \<Rightarrow> answer" where
  "CommandNewGame S rolls s =
     (if nMatchTo (ms s) \<noteq> 0 \<and> (fst (anScore (ms s)) \<ge> nMatchTo (ms s) \<or> snd (anScore (ms s)) \<ge> nMatchTo (ms s))
      then Some (Match_over, s)
      else
        let discard = gs (ms s) = GAME_PLAYING \<or> \<not> move_is_last_in_match s in
        if discard \<and> fConfirmNew S \<and> \<not> GetInputYN S then Some (Not_discarded, s)
        else NewGame S rolls (if discard then PopGame s (plGame s) True else s))"

definition ClearMatch :: "settings \<Rightarrow> session \<Rightarrow> session" where
  "ClearMatch S s =
     s\<lparr>ms := (ms s)\<lparr>nMatchTo := 0, cGames := 0, anScore := (0, 0), fMove := - 1, fTurn := - 1, fCrawford := 0,
         fPostCrawford := 0, gs := GAME_NONE, fJacoby := set_fJacoby S\<rparr>\<rparr>"

definition start_match :: "settings \<Rightarrow> nat \<Rightarrow> (u32 \<times> u32) list \<Rightarrow> session \<Rightarrow> answer" where
  "start_match S n rolls s =
     (if \<not> get_input_discard S then Some (Not_discarded, s)
      else
        let s = ClearMatch S (PopGame s 0 True);
            pms = (ms s)\<lparr>nMatchTo := int n, bgv := bgvDefault S, fCubeUse := set_fCubeUse S, fJacoby := set_fJacoby S\<rparr>
        in CommandNewGame S rolls (s\<lparr>ms := pms, plGame := 0, plLastMove := 0\<rparr>))"

definition CommandNewSession :: "settings \<Rightarrow> (u32 \<times> u32) list \<Rightarrow> session \<Rightarrow> answer" where
  "CommandNewSession S rolls s = start_match S 0 rolls s"

definition CommandNewMatch :: "settings \<Rightarrow> nat option \<Rightarrow> (u32 \<times> u32) list \<Rightarrow> session \<Rightarrow> answer" where
  "CommandNewMatch S len rolls s =
     (let n = (case len of None \<Rightarrow> nDefaultLength S | Some n \<Rightarrow> n) in
      if n = 0 then CommandNewSession S rolls s
      else if int n > MAXSCORE then Some (Too_long, s)
      else start_match S n rolls s)"

section \<open>The end of a game\<close>

text \<open>The Crawford game is the first one after a player comes within a point of winning the match.\<close>

definition update_crawford :: "int \<Rightarrow> matchstate \<Rightarrow> matchstate" where
  "update_crawford fWinner pms =
     (let post = of_bool (fPostCrawford pms \<noteq> 0 \<or> (fCrawford pms \<noteq> 0 \<and> side_of fWinner (anScore pms) < nMatchTo pms))
      in pms\<lparr>fPostCrawford := post,
             fCrawford := of_bool (post = 0 \<and> fCrawford pms = 0 \<and> side_of fWinner (anScore pms) = nMatchTo pms - 1 \<and>
               side_of (cnot fWinner) (anScore pms) \<noteq> nMatchTo pms - 1)\<rparr>)"

definition game_ended :: "settings \<Rightarrow> matchstate \<Rightarrow> bool" where
  "game_ended S pms \<longleftrightarrow>
     GameStatus (databases_of S) (anBoard pms) (bgv pms) \<noteq> 0 \<or> gs pms = GAME_DROP \<or> gs pms = GAME_RESIGNED"

text \<open>
  \<open>NextTurn\<close> up to its assertion that a game is being played; what follows it issues the next
  command, for a human whose roll is automatic or for the computer.
\<close>

definition NextTurn :: "settings \<Rightarrow> (u32 \<times> u32) list \<Rightarrow> session \<Rightarrow> answer" where
  "NextTurn S rolls s =
     (if \<not> fNextTurn s then Some (Accepted, s)
      else
        let s = s\<lparr>fNextTurn := False\<rparr> in
        if \<not> game_ended S (ms s) then
          (if gs (ms s) = GAME_PLAYING then Some (Accepted, s) else None)
        else (case game_of s of
          MOVE_GAMEINFO g # _ \<Rightarrow>
            let s = (if nMatchTo (ms s) \<noteq> 0 \<and> fAutoCrawford S
                     then s\<lparr>ms := update_crawford (g_fWinner g) (ms s)\<rparr> else s)
            in if nMatchTo (ms s) \<noteq> 0 \<and> side_of (g_fWinner g) (anScore (ms s)) \<ge> nMatchTo (ms s)
               then Some (Match_over, s)
               else if fAutoGame S then NewGame S rolls s
               else Some (Accepted, s)
        | _ \<Rightarrow> None))"

section \<open>Replaying a game\<close>

definition CalculateBoard :: "settings \<Rightarrow> session \<Rightarrow> session option" where
  "CalculateBoard S s =
     (case replay (databases_of S) 0 (plLastMove s) (ms s, game_of s) of
        None \<Rightarrow> None
      | Some (pms, game) \<Rightarrow> Some (s\<lparr>ms := pms, lMatch := (lMatch s)[plGame s := game]\<rparr>))"

section \<open>The final score\<close>

definition getFinalScore :: "moverecord list list \<Rightarrow> (int \<times> int) option" where
  "getFinalScore games = (case games of
     [] \<Rightarrow> None
   | _ \<Rightarrow>
     (case last games of
        MOVE_GAMEINFO g # _ \<Rightarrow>
          Some (if g_fWinner g = - 1 then g_anScore g
                else if g_fWinner g = 0 then (fst (g_anScore g) + g_nPoints g, snd (g_anScore g))
                else (fst (g_anScore g), snd (g_anScore g) + g_nPoints g))
      | _ \<Rightarrow> None))"

end
