(* ===== verification/Game_Laws.thy ===== *)
theory Game_Laws
  imports Game_Play
begin

text \<open>
  What every sequence of commands keeps: the commands as one step function \<open>exec\<close>, the sessions
  it reaches from the start of the program, and the invariants of the board, the cube, the turn,
  the score and the Crawford game.
\<close>

section \<open>The step function\<close>

datatype command =
    Double | Redouble | Take | Drop | Accept | Reject | Agree | Decline
  | Resign "string option" | Roll "u32 \<times> u32" | Move "int list option option"
  | New_game | New_session | New_match "nat option"

text \<open>\<open>rolls\<close> are the opening rolls of the games that the command or the end of a game starts.\<close>

fun run :: "settings \<Rightarrow> (u32 \<times> u32) list \<Rightarrow> command \<Rightarrow> session \<Rightarrow> answer" where
  "run S rolls Double s = CommandDouble S s"
| "run S rolls Redouble s = CommandRedouble S s"
| "run S rolls Take s = CommandTake S s"
| "run S rolls Drop s = CommandDrop S s"
| "run S rolls Accept s = CommandAccept S s"
| "run S rolls Reject s = CommandReject S s"
| "run S rolls Agree s = CommandAgree S s"
| "run S rolls Decline s = CommandDecline S s"
| "run S rolls (Resign token) s = CommandResign S token s"
| "run S rolls (Roll roll) s = CommandRoll S roll s"
| "run S rolls (Move text) s = CommandMove S text s"
| "run S rolls New_game s = CommandNewGame S rolls s"
| "run S rolls New_session s = CommandNewSession S rolls s"
| "run S rolls (New_match n) s = CommandNewMatch S n rolls s"

text \<open>The main loop calls \<open>NextTurn\<close> after every command.\<close>

definition exec :: "settings \<Rightarrow> (u32 \<times> u32) list \<Rightarrow> command \<Rightarrow> session \<Rightarrow> answer" where
  "exec S rolls c s =
     (case run S rolls c s of
        None \<Rightarrow> None
      | Some (r, s) \<Rightarrow>
          (case NextTurn S rolls s of
             None \<Rightarrow> None
           | Some (r', s) \<Rightarrow> Some (if r' = Interrupted then Interrupted else r, s)))"

text \<open>The state the program starts with.\<close>

definition initial_session :: session where
  "initial_session =
     \<lparr>ms = \<lparr>anBoard = (replicate 25 0, replicate 25 0), anDice = (0, 0), fTurn = - 1, fResigned = 0,
        fResignationDeclined = 0, fDoubled = 0, cGames = 0, fMove = - 1, fCubeOwner = - 1, fCrawford = 0,
        fPostCrawford = 0, nMatchTo = 0, anScore = (0, 0), nCube = 1, cBeavers = 0, bgv = VARIATION_STANDARD,
        fCubeUse = 1, fJacoby = 1, gs = GAME_NONE\<rparr>,
      lMatch = [], plGame = 0, plLastMove = 0, fNextTurn = False\<rparr>"

text \<open>
  The steps the invariants are about.  Dice are between 1 and 6, as \<open>RollDice\<close> makes sure; the
  output is displayed (the opening roll turns the cube only then); and while a resignation is
  pending, the players answer it first: none of them turns or answers the cube, or resigns.
\<close>

definition roll_ok :: "u32 \<times> u32 \<Rightarrow> bool" where
  "roll_ok d \<longleftrightarrow> 1 \<le> fst d \<and> fst d \<le> 6 \<and> 1 \<le> snd d \<and> snd d \<le> 6"

definition admissible :: "settings \<Rightarrow> (u32 \<times> u32) list \<Rightarrow> command \<Rightarrow> session \<Rightarrow> bool" where
  "admissible S rolls c s \<longleftrightarrow>
     fDisplay S \<and> (\<forall>d\<in>set rolls. roll_ok d) \<and>
     (case c of
        Roll d \<Rightarrow> roll_ok d
      | Resign token \<Rightarrow> fResigned (ms s) = 0 \<and> resign_value token \<noteq> - 1
      | Double \<Rightarrow> fResigned (ms s) = 0
      | Redouble \<Rightarrow> fResigned (ms s) = 0
      | Take \<Rightarrow> fResigned (ms s) = 0
      | Drop \<Rightarrow> fResigned (ms s) = 0
      | _ \<Rightarrow> True)"

text \<open>
  The sessions reached with the automatic Crawford rule switched on (\<open>ac\<close>) or off.  A command that
  starts a game must get its opening roll, and the permission to discard games when it asks.
\<close>

inductive reachable :: "bool \<Rightarrow> session \<Rightarrow> bool" for ac where
  start: "reachable ac initial_session"
| step: "reachable ac s \<Longrightarrow> fAutoCrawford S = ac \<Longrightarrow> admissible S rolls c s \<Longrightarrow>
         exec S rolls c s = Some (r, s') \<Longrightarrow> r \<notin> {Interrupted, Not_discarded} \<Longrightarrow> reachable ac s'"

section \<open>Adding a record at the end of the match\<close>

text \<open>The current game is the last one, at its last move; \<open>g\<close> is its information.\<close>

definition in_game :: "session \<Rightarrow> moverecord list list \<Rightarrow> xmovegameinfo \<Rightarrow> moverecord list \<Rightarrow> bool" where
  "in_game s old g rest \<longleftrightarrow>
     lMatch s = old @ [MOVE_GAMEINFO g # rest] \<and> plGame s = length old \<and> plLastMove s = Suc (length rest)"

lemma in_gameD:
  assumes "in_game s old g rest"
  shows "game_of s = MOVE_GAMEINFO g # rest" "last_record s = Some (last (MOVE_GAMEINFO g # rest))"
    "move_is_last_in_match s" "PopGame s (plGame s) False = s" "PopMoveRecord s (plLastMove s) = s"
    "length (lMatch s) = Suc (plGame s)"
  using assms
  by (auto simp: in_game_def game_of_def last_record_def move_is_last_in_match_def PopGame_def
      PopMoveRecord_def last_conv_nth)

lemma in_game_cong: "in_game (s\<lparr>ms := p\<rparr>) = in_game s" "in_game (s\<lparr>fNextTurn := b\<rparr>) = in_game s"
  by (simp_all add: in_game_def fun_eq_iff)

definition resumed :: "matchstate \<Rightarrow> matchstate" where
  "resumed pms = pms\<lparr>gs := GAME_PLAYING, fResigned := 0, fResignationDeclined := 0\<rparr>"

text \<open>\<open>mt pmr = 0\<close> is a \<open>MOVE_GAMEINFO\<close>.\<close>

lemma ApplyMoveRecord_in_game:
  "mt pmr \<noteq> 0 \<Longrightarrow> ApplyMoveRecord dbs pms (MOVE_GAMEINFO g # rest) pmr =
     Some (fst (apply_record dbs (resumed pms) g pmr), MOVE_GAMEINFO (snd (apply_record dbs (resumed pms) g pmr)) # rest)"
  by (cases pmr) (auto simp: ApplyMoveRecord_def resumed_def split_def Let_def)

lemma elide_in_game:
  assumes s: "in_game s old g rest"
  obtains s' rest' where "elide s pmr = Some s'" "in_game s' old g rest'" "ms s' = ms s" "fNextTurn s' = fNextTurn s"
proof (cases "elide s pmr = Some s")
  case True
  then show ?thesis using that s by blast
next
  case False
  from False in_gameD(2) [OF s] have e: "elide s pmr = Some (PopMoveRecord s (plLastMove s - 1))"
    and l: "6 \<le> mt (last (MOVE_GAMEINFO g # rest))"
    by (auto simp: elide_def split: if_splits)
  then have "rest \<noteq> []" by auto
  then obtain ys y where r: "rest = ys @ [y]" by (cases rest rule: rev_cases) auto
  have "in_game (PopMoveRecord s (plLastMove s - 1)) old g ys"
    using s r by (auto simp: in_game_def PopMoveRecord_def game_of_def)
  moreover have "ms (PopMoveRecord s i) = ms s" "fNextTurn (PopMoveRecord s i) = fNextTurn s" for i
    by (simp_all add: PopMoveRecord_def)
  ultimately show ?thesis using that e by blast
qed

lemma AddMoveRecord_in_game:
  assumes s: "in_game s old g rest" and sane: "add_moverecord_sanity_check pmr" and m: "mt pmr \<noteq> 0"
    and e: "apply_record (databases_of S) (resumed (FixMatchState (ms s) pmr)) g pmr = (pms, g')"
  obtains s' rest' where "AddMoveRecord S s pmr = Some s'" "in_game s' old g' (rest' @ [pmr])" "ms s' = pms"
    "fNextTurn s' = fNextTurn s"
proof -
  obtain s1 rest1 where s1: "elide s pmr = Some s1" "in_game s1 old g rest1" "ms s1 = ms s" "fNextTurn s1 = fNextTurn s"
    by (rule elide_in_game [OF s])
  note game1 = in_gameD(1) [OF s1(2)]
  let ?s = "s1\<lparr>ms := pms, lMatch := (lMatch s1)[plGame s1 := (MOVE_GAMEINFO g' # rest1) @ [pmr]],
              plLastMove := length (MOVE_GAMEINFO g' # rest1) + 1\<rparr>"
  have "AddMoveRecord S s pmr = Some ?s"
    using sane s1 e by (simp add: AddMoveRecord_def in_gameD(4,5) [OF s] game1 ApplyMoveRecord_in_game [OF m])
  moreover have "in_game ?s old g' (rest1 @ [pmr])"
    using s1(2) by (simp add: in_game_def)
  ultimately show ?thesis using that s1(4) by simp
qed

section \<open>The state during a game\<close>

definition player :: "int \<Rightarrow> bool" where "player f \<longleftrightarrow> f = 0 \<or> f = 1"

lemma player_cnot [simp]: "player (cnot f)" "player 0" "player 1" "cnot 0 = 1" "cnot 1 = 0" "cnot f \<noteq> - 1"
  by (simp_all add: player_def cnot_def)

lemma cnot_cnot [simp]: "player f \<Longrightarrow> cnot (cnot f) = f"
  by (auto simp: player_def)

text \<open>A pending resignation is answered by the opponent of the player whose decision it was.\<close>

definition decision_maker :: "matchstate \<Rightarrow> int" where
  "decision_maker p = (if fResigned p = 0 then fTurn p else cnot (fTurn p))"

definition cube_ok :: "matchstate \<Rightarrow> bool" where
  "cube_ok p \<longleftrightarrow> (\<exists>k\<le>12. nCube p = 2 ^ k) \<and> (fCubeOwner p = - 1 \<or> player (fCubeOwner p))"

text \<open>
  Without a double the player on roll decides.  A first double is decided by his opponent, and the
  cube was centred or his; after beavers and raccoons it lies with the opponent, and the players
  decide in turn.
\<close>

definition turn_ok :: "matchstate \<Rightarrow> bool" where
  "turn_ok p \<longleftrightarrow>
     (fDoubled p = 0 \<and> cBeavers p = 0 \<and> decision_maker p = fMove p) \<or>
     (fDoubled p = 1 \<and> nCube p < MAX_CUBE \<and> fst (anDice p) = 0 \<and>
      (if cBeavers p = 0
       then decision_maker p = cnot (fMove p) \<and> (fCubeOwner p = - 1 \<or> fCubeOwner p = fMove p)
       else fCubeOwner p = cnot (fMove p) \<and>
            decision_maker p = (if even (unat (cBeavers p)) then cnot (fMove p) else fMove p)))"

definition position_ok :: "TanBoard \<Rightarrow> bool" where
  "position_ok b \<longleftrightarrow> playable b \<and> chequers (fst b) \<noteq> 0 \<and> chequers (snd b) \<noteq> 0"

definition playing_ok :: "matchstate \<Rightarrow> bool" where
  "playing_ok p \<longleftrightarrow>
     gs p = GAME_PLAYING \<and> player (fMove p) \<and> player (fTurn p) \<and>
     0 \<le> fResigned p \<and> fResigned p \<le> 3 \<and> 0 \<le> fResignationDeclined p \<and> fResignationDeclined p \<le> 3 \<and>
     position_ok (anBoard p) \<and> (fst (anDice p) = 0 \<or> roll_ok (anDice p)) \<and> cube_ok p \<and> turn_ok p"

text \<open>What no step of a game changes.\<close>

definition match_data :: "matchstate \<Rightarrow> (int \<times> int \<times> bgvariation) \<times> int \<times> int" where
  "match_data p = ((nMatchTo p, fJacoby p, bgv p), fCrawford p, fPostCrawford p)"

definition score_data :: "matchstate \<Rightarrow> (int \<times> int) \<times> int" where
  "score_data p = (anScore p, cGames p)"

definition add_points :: "int \<Rightarrow> int \<Rightarrow> int \<times> int \<Rightarrow> int \<times> int" where
  "add_points f n sc = (if f = 0 then (fst sc + n, snd sc) else (fst sc, snd sc + n))"

text \<open>The game is over, and its points were added to the score once.\<close>

definition finishes :: "matchstate \<Rightarrow> xmovegameinfo \<Rightarrow> matchstate \<Rightarrow> xmovegameinfo \<Rightarrow> bool" where
  "finishes p g p' g' \<longleftrightarrow>
     (gs p' = GAME_DROP \<or> gs p' = GAME_RESIGNED \<or>
      gs p' = GAME_OVER \<and> (\<forall>dbs. GameStatus dbs (anBoard p') (bgv p') \<noteq> 0)) \<and>
     match_data p' = match_data p \<and>
     (\<exists>w n r. player w \<and> n \<in> {1, 2, 3} \<and>
        g' = g\<lparr>g_nPoints := nCube p * n, g_fWinner := w, g_fResigned := r\<rparr> \<and>
        score_data p' = (add_points w (nCube p * n) (anScore p), cGames p + 1))"

lemmas state_defs = playing_ok_def turn_ok_def cube_ok_def decision_maker_def match_data_def score_data_def

lemma cube_doubles:
  assumes "\<exists>k\<le>12. nCube p = 2 ^ k" "nCube p < MAX_CUBE"
  shows "\<exists>k\<le>12. 2 * nCube p = 2 ^ k"
proof -
  obtain k where k: "k \<le> 12" "nCube p = 2 ^ k" using assms(1) by blast
  with assms(2) have "k \<noteq> 12" by (auto simp: MAX_CUBE_def)
  with k have "Suc k \<le> 12" "2 * nCube p = 2 ^ Suc k" by simp_all
  then show ?thesis by blast
qed

lemma resumed_simps [simp]:
  "fMove (resumed p) = fMove p" "fTurn (resumed p) = fTurn p" "nCube (resumed p) = nCube p"
  "fDoubled (resumed p) = fDoubled p" "anBoard (resumed p) = anBoard p" "bgv (resumed p) = bgv p"
  "cBeavers (resumed p) = cBeavers p" "fCubeOwner (resumed p) = fCubeOwner p" "anDice (resumed p) = anDice p"
  "anScore (resumed p) = anScore p" "cGames (resumed p) = cGames p" "nMatchTo (resumed p) = nMatchTo p"
  "fJacoby (resumed p) = fJacoby p" "fCrawford (resumed p) = fCrawford p" "fPostCrawford (resumed p) = fPostCrawford p"
  "gs (resumed p) = GAME_PLAYING" "fResigned (resumed p) = 0" "fResignationDeclined (resumed p) = 0"
  by (simp_all add: resumed_def)

lemma kept_data [simp]:
  "match_data (resumed p) = match_data p" "score_data (resumed p) = score_data p"
  "match_data (apply_take p) = match_data p" "score_data (apply_take p) = score_data p"
  "match_data (apply_double p f) = match_data p" "score_data (apply_double p f) = score_data p"
  "fDoubled (apply_take p) = 0"
  by (simp_all add: match_data_def score_data_def resumed_def apply_take_def apply_double_def Let_def)

section \<open>The effect of each record\<close>

lemma playing_player: "playing_ok p \<Longrightarrow> player (fMove p)" "playing_ok p \<Longrightarrow> player (fTurn p)"
  by (simp_all add: playing_ok_def)

text \<open>A first double.\<close>

lemma double_record:
  assumes "playing_ok p" "fDoubled p = 0" "fTurn p = fMove p" "fst (anDice p) = 0"
    "fCubeOwner p < 0 \<or> fCubeOwner p = fTurn p" "nCube p < MAX_CUBE" "fResigned p = 0"
  shows "playing_ok (fst (apply_record dbs (resumed p) g (MOVE_DOUBLE (fTurn p) n)))"
  using assms by (auto simp: state_defs apply_double_def player_def)

lemma take_record:
  assumes "playing_ok p" "fDoubled p \<noteq> 0"
  shows "playing_ok (fst (apply_record dbs (resumed p) g (MOVE_TAKE f)))"
  using assms cube_doubles [of p] by (auto simp: state_defs apply_take_def player_def split: if_splits)

lemma turn_doubled:
  assumes "playing_ok p" "fDoubled p \<noteq> 0"
  shows "decision_maker p = (if even (unat (cBeavers p)) then cnot (fMove p) else fMove p)"
  using assms by (cases "cBeavers p = 0") (auto simp: playing_ok_def turn_ok_def)

lemma redouble_record:
  assumes p: "playing_ok p" and d: "fDoubled p \<noteq> 0" and r: "fResigned p = 0" and c: "nCube p < MAX_CUBE div 2"
    and b: "cBeavers p < n"
  shows "playing_ok (fst (apply_record dbs (resumed (p\<lparr>fCubeOwner := cnot (fMove p)\<rparr>)) g (MOVE_DOUBLE (fTurn p) k)))"
proof -
  have u: "unat (cBeavers p + 1) = unat (cBeavers p) + 1" "cBeavers p + 1 \<noteq> 0"
  proof -
    have "unat (cBeavers p) < unat n" "unat n < 2 ^ 32"
      using b unat_u32_less [of n] by (simp_all add: word_less_nat_alt)
    then have "unat (cBeavers p) + unat (1 :: u32) < 2 ^ 32" by simp
    from unat_plus_small [OF this] show "unat (cBeavers p + 1) = unat (cBeavers p) + 1" by simp
    then show "cBeavers p + 1 \<noteq> 0" by auto
  qed
  have "nCube p < MAX_CUBE" using c by (simp add: MAX_CUBE_def)
  then have k: "\<exists>k\<le>12. 2 * nCube p = 2 ^ k" using p cube_doubles [of p] by (simp add: state_defs)
  have t: "fTurn p = (if even (unat (cBeavers p)) then cnot (fMove p) else fMove p)"
    using turn_doubled [OF p d] r by (simp add: decision_maker_def)
  have "2 * nCube p < MAX_CUBE" "\<not> MAX_CUBE \<le> nCube p" using c by (simp_all add: MAX_CUBE_def)
  moreover have "\<not> fMove p < 0" using playing_player [OF p] by (auto simp: player_def)
  ultimately show ?thesis
    using p d r k u t by (auto simp: state_defs apply_double_def Let_def)
qed

text \<open>The three ways to end a game.\<close>

lemma ApplyGameOver_finishes:
  assumes "gs p' = GAME_DROP \<or> gs p' = GAME_RESIGNED \<or>
      gs p' = GAME_OVER \<and> (\<forall>dbs. GameStatus dbs (anBoard p') (bgv p') \<noteq> 0)"
    and "n \<in> {1, 2, 3}" "player w" "match_data p' = match_data p" "score_data p' = score_data p"
    and g: "g' = g\<lparr>g_nPoints := nCube p * n, g_fWinner := w, g_fResigned := r\<rparr>"
  shows "finishes p g (ApplyGameOver p' g') g'"
proof -
  let ?q = "ApplyGameOver p' g'"
  have "\<not> w < 0" using assms(3) by (auto simp: player_def)
  then have q: "?q = p'\<lparr>anScore := add_points w (nCube p * n) (anScore p'), cGames := cGames p' + 1\<rparr>"
    by (simp add: ApplyGameOver_def add_points_def g)
  have "match_data ?q = match_data p" using assms(4) by (simp add: q match_data_def)
  moreover have "score_data ?q = (add_points w (nCube p * n) (anScore p), cGames p + 1)"
    using assms(5) by (simp add: q score_data_def)
  moreover have "gs ?q = gs p'" "anBoard ?q = anBoard p'" "bgv ?q = bgv p'" by (simp_all add: q)
  ultimately show ?thesis
    using assms(1,2,3) g unfolding finishes_def by metis
qed

lemma drop_record:
  assumes "playing_ok p" "fDoubled p \<noteq> 0" "apply_record dbs (resumed p) g (MOVE_DROP f) = (p', g')"
  shows "finishes p g p' g'"
proof -
  have "p' = ApplyGameOver ((resumed p)\<lparr>fDoubled := 0, cBeavers := 0, gs := GAME_DROP\<rparr>) g'"
    "g' = g\<lparr>g_nPoints := nCube p * 1, g_fWinner := cnot f, g_fResigned := 0\<rparr>"
    using assms by (auto simp: Let_def)
  then show ?thesis
    by (auto intro!: ApplyGameOver_finishes [where n = 1] simp: match_data_def score_data_def simp del: mult_1_right)
qed

lemma resign_record:
  assumes "playing_ok p" "fResigned p \<noteq> 0" "apply_record dbs (resumed p) g (MOVE_RESIGN f (fResigned p)) = (p', g')"
  shows "finishes p g p' g'"
proof -
  have n: "fResigned p \<in> {1, 2, 3}" using assms(1,2) by (auto simp: playing_ok_def)
  have "p' = ApplyGameOver ((resumed p)\<lparr>gs := GAME_RESIGNED, fResigned := fResigned p\<rparr>) g'"
    "g' = g\<lparr>g_nPoints := nCube p * fResigned p, g_fWinner := cnot f, g_fResigned := 1\<rparr>"
    using assms(3) by (auto simp: Let_def)
  then show ?thesis
    using n by (auto intro!: ApplyGameOver_finishes [where n = "fResigned p"] simp: match_data_def score_data_def)
qed

lemma playable_swap: "playable b \<Longrightarrow> playable (snd b, fst b)"
proof -
  assume b: "playable b"
  have "no_shared (snd b, fst b)"
    unfolding no_shared_def
  proof (intro allI impI)
    fix i :: nat assume "i < 24"
    then have "23 - i < 24" "23 - (23 - i) = i" by simp_all
    moreover from this b have "fst b ! (23 - (23 - i)) = 0 \<or> snd b ! (23 - i) = 0"
      unfolding playable_def no_shared_def by blast
    ultimately show "fst (snd b, fst b) ! (23 - i) = 0 \<or> snd (snd b, fst b) ! i = 0" by auto
  qed
  with b show ?thesis by (simp add: playable_def wf_board_def)
qed

lemma position_ok_swap: "position_ok b \<Longrightarrow> position_ok (snd b, fst b)"
  by (simp add: position_ok_def playable_swap)

lemma setdice_record:
  assumes "playing_ok p" "fDoubled p = 0" "fTurn p = fMove p" "fResigned p = 0" "roll_ok d"
  shows "playing_ok (fst (apply_record dbs (resumed p) g (MOVE_SETDICE (fTurn p) d)))"
  using assms by (auto simp: state_defs)

lemma roll_ok_sorted: "roll_ok d \<Longrightarrow> roll_ok (sorted_dice d)"
  by (auto simp: roll_ok_def sorted_dice_def max_def min_def)

text \<open>A move of the list, or the empty move, made with the dice rolled.\<close>

definition movable :: "matchstate \<Rightarrow> int list \<Rightarrow> bool" where
  "movable p an \<longleftrightarrow> an = [- 1, - 1] \<or> an \<in> pm_anMove ` set (legal_moves p)"

lemma movable_steps:
  assumes p: "playing_ok p" and r: "roll_ok (anDice p)" and m: "movable p an"
  obtains c where "play_steps (anBoard p) an = c" "playable c" "chequers (fst c) \<noteq> 0"
proof (cases "an = [- 1, - 1]")
  case True
  then show ?thesis using p that [of "anBoard p"] by (simp add: playing_ok_def position_ok_def)
next
  case False
  with m obtain mv where mv: "an = pm_anMove mv" "mv \<in> set (legal_moves p)" by (auto simp: movable_def)
  let ?n0 = "unat (fst (anDice p))" and ?n1 = "unat (snd (anDice p))"
  have n: "1 \<le> ?n0" "?n0 \<le> 6" "1 \<le> ?n1" "?n1 \<le> 6" using r by (simp_all add: roll_ok_def word_le_nat_alt)
  have b: "playable (anBoard p)" "chequers (fst (anBoard p)) \<noteq> 0"
    using p by (simp_all add: playing_ok_def position_ok_def)
  have "mv \<in> set (amMoves (GenerateMoves (anBoard p) (int ?n0) (int ?n1) False))"
    using mv(2) by (simp add: legal_moves_def)
  then obtain ds "is" c where l: "legal_play (anBoard p) ?n0 ?n1 ds is c" "entry_describes (anBoard p) ds is c mv"
    using GenerateMoves_entries [OF b(1) n] by blast
  then have pl: "dice ds" "play ds is (anBoard p) = Some c"
    using dice_orders_dice [OF n] by (auto simp: legal_play_def possible_play_def)
  have "play_steps (anBoard p) an = c"
    using l(2) play_steps_play [OF b(1) pl] by (auto simp: entry_describes_def mv(1))
  then show ?thesis using that [of c] play_playable [OF b(1) pl] b(2) by simp
qed

lemma GameStatus_playable:
  assumes "playable b"
  shows "GameStatus dbs b v = 0 \<longleftrightarrow> chequers (fst b) \<noteq> 0 \<and> chequers (snd b) \<noteq> 0"
    and "GameStatus dbs b v \<in> {0, 1, 2, 3}"
  using GameStatus_exact [of b dbs v] assms by (auto simp: playable_def game_result_def Let_def)

lemma normal_record:
  assumes p: "playing_ok p" and t: "fTurn p = fMove p" and r: "fResigned p = 0"
    "fDoubled p = 0" "roll_ok (anDice p)" and m: "movable p an"
    and e: "apply_record dbs (resumed p) g (MOVE_NORMAL (fTurn p) d an) = (p', g')"
  shows "playing_ok p' \<and> fDoubled p' = 0 \<and> g' = g \<and> match_data p' = match_data p \<and> score_data p' = score_data p \<or>
    finishes p g p' g'"
proof -
  obtain c where c: "play_steps (anBoard p) an = c" "playable c" "chequers (fst c) \<noteq> 0"
    by (rule movable_steps [OF p r(3) m])
  have f: "player (fMove p)" "fMove p \<noteq> - 1" using p by (auto simp: playing_ok_def player_def)
  let ?q = "(resumed p)\<lparr>fDoubled := 0, anBoard := (snd c, fst c), fMove := cnot (fMove p), fTurn := cnot (fMove p),
      anDice := (0, 0)\<rparr>"
  have "(PlayMove ((resumed p)\<lparr>fDoubled := 0\<rparr>) an (fMove p))\<lparr>anDice := (0, 0)\<rparr> = ?q"
    using c f by (simp add: PlayMove_def playable_def)
  note e' = e [unfolded t apply_record.simps this]
  have board: "playable (snd c, fst c)" using c(2) by (rule playable_swap)
  let ?n = "GameStatus dbs (snd c, fst c) (bgv p)"
  have d: "match_data ?q = match_data p" "score_data ?q = score_data p"
    by (simp_all add: match_data_def score_data_def)
  show ?thesis
  proof (cases "?n = 0")
    case True
    then have "p' = ?q" "g' = g" using e' by (auto simp: Let_def)
    moreover have "playing_ok ?q"
      using p r t f True board GameStatus_playable(1) [OF board]
      by (auto simp: state_defs position_ok_def)
    ultimately show ?thesis using d by simp
  next
    case False
    then have over: "\<forall>dbs. GameStatus dbs (snd c, fst c) (bgv p) \<noteq> 0"
      by (simp add: GameStatus_playable(1) [OF board])
    have n: "?n \<in> {1, 2, 3}" using GameStatus_playable(2) [OF board, of dbs "bgv p"] False by simp
    then have pts: "points_of ?q ?n \<in> {1, 2, 3}" by (auto simp: points_of_def)
    have g': "g' = g\<lparr>g_nPoints := nCube p * points_of ?q ?n, g_fWinner := fMove p, g_fResigned := 0\<rparr>"
      and p': "p' = ApplyGameOver (?q\<lparr>gs := GAME_OVER\<rparr>) g'"
      using e' False by (auto simp: Let_def)
    have "finishes p g (ApplyGameOver (?q\<lparr>gs := GAME_OVER\<rparr>) g') g'"
      by (rule ApplyGameOver_finishes [OF _ pts f(1) _ _ g'])
        (use over in \<open>simp_all add: match_data_def score_data_def\<close>)
    then show ?thesis by (simp add: p')
  qed
qed

section \<open>The games of a match\<close>

definition near :: "int \<Rightarrow> int \<times> int \<Rightarrow> bool" where
  "near n sc \<longleftrightarrow> n > 1 \<and> (fst sc = n - 1 \<or> snd sc = n - 1)"

text \<open>A player needed one point when the game began.\<close>

definition one_away :: "xmovegameinfo \<Rightarrow> bool" where
  "one_away g \<longleftrightarrow> near (g_nMatch g) (g_anScore g)"

definition score_ok :: "int \<Rightarrow> int \<times> int \<Rightarrow> int \<Rightarrow> bool" where
  "score_ok n sc i \<longleftrightarrow>
     0 \<le> n \<and> 0 \<le> fst sc \<and> 0 \<le> snd sc \<and> 0 \<le> i \<and> i \<le> fst sc + snd sc \<and> (n = 0 \<or> fst sc < n \<and> snd sc < n)"

text \<open>
  The games of a match in order: their scores make sense, once a player is one away one always is,
  and the Crawford game is the first game with a player one away.
\<close>

inductive history :: "bool \<Rightarrow> xmovegameinfo list \<Rightarrow> bool" for ac where
  none: "history ac []"
| next_game: "history ac gl \<Longrightarrow> score_ok (g_nMatch g) (g_anScore g) (g_i g) \<Longrightarrow>
     (\<forall>h\<in>set gl. g_nMatch h = g_nMatch g \<and> (one_away h \<longrightarrow> one_away g)) \<Longrightarrow>
     g_fCrawfordGame g = of_bool (ac \<and> one_away g \<and> \<not> (\<exists>h\<in>set gl. one_away h)) \<Longrightarrow>
     history ac (gl @ [g])"

inductive_simps history_snoc: "history ac (gl @ [g])"

fun info_of :: "moverecord list \<Rightarrow> xmovegameinfo list" where
  "info_of (MOVE_GAMEINFO g # rest) = [g]"
| "info_of _ = []"

definition infos :: "moverecord list list \<Rightarrow> xmovegameinfo list" where
  "infos games = concat (map info_of games)"

lemma infos_simps [simp]: "infos [] = []" "infos (old @ [MOVE_GAMEINFO g # rest]) = infos old @ [g]"
  by (simp_all add: infos_def)

text \<open>The result of a game does not matter to what follows from its start.\<close>

lemma history_result:
  assumes "history ac (gl @ [g])" "g_i g' = g_i g" "g_nMatch g' = g_nMatch g" "g_anScore g' = g_anScore g"
    "g_fCrawfordGame g' = g_fCrawfordGame g"
  shows "history ac (gl @ [g'])"
  using assms by (simp add: history_snoc one_away_def)

definition in_match :: "matchstate \<Rightarrow> xmovegameinfo \<Rightarrow> bool" where
  "in_match p g \<longleftrightarrow>
     nMatchTo p = g_nMatch g \<and> fCrawford p = g_fCrawfordGame g \<and>
     fPostCrawford p = of_bool (g_fCrawfordGame g = 0 \<and>
       (fst (g_anScore g) = g_nMatch g - 1 \<or> snd (g_anScore g) = g_nMatch g - 1))"

definition ongoing :: "matchstate \<Rightarrow> xmovegameinfo \<Rightarrow> moverecord list \<Rightarrow> bool" where
  "ongoing p g rest \<longleftrightarrow>
     playing_ok p \<and> (fDoubled p \<noteq> 0 \<longrightarrow> mt (last (MOVE_GAMEINFO g # rest)) = 2) \<and>
     g_fWinner g = - 1 \<and> score_data p = (g_anScore g, g_i g) \<and> in_match p g"

definition result_of :: "matchstate \<Rightarrow> xmovegameinfo \<Rightarrow> bool" where
  "result_of p g \<longleftrightarrow>
     (gs p = GAME_DROP \<or> gs p = GAME_RESIGNED \<or> gs p = GAME_OVER \<and> (\<forall>dbs. GameStatus dbs (anBoard p) (bgv p) \<noteq> 0)) \<and>
     player (g_fWinner g) \<and> 1 \<le> g_nPoints g \<and>
     score_data p = (add_points (g_fWinner g) (g_nPoints g) (g_anScore g), g_i g + 1)"

text \<open>After the end of a game, before and after \<open>NextTurn\<close> has settled the Crawford rule.\<close>

definition ended :: "matchstate \<Rightarrow> xmovegameinfo \<Rightarrow> bool" where
  "ended p g \<longleftrightarrow> result_of p g \<and> in_match p g"

definition match_won :: "matchstate \<Rightarrow> bool" where
  "match_won p \<longleftrightarrow> nMatchTo p \<noteq> 0 \<and> (fst (anScore p) \<ge> nMatchTo p \<or> snd (anScore p) \<ge> nMatchTo p)"

definition settled :: "bool \<Rightarrow> matchstate \<Rightarrow> xmovegameinfo \<Rightarrow> xmovegameinfo list \<Rightarrow> bool" where
  "settled ac p g gl \<longleftrightarrow>
     result_of p g \<and> nMatchTo p = g_nMatch g \<and>
     (\<not> match_won p \<longrightarrow> fCrawford p = of_bool (ac \<and> near (nMatchTo p) (anScore p) \<and> \<not> (\<exists>h\<in>set gl. one_away h)))"

text \<open>No match was started yet.\<close>

definition fresh :: "session \<Rightarrow> bool" where
  "fresh s \<longleftrightarrow>
     lMatch s = [] \<and> plGame s = 0 \<and> plLastMove s = 0 \<and> gs (ms s) = GAME_NONE \<and> nMatchTo (ms s) = 0 \<and>
     anScore (ms s) = (0, 0) \<and> cGames (ms s) = 0 \<and> fCrawford (ms s) = 0"

definition in_session :: "bool \<Rightarrow> session \<Rightarrow> (matchstate \<Rightarrow> xmovegameinfo \<Rightarrow> moverecord list \<Rightarrow> xmovegameinfo list \<Rightarrow> bool) \<Rightarrow> bool" where
  "in_session ac s Q \<longleftrightarrow>
     (\<exists>old g rest. in_game s old g rest \<and> history ac (infos old @ [g]) \<and> Q (ms s) g rest (infos old @ [g]))"

definition session_ok :: "bool \<Rightarrow> session \<Rightarrow> bool" where
  "session_ok ac s \<longleftrightarrow>
     \<not> fNextTurn s \<and> (fresh s \<or> in_session ac s (\<lambda>p g rest gl. ongoing p g rest \<or> settled ac p g gl))"

text \<open>Between a command and \<open>NextTurn\<close>.\<close>

definition between :: "bool \<Rightarrow> session \<Rightarrow> bool" where
  "between ac s \<longleftrightarrow>
     session_ok ac s \<or> in_session ac s (\<lambda>p g rest gl. ongoing p g rest \<or> fNextTurn s \<and> ended p g)"

section \<open>A record added during a game\<close>

lemma in_match_data: "in_match p g \<Longrightarrow> match_data p' = match_data p \<Longrightarrow> in_match p' g"
  by (simp add: in_match_def match_data_def)

lemma finishes_ended:
  assumes f: "finishes p g p' g'" and c: "cube_ok p" and w: "in_match p g" "score_data p = (g_anScore g, g_i g)"
  shows "ended p' g'" "g_i g' = g_i g" "g_nMatch g' = g_nMatch g" "g_anScore g' = g_anScore g"
    "g_fCrawfordGame g' = g_fCrawfordGame g"
proof -
  obtain w n r where g': "g' = g\<lparr>g_nPoints := nCube p * n, g_fWinner := w, g_fResigned := r\<rparr>"
    and n: "player w" "n \<in> {1, 2, 3}" "score_data p' = (add_points w (nCube p * n) (anScore p), cGames p + 1)"
    using f unfolding finishes_def by blast
  show k: "g_i g' = g_i g" "g_nMatch g' = g_nMatch g" "g_anScore g' = g_anScore g"
    "g_fCrawfordGame g' = g_fCrawfordGame g"
    by (simp_all add: g')
  obtain e where "nCube p = 2 ^ e" using c by (auto simp: cube_ok_def)
  then have "1 \<le> nCube p" by simp
  with n(2) have "1 \<le> nCube p * n" by auto
  moreover have "match_data p' = match_data p" using f by (simp add: finishes_def)
  then have "in_match p' g" by (rule in_match_data [OF w(1)])
  then have "in_match p' g'" by (simp add: in_match_def k)
  ultimately show "ended p' g'"
    using f w(2) n by (simp add: finishes_def ended_def result_of_def score_data_def k) (simp add: g')
qed

text \<open>
  The state after a record: \<open>p\<close> is the state it was applied to, which differs from that of the
  session at most in the owner of the cube.
\<close>

definition carries_on :: "matchstate \<Rightarrow> xmovegameinfo \<Rightarrow> moverecord \<Rightarrow> matchstate \<Rightarrow> xmovegameinfo \<Rightarrow> bool" where
  "carries_on p g pmr p' g' \<longleftrightarrow>
     playing_ok p' \<and> (fDoubled p' \<noteq> 0 \<longrightarrow> mt pmr = 2) \<and> g' = g \<and>
     match_data p' = match_data p \<and> score_data p' = score_data p"

lemma AddMoveRecord_ongoing:
  assumes s: "in_game s old g rest" "history ac (infos old @ [g])" "ongoing (ms s) g rest"
    and pmr: "mt pmr \<noteq> 0" "add_moverecord_sanity_check pmr"
    and p: "FixMatchState p pmr = p" "cube_ok p" "match_data p = match_data (ms s)" "score_data p = score_data (ms s)"
    and e: "apply_record (databases_of S) (resumed p) g pmr = (p', g')" "carries_on p g pmr p' g' \<or> finishes p g p' g'"
  obtains s' rest' where "AddMoveRecord S (s\<lparr>ms := p\<rparr>) pmr = Some s'" "fNextTurn s' = fNextTurn s" "ms s' = p'"
    "in_game s' old g' rest'" "history ac (infos old @ [g'])" "ongoing p' g' rest' \<or> ended p' g'"
proof -
  have "in_game (s\<lparr>ms := p\<rparr>) old g rest" using s(1) by (simp add: in_game_cong)
  from AddMoveRecord_in_game [OF this pmr(2,1), of S] e(1) p(1) obtain s' rest' where
    s': "AddMoveRecord S (s\<lparr>ms := p\<rparr>) pmr = Some s'" "in_game s' old g' (rest' @ [pmr])" "ms s' = p'"
      "fNextTurn s' = fNextTurn s"
    by auto
  have m: "in_match p g" "score_data p = (g_anScore g, g_i g)"
    using s(3) in_match_data [of "ms s" g p] p(3,4) by (simp_all add: ongoing_def)
  show ?thesis
  proof (cases "carries_on p g pmr p' g'")
    case True
    then have "ongoing p' g' (rest' @ [pmr])"
      using s(3) m in_match_data [of p g p'] by (auto simp: carries_on_def ongoing_def)
    then show ?thesis using that s' s(2) True by (simp add: carries_on_def)
  next
    case False
    with e(2) have f: "finishes p g p' g'" by simp
    note k = finishes_ended [OF f p(2) m]
    show ?thesis using that s' k(1) history_result [OF s(2) k(2-5)] by simp
  qed
qed

lemma submit_ongoing:
  assumes "in_game s old g rest" "history ac (infos old @ [g])" "ongoing (ms s) g rest"
    and "mt pmr \<noteq> 0" "add_moverecord_sanity_check pmr"
    and "FixMatchState p pmr = p" "cube_ok p" "match_data p = match_data (ms s)" "score_data p = score_data (ms s)"
    and "apply_record (databases_of S) (resumed p) g pmr = (p', g')" "carries_on p g pmr p' g' \<or> finishes p g p' g'"
  shows "\<exists>s'. submit S (s\<lparr>ms := p\<rparr>) pmr = Some (Accepted, s') \<and> between ac s'"
proof -
  obtain s' rest' where s': "AddMoveRecord S (s\<lparr>ms := p\<rparr>) pmr = Some s'" "fNextTurn s' = fNextTurn s" "ms s' = p'"
    "in_game s' old g' rest'" "history ac (infos old @ [g'])" "ongoing p' g' rest' \<or> ended p' g'"
    by (rule AddMoveRecord_ongoing [OF assms])
  then have "between ac (s'\<lparr>fNextTurn := True\<rparr>)"
    by (auto simp: between_def in_session_def in_game_cong)
  with s'(1) show ?thesis by (simp add: submit_def)
qed

lemma session_same [simp]: "s\<lparr>ms := ms s\<rparr> = (s :: session)"
  by simp

lemmas submit_same = submit_ongoing [where p = "ms s" and s = s for s, unfolded session_same]

end
