(* ===== verification/Game_Steps.thy ===== *)
theory Game_Steps
  imports Game_Laws
begin

text \<open>
  Every command keeps the invariants of a session: the command itself leaves a session between a
  command and the next turn, and \<open>NextTurn\<close> settles it.  The theorems on all reachable sessions
  follow by rule induction.
\<close>

section \<open>The commands of the cube\<close>

text \<open>A command answers, and leaves a session between a command and the next turn.\<close>

definition answers :: "bool \<Rightarrow> answer \<Rightarrow> bool" where
  "answers ac a \<longleftrightarrow>
     (\<exists>r s. a = Some (r, s) \<and> ((r = Interrupted \<or> r = Not_discarded) \<and> \<not> fNextTurn s \<or> between ac s))"

lemma answers_same [intro]: "session_ok ac s \<Longrightarrow> answers ac (Some (r, s))"
  by (simp add: answers_def between_def)

lemma answers_between: "between ac s \<Longrightarrow> answers ac (Some (r, s))"
  by (auto simp: answers_def)

lemma answers_submit:
  "\<exists>s'. submit S s pmr = Some (Accepted, s') \<and> between ac s' \<Longrightarrow> answers ac (submit S s pmr)"
  by (auto simp: answers_def)

lemma session_okE:
  assumes "session_ok ac s" "gs (ms s) = GAME_PLAYING"
  obtains old g rest where "in_game s old g rest" "history ac (infos old @ [g])" "ongoing (ms s) g rest"
  using assms by (auto simp: session_ok_def fresh_def in_session_def settled_def result_of_def)

lemma ongoingD: "ongoing p g rest \<Longrightarrow> playing_ok p" "ongoing p g rest \<Longrightarrow> cube_ok p"
  "ongoing p g rest \<Longrightarrow> fDoubled p \<noteq> 0 \<Longrightarrow> mt (last (MOVE_GAMEINFO g # rest)) = 2"
  by (simp_all add: ongoing_def playing_ok_def)

lemma LinkToDouble_ongoing:
  assumes "in_game s old g rest" "ongoing (ms s) g rest" "fDoubled (ms s) \<noteq> 0"
  obtains n where "\<And>pmr. LinkToDouble s pmr = Some (case pmr of MOVE_DOUBLE fP nAnimals \<Rightarrow> MOVE_DOUBLE fP (1 + n) | _ \<Rightarrow> pmr)"
proof -
  have "mt (last (MOVE_GAMEINFO g # rest)) = 2" using assms(2,3) by (rule ongoingD)
  then obtain f n where "last (MOVE_GAMEINFO g # rest) = MOVE_DOUBLE f n"
    by (cases "last (MOVE_GAMEINFO g # rest)") auto
  then have "last_record s = Some (MOVE_DOUBLE f n)" using in_gameD(2) [OF assms(1)] by simp
  then show ?thesis by (intro that [of n]) (simp add: LinkToDouble_def)
qed

lemma player_range: "player f \<Longrightarrow> 0 \<le> f \<and> f \<le> 1" "player f \<Longrightarrow> 0 \<le> f" "player f \<Longrightarrow> f \<le> 1"
  by (auto simp: player_def)

lemma CommandTake_answers:
  assumes s: "session_ok ac s"
  shows "answers ac (CommandTake S s)"
proof (cases "gs (ms s) = GAME_PLAYING \<and> fDoubled (ms s) \<noteq> 0")
  case True
  then obtain old g rest where g: "in_game s old g rest" "history ac (infos old @ [g])" "ongoing (ms s) g rest"
    using session_okE [OF s] by blast
  note p = ongoingD(1,2) [OF g(3)]
  have l: "LinkToDouble s (MOVE_TAKE f) = Some (MOVE_TAKE f)" for f
    by (rule LinkToDouble_ongoing [OF g(1,3)]) (use True in simp_all)
  let ?pmr = "MOVE_TAKE (fTurn (ms s))"
  have "answers ac (submit S s ?pmr)"
  proof (rule answers_submit, rule submit_same [OF g])
    show "apply_record (databases_of S) (resumed (ms s)) g ?pmr = (apply_take (resumed (ms s)), g)" by simp
    have "playing_ok (apply_take (resumed (ms s)))" using take_record [OF p(1)] True by simp
    then show "carries_on (ms s) g ?pmr (apply_take (resumed (ms s))) g \<or>
        finishes (ms s) g (apply_take (resumed (ms s))) g"
      by (simp add: carries_on_def)
  qed (use p playing_player(2) [OF p(1)] in \<open>auto simp: FixMatchState_def player_range\<close>)
  then show ?thesis by (simp add: CommandTake_def l answers_same [OF s])
qed (simp add: CommandTake_def answers_same [OF s])

lemma CommandDrop_answers:
  assumes s: "session_ok ac s"
  shows "answers ac (CommandDrop S s)"
proof (cases "gs (ms s) = GAME_PLAYING \<and> fDoubled (ms s) \<noteq> 0")
  case True
  then obtain old g rest where g: "in_game s old g rest" "history ac (infos old @ [g])" "ongoing (ms s) g rest"
    using session_okE [OF s] by blast
  note p = ongoingD(1,2) [OF g(3)]
  have l: "LinkToDouble s (MOVE_DROP f) = Some (MOVE_DROP f)" for f
    by (rule LinkToDouble_ongoing [OF g(1,3)]) (use True in simp_all)
  let ?pmr = "MOVE_DROP (fTurn (ms s))"
  obtain p' g' where e: "apply_record (databases_of S) (resumed (ms s)) g ?pmr = (p', g')" by fastforce
  have "answers ac (submit S s ?pmr)"
  proof (rule answers_submit, rule submit_same [OF g])
    show "carries_on (ms s) g ?pmr p' g' \<or> finishes (ms s) g p' g'"
      using drop_record [OF p(1) _ e] True by simp
  qed (use p e playing_player(2) [OF p(1)] in \<open>auto simp: FixMatchState_def player_range\<close>)
  then show ?thesis by (simp add: CommandDrop_def l answers_same [OF s])
qed (simp add: CommandDrop_def answers_same [OF s])

text \<open>With no resignation pending, the cube may be turned, first or again.\<close>

lemma CommandRedouble_answers:
  assumes s: "session_ok ac s" and r: "fResigned (ms s) = 0"
  shows "answers ac (CommandRedouble S s)"
proof (cases "gs (ms s) = GAME_PLAYING \<and> fDoubled (ms s) \<noteq> 0 \<and> nCube (ms s) < MAX_CUBE div 2 \<and> cBeavers (ms s) < nBeavers S")
  case True
  then obtain old g rest where g: "in_game s old g rest" "history ac (infos old @ [g])" "ongoing (ms s) g rest"
    using session_okE [OF s] by blast
  note p = ongoingD(1,2) [OF g(3)]
  let ?p = "(ms s)\<lparr>fCubeOwner := cnot (fMove (ms s))\<rparr>"
  have l: "in_game (s\<lparr>ms := ?p\<rparr>) old g rest" using g(1) by (simp add: in_game_cong)
  let ?s = "s\<lparr>ms := ?p\<rparr>"
  obtain n where n: "(case LinkToDouble ?s (MOVE_DOUBLE (fTurn (ms s)) 0) of None \<Rightarrow> MOVE_DOUBLE (fTurn (ms ?s)) 0 | Some pmr \<Rightarrow> pmr)
      = MOVE_DOUBLE (fTurn (ms s)) n"
    by (cases "LinkToDouble ?s (MOVE_DOUBLE (fTurn (ms s)) 0)")
      (auto simp: LinkToDouble_def split: option.splits moverecord.splits)
  let ?pmr = "MOVE_DOUBLE (fTurn (ms s)) n"
  let ?q = "fst (apply_record (databases_of S) (resumed ?p) g ?pmr)"
  have "answers ac (submit S (s\<lparr>ms := ?p\<rparr>) ?pmr)"
  proof (rule answers_submit, rule submit_ongoing [OF g])
    show "apply_record (databases_of S) (resumed ?p) g ?pmr = (?q, g)" by simp
    have "playing_ok ?q" using redouble_record [OF p(1) _ r] True by blast
    then show "carries_on ?p g ?pmr ?q g \<or> finishes ?p g ?q g" by (simp add: carries_on_def)
  qed (use p playing_player [OF p(1)] in \<open>auto simp: FixMatchState_def player_range cube_ok_def match_data_def score_data_def\<close>)
  then show ?thesis by (simp add: CommandRedouble_def n Let_def answers_same [OF s])
qed (auto simp: CommandRedouble_def not_less answers_same [OF s])

lemma CommandDouble_answers:
  assumes s: "session_ok ac s" and r: "fResigned (ms s) = 0"
  shows "answers ac (CommandDouble S s)"
proof (cases "gs (ms s) = GAME_PLAYING \<and> fDoubled (ms s) = 0 \<and> fTurn (ms s) = fMove (ms s) \<and> fst (anDice (ms s)) = 0
    \<and> (fCubeOwner (ms s) < 0 \<or> fCubeOwner (ms s) = fTurn (ms s)) \<and> nCube (ms s) < MAX_CUBE")
  case True
  then obtain old g rest where g: "in_game s old g rest" "history ac (infos old @ [g])" "ongoing (ms s) g rest"
    using session_okE [OF s] by blast
  note p = ongoingD(1,2) [OF g(3)]
  let ?pmr = "MOVE_DOUBLE (fTurn (ms s)) 0"
  let ?q = "fst (apply_record (databases_of S) (resumed (ms s)) g ?pmr)"
  have "answers ac (submit S s ?pmr)"
  proof (rule answers_submit, rule submit_same [OF g])
    show "apply_record (databases_of S) (resumed (ms s)) g ?pmr = (?q, g)" by simp
    have "playing_ok ?q" using double_record [OF p(1)] True r by blast
    then show "carries_on (ms s) g ?pmr ?q g \<or> finishes (ms s) g ?q g" by (simp add: carries_on_def)
  qed (use p playing_player [OF p(1)] in \<open>auto simp: FixMatchState_def player_range\<close>)
  then show ?thesis using True by (simp add: CommandDouble_def answers_same [OF s])
qed (simp add: CommandDouble_def answers_same [OF s] CommandRedouble_answers [OF s r] not_less, linarith?)

section \<open>The commands of a resignation\<close>

lemma CommandAgree_answers:
  assumes s: "session_ok ac s"
  shows "answers ac (CommandAgree S s)"
proof (cases "gs (ms s) = GAME_PLAYING \<and> fResigned (ms s) \<noteq> 0")
  case True
  then obtain old g rest where g: "in_game s old g rest" "history ac (infos old @ [g])" "ongoing (ms s) g rest"
    using session_okE [OF s] by blast
  note p = ongoingD(1,2) [OF g(3)]
  let ?pmr = "MOVE_RESIGN (cnot (fTurn (ms s))) (fResigned (ms s))"
  obtain p' g' where e: "apply_record (databases_of S) (resumed (ms s)) g ?pmr = (p', g')" by fastforce
  have n: "1 \<le> fResigned (ms s)" "fResigned (ms s) \<le> 3" using p True by (auto simp: playing_ok_def)
  have "answers ac (submit S s ?pmr)"
  proof (rule answers_submit, rule submit_same [OF g])
    show "carries_on (ms s) g ?pmr p' g' \<or> finishes (ms s) g p' g'"
      using resign_record [OF p(1) _ e] True by simp
  qed (use p e n in \<open>auto simp: FixMatchState_def player_range\<close>)
  then show ?thesis by (simp add: CommandAgree_def answers_same [OF s])
qed (auto simp: CommandAgree_def answers_same [OF s])

text \<open>A resignation and its refusal pass the turn and change nothing else.\<close>

lemma ongoing_pass:
  assumes "ongoing p g rest" "0 \<le> n" "n \<le> 3" "0 \<le> k" "k \<le> 3" "fResigned p = 0 \<longleftrightarrow> n \<noteq> 0"
  shows "ongoing (p\<lparr>fResigned := n, fResignationDeclined := k, fTurn := cnot (fTurn p)\<rparr>) g rest"
proof -
  let ?p = "p\<lparr>fResigned := n, fResignationDeclined := k, fTurn := cnot (fTurn p)\<rparr>"
  have t: "player (fTurn p)" using assms(1) by (simp add: ongoing_def playing_ok_def)
  have d: "decision_maker ?p = decision_maker p"
    using assms(6) t by (cases "n = 0") (simp_all add: decision_maker_def)
  have "turn_ok ?p \<longleftrightarrow> turn_ok p" by (simp add: turn_ok_def d)
  moreover have "cube_ok ?p \<longleftrightarrow> cube_ok p" by (simp add: cube_ok_def)
  moreover have "score_data ?p = score_data p" "in_match ?p g \<longleftrightarrow> in_match p g"
    by (simp_all add: score_data_def in_match_def)
  ultimately show ?thesis using assms(1-5) by (simp add: ongoing_def playing_ok_def)
qed

lemma between_pass:
  assumes "in_game s old g rest" "history ac (infos old @ [g])" "ongoing p g rest"
  shows "between ac (s\<lparr>ms := p, fNextTurn := True\<rparr>)"
  using assms by (auto simp: between_def in_session_def in_game_cong)

lemma CommandDecline_answers:
  assumes s: "session_ok ac s"
  shows "answers ac (CommandDecline S s)"
proof (cases "gs (ms s) = GAME_PLAYING \<and> fResigned (ms s) \<noteq> 0")
  case True
  then obtain old g rest where g: "in_game s old g rest" "history ac (infos old @ [g])" "ongoing (ms s) g rest"
    using session_okE [OF s] by blast
  have "0 \<le> fResigned (ms s)" "fResigned (ms s) \<le> 3" using ongoingD(1) [OF g(3)] by (simp_all add: playing_ok_def)
  with True have "ongoing ((ms s)\<lparr>fResigned := 0, fResignationDeclined := fResigned (ms s), fTurn := cnot (fTurn (ms s))\<rparr>) g rest"
    by (intro ongoing_pass [OF g(3)]) auto
  moreover have "p\<lparr>fResigned := 0, fResignationDeclined := k, fTurn := f\<rparr> = p\<lparr>fResignationDeclined := k, fResigned := 0, fTurn := f\<rparr>"
    for p :: matchstate and k f by (cases p) simp
  ultimately have "ongoing ((ms s)\<lparr>fResignationDeclined := fResigned (ms s), fResigned := 0, fTurn := cnot (fTurn (ms s))\<rparr>) g rest"
    by simp
  from answers_between [OF between_pass [OF g(1,2) this]] show ?thesis
    by (simp add: CommandDecline_def answers_same [OF s])
qed (auto simp: CommandDecline_def answers_same [OF s])

lemma CommandResign_answers:
  assumes s: "session_ok ac s" and r: "fResigned (ms s) = 0" and n: "resign_value token \<noteq> - 1"
  shows "answers ac (CommandResign S token s)"
proof (cases "gs (ms s) = GAME_PLAYING \<and> 1 \<le> resign_value token \<and> resign_value token \<le> 3")
  case True
  then obtain old g rest where g: "in_game s old g rest" "history ac (infos old @ [g])" "ongoing (ms s) g rest"
    using session_okE [OF s] by blast
  have c: "s\<lparr>ms := (ms s)\<lparr>fResigned := 0\<rparr>\<rparr> = s" using r by simp
  have "0 \<le> fResignationDeclined (ms s)" "fResignationDeclined (ms s) \<le> 3"
    using ongoingD(1) [OF g(3)] by (simp_all add: playing_ok_def)
  with True r have "ongoing ((ms s)\<lparr>fResigned := resign_value token, fResignationDeclined := fResignationDeclined (ms s),
      fTurn := cnot (fTurn (ms s))\<rparr>) g rest"
    by (intro ongoing_pass [OF g(3)]) auto
  then have "ongoing ((ms s)\<lparr>fResigned := resign_value token, fTurn := cnot (fTurn (ms s))\<rparr>) g rest" by simp
  from answers_between [OF between_pass [OF g(1,2) this]] show ?thesis
    using True by (auto simp: CommandResign_def c Let_def answers_same [OF s])
next
  case False
  have "s\<lparr>ms := (ms s)\<lparr>fResigned := 0\<rparr>\<rparr> = s" using r by simp
  with False n show ?thesis by (auto simp: CommandResign_def Let_def answers_same [OF s])
qed

section \<open>Rolling and moving\<close>

text \<open>Every move a command makes is one of the generated list, or the empty one.\<close>

lemma find_movable: "List.find P (legal_moves p) = Some m \<Longrightarrow> movable p (pm_anMove m)"
  by (auto simp: movable_def find_Some_iff)

lemma bearoff_move_movable: "TryBearoff S s = Some an \<Longrightarrow> movable (ms s) an"
  by (auto simp: TryBearoff_def bearoff_move_def Let_def split: if_splits dest: find_movable)

lemma automatic_move_movable: "automatic_move S s = Some an \<Longrightarrow> movable (ms s) an"
  by (auto simp: automatic_move_def movable_def split: list.splits if_splits dest!: bearoff_move_movable)

lemma parse_move_movable: "parse_move_is_legal text p = Some an \<Longrightarrow> movable p an"
  by (auto simp: parse_move_is_legal_def board_in_list_def split: option.splits dest: find_movable)

lemma normal_answers:
  assumes g: "in_game s old g rest" "history ac (infos old @ [g])" "ongoing (ms s) g rest"
    and t: "fTurn (ms s) = fMove (ms s)" "fResigned (ms s) = 0" "fDoubled (ms s) = 0" "roll_ok (anDice (ms s))"
    and m: "movable (ms s) an"
  shows "answers ac (submit S s (normal_record s an))"
proof -
  note p = ongoingD(1,2) [OF g(3)]
  let ?pmr = "normal_record s an"
  obtain p' g' where e: "apply_record (databases_of S) (resumed (ms s)) g ?pmr = (p', g')" by fastforce
  show ?thesis
  proof (rule answers_submit, rule submit_same [OF g])
    show "carries_on (ms s) g ?pmr p' g' \<or> finishes (ms s) g p' g'"
      using normal_record [OF p(1) t m] e by (auto simp: normal_record_def carries_on_def simp del: apply_record.simps)
  qed (use p e playing_player(2) [OF p(1)] in \<open>auto simp: normal_record_def FixMatchState_def player_range simp del: apply_record.simps\<close>)
qed

text \<open>Without a double or a resignation the player on roll is to play.\<close>

lemma on_roll:
  "playing_ok p \<Longrightarrow> fDoubled p = 0 \<Longrightarrow> fResigned p = 0 \<Longrightarrow> fTurn p = fMove p"
  by (auto simp: playing_ok_def turn_ok_def decision_maker_def)

lemma CommandRoll_answers:
  assumes s: "session_ok ac s" and d: "roll_ok d"
  shows "answers ac (CommandRoll S d s)"
proof (cases "gs (ms s) = GAME_PLAYING \<and> fDoubled (ms s) = 0 \<and> fResigned (ms s) = 0")
  case True
  then obtain old g rest where g: "in_game s old g rest" "history ac (infos old @ [g])" "ongoing (ms s) g rest"
    using session_okE [OF s] by blast
  note p = ongoingD(1,2) [OF g(3)]
  have t: "fTurn (ms s) = fMove (ms s)" using on_roll [OF p(1)] True by blast
  let ?p = "(ms s)\<lparr>anDice := d\<rparr>"
  let ?pmr = "MOVE_SETDICE (fTurn (ms s)) (sorted_dice d)"
  obtain q where e: "apply_record (databases_of S) (resumed ?p) g ?pmr = (q, g)" by (simp add: Let_def)
  have pp: "playing_ok ?p" using p True d by (auto simp: state_defs)
  then have q: "playing_ok q"
    using setdice_record [of ?p "sorted_dice d" "databases_of S" g] True t roll_ok_sorted [OF d] e
    by (simp del: apply_record.simps)
  have q_eq: "q = (resumed ?p)\<lparr>anDice := sorted_dice d, fTurn := fTurn (ms s), fMove := fTurn (ms s), fDoubled := 0\<rparr>"
    using e t by (simp add: Let_def)
  have c: "carries_on ?p g ?pmr q g" using q by (simp add: carries_on_def match_data_def score_data_def q_eq)
  have qs: "fTurn q = fMove q" "fResigned q = 0" "fDoubled q = 0" "roll_ok (anDice q)"
    using roll_ok_sorted [OF d] by (simp_all add: q_eq)
  obtain s' rest' where s': "AddMoveRecord S (s\<lparr>ms := ?p\<rparr>) ?pmr = Some s'" "ms s' = q" "in_game s' old g rest'"
    "ongoing q g rest' \<or> ended q g"
    by (rule AddMoveRecord_ongoing [OF g, where p = ?p and pmr = ?pmr and p' = q and g' = g])
      (use p c e playing_player(2) [OF p(1)] in \<open>auto simp: FixMatchState_def player_range cube_ok_def match_data_def score_data_def
        simp del: apply_record.simps\<close>)
  have o: "ongoing (ms s') g rest'" using s'(2,4) q by (auto simp: ended_def result_of_def playing_ok_def)
  have "answers ac (submit S s' (normal_record s' an))" if "automatic_move S s' = Some an" for an
    using normal_answers [OF s'(3) g(2) o _ _ _ _ automatic_move_movable [OF that]] qs s'(2) by auto
  moreover have "between ac s'" using s'(3) g(2) o by (auto simp: between_def in_session_def)
  ultimately have "answers ac (case automatic_move S s' of None \<Rightarrow> Some (Accepted, s')
      | Some anMove \<Rightarrow> submit S s' (normal_record s' anMove))"
    by (auto simp: answers_between split: option.split)
  then show ?thesis using s'(1) by (simp add: CommandRoll_def answers_same [OF s] Let_def)
qed (auto simp: CommandRoll_def answers_same [OF s])

lemma CommandMove_answers:
  assumes s: "session_ok ac s"
  shows "answers ac (CommandMove S text s)"
proof (cases "gs (ms s) = GAME_PLAYING \<and> fst (anDice (ms s)) \<noteq> 0 \<and> fDoubled (ms s) = 0 \<and> fResigned (ms s) = 0")
  case True
  then obtain old g rest where g: "in_game s old g rest" "history ac (infos old @ [g])" "ongoing (ms s) g rest"
    using session_okE [OF s] by blast
  note p = ongoingD(1,2) [OF g(3)]
  have "roll_ok (anDice (ms s))" using p True by (auto simp: playing_ok_def)
  then have n: "answers ac (submit S s (normal_record s an))" if "movable (ms s) an" for an
    using normal_answers [OF g on_roll [OF p(1)]] True that by blast
  have e: "movable (ms s) [- 1, - 1]" "\<And>m. m \<in> set (legal_moves (ms s)) \<Longrightarrow> movable (ms s) (pm_anMove m)"
    by (simp_all add: movable_def)
  show ?thesis
    unfolding CommandMove_def
    by (auto intro!: answers_same [OF s] n e split: option.split list.split
        dest: bearoff_move_movable parse_move_movable split: if_splits)
qed (auto simp: CommandMove_def answers_same [OF s])

lemma CommandAccept_answers: "session_ok ac s \<Longrightarrow> answers ac (CommandAccept S s)"
  by (simp add: CommandAccept_def CommandAgree_answers CommandTake_answers answers_same)

lemma CommandReject_answers: "session_ok ac s \<Longrightarrow> answers ac (CommandReject S s)"
  by (simp add: CommandReject_def CommandDecline_answers CommandDrop_answers answers_same)

section \<open>A new game\<close>

lemma PopGame_simps [simp]: "ms (PopGame s i b) = ms s" "fNextTurn (PopGame s i b) = fNextTurn s"
  by (simp_all add: PopGame_def Let_def)

lemma InitBoard_position_ok: "position_ok (InitBoard v)"
proof -
  have "list_all (\<lambda>i. fst (InitBoard v) ! (23 - i) = 0 \<or> snd (InitBoard v) ! i = 0) [0..<24]"
    by (cases v; simp only:; code_simp)
  then have "no_shared (InitBoard v)" by (simp add: no_shared_def list_all_iff)
  moreover have "1 \<le> anChequers v" "anChequers v \<le> 15" by (cases v; simp add: anChequers_def)+
  ultimately show ?thesis
    by (simp add: position_ok_def playable_def InitBoard_chequers)
qed

text \<open>The opening roll sets the dice and, displayed, turns the cube for every automatic double.\<close>

lemma opening_roll_sets:
  assumes "opening_roll S p n rolls = Some (q, m)" "fDisplay S" "\<exists>k\<le>12. nCube p = 2 ^ k"
  shows "\<exists>d k. q = p\<lparr>anDice := d, nCube := 2 ^ k\<rparr> \<and> d \<in> set rolls \<and> fst d \<noteq> snd d \<and> k \<le> 12"
  using assms
proof (induction S p n rolls rule: opening_roll.induct)
  case (2 S p n d rolls)
  let ?p = "p\<lparr>anDice := d\<rparr>"
  show ?case
  proof (cases "fst d = snd d")
    case False
    then have "q = ?p" using "2.prems"(1) by (simp add: Let_def)
    moreover obtain k where "k \<le> 12" "nCube p = 2 ^ k" using "2.prems"(3) by blast
    ultimately have "q = p\<lparr>anDice := d, nCube := 2 ^ k\<rparr>" by (cases p) simp
    moreover have "d \<in> set (d # rolls)" by simp
    ultimately show ?thesis using \<open>k \<le> 12\<close> False by blast
  next
    case True
    show ?thesis
    proof (cases "nMatchTo ?p = 0 \<and> nCube ?p < 2 ^ cAutoDoubles S \<and> fCubeUse ?p \<noteq> 0 \<and> nCube ?p < MAX_CUBE")
      case c: True
      have "\<exists>k\<le>12. nCube (?p\<lparr>nCube := 2 * nCube ?p\<rparr>) = 2 ^ k"
        using cube_doubles [of p] "2.prems"(3) c by simp
      moreover have "opening_roll S (?p\<lparr>nCube := 2 * nCube ?p\<rparr>) (n + 1) rolls = Some (q, m)"
        using "2.prems"(1,2) True c by (simp add: Let_def)
      ultimately show ?thesis using "2.IH"(1) [of ?p] True c "2.prems"(2) by (fastforce simp: Let_def)
    next
      case c: False
      then have "opening_roll S ?p n rolls = Some (q, m)"
        using "2.prems"(1) True by (simp add: Let_def split: if_splits)
      then show ?thesis using "2.IH"(2) [of ?p] True c "2.prems"(2,3) by (fastforce simp: Let_def)
    qed
  qed
qed simp

text \<open>A match in which the next game may begin.\<close>

definition ready :: "bool \<Rightarrow> matchstate \<Rightarrow> xmovegameinfo list \<Rightarrow> bool" where
  "ready ac p gl \<longleftrightarrow>
     score_ok (nMatchTo p) (anScore p) (cGames p) \<and> history ac gl \<and>
     (\<forall>h\<in>set gl. g_nMatch h = nMatchTo p \<and> (one_away h \<longrightarrow> near (nMatchTo p) (anScore p))) \<and>
     fCrawford p = of_bool (ac \<and> near (nMatchTo p) (anScore p) \<and> \<not> (\<exists>h\<in>set gl. one_away h))"

lemma ready_Nil: "ready ac p gl \<Longrightarrow> nMatchTo p = 0 \<Longrightarrow> ready ac p []"
  by (auto simp: ready_def near_def history.none)

lemma ready_history:
  assumes "ready (fAutoCrawford S) p gl"
  shows "history (fAutoCrawford S) (gl @ [new_game_info S p])"
  using assms by (auto simp: ready_def history_snoc new_game_info_def one_away_def)

lemma ready_sane:
  assumes "ready (fAutoCrawford S) p gl"
  shows "add_moverecord_sanity_check (MOVE_GAMEINFO (new_game_info S p))"
  using assms by (auto simp: ready_def new_game_info_def score_ok_def near_def)

text \<open>The record of the game is added to a game that is still empty.\<close>

lemma AddMoveRecord_gameinfo:
  assumes "add_moverecord_sanity_check (MOVE_GAMEINFO g)" "lMatch s = old @ [[]]" "plGame s = length old" "plLastMove s = 0"
  shows "AddMoveRecord S s (MOVE_GAMEINFO g) =
    Some (s\<lparr>ms := apply_gameinfo (resumed (ms s)) g, lMatch := old @ [[MOVE_GAMEINFO g]], plLastMove := 1\<rparr>)"
  using assms
  by (simp add: AddMoveRecord_def PopGame_def PopMoveRecord_def game_of_def elide_def FixMatchState_def
      ApplyMoveRecord_def resumed_def Let_def)

lemma begin_game_ready:
  assumes r: "ready ac (ms s) (infos (lMatch s))"
    and S: "fAutoCrawford S = ac" "fDisplay S" "\<forall>d\<in>set rolls. roll_ok d"
  obtains (stopped) s' where "begin_game S rolls s = Some (Interrupted, s')" "fNextTurn s' = fNextTurn s"
  | (started) s' old g rest where "begin_game S rolls s = Some (Accepted, s')" "in_game s' old g rest"
      "history ac (infos old @ [g])" "ongoing (ms s') g rest" "fNextTurn s' = fNextTurn s"
proof -
  obtain old where old: "lMatch s = old" by blast
  let ?s1 = "s\<lparr>ms := (ms s)\<lparr>anBoard := InitBoard (bgv (ms s))\<rparr>, lMatch := old @ [[]], plGame := length old, plLastMove := 0\<rparr>"
  let ?g = "new_game_info S (ms s)"
  let ?p = "apply_gameinfo (resumed (ms ?s1)) ?g"
  let ?s2 = "s\<lparr>ms := ?p, lMatch := old @ [[MOVE_GAMEINFO ?g]], plGame := length old, plLastMove := 1\<rparr>"
  have g1: "new_game_info S (ms ?s1) = ?g" by (simp add: new_game_info_def)
  have add: "AddMoveRecord S ?s1 (MOVE_GAMEINFO ?g) = Some ?s2"
    using AddMoveRecord_gameinfo [of ?g ?s1 old S] ready_sane [of S "ms s" "infos old"] r S(1) old by simp
  have game2: "game_of ?s2 = [MOVE_GAMEINFO ?g]" by (simp add: game_of_def)
  have ms2: "ms ?s2 = ?p" by simp
  show ?thesis
  proof (cases "opening_roll S ?p 0 rolls")
    case None
    have "begin_game S rolls s = Some (Interrupted, ?s2)"
      unfolding begin_game_def Let_def old g1 add option.case ms2 None by (rule refl)
    then show ?thesis by (rule stopped) simp
  next
    case (Some qm)
    then obtain q m where q: "opening_roll S ?p 0 rolls = Some (q, m)" by (cases qm) auto
    have "nCube ?p = 2 ^ 0" by (simp add: apply_gameinfo_def new_game_info_def)
    then have "\<exists>k\<le>12. nCube ?p = 2 ^ k" by blast
    from opening_roll_sets [OF q S(2) this] obtain d k where
      d: "q = ?p\<lparr>anDice := d, nCube := 2 ^ k\<rparr>" "d \<in> set rolls" "fst d \<noteq> snd d" "k \<le> 12" by blast
    let ?f = "of_bool (snd d > fst d)"
    let ?pmr = "MOVE_SETDICE ?f (sorted_dice d)"
    let ?h = "?g\<lparr>g_nAutoDoubles := m\<rparr>"
    let ?s3 = "?s2\<lparr>ms := q, lMatch := (lMatch ?s2)[plGame ?s2 := set_auto_doubles m (game_of ?s2)]\<rparr>"
    have c: "nCube q \<le> MAX_CUBE"
      unfolding d(1) using d(4) power_increasing [of k 12 "2 :: int"] by (simp add: MAX_CUBE_def)
    have in3: "in_game ?s3 old ?h []" unfolding in_game_def game2 by (simp add: set_auto_doubles_def)
    obtain q' where e: "apply_record (databases_of S) (resumed (FixMatchState q ?pmr)) ?h ?pmr = (q', ?h)"
      by (simp add: Let_def)
    then have q': "q' = (resumed q)\<lparr>anDice := sorted_dice d, anBoard := SwapSides (anBoard q), fTurn := ?f, fMove := ?f, fDoubled := 0\<rparr>"
    proof -
      have "fMove q = - 1" by (simp add: d(1) apply_gameinfo_def)
      moreover have "- 1 \<noteq> (of_bool b :: int)" for b by (cases b) simp_all
      moreover have "FixMatchState q ?pmr = q" by (simp add: FixMatchState_def)
      ultimately show ?thesis using e by (simp add: Let_def)
    qed
    obtain s' rest' where s': "AddMoveRecord S ?s3 ?pmr = Some s'" "in_game s' old ?h (rest' @ [?pmr])"
      "ms s' = q'" "fNextTurn s' = fNextTurn s"
      by (rule AddMoveRecord_in_game [OF in3, of ?pmr S q' ?h]) (use e in \<open>auto simp del: apply_record.simps\<close>)
    have "history ac (infos old @ [?h])"
      using history_result [OF ready_history, of S "ms s" "infos old" ?h] r S(1) old by simp
    moreover have "playing_ok q'"
    proof -
      have "position_ok (SwapSides (InitBoard v))" for v
        using position_ok_swap [OF InitBoard_position_ok] by simp
      moreover have "roll_ok (sorted_dice d)" using S(3) d(2) by (intro roll_ok_sorted) auto
      moreover have "player ?f" by (cases "snd d > fst d") auto
      ultimately show ?thesis using d(4)
        by (auto simp: q' d(1) state_defs apply_gameinfo_def)
    qed
    then have "ongoing q' ?h (rest' @ [?pmr])"
      using r by (simp add: ongoing_def in_match_def score_data_def q' d(1) apply_gameinfo_def new_game_info_def)
    moreover have "anDice q = d" by (simp add: d(1))
    then have "begin_game S rolls s = Some (Accepted, s')"
      unfolding begin_game_def Let_def old g1 add option.case ms2 q prod.case using c s'(1) by simp
    ultimately show ?thesis using started [of s' old ?h "rest' @ [?pmr]"] s' by simp
  qed
qed

lemma NewGame_ready:
  assumes r: "ready ac (ms s) (infos (lMatch s))"
    and S: "fAutoCrawford S = ac" "fDisplay S" "\<forall>d\<in>set rolls. roll_ok d"
  obtains (stopped) s' where "NewGame S rolls s = Some (Interrupted, s')" "fNextTurn s' = fNextTurn s"
  | (refused) "NewGame S rolls s = Some (Not_discarded, s)"
  | (started) s' old g rest where "NewGame S rolls s = Some (Accepted, s')" "in_game s' old g rest"
      "history ac (infos old @ [g])" "ongoing (ms s') g rest" "fNextTurn s' = fNextTurn s"
proof (cases "\<not> fRecord S \<and> nMatchTo (ms s) = 0 \<and> lMatch s \<noteq> []")
  case True
  have "ready ac (ms (PopGame s 0 True)) (infos (lMatch (PopGame s 0 True)))"
    using ready_Nil [OF r] True by (simp add: PopGame_def)
  note begun = begin_game_ready [OF this S]
  have new: "NewGame S rolls s =
      (if get_input_discard S then begin_game S rolls (PopGame s 0 True) else Some (Not_discarded, s))"
    using True by (simp add: NewGame_def)
  show ?thesis
  proof (cases "get_input_discard S")
    case True
    show ?thesis by (rule begun) (use stopped started new True in auto)
  next
    case False
    then show ?thesis using refused new by simp
  qed
next
  case False
  then have "NewGame S rolls s = begin_game S rolls s" by (auto simp: NewGame_def)
  then show ?thesis using stopped started by (auto intro: begin_game_ready [OF r S])
qed

text \<open>The next game may begin after a game was settled, or in place of the one being played.\<close>

lemma ready_fresh: "fresh s \<Longrightarrow> ready ac (ms s) (infos (lMatch s))"
  by (auto simp: fresh_def ready_def score_ok_def near_def history.none)

lemma ready_ongoing:
  assumes "history ac (gl @ [g])" "ongoing p g rest"
  shows "ready ac p gl" "\<not> match_won p"
proof -
  have p: "nMatchTo p = g_nMatch g" "anScore p = g_anScore g" "cGames p = g_i g" "fCrawford p = g_fCrawfordGame g"
    using assms(2) by (simp_all add: ongoing_def in_match_def score_data_def)
  have h: "history ac gl" "score_ok (g_nMatch g) (g_anScore g) (g_i g)"
    "\<forall>h\<in>set gl. g_nMatch h = g_nMatch g \<and> (one_away h \<longrightarrow> one_away g)"
    "g_fCrawfordGame g = of_bool (ac \<and> one_away g \<and> \<not> (\<exists>h\<in>set gl. one_away h))"
    using assms(1) by (simp_all add: history_snoc)
  show "ready ac p gl" unfolding ready_def p one_away_def [of g, symmetric] using h by blast
  show "\<not> match_won p" unfolding match_won_def p using h(2) by (auto simp: score_ok_def)
qed

lemma ready_settled:
  assumes h: "history ac (gl @ [g])" and s: "settled ac p g (gl @ [g])" and w: "\<not> match_won p"
  shows "ready ac p (gl @ [g])"
proof -
  have r: "player (g_fWinner g)" "1 \<le> g_nPoints g" "nMatchTo p = g_nMatch g"
    "anScore p = add_points (g_fWinner g) (g_nPoints g) (g_anScore g)" "cGames p = g_i g + 1"
    using s by (auto simp: settled_def result_of_def score_data_def)
  have ok: "score_ok (g_nMatch g) (g_anScore g) (g_i g)" using h by (simp add: history_snoc)
  have "score_ok (nMatchTo p) (anScore p) (cGames p)"
    using ok r w by (auto simp: score_ok_def add_points_def match_won_def)
  moreover have "one_away g \<longrightarrow> near (nMatchTo p) (anScore p)"
    using ok r w by (auto simp: one_away_def near_def score_ok_def add_points_def match_won_def)
  then have "\<forall>h\<in>set (gl @ [g]). g_nMatch h = nMatchTo p \<and> (one_away h \<longrightarrow> near (nMatchTo p) (anScore p))"
    using h r(3) by (auto simp: history_snoc)
  ultimately show ?thesis using s w h by (simp add: ready_def settled_def)
qed

lemma between_started:
  "in_game s old g rest \<Longrightarrow> history ac (infos old @ [g]) \<Longrightarrow> ongoing (ms s) g rest \<Longrightarrow> between ac s"
  by (auto simp: between_def in_session_def)

lemma NewGame_answers:
  assumes "ready ac (ms s) (infos (lMatch s))" "fAutoCrawford S = ac" "fDisplay S" "\<forall>d\<in>set rolls. roll_ok d"
    "\<not> fNextTurn s"
  shows "answers ac (NewGame S rolls s)"
  by (rule NewGame_ready [OF assms(1-4)]) (use assms(5) in \<open>auto simp: answers_def dest: between_started\<close>)

lemma session_ok_idle: "session_ok ac s \<Longrightarrow> \<not> fNextTurn s"
  by (simp add: session_ok_def)

lemma CommandNewGame_unless_won:
  "CommandNewGame S rolls s =
     (if match_won (ms s) then Some (Match_over, s)
      else if (gs (ms s) = GAME_PLAYING \<or> \<not> move_is_last_in_match s) \<and> fConfirmNew S \<and> \<not> GetInputYN S
      then Some (Not_discarded, s)
      else NewGame S rolls (if gs (ms s) = GAME_PLAYING \<or> \<not> move_is_last_in_match s then PopGame s (plGame s) True else s))"
  by (simp add: CommandNewGame_def match_won_def Let_def)

lemma CommandNewGame_answers:
  assumes s: "session_ok ac s" and S: "fAutoCrawford S = ac" "fDisplay S" "\<forall>d\<in>set rolls. roll_ok d"
  shows "answers ac (CommandNewGame S rolls s)"
proof (cases "match_won (ms s)")
  case True
  then show ?thesis by (simp add: CommandNewGame_unless_won answers_same [OF s])
next
  case w: False
  note idle = session_ok_idle [OF s]
  have refused: "answers ac (Some (Not_discarded, s))" by (rule answers_same [OF s])
  consider (fresh) "fresh s" | (game) old g rest where "in_game s old g rest" "history ac (infos old @ [g])"
      "ongoing (ms s) g rest \<or> settled ac (ms s) g (infos old @ [g])"
    using s by (auto simp: session_ok_def in_session_def)
  then show ?thesis
  proof cases
    case fresh
    then have "gs (ms s) \<noteq> GAME_PLAYING" "move_is_last_in_match s"
      by (auto simp: fresh_def move_is_last_in_match_def game_of_def)
    then show ?thesis
      using w NewGame_answers [OF ready_fresh [OF fresh] S idle] by (simp add: CommandNewGame_unless_won)
  next
    case game
    note last = in_gameD(3) [OF game(1)]
    show ?thesis
    proof (cases "gs (ms s) = GAME_PLAYING")
      case True
      then have o: "ongoing (ms s) g rest" using game(3) by (auto simp: settled_def result_of_def)
      have "lMatch (PopGame s (plGame s) True) = old"
        using game(1) by (simp add: PopGame_def in_game_def)
      then have "answers ac (NewGame S rolls (PopGame s (plGame s) True))"
        using ready_ongoing(1) [OF game(2) o] idle by (intro NewGame_answers S) simp_all
      then show ?thesis using w True answers_same [OF s]
        by (simp add: CommandNewGame_unless_won)
    next
      case False
      then have "settled ac (ms s) g (infos old @ [g])" using game(3) by (auto simp: ongoing_def playing_ok_def)
      from ready_settled [OF game(2) this w] game(1) have "ready ac (ms s) (infos (lMatch s))"
        by (simp add: in_game_def)
      then show ?thesis using w False last NewGame_answers [OF _ S idle] by (simp add: CommandNewGame_unless_won)
    qed
  qed
qed

lemma start_match_answers:
  assumes s: "session_ok ac s" and S: "fAutoCrawford S = ac" "fDisplay S" "\<forall>d\<in>set rolls. roll_ok d"
  shows "answers ac (start_match S n rolls s)"
proof -
  let ?s = "ClearMatch S (PopGame s 0 True)"
  let ?p = "(ms ?s)\<lparr>nMatchTo := int n, bgv := bgvDefault S, fCubeUse := set_fCubeUse S, fJacoby := set_fJacoby S\<rparr>"
  let ?t = "?s\<lparr>ms := ?p, plGame := 0, plLastMove := 0\<rparr>"
  have l: "lMatch (PopGame s 0 True) = []" by (simp add: PopGame_def)
  have "ready ac (ms ?t) (infos (lMatch ?t))"
    by (auto simp: l ClearMatch_def ready_def score_ok_def near_def history.none)
  moreover have "gs (ms ?t) = GAME_NONE" "move_is_last_in_match ?t" "\<not> match_won (ms ?t)"
    by (auto simp: move_is_last_in_match_def game_of_def l ClearMatch_def match_won_def)
  ultimately have "answers ac (CommandNewGame S rolls ?t)"
    using NewGame_answers [OF _ S, of ?t] session_ok_idle [OF s]
    by (simp add: CommandNewGame_unless_won ClearMatch_def PopGame_def)
  then show ?thesis using answers_same [OF s, of Not_discarded] by (simp add: start_match_def Let_def)
qed

lemma CommandNewMatch_answers:
  assumes "session_ok ac s" "fAutoCrawford S = ac" "fDisplay S" "\<forall>d\<in>set rolls. roll_ok d"
  shows "answers ac (CommandNewMatch S n rolls s)" "answers ac (CommandNewSession S rolls s)"
  using start_match_answers [OF assms] answers_same [OF assms(1)]
  by (simp_all add: CommandNewMatch_def CommandNewSession_def Let_def)

section \<open>The end of a game\<close>

lemma ended_settled:
  assumes h: "history ac (gl @ [g])" and e: "ended p g"
  shows "settled ac (if nMatchTo p \<noteq> 0 \<and> ac then update_crawford (g_fWinner g) p else p) g (gl @ [g])"
proof (cases "nMatchTo p \<noteq> 0 \<and> ac")
  case False
  have "nMatchTo p = g_nMatch g" "fCrawford p = g_fCrawfordGame g" "result_of p g"
    using e by (simp_all add: ended_def in_match_def)
  moreover have "g_fCrawfordGame g = of_bool (ac \<and> one_away g \<and> \<not> (\<exists>h\<in>set gl. one_away h))"
    using h by (simp add: history_snoc)
  moreover have "\<not> near 0 sc" for sc by (simp add: near_def)
  ultimately show ?thesis using False by (cases "nMatchTo p = 0") (auto simp: settled_def one_away_def)
next
  case True
  let ?q = "update_crawford (g_fWinner g) p"
  have m: "nMatchTo p = g_nMatch g" "fCrawford p = g_fCrawfordGame g"
      "fPostCrawford p = of_bool (g_fCrawfordGame g = 0 \<and>
        (fst (g_anScore g) = g_nMatch g - 1 \<or> snd (g_anScore g) = g_nMatch g - 1))"
    and w: "player (g_fWinner g)" "1 \<le> g_nPoints g" "anScore p = add_points (g_fWinner g) (g_nPoints g) (g_anScore g)"
    using e by (auto simp: ended_def in_match_def result_of_def score_data_def)
  have g: "score_ok (g_nMatch g) (g_anScore g) (g_i g)"
    "g_fCrawfordGame g = of_bool (one_away g \<and> \<not> (\<exists>h\<in>set gl. one_away h))"
    "\<forall>h\<in>set gl. one_away h \<longrightarrow> one_away g"
    using h True by (simp_all add: history_snoc)
  have "fCrawford ?q = of_bool (near (nMatchTo p) (anScore p) \<and> \<not> (\<exists>h\<in>set (gl @ [g]). one_away h))"
    if nw: "\<not> match_won p"
  proof (cases "one_away g")
    case oa: True
    then have "fCrawford ?q = 0"
      using m g(2) w nw True
      by (auto simp: update_crawford_def Let_def one_away_def near_def side_of_def add_points_def match_won_def player_def)
    then show ?thesis using oa by simp
  next
    case oa: False
    then have "g_fCrawfordGame g = 0" using g(2) by simp
    moreover have "\<not> (\<exists>h\<in>set (gl @ [g]). one_away h)" using oa g(3) by auto
    ultimately show ?thesis
      using m w nw oa g(1) True
      by (auto simp: update_crawford_def Let_def one_away_def near_def side_of_def add_points_def match_won_def
          player_def score_ok_def)
  qed
  moreover have "result_of ?q g"
    using e by (simp add: ended_def result_of_def update_crawford_def Let_def score_data_def)
  moreover have "nMatchTo ?q = nMatchTo p" "anScore ?q = anScore p" "match_won ?q = match_won p"
    by (simp_all add: update_crawford_def Let_def match_won_def)
  ultimately show ?thesis using True m(1) by (simp add: settled_def)
qed

lemma NextTurn_settles:
  assumes b: "between ac s" and S: "fAutoCrawford S = ac" "fDisplay S" "\<forall>d\<in>set rolls. roll_ok d"
  shows "\<exists>r s'. NextTurn S rolls s = Some (r, s') \<and> (r = Interrupted \<or> session_ok ac s')"
proof (cases "fNextTurn s")
  case False
  with b have "session_ok ac s" by (auto simp: between_def session_ok_def in_session_def)
  with False show ?thesis by (simp add: NextTurn_def)
next
  case turn: True
  with b obtain old g rest where g: "in_game s old g rest" "history ac (infos old @ [g])"
    and p: "ongoing (ms s) g rest \<or> ended (ms s) g"
    by (auto simp: between_def session_ok_def in_session_def)
  let ?s = "s\<lparr>fNextTurn := False\<rparr>"
  show ?thesis
  proof (cases "ongoing (ms s) g rest")
    case True
    then have "playable (anBoard (ms s))" "gs (ms s) = GAME_PLAYING"
      "chequers (fst (anBoard (ms s))) \<noteq> 0" "chequers (snd (anBoard (ms s))) \<noteq> 0"
      by (simp_all add: ongoing_def playing_ok_def position_ok_def)
    then have "\<not> game_ended S (ms s)" by (simp add: game_ended_def GameStatus_playable)
    moreover have "session_ok ac ?s"
      using True g by (auto simp: session_ok_def in_session_def in_game_cong)
    ultimately show ?thesis using turn \<open>gs (ms s) = GAME_PLAYING\<close> by (simp add: NextTurn_def)
  next
    case False
    with p have e: "ended (ms s) g" by simp
    then have over: "game_ended S (ms s)" unfolding ended_def result_of_def game_ended_def by blast
    obtain q where q_eq: "q = (if nMatchTo (ms s) \<noteq> 0 \<and> ac then update_crawford (g_fWinner g) (ms s) else ms s)"
      by blast
    let ?t = "s\<lparr>fNextTurn := False, ms := q\<rparr>"
    have q: "settled ac q g (infos old @ [g])" unfolding q_eq by (rule ended_settled [OF g(2) e])
    have t: "in_game ?t old g rest" using g(1) by (simp add: in_game_def)
    have ok: "session_ok ac ?t" using q t g(2) by (auto simp: session_ok_def in_session_def)
    have game: "game_of ?s = MOVE_GAMEINFO g # rest" using g(1) by (simp add: in_game_def game_of_def)
    have next_turn: "NextTurn S rolls s =
      (if nMatchTo q \<noteq> 0 \<and> side_of (g_fWinner g) (anScore q) \<ge> nMatchTo q then Some (Match_over, ?t)
       else if fAutoGame S then NewGame S rolls ?t else Some (Accepted, ?t))"
      using turn over S(1) by (simp add: NextTurn_def game Let_def q_eq)
    show ?thesis
    proof (cases "nMatchTo q \<noteq> 0 \<and> side_of (g_fWinner g) (anScore q) \<ge> nMatchTo q \<or> \<not> fAutoGame S")
      case True
      then show ?thesis unfolding next_turn using ok by (cases "fAutoGame S") auto
    next
      case c: False
      have "\<not> match_won q"
      proof -
        have "score_ok (g_nMatch g) (g_anScore g) (g_i g)" using g(2) by (simp add: history_snoc)
        then show ?thesis using q c
          by (auto simp: settled_def result_of_def score_data_def match_won_def score_ok_def player_def add_points_def side_of_def)
      qed
      from ready_settled [OF g(2) q this] t have "ready ac (ms ?t) (infos (lMatch ?t))" by (simp add: in_game_def)
      moreover have "NextTurn S rolls s = NewGame S rolls ?t" unfolding next_turn using c by auto
      ultimately show ?thesis using ok
        by (rule_tac NewGame_ready [OF _ S, of ?t])
          (auto simp: session_ok_def in_session_def)
    qed
  qed
qed

section \<open>Every reachable session\<close>

lemma run_answers:
  assumes "session_ok ac s" "fAutoCrawford S = ac" "admissible S rolls c s"
  shows "answers ac (run S rolls c s)"
  using assms
  by (cases c) (auto simp: admissible_def intro: CommandDouble_answers CommandRedouble_answers CommandTake_answers
      CommandDrop_answers CommandAccept_answers CommandReject_answers CommandAgree_answers CommandDecline_answers
      CommandResign_answers CommandRoll_answers CommandMove_answers CommandNewGame_answers CommandNewMatch_answers)

lemma exec_keeps:
  assumes s: "session_ok ac s" and S: "fAutoCrawford S = ac" "admissible S rolls c s"
  shows "\<exists>r s'. exec S rolls c s = Some (r, s') \<and> (r = Interrupted \<or> r = Not_discarded \<or> session_ok ac s')"
proof -
  obtain r s1 where r: "run S rolls c s = Some (r, s1)" "(r = Interrupted \<or> r = Not_discarded) \<and> \<not> fNextTurn s1 \<or> between ac s1"
    using run_answers [OF assms] by (auto simp: answers_def)
  have S': "fDisplay S" "\<forall>d\<in>set rolls. roll_ok d" using S(2) by (simp_all add: admissible_def)
  show ?thesis
  proof (cases "between ac s1")
    case True
    from NextTurn_settles [OF this S(1) S'] r(1) show ?thesis by (auto simp: exec_def)
  next
    case False
    then show ?thesis using r by (auto simp: exec_def NextTurn_def)
  qed
qed

end
