(* ===== verification/Game_Theorems.thy ===== *)
theory Game_Theorems
  imports Game_Steps
begin

text \<open>
  The theorems on the sessions that sequences of commands reach: the state of a game, the cube,
  the score, the Crawford game, what can always be played, and what the program does not prevent.
\<close>

section \<open>Concrete sessions\<close>

text \<open>Two human players, a match to three with one chequer each, and the first commands of it.\<close>

definition people :: settings where
  "people =
     \<lparr>human = (True, True), fComputerDecision = False, nBeavers = 3, fAutoCrawford = True, cAutoDoubles = 0,
      fAutoGame = False, fAutoMove = False, fAutoBearoff = False, fDisplay = True, fRecord = True,
      fConfirmNew = True, fTutor = False, fTutorCube = False, fTutorChequer = False, automaticTask = False,
      GetInputYN = True, get_input_discard = True, GiveAdvice = True, nDefaultLength = 7,
      bgvDefault = VARIATION_HYPERGAMMON_1, set_fCubeUse = 1, set_fJacoby = 1, databases_of = no_databases\<rparr>"

fun play_on :: "command list \<Rightarrow> session \<Rightarrow> session option" where
  "play_on [] s = Some s"
| "play_on (c # cs) s =
     (case exec people [(3, 1)] c s of
        Some (Accepted, s) \<Rightarrow> play_on cs s
      | _ \<Rightarrow> None)"

definition opened :: session where
  "opened = the (play_on [New_match (Some 3)] initial_session)"

definition doubled :: session where
  "doubled = the (play_on [New_match (Some 3), Move None, Double] initial_session)"

lemma people_admissible: "admissible people [(3, 1)] (New_match n) s" "admissible people [(3, 1)] (Move m) s"
  "fResigned (ms s) = 0 \<Longrightarrow> admissible people [(3, 1)] Double s"
  by (simp_all add: admissible_def people_def roll_ok_def word_le_nat_alt)

lemma opened_run: "play_on [New_match (Some 3)] initial_session = Some opened" "gs (ms opened) = GAME_PLAYING"
  "fResigned (ms opened) = 0"
  by code_simp+

lemma doubled_run: "play_on [New_match (Some 3), Move None, Double] initial_session = Some doubled"
  "gs (ms doubled) = GAME_PLAYING" "fResigned (ms doubled) = 0" "fDoubled (ms doubled) = 1" "cBeavers (ms doubled) = 0"
  "play_on [New_match (Some 3), Move None] initial_session \<noteq> None"
  "fResigned (ms (the (play_on [New_match (Some 3), Move None] initial_session))) = 0"
  by code_simp+

section \<open>The invariant of a session\<close>

lemma reachable_ok: "reachable ac s \<Longrightarrow> session_ok ac s"
proof (induction rule: reachable.induct)
  case start
  show ?case by (simp add: session_ok_def fresh_def initial_session_def)
next
  case (step s S rolls c r s')
  with exec_keeps [OF step.IH step.hyps(2,3)] show ?case by auto
qed

lemma play_on_reachable:
  assumes "reachable True s" "play_on cs s = Some s'"
    and "\<And>ds c es t. cs = ds @ c # es \<Longrightarrow> play_on ds s = Some t \<Longrightarrow> admissible people [(3, 1)] c t"
  shows "reachable True s'"
  using assms
proof (induction cs arbitrary: s)
  case (Cons c cs)
  then obtain t where t: "exec people [(3, 1)] c s = Some (Accepted, t)" "play_on cs t = Some s'"
    by (auto split: option.splits prod.splits reply.splits)
  have "reachable True t"
    using reachable.step [OF Cons.prems(1) _ _ t(1)] Cons.prems(3) [of "[]" c cs] by (simp add: people_def)
  then show ?case
  proof (rule Cons.IH [OF _ t(2)])
    fix ds d es u assume "cs = ds @ d # es" "play_on ds t = Some u"
    then show "admissible people [(3, 1)] d u" using Cons.prems(3) [of "c # ds" d es u] t(1) by simp
  qed
qed simp

lemma opened_reachable: "reachable True opened"
  by (rule play_on_reachable [OF reachable.start opened_run(1)])
    (auto simp: people_admissible Cons_eq_append_conv)

lemma doubled_reachable: "reachable True doubled"
  by (rule play_on_reachable [OF reachable.start doubled_run(1)])
    (use doubled_run(7) in \<open>auto simp: people_admissible Cons_eq_append_conv simp del: play_on.simps\<close>)

section \<open>The state of a game\<close>

lemma reachable_playing:
  assumes "reachable ac s" "gs (ms s) = GAME_PLAYING"
  obtains old g rest where "in_game s old g rest" "history ac (infos old @ [g])" "ongoing (ms s) g rest"
    "playing_ok (ms s)"
  using session_okE [OF reachable_ok [OF assms(1)] assms(2)] ongoingD(1) by metis

text \<open>C6: In every session the commands reach, while a game is played both sides have chequers on a playable
  board and nobody has won; the cube is a power of two up to 4096, centred or with a player, and while a
  double is pending it can be taken; dice are rolled or not; the turn and the roll belong to a player.\<close>

theorem game_invariant:
  assumes "reachable ac s" "gs (ms s) = GAME_PLAYING"
  shows "playable (anBoard (ms s)) \<and> GameStatus dbs (anBoard (ms s)) (bgv (ms s)) = 0 \<and>
    (\<exists>k\<le>12. nCube (ms s) = 2 ^ k) \<and> fCubeOwner (ms s) \<in> {- 1, 0, 1} \<and>
    (fDoubled (ms s) = 0 \<or> fDoubled (ms s) = 1 \<and> 2 * nCube (ms s) \<le> MAX_CUBE \<and> fst (anDice (ms s)) = 0) \<and>
    (fst (anDice (ms s)) = 0 \<or> roll_ok (anDice (ms s))) \<and>
    fMove (ms s) \<in> {0, 1} \<and> fTurn (ms s) \<in> {0, 1}"
proof -
  obtain old g rest where "playing_ok (ms s)" by (rule reachable_playing [OF assms])
  note p = this
  then have b: "playable (anBoard (ms s))" "GameStatus dbs (anBoard (ms s)) (bgv (ms s)) = 0"
    by (simp_all add: playing_ok_def position_ok_def GameStatus_playable)
  obtain k where k: "k \<le> 12" "nCube (ms s) = 2 ^ k" using p by (auto simp: playing_ok_def cube_ok_def)
  have "2 * nCube (ms s) \<le> MAX_CUBE" if "nCube (ms s) < MAX_CUBE"
  proof -
    from that k have "k \<noteq> 12" by (auto simp: MAX_CUBE_def)
    with k have "k < 12" by simp
    then have "(2 :: int) ^ Suc k \<le> 2 ^ 12" by (intro power_increasing) auto
    then show ?thesis using k by (simp add: MAX_CUBE_def)
  qed
  with b k p show ?thesis by (auto simp: playing_ok_def cube_ok_def turn_ok_def player_def)
qed

theorem game_invariant_witness: "playable (anBoard (ms doubled)) \<and> fDoubled (ms doubled) = 1"
  using game_invariant [OF doubled_reachable doubled_run(2)] doubled_run(4) by simp



text \<open>C17: The score of the session is the one its last game leads to: every finished game has added its points
  to its winner once, and in a match nobody who is still playing has reached the length of the match.\<close>

theorem score_kept:
  assumes "reachable ac s" "gs (ms s) \<noteq> GAME_NONE"
  shows "getFinalScore (lMatch s) = Some (anScore (ms s)) \<and> cGames (ms s) \<le> fst (anScore (ms s)) + snd (anScore (ms s)) \<and>
    (gs (ms s) = GAME_PLAYING \<and> nMatchTo (ms s) > 0 \<longrightarrow>
       fst (anScore (ms s)) < nMatchTo (ms s) \<and> snd (anScore (ms s)) < nMatchTo (ms s))"
proof -
  obtain old g rest where g: "in_game s old g rest" "history ac (infos old @ [g])"
    and p: "ongoing (ms s) g rest \<or> settled ac (ms s) g (infos old @ [g])"
    using reachable_ok [OF assms(1)] assms(2) by (auto simp: session_ok_def fresh_def in_session_def)
  have ok: "score_ok (g_nMatch g) (g_anScore g) (g_i g)" using g(2) by (simp add: history_snoc)
  have last: "last (lMatch s) = MOVE_GAMEINFO g # rest" "lMatch s \<noteq> []" using g(1) by (simp_all add: in_game_def)
  show ?thesis
  proof (cases "ongoing (ms s) g rest")
    case True
    then show ?thesis using ok last
      by (auto simp: ongoing_def score_data_def in_match_def getFinalScore_def score_ok_def split: list.split)
  next
    case False
    with p have "settled ac (ms s) g (infos old @ [g])" by simp
    then show ?thesis using ok last
      by (auto simp: settled_def result_of_def score_data_def getFinalScore_def score_ok_def add_points_def player_def
          split: list.split)
  qed
qed

theorem score_kept_witness: "getFinalScore (lMatch opened) = Some (anScore (ms opened))"
  using score_kept [OF opened_reachable] opened_run(2) by simp

section \<open>The Crawford game\<close>

lemma history_Crawford:
  "history ac gl \<Longrightarrow> i < length gl \<Longrightarrow>
   g_fCrawfordGame (gl ! i) = of_bool (ac \<and> one_away (gl ! i) \<and> (\<forall>j<i. \<not> one_away (gl ! j)))"
proof (induction arbitrary: i rule: history.induct)
  case (next_game gl g)
  show ?case
  proof (cases "i = length gl")
    case True
    have "(\<exists>h\<in>set gl. one_away h) \<longleftrightarrow> (\<exists>j<i. one_away (gl ! j))" using True by (auto simp: set_conv_nth)
    then show ?thesis using next_game.hyps True by (simp add: nth_append)
  next
    case False
    with next_game.prems have "i < length gl" by simp
    moreover have "\<forall>j<i. (gl @ [g]) ! j = gl ! j" using calculation by (simp add: nth_append)
    ultimately show ?thesis using next_game.IH by (simp add: nth_append)
  qed
qed simp

text \<open>C18: The Crawford rule: with it switched on, a game of a match is the Crawford game exactly when it is the
  first game that begins with a player one point from winning, and while it is played every double is
  refused.\<close>

theorem Crawford_game_once:
  assumes "reachable ac s" "i < length (infos (lMatch s))"
  shows "(g_fCrawfordGame (infos (lMatch s) ! i) \<noteq> 0 \<longleftrightarrow>
      ac \<and> one_away (infos (lMatch s) ! i) \<and> \<not> (\<exists>j<i. one_away (infos (lMatch s) ! j))) \<and>
    (gs (ms s) = GAME_PLAYING \<and> Suc i = length (infos (lMatch s)) \<and> g_fCrawfordGame (infos (lMatch s) ! i) \<noteq> 0 \<longrightarrow>
      (\<forall>S. \<exists>r. r \<noteq> Accepted \<and> CommandDouble S s = Some (r, s)))"
proof -
  have ok: "session_ok ac s" by (rule reachable_ok [OF assms(1)])
  then have "lMatch s \<noteq> []" using assms(2) by (auto simp: session_ok_def fresh_def)
  then obtain old g rest where g: "in_game s old g rest" "history ac (infos old @ [g])"
    and p: "ongoing (ms s) g rest \<or> settled ac (ms s) g (infos old @ [g])"
    using ok by (auto simp: session_ok_def fresh_def in_session_def)
  have gl: "infos (lMatch s) = infos old @ [g]" using g(1) by (simp add: in_game_def)
  have "g_fCrawfordGame (infos (lMatch s) ! i) =
      of_bool (ac \<and> one_away (infos (lMatch s) ! i) \<and> (\<forall>j<i. \<not> one_away (infos (lMatch s) ! j)))"
    using history_Crawford [OF g(2)] assms(2) gl by simp
  moreover have "\<exists>r. r \<noteq> Accepted \<and> CommandDouble S s = Some (r, s)"
    if "gs (ms s) = GAME_PLAYING" "Suc i = length (infos (lMatch s))" "g_fCrawfordGame (infos (lMatch s) ! i) \<noteq> 0" for S
  proof -
    have "g_fCrawfordGame g \<noteq> 0" using that gl by (simp add: nth_append)
    moreover have "ongoing (ms s) g rest" using p that(1) by (auto simp: settled_def result_of_def)
    ultimately have "fCrawford (ms s) \<noteq> 0" by (simp add: ongoing_def in_match_def)
    then show ?thesis using that(1) by (simp add: CommandDouble_def)
  qed
  ultimately show ?thesis by auto
qed

theorem Crawford_game_once_witness: "g_fCrawfordGame (infos (lMatch opened) ! 0) = 0"
proof -
  have "0 < length (infos (lMatch opened))" "\<not> one_away (infos (lMatch opened) ! 0)" by code_simp+
  then show ?thesis using Crawford_game_once [OF opened_reachable, of 0] by simp
qed

section \<open>Answers\<close>



text \<open>The commands of a player, as opposed to those that start a game.\<close>

fun players_command :: "command \<Rightarrow> bool" where
  "players_command New_game = False"
| "players_command New_session = False"
| "players_command (New_match n) = False"
| "players_command c = True"

lemma submit_Accepted: "submit S s pmr = Some (r, s') \<Longrightarrow> r = Accepted"
  by (auto simp: submit_def split: option.splits)

lemma refused_same:
  "CommandTake S s = Some (r, s') \<Longrightarrow> r \<noteq> Accepted \<Longrightarrow> s' = s"
  "CommandDrop S s = Some (r, s') \<Longrightarrow> r \<noteq> Accepted \<Longrightarrow> s' = s"
  "CommandRedouble S s = Some (r, s') \<Longrightarrow> r \<noteq> Accepted \<Longrightarrow> s' = s"
  "CommandAgree S s = Some (r, s') \<Longrightarrow> r \<noteq> Accepted \<Longrightarrow> s' = s"
  "CommandDecline S s = Some (r, s') \<Longrightarrow> r \<noteq> Accepted \<Longrightarrow> s' = s"
  by (auto simp: CommandTake_def CommandDrop_def CommandRedouble_def CommandAgree_def CommandDecline_def Let_def
      split: if_splits option.splits dest: submit_Accepted)

lemma refused_same_more:
  "CommandDouble S s = Some (r, s') \<Longrightarrow> r \<noteq> Accepted \<Longrightarrow> s' = s"
  "CommandRoll S d s = Some (r, s') \<Longrightarrow> r \<noteq> Accepted \<Longrightarrow> s' = s"
  "CommandMove S text s = Some (r, s') \<Longrightarrow> r \<noteq> Accepted \<Longrightarrow> s' = s"
  "CommandAccept S s = Some (r, s') \<Longrightarrow> r \<noteq> Accepted \<Longrightarrow> s' = s"
  "CommandReject S s = Some (r, s') \<Longrightarrow> r \<noteq> Accepted \<Longrightarrow> s' = s"
  by (auto simp: CommandDouble_def CommandRoll_def CommandMove_def CommandAccept_def CommandReject_def Let_def
      split: if_splits option.splits list.splits dest: submit_Accepted refused_same)

text \<open>A command of a player that is refused leaves the session exactly as it was, whatever the reason; the
  one exception is a refused resignation, which withdraws a resignation that is pending.\<close>

lemma refused_unchanged:
  assumes "run S rolls c s = Some (r, s')" "r \<noteq> Accepted" "players_command c"
  shows "s' = s \<or> (\<exists>token. c = Resign token) \<and> s' = s\<lparr>ms := (ms s)\<lparr>fResigned := 0\<rparr>\<rparr>"
proof (cases c)
  case (Resign token)
  then show ?thesis using assms by (auto simp: CommandResign_def Let_def split: if_splits)
qed (use assms in \<open>auto dest: refused_same refused_same_more\<close>)

section \<open>The opening roll\<close>

text \<open>The opening roll ends with the first roll of two different dice, if there is one.  The automatic doubles
  it counts are the turns of the cube only when the output is displayed: otherwise the cube stays as it
  was although the record of the game says it was doubled.\<close>

lemma opening_roll_ends:
  "case opening_roll S p n rolls of
     None \<Rightarrow> list_all (\<lambda>d. fst d = snd d) rolls
   | Some (q, m) \<Rightarrow> List.find (\<lambda>d. fst d \<noteq> snd d) rolls = Some (anDice q) \<and> n \<le> m \<and>
       nCube q = (if fDisplay S then 2 ^ (m - n) * nCube p else nCube p)"
proof (induction S p n rolls rule: opening_roll.induct)
  case (2 S p n d rolls)
  let ?p = "p\<lparr>anDice := d\<rparr>"
  have *: "nCube q = 2 ^ (m - n) * nCube p" if "nCube q = 2 ^ (m - Suc n) * (2 * nCube p)" "Suc n \<le> m"
    for q :: matchstate and m
  proof -
    from that(2) have "m - n = Suc (m - Suc n)" by simp
    then show ?thesis using that(1) by simp
  qed
  show ?case
  proof (cases "fst d = snd d")
    case False
    then show ?thesis by (simp add: Let_def)
  next
    case True
    show ?thesis
    proof (cases "nMatchTo ?p = 0 \<and> nCube ?p < 2 ^ cAutoDoubles S \<and> fCubeUse ?p \<noteq> 0 \<and> nCube ?p < MAX_CUBE")
      case c: True
      let ?q = "if fDisplay S then ?p\<lparr>nCube := 2 * nCube ?p\<rparr> else ?p"
      have "opening_roll S p n (d # rolls) = opening_roll S ?q (n + 1) rolls" using True c by (simp add: Let_def)
      then show ?thesis
        using "2.IH"(1) [of ?p] True c * by (cases "fDisplay S") (auto split: option.splits)
    next
      case c: False
      then have "opening_roll S p n (d # rolls) = opening_roll S ?p n rolls" using True by (auto simp: Let_def)
      moreover have "case opening_roll S ?p n rolls of None \<Rightarrow> list_all (\<lambda>d. fst d = snd d) rolls
        | Some (q, m) \<Rightarrow> List.find (\<lambda>d. fst d \<noteq> snd d) rolls = Some (anDice q) \<and> n \<le> m \<and>
           nCube q = (if fDisplay S then 2 ^ (m - n) * nCube ?p else nCube ?p)"
        using "2.IH"(2) [of ?p] True c by blast
      ultimately show ?thesis using True by (auto simp del: opening_roll.simps split: option.splits)
    qed
  qed
qed simp

section \<open>What can be played\<close>

text \<open>A move that passes the checks is applied in the same way without them.\<close>

lemma ApplyMove_unchecked: "ApplyMove b an True = Some (0, c) \<Longrightarrow> ApplyMove b an False = Some (0, c)"
proof (induction b an True rule: ApplyMove.induct)
  case (1 b iSrc iDest anMove)
  have "ApplySubMove b iSrc (iSrc - iDest) False = ApplySubMove b iSrc (iSrc - iDest) True"
    if "ApplySubMove b iSrc (iSrc - iDest) True \<noteq> Some (- 1, b)"
    using that by (auto simp: ApplySubMove_def split: if_splits)
  with 1 show ?case by (auto split: if_splits option.splits prod.splits)
qed auto

lemma legal_move_accepted:
  assumes p: "playing_ok p" and d: "roll_ok (anDice p)" and m: "m \<in> set (legal_moves p)"
  shows "\<exists>an. parse_move_is_legal (Some (pm_anMove m)) p = Some an"
proof -
  let ?n0 = "unat (fst (anDice p))" and ?n1 = "unat (snd (anDice p))"
  have n: "1 \<le> ?n0" "?n0 \<le> 6" "1 \<le> ?n1" "?n1 \<le> 6" using d by (simp_all add: roll_ok_def word_le_nat_alt)
  have "playable (anBoard p)" using p by (simp add: playing_ok_def position_ok_def)
  moreover have "m \<in> set (amMoves (GenerateMoves (anBoard p) (int ?n0) (int ?n1) False))"
    using m by (simp add: legal_moves_def)
  ultimately obtain c where "ApplyMove (anBoard p) (pm_anMove m) True = Some (0, c)"
    using GenerateMoves_entries [OF _ n] by (metis entry_describes_def)
  then have c: "ApplyMove (anBoard p) (pm_anMove m) False = Some (0, c)" by (rule ApplyMove_unchecked)
  then have "List.find (\<lambda>m. map_option snd (ApplyMove (anBoard p) (pm_anMove m) False) = Some c) (legal_moves p) \<noteq> None"
  proof -
    have "map_option snd (ApplyMove (anBoard p) (pm_anMove m) False) = Some c" by (simp add: c)
    with m show ?thesis unfolding find_None_iff by blast
  qed
  then show ?thesis using c by (auto simp: parse_move_is_legal_def board_in_list_def)
qed

lemma answers_submits:
  "answers ac a \<Longrightarrow> a = submit S s pmr \<Longrightarrow> \<exists>s'. a = Some (Accepted, s')"
  by (auto simp: answers_def dest: submit_Accepted)

text \<open>Two people who insist: nobody is a computer, no advice is asked for, the rest of the match may go.\<close>

definition insisting :: "settings \<Rightarrow> bool" where
  "insisting S \<longleftrightarrow> human S = (True, True) \<and> \<not> fTutor S \<and> GetInputYN S"

lemma insisting_simps: "insisting S \<Longrightarrow> \<not> computers_turn S s" "insisting S \<Longrightarrow> side_of f (human S)"
  "insisting S \<Longrightarrow> move_not_last_in_match_ok S s" "insisting S \<Longrightarrow> \<not> fTutor S"
  by (simp_all add: insisting_def computers_turn_def side_of_def move_not_last_in_match_ok_def)

text \<open>C20: The game never gets stuck: in every reachable session in play the player to act can.  A resignation can
  be agreed to and declined; else a double can be taken and dropped; else the dice can be rolled; and
  with the dice rolled every listed move is accepted, or the empty one when there is none.\<close>

theorem decision_available:
  assumes "reachable ac s" "gs (ms s) = GAME_PLAYING" "insisting S" "roll_ok d"
  shows "if fResigned (ms s) \<noteq> 0 then
      (\<exists>s'. CommandAgree S s = Some (Accepted, s')) \<and> (\<exists>s'. CommandDecline S s = Some (Accepted, s'))
    else if fDoubled (ms s) \<noteq> 0 then
      (\<exists>s'. CommandTake S s = Some (Accepted, s')) \<and> (\<exists>s'. CommandDrop S s = Some (Accepted, s'))
    else if fst (anDice (ms s)) = 0 then \<exists>s'. CommandRoll S d s = Some (Accepted, s')
    else if legal_moves (ms s) = [] then \<exists>s'. CommandMove S None s = Some (Accepted, s')
    else \<forall>m\<in>set (legal_moves (ms s)). \<exists>s'. CommandMove S (Some (Some (pm_anMove m))) s = Some (Accepted, s')"
proof -
  note ok = reachable_ok [OF assms(1)] and S = insisting_simps [OF assms(3)]
  obtain old g rest where g: "in_game s old g rest" "ongoing (ms s) g rest" and p: "playing_ok (ms s)"
    by (rule reachable_playing [OF assms(1,2)])
  show ?thesis
  proof (cases "fResigned (ms s) \<noteq> 0")
    case True
    then have "CommandAgree S s = submit S s (MOVE_RESIGN (cnot (fTurn (ms s))) (fResigned (ms s)))"
      using S assms(2) by (simp add: CommandAgree_def)
    from answers_submits [OF CommandAgree_answers [OF ok] this] True S assms(2) show ?thesis
      by (simp add: CommandDecline_def)
  next
    case r: False
    show ?thesis
    proof (cases "fDoubled (ms s) \<noteq> 0")
      case True
      have l: "LinkToDouble s (MOVE_TAKE f) = Some (MOVE_TAKE f)" "LinkToDouble s (MOVE_DROP f) = Some (MOVE_DROP f)" for f
        by (rule LinkToDouble_ongoing [OF g True]; simp)+
      have "CommandTake S s = submit S s (MOVE_TAKE (fTurn (ms s)))" "CommandDrop S s = submit S s (MOVE_DROP (fTurn (ms s)))"
        using S assms(2) True l by (simp_all add: CommandTake_def CommandDrop_def)
      with answers_submits [OF CommandTake_answers [OF ok]] answers_submits [OF CommandDrop_answers [OF ok]] r True
      show ?thesis by simp
    next
      case u: False
      show ?thesis
      proof (cases "fst (anDice (ms s)) = 0")
        case True
        obtain t s' where "CommandRoll S d s = Some (t, s')"
          using CommandRoll_answers [OF ok assms(4), of S] by (auto simp: answers_def)
        moreover from this have "t = Accepted"
          using True u r S assms(2)
          by (auto simp: CommandRoll_def Let_def split: option.splits dest: submit_Accepted)
        ultimately show ?thesis using True u r by simp
      next
        case dice: False
        then have roll: "roll_ok (anDice (ms s))" using p by (auto simp: playing_ok_def)
        have accepted: "\<exists>s'. CommandMove S inp s = Some (Accepted, s')"
          if "CommandMove S inp s = submit S s (normal_record s an)" for inp an
          using answers_submits [OF CommandMove_answers [OF ok] that] .
        have "\<exists>s'. CommandMove S None s = Some (Accepted, s')" if "legal_moves (ms s) = []"
          using that dice u r S assms(2) by (intro accepted) (simp add: CommandMove_def)
        moreover have "\<exists>s'. CommandMove S (Some (Some (pm_anMove m))) s = Some (Accepted, s')"
          if "m \<in> set (legal_moves (ms s))" for m
        proof -
          obtain an where "parse_move_is_legal (Some (pm_anMove m)) (ms s) = Some an"
            using legal_move_accepted [OF p roll \<open>m \<in> set (legal_moves (ms s))\<close>] by blast
          then show ?thesis using dice u r S assms(2) by (intro accepted) (simp add: CommandMove_def)
        qed
        ultimately show ?thesis using dice u r by auto
      qed
    qed
  qed
qed

lemma people_insisting: "insisting people"
  by (simp add: insisting_def people_def)

theorem decision_available_witness: "\<exists>s'. CommandTake people doubled = Some (Accepted, s')"
  using decision_available [OF doubled_reachable doubled_run(2) people_insisting, of "(3, 1)"] doubled_run(3,4)
  by (simp add: roll_ok_def word_le_nat_alt)

section \<open>Resignations that interfere\<close>

text \<open>A resignation may be answered by a resignation: when the second one is declined, the turn is left with
  the opponent of the player on roll although neither a double nor a resignation is pending.\<close>

lemma resign_twice_loses_turn:
  assumes "gs (ms s) = GAME_PLAYING" "insisting S" "player (fTurn (ms s))" "fTurn (ms s) = fMove (ms s)"
    "fResignationDeclined (ms s) = 0"
  shows "\<exists>s1 s2 s3. CommandResign S None s = Some (Accepted, s1) \<and> CommandResign S None s1 = Some (Accepted, s2) \<and>
    CommandDecline S s2 = Some (Accepted, s3) \<and> gs (ms s3) = GAME_PLAYING \<and> fResigned (ms s3) = 0 \<and>
    fDoubled (ms s3) = fDoubled (ms s) \<and> anBoard (ms s3) = anBoard (ms s) \<and>
    fMove (ms s3) = fMove (ms s) \<and> fTurn (ms s3) = cnot (fMove (ms s))"
  using assms insisting_simps [OF assms(2)]
  by (simp add: CommandResign_def CommandDecline_def resign_value_def)

text \<open>The value \<open>- 1\<close>, an offer for the computer to judge, aborts the program when a person agrees to it.\<close>

lemma resign_minus_one_aborts:
  assumes "gs (ms s) = GAME_PLAYING" "insisting S"
  shows "\<exists>s1. CommandResign S (Some ''-1'') s = Some (Accepted, s1) \<and> CommandAgree S s1 = None"
proof -
  have "resign_value (Some ''-1'') = - 1" by code_simp
  with assms insisting_simps [OF assms(2)] show ?thesis
    by (simp add: CommandResign_def CommandAgree_def submit_def AddMoveRecord_def)
qed

text \<open>A keyword that is not understood withdraws the opponent's resignation and keeps the turn.\<close>

lemma resign_typo_keeps_turn:
  assumes "gs (ms s) = GAME_PLAYING" "insisting S" "resign_value token = 0"
  shows "CommandResign S token s = Some (Bad_keyword, s\<lparr>ms := (ms s)\<lparr>fResigned := 0\<rparr>\<rparr>)"
  using assms insisting_simps [OF assms(2)] by (simp add: CommandResign_def)

end
