(* ===== verification/Legal_Position.thy ===== *)
theory Legal_Position
  imports Board
begin

text \<open>
  \<open>CheckPosition\<close> and \<open>ClosestLegalPosition\<close> of positionid.c, against the specification
  \<open>legal_position\<close>: at most 15 chequers a side, no point held by both, and not both sides on
  the bar against closed boards.
\<close>

section \<open>Specification\<close>

definition legal_position :: "TanBoard \<Rightarrow> bool" where
  "legal_position b \<longleftrightarrow>
     chequers (fst b) \<le> 15 \<and> chequers (snd b) \<le> 15 \<and>
     (\<forall>i<24. fst b ! i = 0 \<or> snd b ! (23 - i) = 0) \<and>
     \<not> ((\<forall>i<6. 2 \<le> fst b ! i \<and> 2 \<le> snd b ! i) \<and> fst b ! 24 \<noteq> 0 \<and> snd b ! 24 \<noteq> 0)"

section \<open>CheckPosition\<close>

text \<open>The first loop: running 32-bit totals of both sides, leaving as soon as one exceeds 15.\<close>

fun within_15 :: "u32 \<Rightarrow> u32 \<Rightarrow> (u32 \<times> u32) list \<Rightarrow> bool" where
  "within_15 ac0 ac1 [] = True"
| "within_15 ac0 ac1 ((x, y) # xs) =
     (if 15 < ac0 + x then False
      else if 15 < ac1 + y then False
      else within_15 (ac0 + x) (ac1 + y) xs)"

definition open_board :: "TanBoard \<Rightarrow> bool" where
  "open_board b \<longleftrightarrow> list_ex (\<lambda>i. fst b ! i < 2 \<or> snd b ! i < 2) [0..<6]"

definition CheckPosition :: "TanBoard \<Rightarrow> bool" where
  "CheckPosition b =
     (if \<not> within_15 0 0 (zip (fst b) (snd b)) then False
      else if list_ex (\<lambda>i. fst b ! i \<noteq> 0 \<and> snd b ! (23 - i) \<noteq> 0) [0..<24] then False
      else if open_board b then True
      else if fst b ! 24 = 0 \<or> snd b ! 24 = 0 then True
      else False)"

definition no_wrap :: "side \<Rightarrow> bool" where
  "no_wrap s \<longleftrightarrow> (\<forall>x\<in>set s. unat x + 15 < 2 ^ 32)"

lemma open_board_iff: "open_board b \<longleftrightarrow> \<not> (\<forall>i<6. 2 \<le> fst b ! i \<and> 2 \<le> snd b ! i)"
  by (auto simp: open_board_def list_ex_iff not_le)

lemma within_15_iff:
  assumes "length xs = length ys" "no_wrap xs" "no_wrap ys" "unat a \<le> 15" "unat c \<le> 15"
  shows "within_15 a c (zip xs ys) \<longleftrightarrow> unat a + chequers xs \<le> 15 \<and> unat c + chequers ys \<le> 15"
  using assms
proof (induction xs ys arbitrary: a c rule: list_induct2)
  case Nil
  then show ?case by simp
next
  case (Cons x xs y ys)
  then have add: "unat (a + x) = unat a + unat x" "unat (c + y) = unat c + unat y"
    by (simp_all add: no_wrap_def unat_plus_small)
  have le: "15 < (w :: u32) \<longleftrightarrow> 15 < unat w" for w
    by (simp add: word_less_nat_alt)
  show ?case
  proof (cases "unat (a + x) \<le> 15 \<and> unat (c + y) \<le> 15")
    case True
    with Cons.prems Cons.IH [of "a + x" "c + y"] show ?thesis
      by (simp add: le add no_wrap_def add.assoc)
  next
    case False
    then show ?thesis by (auto simp: le add)
  qed
qed

text \<open>
  \<open>CheckPosition\<close> decides legality on every board whose entries leave room for the running
  total; the next theorem shows that without this bound the unsigned total wraps.
\<close>

lemma few_no_wrap: "chequers s \<le> 15 \<Longrightarrow> no_wrap s"
  unfolding no_wrap_def chequers_def using member_le_sum_list [of _ "map unat s"] by fastforce

lemma CheckPosition_legal:
  assumes "wf_board b" "no_wrap (fst b)" "no_wrap (snd b)"
  shows "CheckPosition b \<longleftrightarrow> legal_position b"
  using within_15_iff [of "fst b" "snd b" 0 0] assms
  by (auto simp: CheckPosition_def legal_position_def open_board_iff list_ex_iff wf_board_def)

definition wrapping_board :: TanBoard where
  "wrapping_board = ([15, 0xFFFFFFFF] @ replicate 23 0, replicate 25 0)"

lemma CheckPosition_wraps:
  "wf_board wrapping_board \<and> CheckPosition wrapping_board \<and> \<not> legal_position wrapping_board"
proof -
  have "wf_board wrapping_board" by code_simp
  moreover have "CheckPosition wrapping_board" by code_simp
  moreover have "15 < chequers (fst wrapping_board)"
    using chequers_ge [of 1 "fst wrapping_board"] by (simp add: wrapping_board_def)
  ultimately show ?thesis by (simp add: legal_position_def)
qed

section \<open>ClosestLegalPosition\<close>

fun limit_side :: "u32 \<Rightarrow> side \<Rightarrow> side" where
  "limit_side ac [] = []"
| "limit_side ac (x # xs) =
     (if x \<le> ac then x # limit_side (ac - x) xs else ac # limit_side 0 xs)"

definition clear_shared :: "TanBoard \<Rightarrow> TanBoard" where
  "clear_shared b =
     fold (\<lambda>i (a0, a1). if a0 ! i \<noteq> 0 then (a0, a1[23 - i := 0]) else (a0, a1)) [0..<24] b"

definition ClosestLegalPosition :: "TanBoard \<Rightarrow> TanBoard" where
  "ClosestLegalPosition b =
     (let b = (limit_side 15 (fst b), limit_side 15 (snd b));
          b = clear_shared b
      in if open_board b then b
         else if fst b ! 24 \<noteq> 0 then (fst b, (snd b)[24 := 0])
         else b)"

lemma length_limit_side [simp]: "length (limit_side ac xs) = length xs"
  by (induction xs arbitrary: ac) auto

lemma chequers_limit_side: "chequers (limit_side ac xs) \<le> unat ac"
proof (induction xs arbitrary: ac)
  case Nil
  then show ?case by simp
next
  case (Cons x xs)
  from Cons.IH [of 0] Cons.IH [of "ac - x"] show ?case
    by (auto simp: unat_sub word_le_nat_alt)
qed

lemma limit_side_id: "chequers xs \<le> unat ac \<Longrightarrow> limit_side ac xs = xs"
  by (induction xs arbitrary: ac) (auto simp: word_le_nat_alt unat_sub)

lemma clear_shared_prefix:
  fixes a0 a1 :: side
  assumes "length a0 = 25" "length a1 = 25" "n \<le> 24"
  shows "fold (\<lambda>i (a0, a1). if a0 ! i \<noteq> 0 then (a0, a1[23 - i := 0]) else (a0, a1)) [0..<n] (a0, a1)
    = (a0, map (\<lambda>j. if j < 24 \<and> 23 - j < n \<and> a0 ! (23 - j) \<noteq> 0 then 0 else a1 ! j) [0..<25])"
  using assms(3)
proof (induction n)
  case 0
  show ?case using assms(1,2) by (simp add: map_nth [of a1, unfolded assms(2)])
next
  case (Suc n)
  let ?m = "\<lambda>n. map (\<lambda>j. if j < 24 \<and> 23 - j < n \<and> a0 ! (23 - j) \<noteq> 0 then 0 else a1 ! j) [0..<25]"
  have "(if a0 ! n \<noteq> 0 then (?m n)[23 - n := 0] else ?m n) ! j = ?m (Suc n) ! j" if "j < 25" for j
  proof (cases "j = 23 - n")
    case True
    with that Suc.prems show ?thesis by (auto simp: nth_list_update)
  next
    case False
    with Suc.prems have "j < 24 \<Longrightarrow> 23 - j < Suc n \<longleftrightarrow> 23 - j < n" by arith
    with False that show ?thesis by (auto simp: nth_list_update)
  qed
  then have "(if a0 ! n \<noteq> 0 then (?m n)[23 - n := 0] else ?m n) = ?m (Suc n)"
    by (intro nth_equalityI) auto
  moreover have "(if a0 ! n \<noteq> 0 then (a0, (?m n)[23 - n := 0]) else (a0, ?m n))
      = (a0, if a0 ! n \<noteq> 0 then (?m n)[23 - n := 0] else ?m n)"
    by simp
  ultimately show ?case
    using Suc.IH [OF Suc_leD [OF Suc.prems]] by (simp only: fold_upt_Suc split_conv)
qed

lemma clear_shared_eq:
  assumes "length a0 = 25" "length a1 = 25"
  shows "clear_shared (a0, a1) =
    (a0, map (\<lambda>j. if j < 24 \<and> a0 ! (23 - j) \<noteq> 0 then 0 else a1 ! j) [0..<25])"
  unfolding clear_shared_def clear_shared_prefix [OF assms order_refl] by auto

lemma chequers_pointwise:
  assumes "length xs = length ys" "\<And>i. i < length xs \<Longrightarrow> unat (xs ! i) \<le> unat (ys ! i)"
  shows "chequers xs \<le> chequers ys"
  unfolding chequers_def using assms by (intro sum_list_mono2) auto

lemma legal_position_mono:
  assumes "wf_board (a0, a1)" "length a1' = 25" "\<And>i. i < 25 \<Longrightarrow> a1' ! i = 0 \<or> a1' ! i = a1 ! i"
  shows "chequers a1' \<le> chequers a1"
  using assms by (intro chequers_pointwise) (force simp: wf_board_def)+

text \<open>The repaired position is legal whatever the input, and a legal position is left alone.\<close>

lemma ClosestLegalPosition_board:
  assumes "wf_board b"
  shows "legal_position (ClosestLegalPosition b) \<and> wf_board (ClosestLegalPosition b)
    \<and> (legal_position b \<longrightarrow> ClosestLegalPosition b = b)"
proof -
  define a0 where "a0 = limit_side 15 (fst b)"
  define l1 where "l1 = limit_side 15 (snd b)"
  define a1 where "a1 = map (\<lambda>j. if j < 24 \<and> a0 ! (23 - j) \<noteq> 0 then 0 else l1 ! j) [0..<25]"
  have len: "length a0 = 25" "length l1 = 25" "length a1 = 25"
    using assms by (simp_all add: a0_def l1_def a1_def wf_board_def)
  have clear: "clear_shared (a0, l1) = (a0, a1)"
    unfolding a1_def by (rule clear_shared_eq) (use len in auto)
  have result: "ClosestLegalPosition b =
    (if open_board (a0, a1) then (a0, a1) else if a0 ! 24 \<noteq> 0 then (a0, a1[24 := 0]) else (a0, a1))"
    by (simp add: ClosestLegalPosition_def Let_def clear flip: a0_def l1_def)
  have "chequers a0 \<le> 15" "chequers l1 \<le> 15"
    using chequers_limit_side [of 15] by (simp_all add: a0_def l1_def)
  moreover have "chequers a1 \<le> chequers l1" "chequers (a1[24 := 0]) \<le> chequers l1"
    using len by (auto intro!: legal_position_mono [of a0 l1] simp: wf_board_def a1_def nth_list_update)
  moreover have "a0 ! i = 0 \<or> a1 ! (23 - i) = 0" if "i < 24" for i
    using that by (auto simp: a1_def)
  ultimately have legal: "legal_position (ClosestLegalPosition b)"
    unfolding result using len
    by (cases "open_board (a0, a1)"; cases "a0 ! 24 = 0")
      (auto simp: legal_position_def open_board_iff nth_list_update)
  have "ClosestLegalPosition b = b" if "legal_position b"
  proof -
    have *: "a0 = fst b" "l1 = snd b"
      using that by (simp_all add: a0_def l1_def legal_position_def limit_side_id)
    have shared: "fst b ! (23 - i) = 0 \<or> snd b ! i = 0" if "i < 24" for i
    proof -
      from \<open>legal_position b\<close>
      have "fst b ! (23 - i) = 0 \<or> snd b ! (23 - (23 - i)) = 0"
        unfolding legal_position_def by auto
      with that show ?thesis by simp
    qed
    then have "a1 = snd b"
      using assms * by (intro nth_equalityI) (auto simp: a1_def wf_board_def)
    with * have b: "(a0, a1) = b" by simp
    have "a1[24 := 0] = a1" if "a1 ! 24 = 0"
      using list_update_id [of a1 24] that by simp
    with that show ?thesis
      unfolding result b by (auto simp: legal_position_def open_board_iff simp flip: b)
  qed
  with legal len show ?thesis by (auto simp: result wf_board_def)
qed

section \<open>The check and the repair\<close>

text \<open>C26: Away from counts that wrap, the check accepts exactly the legal positions, and it accepts every
  board that ClosestLegalPosition returns.\<close>

theorem CheckPosition_iff:
  assumes "wf_board b" "no_wrap (fst b)" "no_wrap (snd b)"
  shows "(CheckPosition b \<longleftrightarrow> legal_position b) \<and> CheckPosition (ClosestLegalPosition b)"
proof -
  have "CheckPosition c" if "wf_board c" "legal_position c" for c
    using CheckPosition_legal [of c] that few_no_wrap by (simp add: legal_position_def)
  then show ?thesis
    using CheckPosition_legal [OF assms] ClosestLegalPosition_board [OF assms(1)] by blast
qed

theorem CheckPosition_iff_witness: "CheckPosition (InitBoard VARIATION_STANDARD)"
proof -
  have "no_wrap (fst (InitBoard VARIATION_STANDARD))" "no_wrap (snd (InitBoard VARIATION_STANDARD))"
    by (rule few_no_wrap; simp add: InitBoard_chequers anChequers_def)+
  moreover have "list_all (\<lambda>i. fst (InitBoard VARIATION_STANDARD) ! i = 0 \<or> snd (InitBoard VARIATION_STANDARD) ! (23 - i) = 0) [0..<24]"
    "fst (InitBoard VARIATION_STANDARD) ! 24 = 0"
    by code_simp+
  ultimately show ?thesis
    using CheckPosition_iff [of "InitBoard VARIATION_STANDARD"]
    by (simp add: legal_position_def InitBoard_chequers anChequers_def list_all_iff)
qed

text \<open>The repaired board is a legal position, and a legal position is left alone.\<close>

lemma ClosestLegalPosition_legal:
  assumes "wf_board b"
  shows "legal_position (ClosestLegalPosition b) \<and> wf_board (ClosestLegalPosition b)
    \<and> (legal_position b \<longrightarrow> ClosestLegalPosition b = b)"
  using assms by (rule ClosestLegalPosition_board)

end
