(* ===== verification/Position_ID.thy ===== *)
theory Position_ID
  imports Position_Key Base64 Legal_Position
begin

text \<open>
  The external position identifier of positionid.c: the 80-bit \<open>oldpositionkey\<close> (for every
  point a run of ones for its chequers, closed by a zero), its 14 base-64 characters, and the
  readers \<open>oldPositionFromKey\<close>, \<open>PositionFromID\<close> and \<open>PositionFromXG\<close>.
\<close>

section \<open>The key of ten bytes\<close>

type_synonym oldpositionkey = "u8 list"

definition addBits :: "oldpositionkey \<Rightarrow> u32 \<Rightarrow> u32 \<Rightarrow> oldpositionkey" where
  "addBits auchKey bitPos nBits =
     (let k = unat (bitPos div 8);
          r = unat (bitPos AND 0x7);
          b = push_bit r (push_bit (unat nBits) 1 - 1) :: u32;
          a = auchKey[k := auchKey ! k OR ucast b]
      in if k < 8 then
           (let a = a[k + 1 := a ! (k + 1) OR ucast (drop_bit 8 b)]
            in a[k + 2 := a ! (k + 2) OR ucast (drop_bit 16 b)])
         else if k = 8 then a[k + 1 := a ! (k + 1) OR ucast (drop_bit 8 b)]
         else a)"

definition old_key_step :: "u32 \<Rightarrow> oldpositionkey \<times> u32 \<Rightarrow> oldpositionkey \<times> u32" where
  "old_key_step nc = (\<lambda>(key, iBit).
     if nc \<noteq> 0 then (addBits key iBit nc, iBit + (nc + 1)) else (key, iBit + 1))"

definition oldPositionKey :: "TanBoard \<Rightarrow> oldpositionkey" where
  "oldPositionKey b = fst (fold old_key_step (fst b @ snd b) (replicate 10 0, 0))"

text \<open>The reader shifts each byte out, least significant bit first.\<close>

fun byte_bits :: "nat \<Rightarrow> u8 \<Rightarrow> bool list" where
  "byte_bits 0 cur = []"
| "byte_bits (Suc k) cur = (cur AND 0x1 \<noteq> 0) # byte_bits k (drop_bit 1 cur)"

definition add_chequer :: "TanBoard \<Rightarrow> nat \<Rightarrow> nat \<Rightarrow> TanBoard" where
  "add_chequer b i j = (if i = 0 then ((fst b)[j := fst b ! j + 1], snd b)
                        else (fst b, (snd b)[j := snd b ! j + 1]))"

fun read_bits :: "bool list \<Rightarrow> nat \<Rightarrow> nat \<Rightarrow> TanBoard \<Rightarrow> TanBoard" where
  "read_bits [] i j b = b"
| "read_bits (True # bs) i j b =
     (if 2 \<le> i \<or> 25 \<le> j then b else read_bits bs i j (add_chequer b i j))"
| "read_bits (False # bs) i j b =
     (if j + 1 = 25 then read_bits bs (i + 1) 0 b else read_bits bs i (j + 1) b)"

definition oldPositionFromKey :: "oldpositionkey \<Rightarrow> TanBoard" where
  "oldPositionFromKey key =
     read_bits (concat (map (byte_bits 8) key)) 0 0 (replicate 25 0, replicate 25 0)"

section \<open>Identifiers\<close>

definition oldPositionIDFromKey :: "oldpositionkey \<Rightarrow> string" where
  "oldPositionIDFromKey k =
     b64_group (k ! 0) (k ! 1) (k ! 2) @ b64_group (k ! 3) (k ! 4) (k ! 5)
     @ b64_group (k ! 6) (k ! 7) (k ! 8)
     @ [b64_char (drop_bit 2 (k ! 9)), b64_char (push_bit 4 (k ! 9 AND 0x03))]"

definition PositionIDFromKey :: "positionkey \<Rightarrow> string" where
  "PositionIDFromKey pkey = oldPositionIDFromKey (oldPositionKey (PositionFromKey pkey))"

definition PositionID :: "TanBoard \<Rightarrow> string" where
  "PositionID b = oldPositionIDFromKey (oldPositionKey b)"

definition L_POSITIONID :: nat where "L_POSITIONID = 14"

text \<open>The characters up to the end of the C string, at most 14, in a zeroed buffer of 15.\<close>

definition id_bytes :: "u8 list \<Rightarrow> oldpositionkey" where
  "id_bytes c =
     b64_ungroup (c ! 0) (c ! 1) (c ! 2) (c ! 3) @ b64_ungroup (c ! 4) (c ! 5) (c ! 6) (c ! 7)
     @ b64_ungroup (c ! 8) (c ! 9) (c ! 10) (c ! 11) @ [push_bit 2 (c ! 12) OR drop_bit 4 (c ! 13)]"

definition key_of_id :: "string \<Rightarrow> oldpositionkey" where
  "key_of_id s = id_bytes (read_id L_POSITIONID s)"

definition PositionFromID :: "string \<Rightarrow> TanBoard \<times> bool" where
  "PositionFromID s = (let b = oldPositionFromKey (key_of_id s) in (b, CheckPosition b))"

section \<open>Bits of the key\<close>

definition keybit :: "oldpositionkey \<Rightarrow> nat \<Rightarrow> bool" where
  "keybit key m = bit (key ! (m div 8)) (m mod 8)"

text \<open>The abstract bit string of a list of points.\<close>

definition point_bits :: "u32 \<Rightarrow> bool list" where
  "point_bits nc = replicate (unat nc) True @ [False]"

definition enc_bits :: "u32 list \<Rightarrow> bool list" where
  "enc_bits xs = concat (map point_bits xs)"

lemma enc_bits_simps [simp]:
  "enc_bits [] = []" "enc_bits (x # xs) = point_bits x @ enc_bits xs"
  "enc_bits (xs @ ys) = enc_bits xs @ enc_bits ys"
  by (simp_all add: enc_bits_def)

lemma length_point_bits [simp]: "length (point_bits x) = unat x + 1"
  by (simp add: point_bits_def)

lemma nth_point_bits:
  "(point_bits x @ e) ! d \<longleftrightarrow> d < unat x \<or> (unat x < d \<and> e ! (d - unat x - 1))"
  by (auto simp: point_bits_def nth_append nth_Cons')

lemma length_enc_bits: "length (enc_bits xs) = chequers xs + length xs"
  by (induction xs) auto

lemma length_addBits [simp]: "length (addBits key p n) = length key"
  by (simp add: addBits_def Let_def)

lemma bit_ones: "bit (push_bit r (push_bit n 1 - 1) :: u32) i \<longleftrightarrow> r \<le> i \<and> i < r + n \<and> i < 32"
proof -
  have "push_bit n 1 - 1 = (mask n :: u32)" by (simp add: mask_eq_decr_exp push_bit_eq_mult)
  then show ?thesis by (auto simp: bit_push_bit_iff bit_mask_iff)
qed

lemma keybit_addBits:
  assumes "length key = 10" "p + n \<le> 80" "n \<le> 15" "m < 80"
  shows "keybit (addBits key (of_nat p) (of_nat n)) m \<longleftrightarrow> keybit key m \<or> (p \<le> m \<and> m < p + n)"
proof -
  define k where "k = p div 8"
  define r where "r = p mod 8"
  define b :: u32 where "b = push_bit r (push_bit n 1 - 1)"
  define q where "q = m div 8"
  define t where "t = m mod 8"
  have p: "p = 8 * k + r" "r < 8" and m: "m = 8 * q + t" "t < 8"
    by (simp_all add: k_def r_def q_def t_def)
  have up: "unat (of_nat p :: u32) = p" "unat (of_nat n :: u32) = n"
    using assms by (simp_all add: unat_of_nat_u32)
  have kw: "unat (of_nat p div 8 :: u32) = k" "unat (of_nat p AND 0x7 :: u32) = r"
  proof -
    show "unat (of_nat p div 8 :: u32) = k" by (simp add: unat_div up k_def)
    have "(of_nat p AND 0x7 :: u32) = take_bit 3 (of_nat p)"
      by (simp add: take_bit_eq_mask mask_eq_exp_minus_1)
    then have "unat (of_nat p AND 0x7 :: u32) = take_bit 3 p" by (simp only: unsigned_take_bit_eq up)
    then show "unat (of_nat p AND 0x7 :: u32) = r" by (simp add: take_bit_eq_mod r_def)
  qed
  have bb: "bit b i \<longleftrightarrow> r \<le> i \<and> i < r + n" if "i < 24" for i
    unfolding b_def bit_ones using that by auto
  have q: "q < 10" using m assms(4) by simp
  have add: "addBits key (of_nat p) (of_nat n) =
    (let a = key[k := key ! k OR ucast b]
     in if k < 8 then
          (let a = a[k + 1 := a ! (k + 1) OR ucast (drop_bit 8 b)]
           in a[k + 2 := a ! (k + 2) OR ucast (drop_bit 16 b)])
        else if k = 8 then a[k + 1 := a ! (k + 1) OR ucast (drop_bit 8 b)]
        else a)"
    unfolding addBits_def kw up b_def Let_def ..
  have "keybit (addBits key (of_nat p) (of_nat n)) m =
     (bit (key ! q) t \<or> (q = k \<and> bit b t) \<or> (k < 9 \<and> q = k + 1 \<and> bit b (8 + t))
        \<or> (k < 8 \<and> q = k + 2 \<and> bit b (16 + t)))"
    using q m(2) assms(1)
    by (auto simp: keybit_def add Let_def nth_list_update bit_simps simp flip: q_def t_def)
  also have "\<dots> \<longleftrightarrow> keybit key m \<or> (p \<le> m \<and> m < p + n)"
  proof -
    have "(q = k \<and> r \<le> t \<and> t < r + n) \<or> (k < 9 \<and> q = k + 1 \<and> r \<le> 8 + t \<and> 8 + t < r + n)
        \<or> (k < 8 \<and> q = k + 2 \<and> r \<le> 16 + t \<and> 16 + t < r + n)
      \<longleftrightarrow> 8 * k + r \<le> 8 * q + t \<and> 8 * q + t < 8 * k + r + n"
      using q p(2) m(2) assms(2,3) unfolding p(1)
      by (cases "q < k"; cases "q = k"; cases "q = k + 1"; cases "q = k + 2"; simp; arith)
    then show ?thesis
      unfolding keybit_def q_def [symmetric] t_def [symmetric] p(1) m(1)
      using m(2) by (simp add: bb)
  qed
  finally show ?thesis .
qed

lemma keybit_old_key_fold:
  assumes "length key = 10" "\<forall>x\<in>set xs. unat x \<le> 15" "p + length (enc_bits xs) \<le> 80"
  shows "\<exists>key'. fold old_key_step xs (key, of_nat p) = (key', of_nat (p + length (enc_bits xs)))
    \<and> length key' = 10
    \<and> (\<forall>m<80. keybit key' m \<longleftrightarrow>
        keybit key m \<or> (p \<le> m \<and> m < p + length (enc_bits xs) \<and> enc_bits xs ! (m - p)))"
  using assms
proof (induction xs arbitrary: key p)
  case Nil
  then show ?case by auto
next
  case (Cons x xs)
  define n where "n = unat x"
  have x: "x = of_nat n" and n: "n \<le> 15" using Cons.prems by (simp_all add: n_def)
  define key1 where "key1 = (if x \<noteq> 0 then addBits key (of_nat p) x else key)"
  have step: "old_key_step x (key, of_nat p) = (key1, of_nat (p + (n + 1)))"
    by (simp add: key1_def old_key_step_def n_def)
  have len1: "length key1 = 10" using Cons.prems by (simp add: key1_def)
  have bit1: "keybit key1 m \<longleftrightarrow> keybit key m \<or> (p \<le> m \<and> m < p + n)" if "m < 80" for m
  proof (cases "x = 0")
    case True
    then show ?thesis by (auto simp: key1_def n_def)
  next
    case False
    with keybit_addBits [OF Cons.prems(1) _ n that, of p] Cons.prems(3)
    show ?thesis by (simp add: key1_def n_def)
  qed
  obtain key' where fin: "fold old_key_step xs (key1, of_nat (p + (n + 1)))
      = (key', of_nat (p + (n + 1) + length (enc_bits xs)))" "length key' = 10"
    and bits: "\<forall>m<80. keybit key' m \<longleftrightarrow> keybit key1 m \<or> (p + (n + 1) \<le> m
        \<and> m < p + (n + 1) + length (enc_bits xs) \<and> enc_bits xs ! (m - (p + (n + 1))))"
    using Cons.IH [OF len1, of "p + (n + 1)"] Cons.prems by (auto simp: n_def)
  have "keybit key' m \<longleftrightarrow> keybit key m \<or> (p \<le> m \<and> m < p + length (enc_bits (x # xs))
      \<and> enc_bits (x # xs) ! (m - p))" if "m < 80" for m
  proof -
    have "p \<le> m \<Longrightarrow> m - p - n - 1 = m - (p + (n + 1))" by simp
    with bits that bit1 [OF that] show ?thesis
      by (auto simp: nth_point_bits simp flip: n_def)
  qed
  moreover have "fold old_key_step (x # xs) (key, of_nat p)
      = (key', of_nat (p + length (enc_bits (x # xs))))"
    using fin step by (simp add: n_def add_ac)
  ultimately show ?case using fin(2) by blast
qed

lemma keybit_zero: "m < 80 \<Longrightarrow> \<not> keybit (replicate 10 0) m"
  by (simp add: keybit_def)

lemma byte_bits_eq: "byte_bits k cur = map (bit cur) [0..<k]"
proof (induction k arbitrary: cur)
  case 0
  then show ?case by simp
next
  case (Suc k)
  have "(cur AND 1 \<noteq> 0) = bit cur 0"
    by (simp add: bit_0 and_one_eq odd_iff_mod_2_eq_one)
  moreover have "map (bit cur) [0..<Suc k] = bit cur 0 # map (bit (drop_bit 1 cur)) [0..<k]"
    by (simp add: upt_conv_Cons map_Suc_upt [symmetric] bit_drop_bit_eq del: upt_Suc)
  ultimately show ?case using Suc by simp
qed

lemma key_bits: "concat (map (byte_bits 8) key) = map (keybit key) [0..<8 * length key]"
proof (induction key rule: rev_induct)
  case Nil
  then show ?case by simp
next
  case (snoc c cs)
  have "map (keybit (cs @ [c])) [0..<8 * length cs] = map (keybit cs) [0..<8 * length cs]"
    by (auto simp: keybit_def nth_append)
  moreover have "map (keybit (cs @ [c])) [8 * length cs..<8 * length cs + 8] = map (bit c) [0..<8]"
    by (intro nth_equalityI) (auto simp: keybit_def nth_append)
  moreover have "[0..<8 * length (cs @ [c])] = [0..<8 * length cs] @ [8 * length cs..<8 * length cs + 8]"
    by (metis add.commute le_add1 length_append_singleton mult_Suc_right upt_add_eq_append zero_le)
  ultimately show ?case using snoc by (simp add: byte_bits_eq)
qed

text \<open>What \<open>oldPositionKey\<close> writes: the points' runs, then zeros.\<close>

lemma oldPositionKey_bits:
  assumes "wf_board b" "chequers (fst b) \<le> 15" "chequers (snd b) \<le> 15"
  shows "length (oldPositionKey b) = 10 \<and> (\<exists>n. concat (map (byte_bits 8) (oldPositionKey b))
    = enc_bits (fst b) @ enc_bits (snd b) @ replicate n False)"
proof -
  let ?xs = "fst b @ snd b" and ?e = "enc_bits (fst b @ snd b)"
  have small: "\<forall>x\<in>set ?xs. unat x \<le> 15"
    using assms chequers_ge [of _ "fst b"] chequers_ge [of _ "snd b"]
    by (force simp: in_set_conv_nth)
  have len: "length ?e \<le> 80"
    using assms by (simp add: length_enc_bits wf_board_def)
  obtain key' where key: "oldPositionKey b = key'" "length key' = 10"
    and bits: "\<And>m. m < 80 \<Longrightarrow> keybit key' m \<longleftrightarrow> m < length ?e \<and> ?e ! m"
    using keybit_old_key_fold [of "replicate 10 0" ?xs 0] small len
    by (auto simp: oldPositionKey_def keybit_zero)
  have "map (keybit key') [0..<80] = ?e @ replicate (80 - length ?e) False"
    using len bits by (intro nth_equalityI) (auto simp: nth_append)
  then show ?thesis using key by (auto simp: key_bits)
qed

section \<open>Reading the key back\<close>

definition set_side :: "TanBoard \<Rightarrow> nat \<Rightarrow> side \<Rightarrow> TanBoard" where
  "set_side b i s = (if i = 0 then (s, snd b) else (fst b, s))"

lemma add_chequer_eq: "i < 2 \<Longrightarrow> add_chequer b i j = set_side b i ((anSide b i)[j := anSide b i ! j + 1])"
  by (simp add: add_chequer_def set_side_def anSide_def)

lemma set_side_simps [simp]:
  "set_side (set_side b i s) i t = set_side b i t" "anSide (set_side b i s) i = s"
  "set_side b i (anSide b i) = b"
  by (simp_all add: set_side_def anSide_def)

lemma read_bits_ones:
  assumes "i < 2" "j < 25" "length (anSide b i) = 25"
  shows "read_bits (replicate n True @ rest) i j b
    = read_bits rest i j (set_side b i ((anSide b i)[j := anSide b i ! j + of_nat n]))"
  using assms
proof (induction n arbitrary: b)
  case 0
  then show ?case by simp
next
  case (Suc n)
  then show ?case by (simp add: add_chequer_eq add_ac)
qed

lemma read_bits_point:
  assumes "i < 2" "j < 25" "length (anSide b i) = 25"
  shows "read_bits (point_bits x @ rest) i j b
    = (let b' = set_side b i ((anSide b i)[j := anSide b i ! j + x])
       in if j + 1 = 25 then read_bits rest (i + 1) 0 b' else read_bits rest i (j + 1) b')"
  using read_bits_ones [OF assms, of "unat x"] by (simp add: point_bits_def Let_def)

lemma read_bits_side:
  assumes "i < 2" "j + length xs = 25" "xs \<noteq> []" "length (anSide b i) = 25"
  shows "read_bits (enc_bits xs @ rest) i j b
    = read_bits rest (i + 1) 0
        (set_side b i (take j (anSide b i) @ map2 (+) (drop j (anSide b i)) xs))"
  using assms
proof (induction xs arbitrary: j b)
  case Nil
  then show ?case by simp
next
  case (Cons x xs)
  let ?s = "anSide b i"
  let ?s' = "?s[j := ?s ! j + x]"
  have j: "j < 25" using Cons.prems by simp
  have drop: "drop j ?s = ?s ! j # drop (Suc j) ?s"
    using j Cons.prems(4) by (simp add: Cons_nth_drop_Suc)
  have upd: "?s' = take j ?s @ (?s ! j + x) # drop (Suc j) ?s"
    using j Cons.prems(4) by (simp add: upd_conv_take_nth_drop)
  show ?case
  proof (cases "xs = []")
    case True
    with Cons.prems have "j = 24" by simp
    with True Cons.prems drop upd show ?thesis
      by (simp add: read_bits_point Let_def)
  next
    case False
    with Cons.prems have "j + 1 \<noteq> 25" by auto
    then have "read_bits (enc_bits (x # xs) @ rest) i j b
        = read_bits (enc_bits xs @ rest) i (j + 1) (set_side b i ?s')"
      using Cons.prems j by (simp add: read_bits_point Let_def)
    also have "\<dots> = read_bits rest (i + 1) 0
        (set_side b i (take (j + 1) ?s' @ map2 (+) (drop (j + 1) ?s') xs))"
      using Cons.IH [of "j + 1" "set_side b i ?s'"] Cons.prems False by simp
    also have "take (j + 1) ?s' @ map2 (+) (drop (j + 1) ?s') xs
        = take j ?s @ map2 (+) (drop j ?s) (x # xs)"
      using j Cons.prems(4) unfolding drop upd by (simp add: min_def)
    finally show ?thesis .
  qed
qed

lemma map2_plus_zeros: "map2 (+) (replicate (length xs) 0) xs = (xs :: u32 list)"
  by (induction xs) auto

lemma read_bits_zeros: "read_bits (replicate n False) i j b = b"
  by (induction n arbitrary: i j) auto

lemma oldPositionFromKey_oldPositionKey:
  assumes "wf_board b" "chequers (fst b) \<le> 15" "chequers (snd b) \<le> 15"
  shows "oldPositionFromKey (oldPositionKey b) = b"
proof -
  have len: "length (fst b) = 25" "length (snd b) = 25" using assms(1) by (simp_all add: wf_board_def)
  obtain n where bits: "concat (map (byte_bits 8) (oldPositionKey b))
      = enc_bits (fst b) @ enc_bits (snd b) @ replicate n False"
    using oldPositionKey_bits [OF assms] by blast
  let ?z = "replicate 25 0 :: u32 list"
  have z: "map2 (+) ?z xs = xs" if "length xs = 25" for xs :: side
    using map2_plus_zeros [of xs] that by simp
  have "read_bits (enc_bits (fst b) @ enc_bits (snd b) @ replicate n False) 0 0 (?z, ?z)
      = read_bits (enc_bits (snd b) @ replicate n False) 1 0 (fst b, ?z)"
    using len z read_bits_side [of 0 0 "fst b" "(?z, ?z)"]
    by (fastforce simp: anSide_def set_side_def)
  also have "\<dots> = b"
    using len z read_bits_side [of 1 0 "snd b" "(fst b, ?z)" "replicate n False"]
    by (fastforce simp: anSide_def set_side_def read_bits_zeros)
  finally show ?thesis by (simp add: oldPositionFromKey_def bits)
qed

section \<open>The identifier\<close>

lemma id_chars: "set (oldPositionIDFromKey k) \<subseteq> - {CHR 0x00}"
  unfolding oldPositionIDFromKey_def set_append list.set Un_subset_iff insert_subset
  using b64_group_not_NUL b64_char_not_NUL [OF sextets(1)] b64_char_not_NUL [OF sextets(5)]
  by fastforce

lemma length_id [simp]: "length (oldPositionIDFromKey k) = 14"
  by (simp add: oldPositionIDFromKey_def)

lemma id_last:
  "Base64 (b64_char (drop_bit 2 p)) = drop_bit 2 p"
  "Base64 (b64_char (push_bit 4 (p AND 0x03))) = push_bit 4 (p AND 0x03)"
  by (simp_all only: Base64_b64_char sextets)

lemma id_bytes_list:
  "id_bytes [c0, c1, c2, c3, c4, c5, c6, c7, c8, c9, c10, c11, c12, c13, z] =
    b64_ungroup c0 c1 c2 c3 @ b64_ungroup c4 c5 c6 c7 @ b64_ungroup c8 c9 c10 c11
    @ [push_bit 2 c12 OR drop_bit 4 c13]"
  by (simp add: id_bytes_def)

lemma key_of_id_oldPositionIDFromKey:
  assumes "length k = 10"
  shows "key_of_id (oldPositionIDFromKey k) = k"
proof -
  have c: "read_id 14 (oldPositionIDFromKey k) = map Base64 (oldPositionIDFromKey k) @ [0]"
    by (rule read_id_whole) (simp_all only: length_id id_chars)
  have "[0..<10] = [0, 1, 2, 3, 4, 5, 6, 7, 8, 9]" by (simp add: upt_conv_Cons eval_nat_numeral)
  then have k: "k = [k ! 0, k ! 1, k ! 2, k ! 3, k ! 4, k ! 5, k ! 6, k ! 7, k ! 8, k ! 9]"
    using assms map_nth [of k] by simp
  have "key_of_id (oldPositionIDFromKey k)
      = [k ! 0, k ! 1, k ! 2, k ! 3, k ! 4, k ! 5, k ! 6, k ! 7, k ! 8, k ! 9]"
    unfolding key_of_id_def L_POSITIONID_def c
    unfolding oldPositionIDFromKey_def map_append b64_read list.map id_last
    by (simp only: append_Cons append_Nil id_bytes_list b64_ungroup_sextets b64_last_byte)
  with k show ?thesis by simp
qed

lemma read_bits_bound:
  assumes "wf_board b" "\<forall>x\<in>set (fst b) \<union> set (snd b). unat x \<le> c" "c + length bs < 2 ^ 32"
  shows "wf_board (read_bits bs i j b)
    \<and> (\<forall>x\<in>set (fst (read_bits bs i j b)) \<union> set (snd (read_bits bs i j b)). unat x \<le> c + length bs)"
  using assms
proof (induction bs i j b arbitrary: c rule: read_bits.induct)
  case (1 i j b)
  then show ?case by simp
next
  case (2 bs i j b)
  show ?case
  proof (cases "2 \<le> i \<or> 25 \<le> j")
    case True
    with 2 show ?thesis by (fastforce intro: trans_le_add1)
  next
    case False
    have bound: "\<forall>x\<in>set (s[j := s ! j + 1]). unat x \<le> c + 1" if "length s = 25" "\<forall>x\<in>set s. unat x \<le> c" for s :: side
    proof
      fix x assume "x \<in> set (s[j := s ! j + 1])"
      moreover have "s ! j \<in> set s" using False that by simp
      moreover have "unat (s ! j + 1) \<le> unat (s ! j) + 1" by (simp add: unat_word_ariths)
      ultimately show "unat x \<le> c + 1"
        using that set_update_subset_insert [of s j "s ! j + 1"] by fastforce
    qed
    have "\<forall>x\<in>set (fst (add_chequer b i j)) \<union> set (snd (add_chequer b i j)). unat x \<le> c + 1"
      using bound [of "fst b"] bound [of "snd b"] 2 by (auto simp: add_chequer_def wf_board_def le_SucI)
    moreover have "wf_board (add_chequer b i j)" using 2 by (simp add: add_chequer_def wf_board_def)
    ultimately show ?thesis using "2.IH" [of "c + 1"] "2.prems" False by (simp add: add_ac)
  qed
next
  case (3 bs i j b)
  then show ?case by (auto intro: le_SucI)
qed

lemma oldPositionFromKey_bound:
  assumes "length key = 10"
  shows "wf_board (oldPositionFromKey key) \<and> no_wrap (fst (oldPositionFromKey key))
    \<and> no_wrap (snd (oldPositionFromKey key))"
proof -
  have "length (concat (map (byte_bits 8) key)) = 80" using assms by (simp add: key_bits)
  then have "wf_board (oldPositionFromKey key) \<and>
    (\<forall>x\<in>set (fst (oldPositionFromKey key)) \<union> set (snd (oldPositionFromKey key)). unat x \<le> 80)"
    using read_bits_bound [of "(replicate 25 0, replicate 25 0)" 0 "concat (map (byte_bits 8) key)" 0 0]
    unfolding oldPositionFromKey_def by (simp add: wf_board_def)
  moreover have "n \<le> 80 \<Longrightarrow> n + 15 < 2 ^ 32" for n :: nat by simp
  ultimately show ?thesis unfolding no_wrap_def by blast
qed

lemma length_key_of_id [simp]: "length (key_of_id s) = 10"
  by (simp add: key_of_id_def id_bytes_def b64_ungroup_def)

text \<open>
  Any string at all is read as some board, and \<open>PositionFromID\<close> reports success exactly when
  that board is a legal position: the wrap-around of \<open>CheckPosition\<close> is out of reach here.
\<close>

text \<open>Any string decodes to a board of the right shape, and is accepted exactly when the board is a
  legal position.\<close>

lemma PositionFromID_sound:
  "wf_board (fst (PositionFromID s)) \<and> (snd (PositionFromID s) \<longleftrightarrow> legal_position (fst (PositionFromID s)))"
  using oldPositionFromKey_bound [of "key_of_id s"]
  by (simp add: PositionFromID_def Let_def CheckPosition_legal)

lemma oldkey_id_inverse:
  assumes "wf_board b" "chequers (fst b) \<le> 15" "chequers (snd b) \<le> 15"
  shows "oldPositionFromKey (key_of_id (PositionID b)) = b"
  using assms oldPositionKey_bits [OF assms]
  by (simp add: PositionID_def key_of_id_oldPositionIDFromKey oldPositionFromKey_oldPositionKey)

text \<open>Writing a legal position and reading it back succeeds and gives the position.\<close>

text \<open>C22: The identifier of a legal position decodes to that position and is accepted.\<close>

theorem PositionFromID_PositionID:
  assumes "wf_board b" "legal_position b"
  shows "PositionFromID (PositionID b) = (b, True)"
proof -
  have few: "chequers (fst b) \<le> 15" "chequers (snd b) \<le> 15"
    using assms(2) by (simp_all add: legal_position_def)
  have "no_wrap (fst b) \<and> no_wrap (snd b)"
    using oldPositionFromKey_bound [of "key_of_id (PositionID b)"]
    by (simp add: oldkey_id_inverse [OF assms(1) few])
  with assms show ?thesis
    by (simp add: PositionFromID_def Let_def oldkey_id_inverse [OF assms(1) few] CheckPosition_legal)
qed

theorem PositionFromID_PositionID_witness:
  "PositionFromID (PositionID (InitBoard VARIATION_STANDARD)) = (InitBoard VARIATION_STANDARD, True)"
  by (rule PositionFromID_PositionID) (code_simp+)

interpretation oldkey: codec oldPositionKey oldPositionFromKey
  "\<lambda>b. wf_board b \<and> chequers (fst b) \<le> 15 \<and> chequers (snd b) \<le> 15"
  by unfold_locales (simp add: oldPositionFromKey_oldPositionKey)

interpretation posid: codec PositionID "\<lambda>s. oldPositionFromKey (key_of_id s)"
  "\<lambda>b. wf_board b \<and> chequers (fst b) \<le> 15 \<and> chequers (snd b) \<le> 15"
  by unfold_locales (simp add: oldkey_id_inverse)

text \<open>Two positions with at most 15 chequers a side have the same identifier only if equal.\<close>

lemmas PositionID_inj = posid.enc_eq_iff

lemma PositionIDFromKey_PositionKey: "nibble_board b \<Longrightarrow> PositionIDFromKey (PositionKey b) = PositionID b"
  by (simp add: PositionIDFromKey_def PositionID_def PositionFromKey_PositionKey)

section \<open>PositionFromXG\<close>

text \<open>
  The XG reader fills the caller's board from 26 characters: upper case for the player's
  chequers, lower case for the opponent's.  Index 0 is the opponent's bar and index 25 the
  player's, where the other side has no point: there the code holds an index of \<open>-1\<close>, which
  only two of the four assignments check.  A write to index \<open>-1\<close> is \<open>None\<close>.
\<close>

definition xg_points :: "nat \<Rightarrow> int \<times> int" where
  "xg_points i = (if i = 0 then (24, -1) else if i = 25 then (-1, 24)
                  else (24 - int i, int i - 1))"

definition put0 :: "int \<Rightarrow> u32 \<Rightarrow> TanBoard \<Rightarrow> TanBoard option" where
  "put0 p v b = (if p < 0 then None else Some ((fst b)[nat p := v], snd b))"

definition put1 :: "int \<Rightarrow> u32 \<Rightarrow> TanBoard \<Rightarrow> TanBoard option" where
  "put1 p v b = (if p < 0 then None else Some (fst b, (snd b)[nat p := v]))"

definition xg_char :: "nat \<Rightarrow> char \<Rightarrow> TanBoard \<Rightarrow> (TanBoard \<times> bool) option" where
  "xg_char i ch b =
     (let (p0, p1) = xg_points i; c = of_char ch :: nat
      in if of_char (CHR ''A'') \<le> c \<and> c \<le> of_char (CHR ''P'') then
           Option.bind (if p0 > -1 then put0 p0 0 b else Some b) (\<lambda>b.
           map_option (\<lambda>b. (b, True)) (put1 p1 (of_nat (c - of_char (CHR ''A'')) + 1) b))
         else if of_char (CHR ''a'') \<le> c \<and> c \<le> of_char (CHR ''p'') then
           Option.bind (put0 p0 (of_nat (c - of_char (CHR ''a'')) + 1) b) (\<lambda>b.
           map_option (\<lambda>b. (b, True)) (if p1 > -1 then put1 p1 0 b else Some b))
         else if ch = CHR ''-'' then
           Option.bind (if p0 > -1 then put0 p0 0 b else Some b) (\<lambda>b.
           map_option (\<lambda>b. (b, True)) (if p1 > -1 then put1 p1 0 b else Some b))
         else Some (b, False))"

fun xg_loop :: "nat list \<Rightarrow> string \<Rightarrow> TanBoard \<Rightarrow> (TanBoard \<times> int) option" where
  "xg_loop [] pos b = Some (b, 0)"
| "xg_loop (i # is) pos b =
     (case xg_char i (if i < length pos then pos ! i else CHR 0x00) b of
        None \<Rightarrow> None
      | Some (b', ok) \<Rightarrow> if ok then xg_loop is pos b' else Some (b', 1))"

definition PositionFromXG :: "TanBoard \<Rightarrow> string \<Rightarrow> (TanBoard \<times> int) option" where
  "PositionFromXG b pos = xg_loop [0..<26] pos b"

text \<open>The two bar characters whose case the code does not check.\<close>

definition xg_bars_ok :: "string \<Rightarrow> bool" where
  "xg_bars_ok pos \<longleftrightarrow>
     \<not> (pos \<noteq> [] \<and> (of_char (pos ! 0) :: nat) \<in> {65..80}) \<and>
     \<not> (25 < length pos \<and> (of_char (pos ! 25) :: nat) \<in> {97..112})"

lemma xg_char_total:
  assumes "i < 26" "i = 0 \<longrightarrow> (of_char ch :: nat) \<notin> {65..80}" "i = 25 \<longrightarrow> (of_char ch :: nat) \<notin> {97..112}"
  shows "\<exists>b' ok. xg_char i ch b = Some (b', ok) \<and> (wf_board b \<longrightarrow> wf_board b')"
proof -
  consider "i = 0" | "i = 25" | "0 < i" "i < 25" using assms(1) by linarith
  then show ?thesis
  proof cases
    case 1
    with assms(2) show ?thesis
      by (cases b) (auto simp: xg_char_def xg_points_def Let_def put0_def put1_def wf_board_def)
  next
    case 2
    with assms(3) show ?thesis
      by (cases b) (auto simp: xg_char_def xg_points_def Let_def put0_def put1_def wf_board_def)
  next
    case 3
    then show ?thesis
      by (cases b) (auto simp: xg_char_def xg_points_def Let_def put0_def put1_def wf_board_def)
  qed
qed

lemma xg_loop_total:
  assumes "\<forall>i\<in>set is. i < 26" "xg_bars_ok pos"
  shows "\<exists>b' r. xg_loop is pos b = Some (b', r) \<and> (wf_board b \<longrightarrow> wf_board b')"
  using assms(1)
proof (induction "is" arbitrary: b)
  case Nil
  then show ?case by simp
next
  case (Cons i "is")
  have "\<exists>b' ok. xg_char i (if i < length pos then pos ! i else CHR 0x00) b = Some (b', ok)
      \<and> (wf_board b \<longrightarrow> wf_board b')"
    using Cons.prems assms(2) by (intro xg_char_total) (auto simp: xg_bars_ok_def)
  with Cons show ?case by fastforce
qed

text \<open>
  The reader stays inside the arrays when the bar characters have the case of their side; with
  an upper-case first character it writes \<open>anBoard[1][-1]\<close>.
\<close>

text \<open>An XG position string whose bar characters name the right player is read without a write outside
  the board.\<close>

lemma PositionFromXG_in_bounds:
  assumes "xg_bars_ok pos"
  shows "PositionFromXG b pos \<noteq> None"
  using xg_loop_total [of "[0..<26]" pos b] assms by (auto simp: PositionFromXG_def)

lemma PositionFromXG_writes_out_of_bounds: "PositionFromXG b (CHR ''A'' # pos) = None"
proof -
  have upt: "[0..<26] = 0 # [1..<26]" using upt_conv_Cons [of 0 26] by simp
  have "xg_char 0 (CHR ''A'') b = None"
    by (simp add: xg_char_def xg_points_def put0_def put1_def)
  then show ?thesis unfolding PositionFromXG_def upt xg_loop.simps by simp
qed

end
