(* ===== verification/Race_Backgammons.thy ===== *)
theory Race_Backgammons
  imports Bearoff_Db
begin

text \<open>
  The table of the rolls that a side with few chequers left in the opponent's home needs to leave it
  (bearoffgammon.c, \<open>getRaceBGprobs\<close>): its rows are indexed by the occupied points and the numbering of
  \<open>PositionIndex\<close>, and are proved to be exact probability distributions.
\<close>

definition RBG_NPROBS :: nat where "RBG_NPROBS = 5"

text \<open>The tables \<open>ya1\<close> to \<open>ya31\<close>.\<close>

definition race_table :: "int list list list" where
  "race_table =
    [[[36, 0, 0, 0, 0], [36, 0, 0, 0, 0], [6, 1080, 0, 0, 0], [6, 1080, 0, 0, 0], [0, 396, 32400, 0, 0],
      [0, 396, 32400, 0, 0]],
     [[36, 0, 0, 0, 0], [26, 360, 0, 0, 0], [5, 1116, 0, 0, 0], [5, 596, 18720, 0, 0],
      [0, 335, 33596, 36000, 0], [0, 235, 17666, 739080, 0]],
     [[36, 0, 0, 0, 0], [6, 1080, 0, 0, 0], [5, 1116, 0, 0, 0], [5, 1116, 0, 0, 0], [5, 1116, 0, 0, 0],
      [5, 1016, 3600, 0, 0], [0, 396, 32400, 0, 0], [0, 396, 32400, 0, 0], [0, 376, 33120, 0, 0],
      [0, 335, 34596, 0, 0], [0, 396, 32400, 0, 0], [0, 376, 33120, 0, 0], [0, 335, 34596, 0, 0],
      [0, 335, 33596, 36000, 0], [0, 335, 27296, 262800, 0]],
     [[36, 0, 0, 0, 0], [17, 684, 0, 0, 0], [4, 999, 5508, 0, 0], [4, 297, 30082, 25128, 0],
      [0, 272, 24281, 450484, 90144], [0, 120, 11765, 983521, 4213260]],
     [[34, 72, 0, 0, 0], [5, 1116, 0, 0, 0], [4, 1148, 144, 0, 0], [4, 1148, 144, 0, 0], [4, 1080, 2592, 0, 0],
      [4, 739, 14860, 288, 0], [0, 396, 32400, 0, 0], [0, 371, 33292, 288, 0], [0, 298, 35716, 7632, 0],
      [0, 272, 34033, 101900, 576], [0, 388, 32680, 288, 0], [0, 322, 34856, 7488, 0],
      [0, 272, 34794, 74504, 576], [0, 272, 27197, 346480, 55152], [0, 256, 15488, 772640, 634752]],
     [[25, 396, 0, 0, 0], [5, 1112, 144, 0, 0], [4, 1112, 1440, 0, 0], [4, 631, 18756, 0, 0],
      [4, 615, 19324, 288, 0], [4, 523, 22528, 4176, 0], [0, 333, 33656, 36432, 0], [0, 322, 33854, 43560, 0],
      [0, 297, 33393, 92540, 576], [0, 272, 30181, 240284, 10944], [0, 233, 17737, 739100, 576],
      [0, 217, 18281, 739964, 10944], [0, 192, 18895, 747036, 127008], [0, 192, 17551, 782404, 595584],
      [0, 184, 14192, 886751, 1565604]],
     [[5, 1116, 0, 0, 0], [4, 1148, 144, 0, 0], [4, 1048, 3744, 0, 0], [4, 999, 5508, 0, 0],
      [0, 392, 32544, 0, 0], [0, 375, 33156, 0, 0], [0, 355, 33868, 288, 0], [0, 335, 34588, 288, 0],
      [0, 331, 34624, 4176, 0], [0, 297, 35266, 25128, 0], [0, 371, 33292, 288, 0], [0, 331, 34732, 288, 0],
      [0, 298, 35716, 7632, 0], [0, 331, 33728, 36432, 0], [0, 297, 34754, 43560, 0],
      [0, 272, 34033, 101900, 576], [0, 330, 27470, 263016, 0], [0, 297, 28537, 267356, 576],
      [0, 272, 28421, 303644, 10944], [0, 272, 24281, 450484, 90144]],
     [[34, 72, 0, 0, 0], [11, 880, 720, 0, 0], [3, 751, 15482, 9000, 0], [3, 163, 30547, 225808, 104400],
      [0, 195, 14249, 822591, 3288276], [0, 57, 8951, 767859, 18563364]],
     [[29, 252, 0, 0, 0], [5, 1116, 0, 0, 0], [3, 1115, 2628, 0, 0], [3, 1146, 1512, 0, 0],
      [3, 899, 10284, 4320, 0], [3, 452, 25549, 34076, 576], [0, 392, 32544, 0, 0], [0, 333, 34408, 9360, 0],
      [0, 236, 35179, 106580, 26496], [0, 207, 27064, 426011, 397044], [0, 357, 33552, 9072, 0],
      [0, 249, 35142, 91080, 25920], [0, 207, 28985, 359990, 284184], [0, 207, 16674, 753203, 2083572],
      [0, 165, 8770, 941530, 7506936]],
     [[23, 468, 0, 0, 0], [5, 1086, 1080, 0, 0], [3, 1043, 5212, 288, 0], [3, 659, 19036, 288, 0],
      [3, 583, 21510, 9720, 0], [3, 368, 27767, 62980, 4608], [0, 325, 33734, 43992, 0],
      [0, 289, 33359, 103644, 18144], [0, 235, 30691, 266808, 121392], [0, 207, 23831, 532351, 758772],
      [0, 223, 18071, 739532, 18720], [0, 175, 19349, 750336, 212976], [0, 147, 18301, 802935, 983988],
      [0, 147, 13709, 895395, 3606660], [0, 129, 9184, 920983, 9389700]],
     [[5, 1112, 144, 0, 0], [3, 1144, 1584, 0, 0], [3, 1055, 4788, 0, 0], [3, 857, 11792, 4464, 0],
      [0, 385, 32796, 0, 0], [0, 371, 33292, 288, 0], [0, 321, 34738, 13032, 0], [0, 335, 34472, 4464, 0],
      [0, 308, 34657, 32780, 576], [0, 235, 34181, 143452, 39168], [0, 345, 33984, 9072, 0],
      [0, 309, 35268, 9504, 0], [0, 236, 35555, 93060, 25920], [0, 309, 34282, 45000, 0],
      [0, 235, 34783, 122124, 26784], [0, 207, 28547, 375536, 292176], [0, 307, 28169, 267628, 1152],
      [0, 235, 29373, 316128, 54000], [0, 207, 25276, 488623, 460260], [0, 207, 15791, 778381, 2321532]],
     [[17, 680, 144, 0, 0], [4, 983, 6076, 288, 0], [3, 923, 9488, 1872, 0], [3, 333, 29949, 29900, 576],
      [3, 331, 29167, 60532, 4608], [3, 283, 29081, 125244, 25920], [0, 263, 24605, 449718, 117720],
      [0, 245, 24912, 457129, 292860], [0, 222, 23475, 526367, 735732], [0, 207, 19394, 669443, 1573812],
      [0, 120, 11720, 984849, 4223772], [0, 108, 11969, 985331, 4443588], [0, 93, 12122, 963477, 5731884],
      [0, 93, 11334, 906514, 8803800], [0, 93, 9540, 858470, 12858408]],
     [[4, 1132, 720, 0, 0], [3, 1091, 3484, 288, 0], [3, 775, 14808, 2160, 0], [3, 715, 16754, 9864, 0],
      [0, 367, 33436, 288, 0], [0, 296, 35680, 11504, 576], [0, 284, 35649, 28172, 576],
      [0, 268, 34079, 105284, 5760], [0, 252, 33761, 136812, 29376], [0, 222, 32167, 230992, 104400],
      [0, 309, 35114, 15032, 576], [0, 259, 35139, 78796, 5472], [0, 223, 34893, 133328, 40752],
      [0, 258, 27701, 345954, 74088], [0, 222, 28523, 359568, 198288], [0, 207, 25658, 472035, 562356],
      [0, 246, 15840, 772067, 665748], [0, 210, 17074, 766333, 952524], [0, 195, 16968, 761467, 1964916],
      [0, 195, 13487, 839379, 3671460]],
     [[4, 1089, 2268, 0, 0], [3, 647, 19404, 2592, 0], [3, 559, 22396, 8928, 0], [3, 527, 23025, 27740, 576],
      [0, 313, 34013, 49484, 576], [0, 293, 33443, 95796, 5184], [0, 277, 32921, 134556, 32832],
      [0, 267, 30329, 241000, 26640], [0, 252, 30183, 263560, 103536], [0, 222, 28408, 360893, 299628],
      [0, 211, 18473, 740252, 31680], [0, 186, 19069, 747694, 157752], [0, 162, 19534, 758017, 303228],
      [0, 185, 17752, 783317, 628812], [0, 162, 18254, 788219, 874836], [0, 147, 17470, 814155, 1657044],
      [0, 180, 14314, 886931, 1587636], [0, 155, 15088, 882887, 1896516], [0, 141, 14977, 868919, 3196404],
      [0, 141, 12630, 886913, 5590332]],
     [[3, 1019, 6076, 288, 0], [0, 355, 33824, 1872, 0], [0, 331, 34492, 8928, 0], [0, 297, 35133, 29900, 576],
      [0, 284, 34771, 59668, 4608], [0, 285, 35948, 16112, 576], [0, 284, 35025, 50636, 576],
      [0, 259, 34403, 105284, 5760], [0, 222, 34305, 155740, 42624], [0, 283, 28939, 270876, 6048],
      [0, 258, 28885, 304624, 27504], [0, 222, 29275, 334920, 111024], [0, 258, 24785, 449718, 117720],
      [0, 221, 25756, 457849, 292860], [0, 207, 23447, 546031, 763956]],
     [[31, 180, 0, 0, 0], [6, 975, 3772, 288, 0], [2, 466, 25089, 78660, 18144],
      [2, 84, 23554, 584297, 1627164], [0, 116, 6951, 880249, 14356620], [0, 18, 6042, 425561, 36475740]],
     [[23, 468, 0, 0, 0], [4, 1148, 144, 0, 0], [2, 995, 8200, 1584, 0], [2, 1066, 5688, 0, 0],
      [2, 603, 22062, 10568, 576], [2, 205, 32081, 163840, 67248], [0, 383, 32860, 288, 0],
      [0, 254, 35419, 75284, 2304], [0, 154, 29734, 402111, 269892], [0, 140, 15913, 828583, 3482100],
      [0, 296, 34104, 68256, 0], [0, 164, 30562, 363296, 127584], [0, 136, 17946, 801264, 2017440],
      [0, 120, 7889, 1002899, 8538948], [0, 70, 5652, 775017, 21974652]],
     [[19, 608, 144, 0, 0], [4, 1065, 3132, 0, 0], [2, 884, 12012, 8208, 0], [2, 655, 20336, 5328, 0],
      [2, 444, 26523, 55852, 7200], [2, 189, 30326, 243663, 214596], [0, 304, 33253, 88380, 5184],
      [0, 224, 30938, 271784, 135360], [0, 153, 24544, 564925, 1181484], [0, 140, 14007, 849405, 5202684],
      [0, 193, 18775, 748820, 171648], [0, 117, 18938, 811339, 1255572], [0, 100, 13699, 913601, 5157036],
      [0, 92, 7775, 917424, 13070160], [0, 62, 5739, 706619, 24697476]],
     [[4, 1130, 792, 0, 0], [2, 1063, 5796, 0, 0], [2, 991, 8364, 864, 0], [2, 587, 22351, 20884, 1152],
      [0, 371, 33292, 288, 0], [0, 357, 33712, 3312, 0], [0, 246, 35383, 86828, 6624],
      [0, 327, 34262, 22392, 0], [0, 237, 34453, 131064, 39312], [0, 152, 28396, 445719, 527364],
      [0, 288, 34388, 68400, 0], [0, 260, 35352, 69984, 0], [0, 158, 30668, 367220, 128880],
      [0, 259, 34481, 102492, 5184], [0, 157, 30147, 385270, 200952], [0, 140, 17532, 803268, 2295216],
      [0, 257, 28879, 305844, 38016], [0, 155, 26546, 508717, 517068], [0, 140, 16334, 823115, 3133332],
      [0, 124, 7589, 978016, 9636912]],
     [[14, 776, 576, 0, 0], [4, 913, 8552, 1872, 0], [2, 767, 15983, 16868, 576], [2, 360, 29605, 53820, 5184],
      [2, 300, 28857, 156860, 64512], [2, 176, 27944, 340841, 409788], [0, 243, 24528, 474225, 268380],
      [0, 198, 22633, 576764, 1132416], [0, 150, 18321, 737255, 3182580], [0, 140, 12063, 859951, 7342452],
      [0, 108, 11969, 977637, 4720572], [0, 76, 12092, 946693, 7168140], [0, 64, 10674, 863340, 12566448],
      [0, 64, 7844, 761133, 19913580], [0, 52, 6032, 616407, 28031940]],
     [[4, 1099, 1908, 0, 0], [2, 1019, 7348, 1152, 0], [2, 751, 16778, 9000, 0], [2, 520, 23769, 56524, 6336],
      [0, 342, 34202, 5112, 0], [0, 292, 35133, 36292, 3744], [0, 225, 34874, 131282, 45720],
      [0, 268, 32812, 150088, 34848], [0, 220, 30222, 298601, 284508], [0, 150, 25691, 530366, 1079064],
      [0, 262, 35170, 73880, 2304], [0, 222, 34976, 132004, 27504], [0, 154, 30031, 392356, 236160],
      [0, 220, 28078, 378260, 195408], [0, 151, 25786, 529760, 931104], [0, 140, 16413, 821065, 3104748],
      [0, 210, 16875, 771659, 1018692], [0, 140, 17488, 793184, 2715264], [0, 132, 12957, 858233, 6618924],
      [0, 128, 6962, 908191, 12776580]],
     [[4, 1035, 4204, 288, 0], [2, 642, 20738, 7704, 0], [2, 555, 23523, 20180, 576],
      [2, 410, 27049, 80676, 18144], [0, 290, 33665, 91628, 7488], [0, 275, 33057, 132372, 28512],
      [0, 212, 30778, 291535, 191556], [0, 253, 29938, 271332, 94608], [0, 208, 27684, 401077, 444492],
      [0, 151, 23054, 608233, 1646748], [0, 184, 19038, 750756, 181008], [0, 164, 19390, 761061, 286956],
      [0, 113, 18750, 820147, 1368756], [0, 164, 17961, 797571, 824580], [0, 111, 17708, 838828, 2139984],
      [0, 100, 13209, 915715, 5715972], [0, 158, 14796, 886873, 1991484], [0, 106, 15120, 886295, 4018500],
      [0, 96, 12026, 896601, 8123868], [0, 92, 7533, 877093, 14835708]],
     [[2, 963, 9344, 1872, 0], [0, 331, 34550, 6840, 0], [0, 311, 34757, 25292, 576],
      [0, 292, 34669, 52956, 5184], [0, 225, 34049, 160400, 66672], [0, 242, 35841, 75644, 2304],
      [0, 242, 34959, 107252, 7488], [0, 222, 34300, 156216, 31968], [0, 153, 29610, 407273, 291420],
      [0, 240, 29401, 308924, 43776], [0, 220, 29234, 339556, 90576], [0, 151, 26258, 521963, 600084],
      [0, 220, 25312, 475809, 268380], [0, 149, 23843, 596484, 1140480], [0, 140, 15529, 836357, 3699900]],
     [[10, 887, 1764, 0, 0], [3, 719, 16407, 17156, 576], [2, 641, 19951, 37220, 4032],
      [2, 194, 30182, 243319, 180324], [2, 185, 28264, 318235, 388980], [2, 143, 26206, 434497, 830268],
      [0, 183, 14564, 820763, 3505716], [0, 160, 14565, 819849, 4610412], [0, 136, 13405, 831119, 6827796],
      [0, 132, 10367, 861740, 9849312], [0, 55, 8811, 772043, 18687492], [0, 47, 8633, 762062, 19650744],
      [0, 40, 8204, 717461, 22138956], [0, 40, 7232, 643295, 26068644], [0, 36, 6082, 562587, 30651156]],
     [[3, 1079, 3916, 288, 0], [2, 887, 11834, 10728, 0], [2, 476, 25507, 51044, 4032],
      [2, 402, 27073, 90180, 18144], [0, 318, 34810, 14312, 576], [0, 232, 34908, 121056, 43200],
      [0, 200, 34336, 181552, 99648], [0, 200, 26978, 434919, 514404], [0, 176, 26107, 485813, 930780],
      [0, 147, 23378, 600873, 1678428], [0, 221, 35079, 128568, 64368], [0, 182, 29423, 372592, 429264],
      [0, 148, 27194, 487861, 754668], [0, 176, 17571, 762085, 2047644], [0, 139, 17798, 786039, 2617380],
      [0, 132, 14067, 884661, 4228956], [0, 152, 9103, 939942, 7739064], [0, 113, 10135, 926300, 8712288],
      [0, 100, 9481, 906351, 10884564], [0, 100, 6941, 887101, 14869404]],
     [[3, 985, 7264, 1584, 0], [2, 595, 21997, 23276, 576], [2, 395, 27547, 82204, 17568],
      [2, 340, 27770, 144132, 65232], [0, 269, 33277, 131568, 52272], [0, 226, 30426, 285363, 216756],
      [0, 195, 28399, 389959, 524628], [0, 196, 23900, 538799, 950436], [0, 173, 22617, 594924, 1665792],
      [0, 146, 19382, 710497, 2957436], [0, 159, 19533, 759847, 378612], [0, 133, 18457, 807913, 1255788],
      [0, 107, 17761, 834132, 2426976], [0, 133, 14018, 894693, 3884652], [0, 105, 14160, 885933, 5322348],
      [0, 100, 11603, 903632, 8232336], [0, 120, 9386, 919460, 9602640], [0, 92, 9959, 897073, 10972332],
      [0, 88, 9081, 845101, 14167836], [0, 88, 6944, 797786, 18640728]],
     [[2, 850, 13146, 11448, 0], [0, 310, 34855, 23044, 1152], [0, 296, 34455, 55420, 7200],
      [0, 232, 33661, 164996, 77472], [0, 200, 32377, 248703, 221076], [0, 209, 35429, 131512, 64656],
      [0, 208, 34703, 158780, 70560], [0, 182, 29012, 387017, 442620], [0, 147, 26918, 497879, 798372],
      [0, 207, 29618, 341130, 142776], [0, 181, 25868, 495979, 641268], [0, 146, 24254, 583029, 1232172],
      [0, 180, 16617, 776622, 2574072], [0, 142, 16946, 792561, 3346812], [0, 136, 13415, 872781, 5315004]],
     [[3, 876, 11070, 5832, 0], [2, 355, 29081, 78820, 17568], [2, 312, 28766, 144712, 59904],
      [2, 268, 28254, 217343, 161604], [0, 227, 24896, 477159, 432324], [0, 209, 23554, 535275, 919188],
      [0, 185, 22006, 601857, 1648188], [0, 194, 19630, 671532, 1799280], [0, 172, 18904, 699721, 2751804],
      [0, 145, 16482, 774441, 4460508], [0, 100, 12078, 980097, 4863996], [0, 87, 12104, 965251, 5971284],
      [0, 71, 11891, 942537, 7811532], [0, 87, 11301, 910749, 8974044], [0, 70, 11128, 900933, 10344780],
      [0, 64, 10008, 845763, 14062356], [0, 87, 9602, 858987, 13039380], [0, 70, 9669, 843115, 14317092],
      [0, 64, 8948, 788345, 17503164], [0, 64, 7347, 721049, 22000716]],
     [[2, 711, 17893, 20684, 576], [0, 277, 35301, 49644, 5184], [0, 250, 32889, 169600, 72432],
      [0, 216, 31766, 251079, 180900], [0, 191, 29823, 346777, 420300], [0, 196, 34817, 169610, 92808],
      [0, 195, 28619, 387703, 320724], [0, 180, 26178, 483327, 741636], [0, 147, 24325, 575456, 1366128],
      [0, 185, 17665, 769685, 1232316], [0, 172, 17499, 767034, 2149416], [0, 137, 17091, 792659, 3388644],
      [0, 172, 14184, 836845, 3932460], [0, 137, 14526, 834307, 5213556], [0, 132, 11813, 863857, 7899084]],
     [[2, 537, 23595, 40820, 4032], [0, 260, 32786, 160172, 78768], [0, 239, 29984, 285233, 187740],
      [0, 215, 28156, 375495, 427140], [0, 191, 26442, 456345, 857628], [0, 147, 19675, 767435, 481284],
      [0, 147, 18377, 798257, 1053900], [0, 133, 17615, 821824, 1846224], [0, 106, 17096, 842747, 3025332],
      [0, 141, 15264, 885864, 2214432], [0, 128, 15090, 876847, 3371076], [0, 101, 14852, 877549, 4913964],
      [0, 128, 12865, 889903, 5784660], [0, 100, 13053, 881311, 7156692], [0, 96, 11075, 873594, 10184616]],
     [[0, 278, 34449, 78676, 17568], [0, 196, 34220, 190904, 99936], [0, 195, 29493, 359469, 204444],
      [0, 195, 25955, 480507, 432324], [0, 180, 24042, 554123, 961236], [0, 146, 22638, 628265, 1698012]]]"

text \<open>\<open>board\<close> are the first six points; the result \<open>None\<close> is the null pointer, for more than six chequers.\<close>

definition getRaceBGprobs :: "side \<Rightarrow> int list option db_result" where
  "getRaceBGprobs board =
     (if board ! 5 \<noteq> 0 then Inl Assertion
      else
        let group = fold (\<lambda>i group. if board ! i \<noteq> 0 then group + 2 ^ i else group) (rev [0..<5]) (0 :: nat);
            tot = fold (\<lambda>i tot. tot + board ! i) (rev [0..<5]) 0
        in
        if tot > 6 then Inr None
        else
          let ks = filter (bit group) [0..<5]; b1 = map (\<lambda>k. board ! k - 1) ks in
          if list_ex (\<lambda>k. board ! k = 0) ks then Inl Assertion
          else if group = 0 then Inl Outside
          else
            db_bind (in_range (PositionIndex (length ks) (b1 @ replicate (6 - length ks) 0))) (\<lambda>i.
              let rows = race_table ! (group - 1) in
              if unat i < length rows then Inr (Some (rows ! unat i)) else Inl Outside))"

section \<open>The rows are distributions\<close>

text \<open>
  \<open>row ! j\<close> of the \<open>36 ^ (j + 1)\<close> sequences of \<open>j + 1\<close> rolls leave the home board with the last one, and after
  five rolls every sequence has.
\<close>

definition distribution_row :: "int list \<Rightarrow> bool" where
  "distribution_row row \<longleftrightarrow>
     length row = 5 \<and> list_all (\<lambda>x. 0 \<le> x) row \<and> fold (\<lambda>x s. 36 * s + x) row 0 = 60466176"

lemma race_table_exact:
  "list_all (\<lambda>g. length (race_table ! (g - 1)) = (6 choose length (filter (bit g) [0..<5])) \<and>
     list_all distribution_row (race_table ! (g - 1))) [1..<32]"
  by code_simp

lemma distribution_row_sum:
  assumes "distribution_row row"
  shows "(\<Sum>j<5. real_of_int (row ! j) / 36 ^ (j + 1)) = 1" "j < 5 \<Longrightarrow> 0 \<le> row ! j"
proof -
  obtain a b c d e where row: "row = [a, b, c, d, e]"
    using assms by (auto simp: distribution_row_def length_Suc_conv eval_nat_numeral)
  have "1679616 * a + 46656 * b + 1296 * c + 36 * d + e = 60466176"
    using assms by (simp add: row distribution_row_def)
  from arg_cong [OF this, of real_of_int]
  have "1679616 * real_of_int a + 46656 * real_of_int b + 1296 * real_of_int c + 36 * real_of_int d + real_of_int e = 60466176"
    by simp
  then show "(\<Sum>j<5. real_of_int (row ! j) / 36 ^ (j + 1)) = 1"
    by (simp add: row eval_nat_numeral lessThan_Suc field_simps)
  show "j < 5 \<Longrightarrow> 0 \<le> row ! j"
    using assms by (auto simp: distribution_row_def list_all_length)
qed

section \<open>The lookup\<close>

lemma race_group:
  fixes P :: "nat \<Rightarrow> bool"
  defines "g \<equiv> fold (\<lambda>i g. if P i then g + 2 ^ i else g) (rev [0..<5]) (0 :: nat)"
  shows "filter (bit g) [0..<5] = filter P [0..<5]" "g < 32" "g = 0 \<longleftrightarrow> (\<forall>k<5. \<not> P k)"
proof -
  have l: "[0..<5] = [0, 1, 2, 3, 4 :: nat]" by (simp add: upt_rec)
  have "filter (bit g) [0, 1, 2, 3, 4] = filter P [0, 1, 2, 3, 4] \<and> g < 32 \<and>
      (g = 0 \<longleftrightarrow> \<not> P 0 \<and> \<not> P 1 \<and> \<not> P 2 \<and> \<not> P 3 \<and> \<not> P 4)"
    unfolding g_def l by (cases "P 0"; cases "P 1"; cases "P 2"; cases "P 3"; cases "P 4") (simp_all add: bit_iff_odd)
  moreover have "(\<forall>k<5. \<not> P k) \<longleftrightarrow> \<not> P 0 \<and> \<not> P 1 \<and> \<not> P 2 \<and> \<not> P 3 \<and> \<not> P 4"
    by (simp add: numeral_eq_Suc less_Suc_eq all_conj_distrib)
  ultimately show "filter (bit g) [0..<5] = filter P [0..<5]" "g < 32" "g = 0 \<longleftrightarrow> (\<forall>k<5. \<not> P k)"
    unfolding l by simp_all
qed

lemma rank_zeros [simp]: "rank (replicate z False @ bs) r = rank bs r"
  by (induction z) simp_all

lemma PositionIndex_few:
  assumes "length xs = g" "1 \<le> g" "sum_list (map unat xs) + g \<le> t" "t \<le> 15"
  shows "\<exists>i. PositionIndex g (xs @ ys) = Some i \<and> unat i < (t choose g)"
proof -
  have b: "bearoff_board g (15 - g) xs" using assms by (simp add: bearoff_board_def)
  have g: "g \<le> 15" using assms by simp
  obtain i k where i: "PositionIndex g xs = Some i" "PositionBearoff xs g (15 - g) = Some k" "unat i = unat k"
    using PositionIndex_PositionBearoff [OF assms(2) g b] by blast
  have "PositionBearoff xs g (15 - g) = Some (of_nat (rank (board_bits (15 - g) xs) g))"
    using assms b g by (intro PositionBearoff_rank) (simp_all add: bearoff_board_def)
  then have k: "k = of_nat (rank (off_bits xs) g)" using i(2) by (simp add: board_bits_def)
  have "rank (off_bits xs) g < (length (off_bits xs) choose g)"
    using rank_bound [of "off_bits xs"] assms(1) by simp
  also have "\<dots> \<le> (t choose g)" using assms(1,3) by (intro binomial_right_mono) (simp add: add.commute)
  finally have r: "rank (off_bits xs) g < (t choose g)" .
  also have "(t choose g) \<le> 2 ^ t" by (rule binomial_le_pow2)
  also have "2 ^ t \<le> (2 ^ 15 :: nat)" using assms(4) by (intro power_increasing) simp_all
  finally have "rank (off_bits xs) g < 2 ^ 32" by simp
  then have "unat k = rank (off_bits xs) g" unfolding k by (rule unat_of_nat_u32)
  moreover have "PositionIndex g (xs @ ys) = PositionIndex g xs"
    using PositionBearoff_take [of g "xs @ ys" "15 - g"] assms(1) g
    by (simp add: PositionIndex_def PositionBearoff_def)
  ultimately show ?thesis using i r by auto
qed

lemma getRaceBGprobs_returns:
  assumes s: "6 \<le> length s" "s ! 5 = 0" "chequers s < 2 ^ 32" and k: "k < 5" "s ! k \<noteq> 0"
  shows "getRaceBGprobs s = Inr None \<or> (\<exists>row. getRaceBGprobs s = Inr (Some row) \<and> distribution_row row)"
proof -
  let ?P = "\<lambda>i. s ! i \<noteq> 0"
  define g where "g = fold (\<lambda>i g. if ?P i then g + 2 ^ i else g) (rev [0..<5]) (0 :: nat)"
  define tot :: u32 where "tot = fold (\<lambda>i tot. tot + s ! i) (rev [0..<5]) 0"
  let ?ks = "filter ?P [0..<5]"
  note gr = race_group [of ?P, folded g_def]
  have g0: "g \<noteq> 0" "g < 32" using gr k by auto
  show ?thesis
  proof (cases "tot > 6")
    case True
    then show ?thesis using s(2) by (simp add: getRaceBGprobs_def tot_def g_def Let_def)
  next
    case False
    have t: "tot = of_nat (\<Sum>i<5. unat (s ! i))"
      by (simp add: tot_def eval_nat_numeral upt_rec lessThan_Suc add_ac)
    have "(\<Sum>i<5. unat (s ! i)) \<le> chequers s"
    proof -
      have "(\<Sum>i<5. unat (s ! i)) \<le> (\<Sum>i<length s. unat (s ! i))" using s(1) by (intro sum_mono2) auto
      then show ?thesis by (simp add: chequers_def sum_list_sum_nth atLeast0LessThan)
    qed
    then have "unat tot = (\<Sum>i<5. unat (s ! i))" unfolding t using s(3) by (intro unat_of_nat_u32) simp
    with False have six: "(\<Sum>i<5. unat (s ! i)) \<le> 6" by (simp add: not_less word_le_nat_alt)
    let ?b1 = "map (\<lambda>k. s ! k - 1) ?ks"
    have ks: "1 \<le> length ?ks" using k by (simp add: Suc_le_eq filter_empty_conv) auto
    have "sum_list (map unat ?b1) + length ?ks = sum_list (map (\<lambda>k. unat (s ! k)) ?ks)"
    proof -
      have "sum_list (map (\<lambda>k. unat (s ! k - 1)) xs) + length xs = sum_list (map (\<lambda>k. unat (s ! k)) xs)"
        if "\<forall>k\<in>set xs. s ! k \<noteq> 0" for xs
        using that
      proof (induction xs)
        case (Cons x xs)
        have "unat (s ! x) \<noteq> 0" using Cons.prems unat_eq_zero_u32 [of "s ! x"] by simp
        then have "unat (s ! x - 1) + 1 = unat (s ! x)" using unat_minus_one_u32 [of "s ! x"] Cons.prems by (metis One_nat_def Suc_pred add.right_neutral add_Suc_right bot_nat_0.not_eq_extremum list.set_intros(1))
        then show ?case using Cons by simp
      qed simp
      from this [of ?ks] show ?thesis by (simp add: comp_def)
    qed
    also have "\<dots> = (\<Sum>i<5. unat (s ! i))"
    proof -
      have "sum_list (map (\<lambda>k. unat (s ! k)) ?ks) = sum_list (map (\<lambda>k. unat (s ! k)) [0..<5])"
        by (intro sum_list_map_filter) simp
      then show ?thesis by (simp add: sum_list_sum_nth atLeast0LessThan)
    qed
    finally have sum: "sum_list (map unat ?b1) + length ?ks \<le> 6" using six by simp
    obtain i where i: "PositionIndex (length ?ks) (?b1 @ replicate (6 - length ?ks) 0) = Some i" "unat i < (6 choose length ?ks)"
      using PositionIndex_few [OF _ ks sum, of "replicate (6 - length ?ks) 0"] by auto
    have "g \<in> set [1..<32]" using g0 by simp
    with race_table_exact have rows: "length (race_table ! (g - 1)) = (6 choose length ?ks)"
        "list_all distribution_row (race_table ! (g - 1))"
      unfolding list_all_iff gr(1) [symmetric] by blast+
    have "distribution_row (race_table ! (g - 1) ! unat i)" using rows i(2) by (simp add: list_all_length)
    moreover have "getRaceBGprobs s = Inr (Some (race_table ! (g - 1) ! unat i))"
      using s(2) False i rows(1) g0(1)
      unfolding getRaceBGprobs_def g_def [symmetric] tot_def [symmetric] Let_def gr(1)
      by (simp add: list_ex_iff)
    ultimately show ?thesis by blast
  qed
qed

end
