(* ===== verification/Half_Inputs.thy ===== *)
theory Half_Inputs
  imports Eval_Types
begin

text \<open>
  The inputs of the contact networks for one player (\<open>CalculateHalfInputs\<close>, eval.c), block by
  block in the order of the code: escape tables, contact and timing, anchors, the shots that
  hit (\<open>I_PIPLOSS\<close>, \<open>I_P1\<close>, \<open>I_P2\<close>), containment, mobility, and entering from the bar.
  \<open>us\<close> is \<open>anBoard\<close>, \<open>opp\<close> is \<open>anBoardOpp\<close>; a count read into a C \<open>int\<close> is \<open>pt s i\<close>.
\<close>

definition pt :: "side \<Rightarrow> nat \<Rightarrow> int" where "pt s i = uint (s ! i)"

lemma pt_nonneg [simp]: "0 \<le> pt s i"
  by (simp add: pt_def)

section \<open>Escapes\<close>

text \<open>The rolls \<open>n0 + 1\<close>, \<open>n1 + 1\<close> with \<open>n1 \<le> n0\<close>, and how many of the 36 they stand for.\<close>

definition half_rolls :: "(nat \<times> nat) list" where
  "half_rolls = concat (map (\<lambda>n0. map (\<lambda>n1. (n0, n1)) [0..<n0 + 1]) [0..<6])"

definition roll_weight :: "nat \<times> nat \<Rightarrow> nat" where
  "roll_weight = (\<lambda>(n0, n1). if n0 = n1 then 1 else 2)"

definition ComputeTable0 :: "nat \<Rightarrow> nat" where
  "ComputeTable0 i =
     fold (\<lambda>(n0, n1) c.
         if \<not> bit i (n0 + n1 + 1) \<and> \<not> (bit i n0 \<and> bit i n1) then c + roll_weight (n0, n1) else c)
       half_rolls 0"

definition ComputeTable1 :: "nat \<Rightarrow> nat" where
  "ComputeTable1 i =
     (if i = 0 then 0
      else
        let low = (case find (bit i) [0..<12] of Some k \<Rightarrow> k | None \<Rightarrow> 12) in
        fold (\<lambda>(n0, n1) c.
            if low < n0 + n1 + 1 \<and> \<not> bit i (n0 + n1 + 1) \<and> \<not> (bit i n0 \<and> bit i n1)
            then c + roll_weight (n0, n1) else c)
          half_rolls 0)"

definition anPoint :: "nat list" where
  "anPoint = [0, 0, 1, 1, 1, 1, 1, 1, 1, 1, 1, 1, 1, 1, 1, 1]"

text \<open>The points made ahead of \<open>n\<close>, as the bits of the table index.\<close>

definition made_bits :: "side \<Rightarrow> int \<Rightarrow> nat" where
  "made_bits s n =
     (let m = (if n < 12 then n else 12)
      in fold (\<lambda>i af. af OR push_bit i (anPoint ! unat (s ! nat (24 + int i - n)))) [0..<nat m] 0)"

definition anEscapes :: "nat list" where "anEscapes = map ComputeTable0 [0..<0x1000]"
definition anEscapes1 :: "nat list" where "anEscapes1 = map ComputeTable1 [0..<0x1000]"

definition Escapes :: "side \<Rightarrow> int \<Rightarrow> nat" where
  "Escapes s n = anEscapes ! made_bits s n"

definition Escapes1 :: "side \<Rightarrow> int \<Rightarrow> nat" where
  "Escapes1 s n = anEscapes1 ! made_bits s n"

section \<open>Contact, timing, anchors\<close>

text \<open>The last index at or below \<open>n - 1\<close> that satisfies \<open>P\<close>, or \<open>-1\<close>: the descending loops.\<close>

fun last_index :: "(nat \<Rightarrow> bool) \<Rightarrow> nat \<Rightarrow> int" where
  "last_index P 0 = - 1"
| "last_index P (Suc n) = (if P n then int n else last_index P n)"

definition opp_back :: "side \<Rightarrow> int" where
  "opp_back opp = 23 - last_index (\<lambda>i. opp ! i \<noteq> 0) 25"

definition contact_pips :: "side \<Rightarrow> int \<Rightarrow> int" where
  "contact_pips us nOppBack =
     fold (\<lambda>i n. if us ! i \<noteq> 0 then n + (int i + 1 - nOppBack) * pt us i else n)
       [nat (nOppBack + 1)..<25] 0"

definition free_pips :: "side \<Rightarrow> int \<Rightarrow> int" where
  "free_pips us nOppBack =
     fold (\<lambda>i p. if us ! i \<noteq> 0 then p + (int i + 1) * pt us i else p) [0..<nat nOppBack] 0"

definition timing :: "side \<Rightarrow> int \<Rightarrow> int" where
  "timing us nOppBack =
     (let m = (if nOppBack \<ge> 11 then nOppBack else 11);
          start = (24 * pt us 24, pt us 24);
          outer = fold (\<lambda>i (t, no).
              if us ! i \<noteq> 0 \<and> us ! i \<noteq> 2 then
                let n = (if us ! i > 2 then pt us i - 2 else 1) in (t + int i * n, no + n)
              else (t, no)) (rev [nat (m + 1)..<24]) start;
          middle = fold (\<lambda>i (t, no).
              if us ! i \<noteq> 0 then let n = pt us i in (t + int i * n, no + n) else (t, no))
            (rev [6..<nat (min 23 m) + 1]) outer;
          home = fold (\<lambda>i (t, no).
              if us ! i > 2 then (t + int i * (pt us i - 2), no + (pt us i - 2))
              else if us ! i < 2 then
                let n = 2 - pt us i in if no \<ge> n then (t - int i * n, no - n) else (t, no)
              else (t, no)) (rev [0..<6]) middle
      in if fst home < 0 then 0 else fst home)"

definition back_chequer :: "side \<Rightarrow> int" where
  "back_chequer us = last_index (\<lambda>i. us ! i \<noteq> 0) 25"

definition back_anchor :: "side \<Rightarrow> int" where
  "back_anchor us =
     (let nBack = back_chequer us
      in last_index (\<lambda>i. us ! i \<ge> 2) (nat ((if nBack = 24 then 23 else nBack) + 1)))"

definition forward_anchor :: "side \<Rightarrow> int" where
  "forward_anchor us =
     (let n = (case find (\<lambda>j. us ! j \<ge> 2) [18..<nat (back_anchor us + 1)] of
                 Some j \<Rightarrow> 24 - int j | None \<Rightarrow> 0)
      in if n = 0 then
           (case find (\<lambda>j. us ! j \<ge> 2) (rev [12..<18]) of Some j \<Rightarrow> 24 - int j | None \<Rightarrow> 0)
         else n)"

section \<open>Shots\<close>

text \<open>
  The three tables of the code, with the \<open>-1\<close> and the \<open>0\<close> that end a row left out: the ways to
  hit from a distance, the ways to hit, and the ways a roll hits.
\<close>

record Inter =
  fAll :: bool
  anIntermediate :: "nat list"
  nFaces :: nat
  nPips :: nat

definition aanCombination :: "nat list list" where
  "aanCombination =
     [[0], [1, 2], [3, 4, 5], [6, 7, 8, 9], [10, 11, 12], [13, 14, 15, 16, 17], [18, 19, 20],
      [21, 22, 23, 24], [25, 26, 27], [28, 29], [30], [31, 32, 33], [], [], [34], [35], [], [36],
      [], [37], [], [], [], [38]]"

definition inter :: "nat \<Rightarrow> nat list \<Rightarrow> nat \<Rightarrow> nat \<Rightarrow> Inter" where
  "inter a ps f n = \<lparr>fAll = (a = 1), anIntermediate = ps, nFaces = f, nPips = n\<rparr>"

definition aIntermediate :: "Inter list" where
  "aIntermediate =
     [inter 1 [] 1 1, inter 1 [] 1 2, inter 1 [1] 2 2, inter 1 [] 1 3, inter 0 [1, 2] 2 3,
      inter 1 [1, 2] 3 3, inter 1 [] 1 4, inter 0 [1, 3] 2 4, inter 1 [2] 2 4,
      inter 1 [1, 2, 3] 4 4, inter 1 [] 1 5, inter 0 [1, 4] 2 5, inter 0 [2, 3] 2 5,
      inter 1 [] 1 6, inter 0 [1, 5] 2 6, inter 0 [2, 4] 2 6, inter 1 [3] 2 6,
      inter 1 [2, 4] 3 6, inter 0 [1, 6] 2 7, inter 0 [2, 5] 2 7, inter 0 [3, 4] 2 7,
      inter 0 [2, 6] 2 8, inter 0 [3, 5] 2 8, inter 1 [4] 2 8, inter 1 [2, 4, 6] 4 8,
      inter 0 [3, 6] 2 9, inter 0 [4, 5] 2 9, inter 1 [3, 6] 3 9, inter 0 [4, 6] 2 10,
      inter 1 [5] 2 10, inter 0 [5, 6] 2 11, inter 1 [6] 2 12, inter 1 [4, 8] 3 12,
      inter 1 [3, 6, 9] 4 12, inter 1 [5, 10] 3 15, inter 1 [4, 8, 12] 4 16,
      inter 1 [6, 12] 3 18, inter 1 [5, 10, 15] 4 20, inter 1 [6, 12, 18] 4 24]"

definition aaRoll :: "nat list list" where
  "aaRoll =
     [[0, 2, 5, 9], [1, 8, 17, 24], [3, 16, 27, 33], [6, 23, 32, 35], [10, 29, 34, 37],
      [13, 31, 36, 38], [0, 1, 4], [0, 3, 7], [1, 3, 12], [0, 6, 11], [1, 6, 15], [3, 6, 20],
      [0, 10, 14], [1, 10, 19], [3, 10, 22], [6, 10, 26], [0, 13, 18], [1, 13, 21], [3, 13, 25],
      [6, 13, 28], [10, 13, 30]]"

text \<open>The shot \<open>pi\<close> from a hitter on the blot \<open>i\<close> is blocked.\<close>

definition blocked :: "side \<Rightarrow> nat \<Rightarrow> Inter \<Rightarrow> bool" where
  "blocked opp i p =
     (if fAll p then nFaces p > 1 \<and> list_ex (\<lambda>q. opp ! (i - q) > 1) (anIntermediate p)
      else opp ! (i - anIntermediate p ! 0) > 1 \<and> opp ! (i - anIntermediate p ! 1) > 1)"

text \<open>\<open>aHit\<close>: for every way to hit, the set of hitters as a bit mask.\<close>

definition find_hits :: "side \<Rightarrow> side \<Rightarrow> nat list" where
  "find_hits us opp =
     (let nBoard = length (filter (\<lambda>i. us ! i \<noteq> 0) [0..<6]) in
      fold (\<lambda>i aHit.
          if opp ! i = 1 then
            fold (\<lambda>j aHit.
                if us ! j \<noteq> 0 \<and> \<not> (j < 6 \<and> us ! j = 2) then
                  fold (\<lambda>c aHit.
                      if blocked opp i (aIntermediate ! c) then aHit
                      else aHit[c := aHit ! c OR push_bit j 1])
                    (aanCombination ! (j + i - 24)) aHit
                else aHit) [24 - i..<25] aHit
          else aHit)
        (rev [0..<if nBoard > 2 then 24 else 22]) (replicate 39 0))"

text \<open>The portable \<open>msb32\<close>, with its five steps.\<close>

definition msb_step :: "nat \<Rightarrow> nat \<times> nat \<Rightarrow> nat \<times> nat" where
  "msb_step x = (\<lambda>(n, b). if n \<ge> push_bit x 1 then (drop_bit x n, b + x) else (n, b))"

definition msb32 :: "nat \<Rightarrow> nat" where
  "msb32 n = snd (msb_step 1 (msb_step 2 (msb_step 4 (msb_step 8 (msb_step 16 (n, 0))))))"

text \<open>The statistics of one roll: chequers hit and pips lost; a double has four ways.\<close>

record roll_stat =
  rs_nChequers :: int
  rs_nPips :: int

definition more_pips :: "int \<Rightarrow> roll_stat \<Rightarrow> roll_stat" where
  "more_pips p s = (if p > rs_nPips s then s\<lparr>rs_nPips := p\<rparr> else s)"

definition one_more :: "roll_stat \<Rightarrow> roll_stat" where
  "one_more s = s\<lparr>rs_nChequers := rs_nChequers s + 1\<rparr>"

definition at_least_one :: "roll_stat \<Rightarrow> roll_stat" where
  "at_least_one s = (if rs_nChequers s = 0 then s\<lparr>rs_nChequers := 1\<rparr> else s)"

text \<open>Not on the bar: \<open>n\<close> is the hitter used.\<close>

definition roll_no_bar :: "side \<Rightarrow> side \<Rightarrow> nat list \<Rightarrow> nat list \<Rightarrow> roll_stat" where
  "roll_no_bar us opp aHit ways =
     snd (fold (\<lambda>r (n, s).
         if aHit ! r = 0 then (n, s)
         else
           let p = aIntermediate ! r; k = msb32 (aHit ! r) in
           if nFaces p = 1 then
             let s = (if n \<noteq> int k \<or> us ! k > 1 then one_more s else s);
                 s = more_pips (int k - int (nPips p) + 1) s;
                 s = (if length ways = 4 \<and> (\<exists>q\<in>set [0..<25]. q \<noteq> k \<and> bit (aHit ! r) q) then one_more s else s)
             in (int k, s)
           else
             let s = at_least_one s;
                 s = more_pips (int k - int (nPips p) + 1) s;
                 s = (if list_ex (\<lambda>q. opp ! (23 - k + q) = 1) (anIntermediate p) then one_more s else s)
             in (n, s))
       ways (- 1, \<lparr>rs_nChequers = 0, rs_nPips = 0\<rparr>))"

text \<open>
  One on the bar: \<open>n\<close> says that the other die must enter.  The inner loop over the hitters,
  from the bar down, leaves at the first that cannot be used.
\<close>

fun bar_hitters :: "side \<Rightarrow> nat \<Rightarrow> Inter \<Rightarrow> nat \<Rightarrow> nat list \<Rightarrow> bool \<times> roll_stat \<Rightarrow> bool \<times> roll_stat" where
  "bar_hitters opp hits p npip [] st = st"
| "bar_hitters opp hits p npip (k # ks) (n, s) =
     (if bit hits k then
        if n \<and> k \<noteq> 24 then (n, s)
        else if k \<noteq> 24 \<and> opp ! (npip - 1) > 1 then (n, s)
        else bar_hitters opp hits p npip ks
               (n \<or> k \<noteq> 24, more_pips (int k - int (nPips p) + 1) (one_more s))
      else bar_hitters opp hits p npip ks (n, s))"

definition roll_one_bar :: "side \<Rightarrow> nat list \<Rightarrow> nat list \<Rightarrow> roll_stat" where
  "roll_one_bar opp aHit ways =
     snd (fold (\<lambda>j (n, s).
         let r = ways ! j in
         if aHit ! r = 0 then (n, s)
         else
           let p = aIntermediate ! r in
           if nFaces p = 1 then
             bar_hitters opp (aHit ! r) p (nPips (aIntermediate ! (ways ! (1 - j)))) (rev [1..<25]) (n, s)
           else if \<not> bit (aHit ! r) 24 then (n, s)
           else
             let s = at_least_one s;
                 s = more_pips (25 - int (nPips p)) s;
                 s = (if list_ex (\<lambda>q. opp ! (q + 1) = 1) (anIntermediate p) then one_more s else s)
             in (n, s))
       [0..<length ways] (False, \<lparr>rs_nChequers = 0, rs_nPips = 0\<rparr>))"

text \<open>Several on the bar: only direct shots from it.\<close>

definition roll_many_bar :: "nat list \<Rightarrow> nat list \<Rightarrow> roll_stat" where
  "roll_many_bar aHit ways =
     fold (\<lambda>j s.
         let r = ways ! j; p = aIntermediate ! r in
         if \<not> bit (aHit ! r) 24 then s
         else if nFaces p \<noteq> 1 then s
         else more_pips (25 - int (nPips p)) (one_more s))
       [0..<2] \<lparr>rs_nChequers = 0, rs_nPips = 0\<rparr>"

definition roll_stats :: "side \<Rightarrow> side \<Rightarrow> roll_stat list" where
  "roll_stats us opp =
     (let aHit = find_hits us opp in
      map (\<lambda>ways.
          if us ! 24 = 0 then roll_no_bar us opp aHit ways
          else if us ! 24 = 1 then roll_one_bar opp aHit ways
          else roll_many_bar aHit ways) aaRoll)"

text \<open>The weighted sums over the 36 rolls: pips, rolls that hit one, rolls that hit two.\<close>

definition shot_sums :: "roll_stat list \<Rightarrow> int \<times> int \<times> int" where
  "shot_sums aRoll =
     fold (\<lambda>i (np, n1, n2).
         let w = (if length (aaRoll ! i) = 4 then 1 else 2);
             nc = rs_nChequers (aRoll ! i);
             np = np + rs_nPips (aRoll ! i) * w
         in if nc > 0 then (np, n1 + w, if nc > 1 then n2 + w else n2) else (np, n1, n2))
       [0..<21] (0, 0, 0)"

section \<open>Containment, mobility, moment\<close>

definition least_escapes :: "side \<Rightarrow> nat list \<Rightarrow> nat \<Rightarrow> nat" where
  "least_escapes us = fold (\<lambda>i n. let j = Escapes us (int i) in if j < n then j else n)"

definition acontain :: "side \<Rightarrow> int \<Rightarrow> nat" where
  "acontain us nOppBack = least_escapes us [15..<nat (24 - nOppBack)] 36"

definition contain :: "side \<Rightarrow> int \<Rightarrow> nat" where
  "contain us nOppBack =
     (if nOppBack < 0 then least_escapes us [15..<24] 36
      else least_escapes us [max 15 (nat (24 - nOppBack))..<24] (acontain us nOppBack))"

definition mobility :: "side \<Rightarrow> side \<Rightarrow> int" where
  "mobility us opp =
     fold (\<lambda>i n. if us ! i \<noteq> 0 then n + (int i - 5) * pt us i * int (Escapes opp (int i)) else n) [6..<25] 0"

definition moment2 :: "side \<Rightarrow> int" where
  "moment2 us =
     (let (j, n) = fold (\<lambda>i (j, n). if us ! i \<noteq> 0 then (j + pt us i, n + int i * pt us i) else (j, n))
            [0..<25] (0, 0);
          n = (if j \<noteq> 0 then (n + j - 1) div j else n);
          (j, k) = fold (\<lambda>i (j, k).
              if us ! i \<noteq> 0 then (j + pt us i, k + pt us i * (int i - n) * (int i - n)) else (j, k))
            [nat (n + 1)..<25] (0, 0)
      in if j \<noteq> 0 then (k + j - 1) div j else k)"

section \<open>Entering, back game\<close>

definition enter_loss :: "side \<Rightarrow> side \<Rightarrow> int" where
  "enter_loss us opp =
     (let two = us ! 24 > 1 in
      fold (\<lambda>i loss.
          if opp ! i > 1 then
            fold (\<lambda>j loss.
                if opp ! j > 1 then loss + 2 * (int i + int j + 2)
                else if two then loss + 2 * (int i + 1) else loss)
              [i + 1..<6] (loss + 4 * (int i + 1))
          else if two then
            fold (\<lambda>j loss. if opp ! j > 1 then loss + 2 * (int j + 1) else loss) [i + 1..<6] loss
          else loss) [0..<6] 0)"

definition closed_points :: "side \<Rightarrow> int" where
  "closed_points opp = fold (\<lambda>i n. n + (if opp ! i > 1 then 1 else 0)) [0..<6] 0"

definition backbone :: "side \<Rightarrow> int \<times> int" where
  "backbone us =
     (let (pa, w, tot) = fold (\<lambda>np (pa, w, tot).
          if us ! np \<ge> 2 then
            if pa = - 1 then (int np, w, tot)
            else
              let d = pa - int np;
                  c = (if d \<le> 6 then 11 else if d \<le> 11 then 13 - d else 0)
              in (pa, w + c * pt us (nat pa), tot + pt us (nat pa))
          else (pa, w, tot)) (rev [1..<24]) (- 1, 0, 0)
      in (w, tot))"

definition back_game :: "side \<Rightarrow> nat \<times> int" where
  "back_game us =
     (length (filter (\<lambda>i. us ! i > 1) [18..<24]), fold (\<lambda>i tot. tot + pt us i) [18..<25] 0)"

section \<open>CalculateHalfInputs\<close>

text \<open>The places of the inputs, as in the enumeration of the code.\<close>

definition I_OFF1 :: nat where "I_OFF1 = 0"
definition I_BREAK_CONTACT :: nat where "I_BREAK_CONTACT = 3"
definition I_BACK_CHEQUER :: nat where "I_BACK_CHEQUER = 4"
definition I_BACK_ANCHOR :: nat where "I_BACK_ANCHOR = 5"
definition I_FORWARD_ANCHOR :: nat where "I_FORWARD_ANCHOR = 6"
definition I_PIPLOSS :: nat where "I_PIPLOSS = 7"
definition I_P1 :: nat where "I_P1 = 8"
definition I_P2 :: nat where "I_P2 = 9"
definition I_BACKESCAPES :: nat where "I_BACKESCAPES = 10"
definition I_ACONTAIN :: nat where "I_ACONTAIN = 11"
definition I_ACONTAIN2 :: nat where "I_ACONTAIN2 = 12"
definition I_CONTAIN :: nat where "I_CONTAIN = 13"
definition I_CONTAIN2 :: nat where "I_CONTAIN2 = 14"
definition I_MOBILITY :: nat where "I_MOBILITY = 15"
definition I_MOMENT2 :: nat where "I_MOMENT2 = 16"
definition I_ENTER :: nat where "I_ENTER = 17"
definition I_ENTER2 :: nat where "I_ENTER2 = 18"
definition I_TIMING :: nat where "I_TIMING = 19"
definition I_BACKBONE :: nat where "I_BACKBONE = 20"
definition I_BACKG :: nat where "I_BACKG = 21"
definition I_BACKG1 :: nat where "I_BACKG1 = 22"
definition I_FREEPIP :: nat where "I_FREEPIP = 23"
definition I_BACKRESCAPES :: nat where "I_BACKRESCAPES = 24"
definition MORE_INPUTS :: nat where "MORE_INPUTS = 25"

lemmas input_places = I_OFF1_def I_BREAK_CONTACT_def I_BACK_CHEQUER_def I_BACK_ANCHOR_def
  I_FORWARD_ANCHOR_def I_PIPLOSS_def I_P1_def I_P2_def I_BACKESCAPES_def I_ACONTAIN_def
  I_ACONTAIN2_def I_CONTAIN_def I_CONTAIN2_def I_MOBILITY_def I_MOMENT2_def I_ENTER_def
  I_ENTER2_def I_TIMING_def I_BACKBONE_def I_BACKG_def I_BACKG1_def I_FREEPIP_def
  I_BACKRESCAPES_def MORE_INPUTS_def

text \<open>
  The writes to \<open>afInput\<close> (from the offset the caller passes); \<open>None\<close> is the failed assertion that
  there is contact.
\<close>

definition CalculateHalfInputs :: "side \<Rightarrow> side \<Rightarrow> real list \<Rightarrow> real list option" where
  "CalculateHalfInputs us opp afInput =
     (let nOppBack = opp_back opp; n = contact_pips us nOppBack in
      if n = 0 then None
      else
        let (np, n1, n2) = shot_sums (roll_stats us opp);
            fw = forward_anchor us;
            ac = (36 - real (acontain us nOppBack)) / 36;
            ct = (36 - real (contain us nOppBack)) / 36;
            cp = closed_points opp;
            (w, tot) = backbone us;
            (nAc, bg) = back_game us
        in Some (afInput
             [I_BREAK_CONTACT := of_int n / (15 + 152),
              I_FREEPIP := of_int (free_pips us nOppBack) / 100,
              I_TIMING := of_int (timing us nOppBack) / 100,
              I_BACK_CHEQUER := of_int (back_chequer us) / 24,
              I_BACK_ANCHOR := of_int (back_anchor us) / 24,
              I_FORWARD_ANCHOR := (if fw = 0 then 2 else of_int fw / 6),
              I_PIPLOSS := of_int np / (12 * 36),
              I_P1 := of_int n1 / 36,
              I_P2 := of_int n2 / 36,
              I_BACKESCAPES := real (Escapes us (23 - nOppBack)) / 36,
              I_BACKRESCAPES := real (Escapes1 us (23 - nOppBack)) / 36,
              I_ACONTAIN := ac, I_ACONTAIN2 := ac * ac,
              I_CONTAIN := ct, I_CONTAIN2 := ct * ct,
              I_MOBILITY := of_int (mobility us opp) / 3600,
              I_MOMENT2 := of_int (moment2 us) / 400,
              I_ENTER := (if us ! 24 > 0 then of_int (enter_loss us opp) / (36 * (49 / 6)) else 0),
              I_ENTER2 := of_int (36 - (cp - 6) * (cp - 6)) / 36,
              I_BACKBONE := (if tot \<noteq> 0 then 1 - of_int w / (of_int tot * 11) else 0),
              I_BACKG := (if nAc > 1 then of_int (bg - 3) / 4 else 0),
              I_BACKG1 := (if nAc = 1 then of_int bg / 8 else 0)]))"

section \<open>Escapes counts rolls\<close>

text \<open>The points made within twelve pips ahead of distance \<open>n\<close>.\<close>

definition made_ahead :: "side \<Rightarrow> int \<Rightarrow> nat \<Rightarrow> bool" where
  "made_ahead s n k \<longleftrightarrow> int k < n \<and> k < 12 \<and> s ! nat (24 + int k - n) \<ge> 2"

definition counts_fit :: "side \<Rightarrow> bool" where
  "counts_fit s \<longleftrightarrow> length s = 25 \<and> (\<forall>i<25. s ! i < 16)"

lemma anPoint_nth: "x < 16 \<Longrightarrow> anPoint ! x = (if x \<ge> 2 then 1 else 0)"
  by (auto simp: anPoint_def less_Suc_eq numeral_eq_Suc)

lemma anPoint_point: "counts_fit s \<Longrightarrow> i < 25 \<Longrightarrow> anPoint ! unat (s ! i) = (if s ! i \<ge> 2 then 1 else 0)"
  by (subst anPoint_nth) (auto simp: counts_fit_def word_less_nat_alt word_le_nat_alt)

lemma bit_made_bits:
  assumes "counts_fit s" "n \<le> 24"
  shows "bit (made_bits s n) k \<longleftrightarrow> made_ahead s n k"
proof -
  let ?m = "nat (if n < 12 then n else 12)"
  have "bit (fold (\<lambda>i af. af OR push_bit i (anPoint ! unat (s ! nat (24 + int i - n)))) [0..<j] 0) k \<longleftrightarrow>
      k < j \<and> s ! nat (24 + int k - n) \<ge> 2" if "j \<le> ?m" for j
    using that
  proof (induction j)
    case (Suc j)
    then have j: "int j < n" "j < 12" by (auto split: if_splits)
    then have "anPoint ! unat (s ! nat (24 + int j - n)) = (if s ! nat (24 + int j - n) \<ge> 2 then 1 else 0)"
      using assms by (intro anPoint_point) auto
    moreover have "bit (push_bit j (if b then 1 else 0 :: nat)) k \<longleftrightarrow> b \<and> k = j" for b
      by (auto simp: bit_exp_iff)
    ultimately show ?case using Suc
      by (auto simp: bit_or_iff less_Suc_eq simp del: push_bit_of_1)
  qed simp
  from this [of ?m] show ?thesis
    unfolding made_bits_def Let_def made_ahead_def by auto
qed

lemma made_bits_less: "counts_fit s \<Longrightarrow> n \<le> 24 \<Longrightarrow> made_bits s n < 2 ^ 12"
proof -
  assume a: "counts_fit s" "n \<le> 24"
  have "made_bits s n = take_bit 12 (made_bits s n)"
    by (rule bit_eqI) (auto simp: bit_take_bit_iff bit_made_bits [OF a] made_ahead_def)
  then show ?thesis by (metis take_bit_nat_less_exp)
qed

text \<open>The rolls, as ordered pairs, that are not stopped by the points \<open>B\<close>.\<close>

definition free_rolls :: "(nat \<Rightarrow> bool) \<Rightarrow> (nat \<times> nat) set" where
  "free_rolls B = {(a, b). a < 6 \<and> b < 6 \<and> \<not> B (a + b + 1) \<and> \<not> (B a \<and> B b)}"

lemma fold_count: "fold (\<lambda>x c. if P x then c + w x else c) xs (c :: nat) = c + sum_list (map (\<lambda>x. if P x then w x else 0) xs)"
  by (induction xs arbitrary: c) auto

lemma half_rolls_list:
  "half_rolls = [(0, 0), (1, 0), (1, 1), (2, 0), (2, 1), (2, 2), (3, 0), (3, 1), (3, 2), (3, 3),
     (4, 0), (4, 1), (4, 2), (4, 3), (4, 4), (5, 0), (5, 1), (5, 2), (5, 3), (5, 4), (5, 5)]"
  by (simp add: half_rolls_def upt_conv_Cons eval_nat_numeral)

lemma card_rolls:
  "card {(a, b). a < (6 :: nat) \<and> b < (6 :: nat) \<and> P a b} = (\<Sum>a<6. \<Sum>b<6. if P a b then 1 else 0)"
proof -
  have "{(a, b). a < (6 :: nat) \<and> b < (6 :: nat) \<and> P a b} = {x \<in> {..<6} \<times> {..<6}. P (fst x) (snd x)}"
    by auto
  also have "card \<dots> = (\<Sum>x\<in>{..<6} \<times> {..<6}. if P (fst x) (snd x) then 1 else 0)"
    by (simp only: card_eq_sum) (rule sum.inter_filter, simp)
  also have "\<dots> = (\<Sum>a<6. \<Sum>b<6. if P a b then 1 else 0)"
    by (simp add: sum.cartesian_product split_beta)
  finally show ?thesis .
qed

lemma sum_half_rolls:
  assumes "\<And>a b. P a b = P b a"
  shows "sum_list (map (\<lambda>x. if P (fst x) (snd x) then roll_weight x else 0) half_rolls) =
    (\<Sum>a<6. \<Sum>b<6. if P a b then 1 else 0)"
proof -
  define t where "t a b = (if P a b then 1 else 0 :: nat)" for a b
  have sym: "t b a = t a b" for a b using assms by (simp add: t_def)
  have w: "(if P (fst x) (snd x) then roll_weight x else 0) =
      (if fst x = snd x then t (fst x) (snd x) else 2 * t (fst x) (snd x))" for x
    by (simp add: roll_weight_def t_def split_beta)
  have "(\<Sum>a<6. \<Sum>b<6. t a b) = sum_list (map (\<lambda>x. if fst x = snd x then t (fst x) (snd x) else 2 * t (fst x) (snd x)) half_rolls)"
    using sym [of 1 0] sym [of 2 0] sym [of 2 1] sym [of 3 0] sym [of 3 1] sym [of 3 2]
      sym [of 4 0] sym [of 4 1] sym [of 4 2] sym [of 4 3] sym [of 5 0] sym [of 5 1] sym [of 5 2] sym [of 5 3] sym [of 5 4]
    by (simp add: half_rolls_list eval_nat_numeral)
  then show ?thesis unfolding w t_def by simp
qed

lemma ComputeTable0_rolls: "ComputeTable0 i = card (free_rolls (bit i))"
proof -
  let ?P = "\<lambda>a b. \<not> bit i (a + b + 1) \<and> \<not> (bit i a \<and> bit i b)"
  have "ComputeTable0 i = sum_list (map (\<lambda>x. if ?P (fst x) (snd x) then roll_weight x else 0) half_rolls)"
    unfolding ComputeTable0_def case_prod_unfold fold_count prod.collapse by simp
  also have "\<dots> = (\<Sum>a<6. \<Sum>b<6. if ?P a b then 1 else 0)"
    by (rule sum_half_rolls) (auto simp: add.commute)
  finally show ?thesis by (simp only: free_rolls_def card_rolls)
qed

text \<open>
  \<open>Escapes\<close> is the number of the 36 rolls that leave from distance \<open>n\<close>: those whose total lands
  on no made point and that have an intermediate point free.
\<close>

lemma Escapes_rolls:
  assumes "counts_fit s" "n \<le> 24"
  shows "Escapes s n = card (free_rolls (made_ahead s n))"
proof -
  have "bit (made_bits s n) = made_ahead s n" using bit_made_bits [OF assms] by blast
  then show ?thesis
    using made_bits_less [OF assms] by (simp add: Escapes_def anEscapes_def ComputeTable0_rolls)
qed

lemma free_rolls_finite: "finite (free_rolls B)" "card (free_rolls B) \<le> 36"
proof -
  have sub: "free_rolls B \<subseteq> {..<6} \<times> {..<6}" by (auto simp: free_rolls_def)
  then show "finite (free_rolls B)" by (rule finite_subset) simp
  show "card (free_rolls B) \<le> 36" using card_mono [OF _ sub] by simp
qed

lemma Escapes_le: "counts_fit s \<Longrightarrow> n \<le> 24 \<Longrightarrow> Escapes s n \<le> 36"
  by (simp add: Escapes_rolls free_rolls_finite)

text \<open>More points made, fewer escapes.\<close>

lemma Escapes_mono:
  assumes "counts_fit s" "counts_fit s'" "n \<le> 24" "\<And>i. i < 25 \<Longrightarrow> s ! i \<ge> 2 \<Longrightarrow> s' ! i \<ge> 2"
  shows "Escapes s' n \<le> Escapes s n"
proof -
  have "made_ahead s n k \<Longrightarrow> made_ahead s' n k" for k
    using assms(3,4) by (auto simp: made_ahead_def)
  then have "free_rolls (made_ahead s' n) \<subseteq> free_rolls (made_ahead s n)"
    by (auto simp: free_rolls_def)
  then show ?thesis
    using assms by (simp add: Escapes_rolls card_mono free_rolls_finite)
qed

section \<open>The shot tables are the ways to hit\<close>

text \<open>The rolls in the order of \<open>aaRoll\<close>.\<close>

definition roll_list :: "(nat \<times> nat) list" where
  "roll_list = [(1, 1), (2, 2), (3, 3), (4, 4), (5, 5), (6, 6), (2, 1), (3, 1), (3, 2), (4, 1),
     (4, 2), (4, 3), (5, 1), (5, 2), (5, 3), (5, 4), (6, 1), (6, 2), (6, 3), (6, 4), (6, 5)]"

text \<open>
  A double plays one to four times its number, over every point between; another roll plays
  either die, or both over one of two points.
\<close>

definition way_of_roll :: "nat \<times> nat \<Rightarrow> Inter \<Rightarrow> bool" where
  "way_of_roll = (\<lambda>(x, y) p.
     if x = y then
       fAll p \<and> 1 \<le> nFaces p \<and> nFaces p \<le> 4 \<and> nPips p = nFaces p * x \<and>
       anIntermediate p = map ((*) x) [1..<nFaces p]
     else
       (nFaces p = 1 \<and> fAll p \<and> anIntermediate p = [] \<and> (nPips p = x \<or> nPips p = y)) \<or>
       (nFaces p = 2 \<and> \<not> fAll p \<and> anIntermediate p = [y, x] \<and> nPips p = x + y))"

text \<open>The table of the ways of a roll holds, for each roll, exactly the ways that roll allows.\<close>

lemma aaRoll_ways:
  "\<forall>i<21. \<forall>c<39. c \<in> set (aaRoll ! i) \<longleftrightarrow> way_of_roll (roll_list ! i) (aIntermediate ! c)"
proof -
  have "list_all (\<lambda>i. list_all (\<lambda>c.
      c \<in> set (aaRoll ! i) \<longleftrightarrow> way_of_roll (roll_list ! i) (aIntermediate ! c)) [0..<39]) [0..<21]"
    by code_simp
  then show ?thesis by (simp add: list_all_iff)
qed

lemma aanCombination_ways:
  "\<forall>d<24. \<forall>c<39. c \<in> set (aanCombination ! d) \<longleftrightarrow> nPips (aIntermediate ! c) = d + 1"
proof -
  have "list_all (\<lambda>d. list_all (\<lambda>c.
      c \<in> set (aanCombination ! d) \<longleftrightarrow> nPips (aIntermediate ! c) = d + 1) [0..<39]) [0..<24]"
    by code_simp
  then show ?thesis by (simp add: list_all_iff)
qed

section \<open>Ranges\<close>

text \<open>The weights of the 21 rolls add up to 36, so the shot inputs are probabilities.\<close>

definition weight_of :: "nat \<Rightarrow> int" where
  "weight_of i = (if length (aaRoll ! i) = 4 then 1 else 2)"

lemma sum_weights: "(\<Sum>i<21. weight_of i) = 36"
proof -
  have "sum_list (map weight_of [0..<21]) = 36" by code_simp
  then show ?thesis by (simp add: sum_list_sum_nth atLeast0LessThan)
qed

lemma shot_sums_range:
  assumes "shot_sums st = (np, n1, n2)"
  shows "0 \<le> n2 \<and> n2 \<le> n1 \<and> n1 \<le> 36"
proof -
  let ?f = "\<lambda>i (np, n1, n2).
         let w = (if length (aaRoll ! i) = 4 then 1 else 2);
             nc = rs_nChequers (st ! i);
             np = np + rs_nPips (st ! i) * w
         in if nc > 0 then (np, n1 + w, if nc > 1 then n2 + w else n2) else (np, n1, n2)"
  have "case fold ?f [0..<m] (0, 0, 0) of (np, n1, n2) \<Rightarrow> 0 \<le> n2 \<and> n2 \<le> n1 \<and> n1 \<le> (\<Sum>i<m. weight_of i)" for m
  proof (induction m)
    case (Suc m)
    have "weight_of m = (if length (aaRoll ! m) = 4 then 1 else 2)" by (simp add: weight_of_def)
    with Suc show ?case unfolding fold_upt_Suc sum.lessThan_Suc by (auto simp: Let_def split: prod.splits)
  qed simp
  from this [of 21] assms show ?thesis unfolding shot_sums_def sum_weights by (auto split: prod.splits)
qed

lemma least_escapes_le: "least_escapes us xs n \<le> n"
proof (induction xs arbitrary: n)
  case (Cons x xs)
  show ?case
    using Cons [of "if Escapes us (int x) < n then Escapes us (int x) else n"]
    by (auto simp: least_escapes_def Let_def split: if_splits)
qed (simp add: least_escapes_def)

lemma contain_le: "contain us k \<le> acontain us k \<or> k < 0" "acontain us k \<le> 36" "contain us k \<le> 36"
proof -
  show a: "acontain us k \<le> 36" by (simp add: acontain_def least_escapes_le)
  show "contain us k \<le> acontain us k \<or> k < 0" by (simp add: contain_def least_escapes_le)
  show "contain us k \<le> 36"
    using least_escapes_le [of us "[15..<24]" 36] order_trans [OF least_escapes_le a]
    by (simp add: contain_def)
qed

lemma closed_points_range: "0 \<le> closed_points opp \<and> closed_points opp \<le> 6"
proof -
  have "0 \<le> fold (\<lambda>i n. n + (if opp ! i > 1 then 1 else 0)) [0..<m] (0 :: int) \<and>
      fold (\<lambda>i n. n + (if opp ! i > 1 then 1 else 0)) [0..<m] (0 :: int) \<le> int m" for m
    by (induction m) auto
  from this [of 6] show ?thesis by (simp add: closed_points_def)
qed

text \<open>The probabilities among the inputs are probabilities, and the containments are ordered.\<close>

lemma CalculateHalfInputs_ranges:
  assumes "length a = MORE_INPUTS" "CalculateHalfInputs us opp a = Some b"
  shows "0 \<le> b ! I_P2 \<and> b ! I_P2 \<le> b ! I_P1 \<and> b ! I_P1 \<le> 1 \<and>
    0 \<le> b ! I_ACONTAIN \<and> b ! I_ACONTAIN \<le> 1 \<and> 0 \<le> b ! I_CONTAIN \<and> b ! I_CONTAIN \<le> 1 \<and>
    0 \<le> b ! I_ENTER2 \<and> b ! I_ENTER2 \<le> 1 \<and> (0 \<le> opp_back opp \<longrightarrow> b ! I_ACONTAIN \<le> b ! I_CONTAIN)"
proof -
  obtain np n1 n2 where st: "shot_sums (roll_stats us opp) = (np, n1, n2)" by (metis surj_pair)
  note r = shot_sums_range [OF st] contain_le [of us "opp_back opp"]
  let ?c = "closed_points opp"
  have c: "(?c - 6) * (?c - 6) \<le> 36" "0 \<le> (?c - 6) * (?c - 6)"
  proof -
    have "0 \<le> 6 - ?c" "6 - ?c \<le> 6" using closed_points_range [of opp] by auto
    then have "(6 - ?c) * (6 - ?c) \<le> 6 * 6" by (intro mult_mono) auto
    then show "(?c - 6) * (?c - 6) \<le> 36" by (simp add: algebra_simps)
    show "0 \<le> (?c - 6) * (?c - 6)" by simp
  qed
  have e: "0 \<le> real_of_int (36 - (?c - 6) * (?c - 6))" "real_of_int (36 - (?c - 6) * (?c - 6)) \<le> 36"
    using c by linarith+
  obtain w tot where bb: "backbone us = (w, tot)" by (metis surj_pair)
  obtain nAc bg where bg: "back_game us = (nAc, bg)" by (metis surj_pair)
  have len: "length a = 25" using assms(1) by (simp add: MORE_INPUTS_def)
  have b: "b ! I_P1 = of_int n1 / 36" "b ! I_P2 = of_int n2 / 36"
    "b ! I_ACONTAIN = (36 - real (acontain us (opp_back opp))) / 36"
    "b ! I_CONTAIN = (36 - real (contain us (opp_back opp))) / 36"
    "b ! I_ENTER2 = of_int (36 - (?c - 6) * (?c - 6)) / 36"
    using assms(2) len unfolding CalculateHalfInputs_def Let_def st bb bg
    by (auto simp: input_places nth_list_update split: if_splits)
  show ?thesis unfolding b using r e by auto
qed

text \<open>
  When the other die has to enter after a double, the code tests the wrong point: twice the
  number rolled instead of the number.
\<close>

lemma double_enters_elsewhere:
  "\<forall>i<6. nPips (aIntermediate ! (aaRoll ! i ! (1 - 0))) = 2 * fst (roll_list ! i) \<and>
         fst (roll_list ! i) = snd (roll_list ! i)"
proof -
  have "list_all (\<lambda>i. nPips (aIntermediate ! (aaRoll ! i ! (1 - 0))) = 2 * fst (roll_list ! i) \<and>
      fst (roll_list ! i) = snd (roll_list ! i)) [0..<6]"
    by code_simp
  then show ?thesis by (simp add: list_all_iff)
qed

text \<open>The assertion that there is contact holds whenever a chequer of ours is behind one of theirs.\<close>

lemma last_index_Suc: "(last_index P n < 0 \<longleftrightarrow> (\<forall>i<n. \<not> P i)) \<and>
  (\<not> last_index P n < 0 \<longrightarrow> nat (last_index P n) < n \<and> P (nat (last_index P n)))"
  by (induction n) (auto simp: less_Suc_eq)

lemma last_index_ge: "j < n \<Longrightarrow> P j \<Longrightarrow> int j \<le> last_index P n"
  by (induction n) (auto simp: less_Suc_eq)

lemma fold_ge:
  assumes "\<And>i. i \<in> set xs \<Longrightarrow> 0 \<le> (g i :: int)"
  shows "(n :: int) \<le> fold (\<lambda>i n. if P i then n + g i else n) xs n"
  using assms
proof (induction xs arbitrary: n)
  case (Cons a xs)
  have "n \<le> (if P a then n + g a else n)" using Cons.prems by simp
  also have "\<dots> \<le> fold (\<lambda>i n. if P i then n + g i else n) xs (if P a then n + g a else n)"
    by (rule Cons.IH) (use Cons.prems in simp)
  finally show ?case by simp
qed simp

lemma contact_pips_pos:
  assumes "i < 25" "us ! i \<noteq> 0" "k < int i" "- 1 \<le> k"
  shows "0 < contact_pips us k"
proof -
  let ?g = "\<lambda>i. (int i + 1 - k) * pt us i"
  let ?f = "\<lambda>i n. if us ! i \<noteq> 0 then n + ?g i else n"
  have g: "0 \<le> ?g j" if "nat (k + 1) \<le> j" for j
    using that assms(4) by (intro mult_nonneg_nonneg) auto
  have pos: "0 < ?g i"
    using assms by (intro mult_pos_pos) (auto simp: pt_def uint_0_iff order_less_le)
  have "[nat (k + 1)..<25] = [nat (k + 1)..<i] @ i # [Suc i..<25]"
    using assms upt_add_eq_append [of "nat (k + 1)" i "25 - i"] upt_conv_Cons [of i 25] by simp
  then have "contact_pips us k = fold ?f [Suc i..<25] (fold ?f [nat (k + 1)..<i] 0 + ?g i)"
    using assms(2) by (simp add: contact_pips_def)
  moreover have "0 \<le> fold ?f [nat (k + 1)..<i] 0" by (rule fold_ge) (use g in auto)
  moreover have "fold ?f [nat (k + 1)..<i] 0 + ?g i \<le> fold ?f [Suc i..<25] (fold ?f [nat (k + 1)..<i] 0 + ?g i)"
    by (rule fold_ge) (use g assms in auto)
  ultimately show ?thesis using pos by linarith
qed

lemma CalculateHalfInputs_returns:
  assumes "i < 25" "us ! i \<noteq> 0" "j < 25" "opp ! j \<noteq> 0" "i + j \<ge> 24"
  shows "\<exists>b. CalculateHalfInputs us opp a = Some b"
proof -
  let ?l = "last_index (\<lambda>i. opp ! i \<noteq> 0) 25"
  have "int j \<le> ?l" using last_index_ge [OF assms(3)] assms(4) by simp
  moreover have "?l < 25" using last_index_Suc [of "\<lambda>i. opp ! i \<noteq> 0" 25] by auto
  ultimately have "opp_back opp < int i" "- 1 \<le> opp_back opp"
    using assms(5) by (auto simp: opp_back_def)
  from contact_pips_pos [OF assms(1,2) this] show ?thesis
    by (auto simp: CalculateHalfInputs_def Let_def split_beta)
qed

section \<open>Escapes, and instances\<close>

text \<open>The escapes of the table are the rolls, out of 36, that neither land on a made point nor have both
  ways there blocked.\<close>

lemma Escapes_count:
  assumes "counts_fit s" "n \<le> 24"
  shows "Escapes s n = card {(a, b). a < 6 \<and> b < 6 \<and> \<not> made_ahead s n (a + b + 1) \<and>
      \<not> (made_ahead s n a \<and> made_ahead s n b)} \<and> Escapes s n \<le> 36"
  using Escapes_rolls [OF assms] Escapes_le [OF assms] by (simp add: free_rolls_def)



end
