(* ===== verification/Net_Inputs.thy ===== *)
theory Net_Inputs
  imports Half_Inputs Position_Class Moves "HOL-Library.Monad_Syntax"
begin

text \<open>
  The inputs of the networks (eval.c, lib/inputs.c): the counters of the points (\<open>baseInputs\<close>), the
  race inputs, and the contact and crashed inputs, which add \<open>CalculateHalfInputs\<close> and the chequers
  borne off for both players.
\<close>

section \<open>baseInputs\<close>

definition inpvec :: "real list list" where
  "inpvec =
    [[0, 0, 0, 0], [1, 0, 0, 0], [0, 1, 0, 0], [0, 0, 1, 0],
     [0, 0, 1, 1 / 2], [0, 0, 1, 1], [0, 0, 1, 3 / 2], [0, 0, 1, 2],
     [0, 0, 1, 5 / 2], [0, 0, 1, 3], [0, 0, 1, 7 / 2], [0, 0, 1, 4],
     [0, 0, 1, 9 / 2], [0, 0, 1, 5], [0, 0, 1, 11 / 2], [0, 0, 1, 6]]"

definition inpvecb :: "real list list" where
  "inpvecb =
    [[0, 0, 0, 0], [1, 0, 0, 0], [1, 1, 0, 0], [1, 1, 1, 0],
     [1, 1, 1, 1 / 2], [1, 1, 1, 1], [1, 1, 1, 3 / 2], [1, 1, 1, 2],
     [1, 1, 1, 5 / 2], [1, 1, 1, 3], [1, 1, 1, 7 / 2], [1, 1, 1, 4],
     [1, 1, 1, 9 / 2], [1, 1, 1, 5], [1, 1, 1, 11 / 2], [1, 1, 1, 6]]"

text \<open>A count of 16 or more reads outside of the tables, which is \<open>None\<close>.\<close>

definition input_row :: "real list list \<Rightarrow> u32 \<Rightarrow> real list option" where
  "input_row table nc = (if nc < 16 then Some (table ! unat nc) else None)"

fun input_rows :: "u32 list \<Rightarrow> real list option" where
  "input_rows [] = Some []"
| "input_rows (nc # ncs) = do { row \<leftarrow> input_row inpvec nc; rows \<leftarrow> input_rows ncs; Some (row @ rows) }"

definition base_side :: "side \<Rightarrow> real list option" where
  "base_side board =
     do { points \<leftarrow> input_rows (take 24 board); bar \<leftarrow> input_row inpvecb (board ! 24); Some (points @ bar) }"

definition baseInputs :: "TanBoard \<Rightarrow> real list option" where
  "baseInputs b = do { x \<leftarrow> base_side (fst b); y \<leftarrow> base_side (snd b); Some (x @ y) }"

section \<open>Race inputs\<close>

definition race_point :: "u32 \<Rightarrow> real list" where
  "race_point nc =
     [if nc = 1 then 1 else 0, if nc = 2 then 1 else 0, if nc \<ge> 3 then 1 else 0,
      if nc > 3 then real (unat (nc - 3)) / 2 else 0]"

text \<open>\<open>None\<close> is the failed assertion that no chequer is on the last point or the bar.\<close>

definition race_side :: "side \<Rightarrow> real list option" where
  "race_side board =
     (if board ! 23 = 0 \<and> board ! 24 = 0 then
        let menOff = fold (\<lambda>i m. m - board ! i) [0..<23] 15;
            nCross = fold (\<lambda>k n. fold (\<lambda>i n. if board ! i \<noteq> 0 then n + board ! i * of_nat k else n)
                              [6 * k..<6 * k + 6] n) [1..<4] 0
        in Some (concat (map (\<lambda>i. race_point (board ! i)) [0..<23]) @
             map (\<lambda>k. if menOff = of_nat (k + 1) then 1 else 0) [0..<14] @ [real (unat nCross) / 10])
      else None)"

definition CalculateRaceInputs :: "TanBoard \<Rightarrow> real list option" where
  "CalculateRaceInputs b = do { x \<leftarrow> race_side (fst b); y \<leftarrow> race_side (snd b); Some (x @ y) }"

section \<open>Contact and crashed inputs\<close>

text \<open>The counter of the chequers borne off is a signed int.\<close>

definition men_off :: "side \<Rightarrow> int" where
  "men_off s = sint (fold (\<lambda>i m. m - s ! i) [0..<25] (15 :: u32))"

definition menOffAll :: "side \<Rightarrow> real list" where
  "menOffAll s =
     (let menOff = men_off s in
      if menOff \<le> 5 then [if menOff \<noteq> 0 then of_int menOff / 5 else 0, 0, 0]
      else if menOff \<le> 10 then [1, of_int (menOff - 5) / 5, 0]
      else [1, 1, of_int (menOff - 10) / 5])"

definition menOffNonCrashed :: "side \<Rightarrow> real list option" where
  "menOffNonCrashed s =
     (let menOff = men_off s in
      if menOff > 8 then None
      else if menOff \<le> 2 then Some [if menOff \<noteq> 0 then of_int menOff / 3 else 0, 0, 0]
      else if menOff \<le> 5 then Some [1, of_int (menOff - 3) / 3, 0]
      else Some [1, 1, of_int (menOff - 6) / 3])"

text \<open>The inputs of one player behind the chequers borne off; every place is written.\<close>

definition half_after :: "real list \<Rightarrow> side \<Rightarrow> side \<Rightarrow> real list option" where
  "half_after off us opp = CalculateHalfInputs us opp (off @ replicate (MORE_INPUTS - length off) 0)"

definition CalculateContactInputs :: "TanBoard \<Rightarrow> real list option" where
  "CalculateContactInputs b =
     do { base \<leftarrow> baseInputs b;
          off0 \<leftarrow> menOffNonCrashed (fst b);
          x \<leftarrow> half_after off0 (snd b) (fst b);
          off1 \<leftarrow> menOffNonCrashed (snd b);
          y \<leftarrow> half_after off1 (fst b) (snd b);
          Some (base @ x @ y) }"

definition CalculateCrashedInputs :: "TanBoard \<Rightarrow> real list option" where
  "CalculateCrashedInputs b =
     do { base \<leftarrow> baseInputs b;
          x \<leftarrow> half_after (menOffAll (snd b)) (snd b) (fst b);
          y \<leftarrow> half_after (menOffAll (fst b)) (fst b) (snd b);
          Some (base @ x @ y) }"

definition NUM_INPUTS :: nat where "NUM_INPUTS = (25 * 4 + MORE_INPUTS) * 2"
definition HALF_RACE_INPUTS :: nat where "HALF_RACE_INPUTS = 92 + 14 + 1"
definition NUM_RACE_INPUTS :: nat where "NUM_RACE_INPUTS = HALF_RACE_INPUTS * 2"
definition NUM_PRUNING_INPUTS :: nat where "NUM_PRUNING_INPUTS = 25 * 4 * 2"

text \<open>The inputs of the network of a class, as \<open>EvalRace\<close>, \<open>EvalCrashed\<close> and \<open>EvalContact\<close> compute them.\<close>

definition class_inputs :: "positionclass \<Rightarrow> TanBoard \<Rightarrow> real list option" where
  "class_inputs pc b =
     (if pc = CLASS_RACE then CalculateRaceInputs b
      else if pc = CLASS_CRASHED then CalculateCrashedInputs b
      else if pc = CLASS_CONTACT then CalculateContactInputs b else None)"

definition class_input_count :: "positionclass \<Rightarrow> nat" where
  "class_input_count pc = (if pc = CLASS_RACE then NUM_RACE_INPUTS else NUM_INPUTS)"

lemmas input_counts = NUM_INPUTS_def HALF_RACE_INPUTS_def NUM_RACE_INPUTS_def NUM_PRUNING_INPUTS_def MORE_INPUTS_def

section \<open>The counters can be read off the inputs\<close>

lemma inpvec_rows: "length inpvec = 16" "distinct inpvec" "\<forall>row\<in>set inpvec. length row = 4"
  by (simp_all add: inpvec_def)

lemma inpvecb_rows: "length inpvecb = 16" "distinct inpvecb" "\<forall>row\<in>set inpvecb. length row = 4"
  by (simp_all add: inpvecb_def)

lemma input_row_exact:
  assumes "length table = 16" "distinct table" "\<forall>row\<in>set table. length row = 4"
  shows "nc < 16 \<Longrightarrow> \<exists>row. input_row table nc = Some row"
    "input_row table nc = Some row \<Longrightarrow> length row = 4"
    "input_row table nc = Some row \<Longrightarrow> input_row table nc' = Some row \<Longrightarrow> nc = nc'"
proof -
  have u: "unat nc < 16" if "nc < 16" for nc :: u32 using that by (simp add: word_less_nat_alt)
  show "nc < 16 \<Longrightarrow> \<exists>row. input_row table nc = Some row" by (simp add: input_row_def)
  show "input_row table nc = Some row \<Longrightarrow> length row = 4"
    using u [of nc] assms by (auto simp: input_row_def split: if_splits)
  show "input_row table nc = Some row \<Longrightarrow> input_row table nc' = Some row \<Longrightarrow> nc = nc'"
    using u [of nc] u [of nc'] assms by (auto simp: input_row_def nth_eq_iff_index_eq word_unat_eq_iff split: if_splits)
qed

lemmas input_row_points = input_row_exact [OF inpvec_rows]
lemmas input_row_bar = input_row_exact [OF inpvecb_rows]

lemma input_rows_exact:
  "\<forall>nc\<in>set ncs. nc < 16 \<Longrightarrow> \<exists>rows. input_rows ncs = Some rows"
  "input_rows ncs = Some rows \<Longrightarrow> length rows = 4 * length ncs"
proof (induction ncs arbitrary: rows)
  case (Cons nc ncs)
  case 1
  then show ?case using Cons.IH(1) input_row_points(1) [of nc] by fastforce
next
  case (Cons nc ncs)
  case 2
  then show ?case using Cons.IH(2) input_row_points(2) [of nc] by (fastforce simp: bind_eq_Some_conv)
qed simp_all

lemma input_rows_inject:
  "length ncs = length ncs' \<Longrightarrow> input_rows ncs = Some rows \<Longrightarrow> input_rows ncs' = Some rows \<Longrightarrow> ncs = ncs'"
proof (induction ncs ncs' arbitrary: rows rule: list_induct2)
  case (Cons nc ncs nc' ncs')
  from Cons.prems obtain r rs r' rs' where
    r: "input_row inpvec nc = Some r" "input_rows ncs = Some rs" "rows = r @ rs" and
    r': "input_row inpvec nc' = Some r'" "input_rows ncs' = Some rs'" "rows = r' @ rs'"
    by (auto simp: bind_eq_Some_conv)
  have "r = r'" "rs = rs'" using r r' input_row_points(2) by auto
  then show ?case using r r' input_row_points(3) Cons.IH by blast
qed simp

lemma base_side_exact:
  assumes "length s = 25"
  shows "\<forall>nc\<in>set s. nc < 16 \<Longrightarrow> \<exists>xs. base_side s = Some xs"
    "base_side s = Some xs \<Longrightarrow> length xs = 100"
    "base_side s = Some xs \<Longrightarrow> length t = 25 \<Longrightarrow> base_side t = Some xs \<Longrightarrow> s = t"
proof -
  have split: "u = take 24 u @ [u ! 24]" if "length u = 25" for u :: side
    using take_Suc_conv_app_nth [of 24 u] that by simp
  show "\<exists>xs. base_side s = Some xs" if small: "\<forall>nc\<in>set s. nc < 16"
  proof -
    have "\<forall>nc\<in>set (take 24 s). nc < 16" using small by (auto dest: in_set_takeD)
    moreover have "s ! 24 < 16" using small assms by simp
    ultimately show ?thesis using input_rows_exact(1) [of "take 24 s"] input_row_bar(1) [of "s ! 24"]
      by (auto simp: base_side_def)
  qed
  show "base_side s = Some xs \<Longrightarrow> length xs = 100"
    using assms by (auto simp: base_side_def bind_eq_Some_conv input_rows_exact(2) input_row_bar(2))
  assume "base_side s = Some xs" "length t = 25" "base_side t = Some xs"
  then obtain p r p' r' where
    p: "input_rows (take 24 s) = Some p" "input_row inpvecb (s ! 24) = Some r" "xs = p @ r" and
    p': "input_rows (take 24 t) = Some p'" "input_row inpvecb (t ! 24) = Some r'" "xs = p' @ r'"
    by (auto simp: base_side_def bind_eq_Some_conv)
  have "length p = length p'" using p p' assms \<open>length t = 25\<close> input_rows_exact(2) by fastforce
  then have "p = p'" "r = r'" using p p' by auto
  then have "take 24 s = take 24 t" "s ! 24 = t ! 24"
    using p p' assms \<open>length t = 25\<close> input_rows_inject [of "take 24 s" "take 24 t"] input_row_bar(3) by auto
  then show "s = t" using split [of s] split [of t] assms \<open>length t = 25\<close> by metis
qed

lemma baseInputs_exact:
  assumes "wf_board b"
  shows "\<forall>nc\<in>set (fst b) \<union> set (snd b). nc < 16 \<Longrightarrow> \<exists>xs. baseInputs b = Some xs"
    "baseInputs b = Some xs \<Longrightarrow> length xs = NUM_PRUNING_INPUTS"
    "baseInputs b = Some xs \<Longrightarrow> wf_board c \<Longrightarrow> baseInputs c = Some xs \<Longrightarrow> b = c"
proof -
  have l: "length (fst b) = 25" "length (snd b) = 25" using assms by (simp_all add: wf_board_def)
  show "\<forall>nc\<in>set (fst b) \<union> set (snd b). nc < 16 \<Longrightarrow> \<exists>xs. baseInputs b = Some xs"
    using base_side_exact(1) [OF l(1)] base_side_exact(1) [OF l(2)] by (auto simp: baseInputs_def)
  show "baseInputs b = Some xs \<Longrightarrow> length xs = NUM_PRUNING_INPUTS"
    using l by (auto simp: baseInputs_def bind_eq_Some_conv input_counts base_side_exact(2))
  assume xs: "baseInputs b = Some xs" "wf_board c" "baseInputs c = Some xs"
  then obtain x y x' y' where
    x: "base_side (fst b) = Some x" "base_side (snd b) = Some y" "xs = x @ y" and
    x': "base_side (fst c) = Some x'" "base_side (snd c) = Some y'" "xs = x' @ y'"
    by (auto simp: baseInputs_def bind_eq_Some_conv)
  have l': "length (fst c) = 25" "length (snd c) = 25" using xs by (simp_all add: wf_board_def)
  have "length x = length x'" using x x' l l' base_side_exact(2) by metis
  then have "x = x'" "y = y'" using x x' by auto
  then show "b = c" using x x' l l' base_side_exact(3) by (metis prod.expand)
qed

lemma race_point_inject: "race_point m = race_point n \<longleftrightarrow> m = n"
proof
  assume eq: "race_point m = race_point n"
  show "m = n"
  proof (cases "m > 3 \<and> n > 3")
    case True
    then have "real (unat (m - 3)) / 2 = real (unat (n - 3)) / 2" using eq by (simp add: race_point_def)
    then have "unat (m - 3) = unat (n - 3)" by (metis divide_cancel_right of_nat_eq_iff zero_neq_numeral)
    then show ?thesis by (simp add: word_unat_eq_iff [symmetric])
  next
    case False
    have small: "k = 0 \<or> k = 1 \<or> k = 2 \<or> k = 3" if "\<not> k > 3" for k :: u32
    proof -
      have "unat k \<le> 3" using that by (simp add: not_less word_le_nat_alt)
      then have "unat k = 0 \<or> unat k = 1 \<or> unat k = 2 \<or> unat k = 3" by presburger
      then show ?thesis unfolding word_unat_eq_iff by (simp only: unat_0 unat_1 unsigned_numeral take_bit_num_simps) simp
    qed
    have pos: "real (unat (k - 3)) \<noteq> 0" if "k > 3" for k :: u32
      using that unat_eq_zero_u32 [of "k - 3"] by (metis of_nat_eq_0_iff eq_iff_diff_eq_0 less_irrefl)
    show ?thesis
      using False small [of m] small [of n] pos [of m] pos [of n] eq
      by (auto simp: race_point_def split: if_splits)
  qed
qed simp

lemma length_race_point [simp]: "length (race_point n) = 4"
  by (simp add: race_point_def)

lemma race_points_inject:
  "length ms = length ns \<Longrightarrow> concat (map race_point ms) = concat (map race_point ns) \<longleftrightarrow> ms = ns"
  by (induction ms ns rule: list_induct2) (simp_all add: race_point_inject)

lemma race_side_exact:
  assumes "length s = 25"
  shows "s ! 23 = 0 \<Longrightarrow> s ! 24 = 0 \<Longrightarrow> \<exists>xs. race_side s = Some xs"
    "race_side s = Some xs \<Longrightarrow> length xs = HALF_RACE_INPUTS"
    "race_side s = Some xs \<Longrightarrow> length t = 25 \<Longrightarrow> race_side t = Some xs \<Longrightarrow> s = t"
proof -
  have points: "concat (map (\<lambda>i. race_point (u ! i)) [0..<23]) = concat (map race_point (take 23 u))" if "length u = 25" for u
  proof -
    have "map (\<lambda>i. u ! i) [0..<23] = take 23 u" using that by (intro nth_equalityI) simp_all
    from arg_cong [OF this, of "map race_point"] show ?thesis by (simp add: comp_def)
  qed
  have len: "length (concat (map race_point ms)) = 4 * length ms" for ms by (induction ms) simp_all
  have split: "u = take 23 u @ [0, 0]" if "length u = 25" "u ! 23 = 0" "u ! 24 = 0" for u :: side
    using take_Suc_conv_app_nth [of 23 u] take_Suc_conv_app_nth [of 24 u] that by simp
  show "s ! 23 = 0 \<Longrightarrow> s ! 24 = 0 \<Longrightarrow> \<exists>xs. race_side s = Some xs" by (simp add: race_side_def Let_def)
  show "race_side s = Some xs \<Longrightarrow> length xs = HALF_RACE_INPUTS"
    using assms by (auto simp: race_side_def points len input_counts Let_def split: if_splits)
  assume a: "race_side s = Some xs" "length t = 25" "race_side t = Some xs"
  then have z: "s ! 23 = 0" "s ! 24 = 0" "t ! 23 = 0" "t ! 24 = 0" by (auto simp: race_side_def split: if_splits)
  from a z have "take 92 xs = concat (map race_point (take 23 s))" "take 92 xs = concat (map race_point (take 23 t))"
    by (auto simp: race_side_def points [OF assms] points [OF a(2)] len assms Let_def)
  then have "take 23 s = take 23 t" using assms a(2) race_points_inject [of "take 23 s" "take 23 t"] by simp
  then show "s = t" using split [OF assms z(1,2)] split [OF a(2) z(3,4)] by metis
qed

lemma CalculateRaceInputs_exact:
  assumes "wf_board b"
  shows "fst b ! 23 = 0 \<Longrightarrow> fst b ! 24 = 0 \<Longrightarrow> snd b ! 23 = 0 \<Longrightarrow> snd b ! 24 = 0 \<Longrightarrow> \<exists>xs. CalculateRaceInputs b = Some xs"
    "CalculateRaceInputs b = Some xs \<Longrightarrow> length xs = NUM_RACE_INPUTS"
    "CalculateRaceInputs b = Some xs \<Longrightarrow> wf_board c \<Longrightarrow> CalculateRaceInputs c = Some xs \<Longrightarrow> b = c"
proof -
  have l: "length (fst b) = 25" "length (snd b) = 25" using assms by (simp_all add: wf_board_def)
  show "fst b ! 23 = 0 \<Longrightarrow> fst b ! 24 = 0 \<Longrightarrow> snd b ! 23 = 0 \<Longrightarrow> snd b ! 24 = 0 \<Longrightarrow> \<exists>xs. CalculateRaceInputs b = Some xs"
    using race_side_exact(1) [OF l(1)] race_side_exact(1) [OF l(2)] by (auto simp: CalculateRaceInputs_def)
  show "CalculateRaceInputs b = Some xs \<Longrightarrow> length xs = NUM_RACE_INPUTS"
    using l by (auto simp: CalculateRaceInputs_def bind_eq_Some_conv NUM_RACE_INPUTS_def race_side_exact(2))
  assume xs: "CalculateRaceInputs b = Some xs" "wf_board c" "CalculateRaceInputs c = Some xs"
  then obtain x y x' y' where
    x: "race_side (fst b) = Some x" "race_side (snd b) = Some y" "xs = x @ y" and
    x': "race_side (fst c) = Some x'" "race_side (snd c) = Some y'" "xs = x' @ y'"
    by (auto simp: CalculateRaceInputs_def bind_eq_Some_conv)
  have l': "length (fst c) = 25" "length (snd c) = 25" using xs by (simp_all add: wf_board_def)
  have "length x = length x'" using x x' l l' race_side_exact(2) by metis
  then have "x = x'" "y = y'" using x x' by auto
  then show "b = c" using x x' l l' race_side_exact(3) by (metis prod.expand)
qed

section \<open>Every position of a class has its inputs\<close>

lemma men_off_chequers:
  assumes "length s = 25" "chequers s \<le> 15"
  shows "men_off s = 15 - int (chequers s)"
proof -
  have f: "fold (\<lambda>i m. m - s ! i) xs a = a - fold (\<lambda>i c. c + s ! i) xs 0" for xs and a :: u32
  proof -
    have g: "fold (\<lambda>i c. c + s ! i) xs c = c + fold (\<lambda>i c. c + s ! i) xs 0" for xs and c :: u32
    proof (induction xs arbitrary: c)
      case (Cons i xs)
      show ?case using Cons [of "c + s ! i"] Cons [of "s ! i"] by simp
    qed simp
    show ?thesis
    proof (induction xs arbitrary: a)
      case (Cons i xs)
      show ?case using Cons [of "a - s ! i"] g [of xs "s ! i"] by simp
    qed simp
  qed
  have "men_off s = sint (15 - of_nat (chequers s) :: u32)"
    unfolding men_off_def f count_all_def [symmetric] count_all_of_nat [OF assms(1)] ..
  also have "\<dots> = 15 - int (chequers s)"
  proof -
    have eq: "(15 - of_nat (chequers s) :: u32) = of_nat (15 - chequers s)" using assms(2) by (simp add: of_nat_diff)
    have n: "sint (of_nat n :: u32) = int n" if "n \<le> 15" for n
      using that by (simp add: sint_uint signed_take_bit_int_eq_self uint_nat unat_of_nat_u32)
    show ?thesis unfolding eq n [OF diff_le_self] using assms(2) by linarith
  qed
  finally show ?thesis .
qed

lemma menOff_exact: "length (menOffAll s) = 3" "menOffNonCrashed s = Some xs \<Longrightarrow> length xs = 3"
  "men_off s \<le> 8 \<Longrightarrow> \<exists>xs. menOffNonCrashed s = Some xs"
  by (auto simp: menOffAll_def menOffNonCrashed_def Let_def split: if_splits)

lemma half_after_length: "half_after off us opp = Some xs \<Longrightarrow> length off = 3 \<Longrightarrow> length xs = MORE_INPUTS"
  by (auto simp: half_after_def CalculateHalfInputs_def MORE_INPUTS_def Let_def split: if_splits prod.splits)

lemma back_index_last: "back_index s n \<le> int n - 1" "0 \<le> back_index s n \<Longrightarrow> s ! nat (back_index s n) \<noteq> 0"
  by (induction n) auto

lemma back_index_above: "back_index s n < int p \<Longrightarrow> p < n \<Longrightarrow> s ! p = 0"
  by (induction n) (auto simp: less_Suc_eq split: if_splits)

lemma not_crashed_many:
  assumes "length s = 25" "chequers s \<le> 15" "\<not> crashed s"
  shows "men_off s \<le> 8"
  using assms crashed_iff [OF assms(1,2)] men_off_chequers [OF assms(1,2)] by (auto simp: few_active_def Let_def)

lemma contact_half_inputs:
  assumes b: "playable b" and c: "0 \<le> back_index (fst b) 25" "0 \<le> back_index (snd b) 25"
    "back_index (fst b) 25 + back_index (snd b) 25 > 22"
  shows "\<exists>xs. half_after off (snd b) (fst b) = Some xs" "\<exists>xs. half_after off (fst b) (snd b) = Some xs"
proof -
  define i j where ij: "i = nat (back_index (snd b) 25)" "j = nat (back_index (fst b) 25)"
  have n: "i < 25" "j < 25" "snd b ! i \<noteq> 0" "fst b ! j \<noteq> 0" "i + j \<ge> 23"
    using back_index_last [of "snd b" 25] back_index_last [of "fst b" 25] c by (auto simp: ij)
  have "i + j \<noteq> 23"
  proof
    assume "i + j = 23"
    then have "j = 23 - i" "i < 24" by simp_all
    with n b show False by (auto simp: playable_def no_shared_def)
  qed
  with n have "i + j \<ge> 24" by simp
  with n show "\<exists>xs. half_after off (snd b) (fst b) = Some xs" "\<exists>xs. half_after off (fst b) (snd b) = Some xs"
    unfolding half_after_def
    by (intro CalculateHalfInputs_returns [of i _ j] CalculateHalfInputs_returns [of j _ i]; simp)+
qed

lemma playable_counts: "playable b \<Longrightarrow> nc \<in> set (fst b) \<union> set (snd b) \<Longrightarrow> nc < 16"
proof -
  assume b: "playable b" "nc \<in> set (fst b) \<union> set (snd b)"
  have "unat nc \<le> 15"
    using b chequers_ge [of _ "fst b"] chequers_ge [of _ "snd b"] by (fastforce simp: in_set_conv_nth playable_def)
  then show "nc < 16" by (simp add: word_less_nat_alt)
qed

lemma class_inputs_exist:
  assumes b: "playable b" and pc: "pc = ClassifyPosition dbs b v" "pc \<ge> CLASS_RACE"
  shows "\<exists>xs. class_inputs pc b = Some xs \<and> length xs = class_input_count pc"
proof -
  let ?i = "back_index (fst b) 25" and ?j = "back_index (snd b) 25"
  have wf: "wf_board b" and len: "length (fst b) = 25" "length (snd b) = 25" using b by (simp_all add: playable_def wf_board_def)
  have ij: "0 \<le> ?i" "0 \<le> ?j" "pc = CLASS_RACE \<longrightarrow> ?i + ?j \<le> 22" "pc \<noteq> CLASS_RACE \<longrightarrow> ?i + ?j > 22"
    "pc = CLASS_CONTACT \<longrightarrow> \<not> crashed (fst b) \<and> \<not> crashed (snd b)"
    and cases: "pc = CLASS_RACE \<or> pc = CLASS_CRASHED \<or> pc = CLASS_CONTACT"
    using pc by (auto simp: ClassifyPosition_def Let_def positionclass_order not_less split: if_splits bgvariation.splits)
  from cases show ?thesis
  proof (elim disjE)
    assume r: "pc = CLASS_RACE"
    then have "?i < 23" "?j < 23" using ij by auto
    then have "fst b ! 23 = 0" "fst b ! 24 = 0" "snd b ! 23 = 0" "snd b ! 24 = 0"
      using back_index_above [of "fst b" 25] back_index_above [of "snd b" 25] by auto
    from CalculateRaceInputs_exact(1) [OF wf this] CalculateRaceInputs_exact(2) [OF wf] r show ?thesis
      by (auto simp: class_inputs_def class_input_count_def)
  next
    assume r: "pc = CLASS_CRASHED"
    obtain base where base: "baseInputs b = Some base" "length base = NUM_PRUNING_INPUTS"
      using baseInputs_exact(1,2) [OF wf] playable_counts [OF b] by blast
    have "?i + ?j > 22" using ij r by simp
    note half = contact_half_inputs [OF b ij(1,2) this]
    obtain x y where "half_after (menOffAll (snd b)) (snd b) (fst b) = Some x" "half_after (menOffAll (fst b)) (fst b) (snd b) = Some y"
      using half by blast
    with base half_after_length menOff_exact(1) r show ?thesis
      by (auto simp: class_inputs_def class_input_count_def CalculateCrashedInputs_def input_counts)
  next
    assume r: "pc = CLASS_CONTACT"
    obtain base where base: "baseInputs b = Some base" "length base = NUM_PRUNING_INPUTS"
      using baseInputs_exact(1,2) [OF wf] playable_counts [OF b] by blast
    have "men_off (fst b) \<le> 8" "men_off (snd b) \<le> 8"
      using not_crashed_many [of "fst b"] not_crashed_many [of "snd b"] ij r b len by (auto simp: playable_def)
    then obtain m0 m1 where m: "menOffNonCrashed (fst b) = Some m0" "menOffNonCrashed (snd b) = Some m1"
      using menOff_exact(3) by blast
    have "?i + ?j > 22" using ij r by simp
    note half = contact_half_inputs [OF b ij(1,2) this]
    obtain x y where "half_after m0 (snd b) (fst b) = Some x" "half_after m1 (fst b) (snd b) = Some y"
      using half by blast
    with base m half_after_length menOff_exact(2) r show ?thesis
      by (auto simp: class_inputs_def class_input_count_def CalculateContactInputs_def input_counts)
  qed
qed

lemma class_inputs_inject:
  assumes "wf_board b" "wf_board c" "class_inputs pc b = Some xs" "class_inputs pc c = Some xs"
  shows "b = c"
proof -
  have base: "\<exists>x y. baseInputs d = Some x \<and> xs = x @ y" if "class_inputs pc d = Some xs" "pc \<noteq> CLASS_RACE" for d
    using that by (auto simp: class_inputs_def CalculateCrashedInputs_def CalculateContactInputs_def bind_eq_Some_conv split: if_splits)
  show ?thesis
  proof (cases "pc = CLASS_RACE")
    case True
    then show ?thesis using assms CalculateRaceInputs_exact(3) [OF assms(1)] by (simp add: class_inputs_def)
  next
    case False
    with base assms(3,4) obtain x y x' y' where
      x: "baseInputs b = Some x" "baseInputs c = Some x'" "x @ y = x' @ y'" by metis
    then have "length x = length x'" using assms(1,2) baseInputs_exact(2) by metis
    then show ?thesis using x baseInputs_exact(3) [OF assms(1)] assms(2) by auto
  qed
qed


text \<open>The two starting positions are classified for the contact network.\<close>

definition nack_board :: TanBoard where "nack_board = InitBoard VARIATION_NACKGAMMON"
definition start_board :: TanBoard where "start_board = InitBoard VARIATION_STANDARD"

lemma starts_playable: "playable start_board" "playable nack_board"
proof -
  have "list_all (\<lambda>b. list_all (\<lambda>i. fst b ! (23 - i) = 0 \<or> snd b ! i = 0) [0..<24] \<and>
      length (fst b) = 25 \<and> length (snd b) = 25 \<and> chequers (fst b) = 15 \<and> chequers (snd b) = 15) [start_board, nack_board]"
    by code_simp
  then show "playable start_board" "playable nack_board"
    by (simp_all add: playable_def no_shared_def wf_board_def list_all_iff)
qed


end
