(* ===== verification/Neural_Net.thy ===== *)
theory Neural_Net
  imports Complex_Main Gnubg_Prelude
begin

text \<open>
  The networks (lib/neuralnet.c, lib/sigmoid.h), as the build without SIMD has them: the tabulated
  sigmoid, the evaluation of a network with one hidden layer, and the incremental evaluation that
  starts from the sums of an earlier input.  Floats are real numbers.
\<close>

section \<open>The sigmoid\<close>

text \<open>\<open>e[k] = exp(k/10) / 10\<close>, as the digits of the table give it.\<close>

definition e_digits :: "(int \<times> nat) list" where
  "e_digits =
  [(10000000000000001, 17), (11051709180756478, 17), (12214027581601698, 17), (13498588075760032, 17),
   (14918246976412702, 17), (16487212707001281, 17), (18221188003905089, 17), (20137527074704767, 17),
   (22255409284924679, 17), (245960311115695, 15), (27182818284590454, 17), (30041660239464335, 17),
   (33201169227365473, 17), (36692966676192446, 17), (40551999668446748, 17), (44816890703380646, 17),
   (49530324243951152, 17), (54739473917271997, 17), (60496474644129461, 17), (66858944422792688, 17),
   (73890560989306509, 17), (81661699125676512, 17), (90250134994341225, 17), (99741824548147184, 17),
   (11023176380641602, 16), (12182493960703473, 16), (13463738035001691, 16), (14879731724872838, 16),
   (16444646771097049, 16), (1817414536944306, 15), (20085536923187668, 16), (22197951281441637, 16),
   (24532530197109352, 16), (27112638920657881, 16), (29964100047397011, 16), (33115451958692312, 16),
   (36598234443677988, 16), (40447304360067395, 16), (44701184493300818, 16), (49402449105530168, 16),
   (54598150033144233, 16), (6034028759736195, 15), (66686331040925158, 16), (73699793699595784, 16),
   (81450868664968148, 16), (90017131300521811, 16), (99484315641933776, 16), (10994717245212353, 15),
   (12151041751873485, 15), (13428977968493552, 15), (14841315910257659, 15), (16402190729990171, 15),
   (18127224187515122, 15), (20033680997479166, 15), (22140641620418716, 15), (24469193226422039, 15),
   (27042640742615255, 15), (29886740096706028, 15), (33029955990964865, 15), (36503746786532886, 15),
   (4034287934927351, 14), (44585777008251675, 15), (49274904109325632, 15), (54457191012592901, 15),
   (60184503787208222, 15), (66514163304436181, 15), (73509518924197266, 15), (8124058251675433, 14),
   (89784729165041753, 15), (99227471560502622, 15), (10966331584284585, 14), (12119670744925763, 14),
   (1339430764394418, 13), (14802999275845451, 14), (16359844299959269, 14), (18080424144560632, 14),
   (19981958951041173, 14), (22083479918872089, 14), (24406019776244983, 14), (26972823282685101, 14),
   (29809579870417281, 14), (32944680752838406, 14), (36409503073323521, 14), (40238723938223131, 14),
   (4447066747699858, 13), (49147688402991344, 14), (54316595913629783, 14), (60029122172610175, 14),
   (66342440062778894, 14), (73319735391559948, 14), (8103083927575384, 13), (89552927034825075, 14),
   (98971290587439091, 14), (10938019208165192, 13), (12088380730216988, 13), (13359726829661872, 13),
   (14764781565577266, 13), (16317607198015421, 13), (18033744927828525, 13), (19930370438230298, 13),
   (19930370438230298, 13)]"

definition e_table :: "real list" where
  "e_table = map (\<lambda>(n, d). of_int n / 10 ^ d) e_digits"

definition sigmoid :: "real \<Rightarrow> real" where
  "sigmoid xin =
     (if xin \<ge> 0 then
        (if xin < 10 then
           let x1 = 10 * xin; i = nat \<lfloor>x1\<rfloor> in 1 / (1 + e_table ! i * ((10 - real i) + x1))
         else 1 / (19931370438230298 / 10 ^ 12))
      else
        (if xin > - 10 then
           let x1 = - 10 * xin; i = nat \<lfloor>x1\<rfloor> in 1 - 1 / (1 + e_table ! i * ((10 - real i) + x1))
         else (19930370438230298 / 10 ^ 12) / (19931370438230298 / 10 ^ 12)))"

text \<open>From one entry of the table to the next the factor is \<open>exp (1 / 10)\<close>, to eight digits.\<close>

abbreviation step_lo :: real where "step_lo \<equiv> 110517091 / 10 ^ 8"
abbreviation step_hi :: real where "step_hi \<equiv> 110517092 / 10 ^ 8"

definition digits_step :: "(int \<times> nat) \<times> (int \<times> nat) \<Rightarrow> bool" where
  "digits_step = (\<lambda>((m, c), (n, d)). 110517091 * m * 10 ^ d \<le> n * 10 ^ (c + 8) \<and> n * 10 ^ (c + 8) \<le> 110517092 * m * 10 ^ d)"

lemma e_digits_steps: "list_all digits_step (zip (take 99 e_digits) (tl e_digits))"
  by code_simp

lemma e_table_length: "length e_table = 101" "e_table ! 0 = 10000000000000001 / 10 ^ 17"
  by (simp_all add: e_table_def e_digits_def)

lemma digits_step_real:
  assumes "digits_step ((m, c), (n, d))"
  shows "step_lo * (of_int m / 10 ^ c) \<le> of_int n / 10 ^ d" "of_int n / 10 ^ d \<le> step_hi * (of_int m / 10 ^ c)"
proof -
  have "real_of_int (110517091 * m * 10 ^ d) \<le> real_of_int (n * 10 ^ (c + 8))"
    "real_of_int (n * 10 ^ (c + 8)) \<le> real_of_int (110517092 * m * 10 ^ d)"
    using assms unfolding of_int_le_iff by (simp_all add: digits_step_def)
  then have "110517091 * of_int m * 10 ^ d \<le> of_int n * (10 ^ c * 10 ^ 8 :: real)"
    "of_int n * (10 ^ c * 10 ^ 8 :: real) \<le> 110517092 * of_int m * 10 ^ d"
    by (simp_all only: of_int_mult of_int_power of_int_numeral power_add)
  then show "step_lo * (of_int m / 10 ^ c) \<le> of_int n / 10 ^ d" "of_int n / 10 ^ d \<le> step_hi * (of_int m / 10 ^ c)"
    by (simp_all add: field_simps)
qed

lemma e_table_step:
  assumes "i < 99"
  shows "step_lo * e_table ! i \<le> e_table ! Suc i" "e_table ! Suc i \<le> step_hi * e_table ! i"
proof -
  obtain m c n d where e: "e_digits ! i = (m, c)" "e_digits ! Suc i = (n, d)" by (metis surj_pair)
  have l: "length e_digits = 101" by (simp add: e_digits_def)
  have "zip (take 99 e_digits) (tl e_digits) ! i = ((m, c), (n, d))" using assms l e by (simp add: nth_tl)
  moreover have "i < length (zip (take 99 e_digits) (tl e_digits))" using assms l by simp
  ultimately have "digits_step ((m, c), (n, d))" using e_digits_steps by (metis list_all_length)
  from digits_step_real [OF this] show "step_lo * e_table ! i \<le> e_table ! Suc i" "e_table ! Suc i \<le> step_hi * e_table ! i"
    using assms l e by (simp_all add: e_table_def)
qed

lemma e_table_power: "i < 100 \<Longrightarrow> step_lo ^ i * e_table ! 0 \<le> e_table ! i \<and> e_table ! i \<le> step_hi ^ i * e_table ! 0"
proof (induction i)
  case (Suc i)
  then have IH: "step_lo ^ i * e_table ! 0 \<le> e_table ! i" "e_table ! i \<le> step_hi ^ i * e_table ! 0" by simp_all
  have "step_lo * (step_lo ^ i * e_table ! 0) \<le> step_lo * e_table ! i" using IH by (intro mult_left_mono) simp_all
  moreover have "step_hi * e_table ! i \<le> step_hi * (step_hi ^ i * e_table ! 0)" using IH by (intro mult_left_mono) simp_all
  moreover have "i < 99" using Suc.prems by simp
  note e_table_step [OF this]
  ultimately show ?case unfolding power_Suc mult.assoc by linarith
qed simp

lemma exp_tenth: "step_lo \<le> exp (1 / 10)" "exp (1 / 10) \<le> step_hi"
proof -
  obtain t where t: "\<bar>t\<bar> \<le> \<bar>1 / 10 :: real\<bar>" "exp (1 / 10) = (\<Sum>m<7. (1 / 10) ^ m / fact m) + exp t / fact 7 * (1 / 10) ^ 7"
    using Maclaurin_exp_le [of "1 / 10" 7] by blast
  have "exp t \<le> exp 1" using t(1) by simp
  also have "exp (1 :: real) \<le> 3" by (rule exp_le)
  finally have e: "0 < exp t" "exp t \<le> 3" by simp_all
  then show "step_lo \<le> exp (1 / 10)" "exp (1 / 10) \<le> step_hi"
    unfolding t(2) by (simp_all add: lessThan_Suc eval_nat_numeral field_simps)
qed

lemma e_table_exp:
  assumes "i < 100"
  shows "999998 / 10 ^ 6 * exp (real i / 10) \<le> 10 * e_table ! i" "10 * e_table ! i \<le> 1000002 / 10 ^ 6 * exp (real i / 10)"
proof -
  let ?E = "exp (real i / 10)"
  have E: "?E = exp (1 / 10) ^ i" by (simp add: exp_of_nat_mult [symmetric])
  have lo: "step_lo ^ i \<le> ?E" and hi: "?E \<le> step_hi ^ i"
    unfolding E by (rule power_mono; use exp_tenth in simp)+
  have b: "step_lo ^ i * e_table ! 0 \<le> e_table ! i" "e_table ! i \<le> step_hi ^ i * e_table ! 0"
    using e_table_power [OF assms] by simp_all
  have "999999 / 10 ^ 6 \<le> 1 + real i * (step_lo / step_hi - 1)" using assms by simp
  also have "\<dots> \<le> (1 + (step_lo / step_hi - 1)) ^ i" by (rule Bernoulli_inequality) simp
  also have "1 + (step_lo / step_hi - 1) = step_lo / step_hi" by (rule add_diff_eq [THEN trans]) simp
  also have "(step_lo / step_hi) ^ i = step_lo ^ i / step_hi ^ i" by (rule power_divide)
  finally have r: "999999 / 10 ^ 6 * step_hi ^ i \<le> step_lo ^ i" by (rule pos_le_divide_eq [THEN iffD1, rotated]) simp
  have e0: "10 * e_table ! 0 = 10000000000000001 / 10 ^ 16" by (simp add: e_table_length)
  have "999998 / 10 ^ 6 * ?E \<le> 999999 / 10 ^ 6 * ?E" by (intro mult_right_mono) simp_all
  also have "\<dots> \<le> 999999 / 10 ^ 6 * step_hi ^ i" using hi by (intro mult_left_mono) simp_all
  also have "\<dots> \<le> step_lo ^ i" by (rule r)
  also have "\<dots> \<le> step_lo ^ i * (10 * e_table ! 0)" unfolding e0 by simp
  also have "\<dots> \<le> 10 * e_table ! i" using b(1) by simp
  finally show "999998 / 10 ^ 6 * ?E \<le> 10 * e_table ! i" .
  have "10 * e_table ! i \<le> step_hi ^ i * (10 * e_table ! 0)" using b(2) by simp
  also have "\<dots> \<le> step_hi ^ i * (10000005 / 10 ^ 7)" unfolding e0 by (intro mult_left_mono) simp_all
  also have "\<dots> \<le> 1000002 / 10 ^ 6 * (999999 / 10 ^ 6 * step_hi ^ i)" by simp
  also have "\<dots> \<le> 1000002 / 10 ^ 6 * step_lo ^ i" using r by (intro mult_left_mono) simp_all
  also have "\<dots> \<le> 1000002 / 10 ^ 6 * ?E" using lo by (intro mult_left_mono) simp_all
  finally show "10 * e_table ! i \<le> 1000002 / 10 ^ 6 * ?E" .
qed

text \<open>What stands for \<open>exp x\<close> below 10.\<close>

definition e_of :: "real \<Rightarrow> real" where
  "e_of x = e_table ! nat \<lfloor>10 * x\<rfloor> * ((10 - real (nat \<lfloor>10 * x\<rfloor>)) + 10 * x)"

lemma e_of_exp:
  assumes "0 \<le> x" "x < 10"
  shows "99 / 100 * exp x \<le> e_of x" "e_of x \<le> 101 / 100 * exp x"
proof -
  define i t where "i = nat \<lfloor>10 * x\<rfloor>" "t = x - real i / 10"
  have i: "real i \<le> 10 * x" "10 * x < real i + 1" using assms(1) unfolding i_t_def by linarith+
  with assms have i100: "i < 100" and t: "0 \<le> t" "t \<le> 1 / 10" by (simp_all add: i_t_def(2))
  let ?E = "exp (real i / 10)"
  have e: "e_of x = 10 * e_table ! i * (1 + t)" by (simp add: e_of_def i_t_def algebra_simps)
  have x: "exp x = ?E * exp t" by (simp add: i_t_def(2) exp_add [symmetric])
  have t1: "1 + t \<le> exp t" by (rule exp_ge_add_one_self)
  have "exp t \<le> 1 + t + t\<^sup>2" using t by (intro exp_bound) simp_all
  moreover have "t\<^sup>2 \<le> t * (1 / 10)" using t unfolding power2_eq_square by (intro mult_left_mono) simp_all
  ultimately have t2: "exp t \<le> 101 / 100 * (1 + t)" using t by simp
  have "99 / 100 * exp x \<le> 99 / 100 * (?E * (101 / 100 * (1 + t)))" unfolding x using t2 by (intro mult_left_mono) simp_all
  also have "\<dots> \<le> 999998 / 10 ^ 6 * ?E * (1 + t)" using t by simp
  also have "\<dots> \<le> 10 * e_table ! i * (1 + t)" using e_table_exp(1) [OF i100] t by (intro mult_right_mono) simp_all
  finally show "99 / 100 * exp x \<le> e_of x" unfolding e .
  have "10 * e_table ! i * (1 + t) \<le> 1000002 / 10 ^ 6 * ?E * (1 + t)" using e_table_exp(2) [OF i100] t by (intro mult_right_mono) simp_all
  also have "\<dots> \<le> 1000002 / 10 ^ 6 * ?E * exp t" using t1 by (intro mult_left_mono) simp_all
  also have "\<dots> \<le> 101 / 100 * exp x" unfolding x by simp
  finally show "e_of x \<le> 101 / 100 * exp x" unfolding e .
qed

lemma e_of_strict_mono:
  assumes "0 \<le> x" "x < y" "y < 10"
  shows "e_of x < e_of y"
proof -
  let ?i = "\<lambda>z. nat \<lfloor>10 * z\<rfloor>"
  have i: "real (?i z) \<le> 10 * z" "10 * z < real (?i z) + 1" "?i z < 100" if "0 \<le> z" "z < 10" for z
    using that by linarith+
  have pos: "0 < e_table ! k" if "k < 100" for k
  proof -
    have "0 < 999998 / 10 ^ 6 * exp (real k / 10)" by simp
    with e_table_exp(1) [OF that] have "0 < 10 * e_table ! k" by (rule less_le_trans [rotated])
    then show ?thesis by simp
  qed
  have y0: "0 \<le> y" using assms by simp
  have "?i x \<le> ?i y" using assms by (intro nat_mono floor_mono) simp
  then consider "?i x = ?i y" | "?i x < ?i y" by fastforce
  then show ?thesis
  proof cases
    case 1
    then show ?thesis unfolding e_of_def using assms pos [OF i(3) [OF y0 assms(3)]] by simp
  next
    case 2
    have up: "11 * e_table ! k \<le> 10 * e_table ! Suc k" if "Suc k < 100" for k
      using e_table_step(1) [of k] that pos [of k] by simp
    have less: "10 * e_table ! j \<le> 10 * e_table ! k" if "j \<le> k" "k < 100" for j k
      using that
    proof (induction k rule: dec_induct)
      case (step k)
      then show ?case using up [of k] pos [of k] by simp
    qed simp
    have x10: "x < 10" using assms by simp
    have "e_of x < e_table ! ?i x * 11"
      unfolding e_of_def using i(2) [OF assms(1) x10] pos [OF i(3) [OF assms(1) x10]]
      by (intro mult_strict_left_mono) linarith+
    also have "\<dots> \<le> 10 * e_table ! Suc (?i x)" using up [of "?i x"] 2 i(3) [OF y0 assms(3)] by simp
    also have "\<dots> \<le> 10 * e_table ! ?i y" by (rule less [OF Suc_leI [OF 2] i(3) [OF y0 assms(3)]])
    also have "\<dots> \<le> e_of y"
      unfolding e_of_def using i(1) [OF y0 assms(3)] pos [OF i(3) [OF y0 assms(3)]] by simp
    finally show ?thesis .
  qed
qed

lemma sigmoid_simps:
  "0 \<le> x \<Longrightarrow> x < 10 \<Longrightarrow> sigmoid x = 1 / (1 + e_of x)"
  "10 \<le> x \<Longrightarrow> sigmoid x = 1 / (19931370438230298 / 10 ^ 12)"
  "x < 0 \<Longrightarrow> sigmoid x = 1 - sigmoid (- x)"
  by (simp_all add: sigmoid_def e_of_def Let_def)

lemma logistic_close:
  fixes y E :: real
  assumes "0 < E" "99 / 100 * E \<le> y" "y \<le> 101 / 100 * E"
  shows "\<bar>1 / (1 + y) - 1 / (1 + E)\<bar> \<le> 3 / 1000"
proof -
  have y: "0 < y" using assms by simp
  have "1 / (1 + y) - 1 / (1 + E) = (E - y) / ((1 + y) * (1 + E))" using y assms(1) by (simp add: field_simps)
  then have "\<bar>1 / (1 + y) - 1 / (1 + E)\<bar> = \<bar>E - y\<bar> / ((1 + y) * (1 + E))" using y assms(1) by simp
  also have "\<bar>E - y\<bar> \<le> E / 100" by (rule abs_leI; use assms in linarith)
  then have "\<bar>E - y\<bar> / ((1 + y) * (1 + E)) \<le> E / 100 / ((1 + y) * (1 + E))" using y assms(1) by (intro divide_right_mono) simp_all
  also have "\<dots> \<le> 3 / 1000"
  proof -
    have "0 \<le> (E - 1)\<^sup>2" by simp
    then have "4 * E \<le> (1 + E) * (1 + E)" by (simp add: power2_eq_square algebra_simps)
    moreover have "99 / 100 * (1 + E) * (1 + E) \<le> (1 + y) * (1 + E)"
      by (rule mult_right_mono) (use assms(1,2) in simp_all)
    ultimately have "E \<le> 3 / 10 * ((1 + y) * (1 + E))" unfolding mult.assoc using assms(1) by linarith
    then show ?thesis using y assms(1) by (simp add: divide_le_eq mult.commute)
  qed
  finally show ?thesis .
qed

lemma sigmoid_nonneg:
  assumes "0 \<le> x"
  shows "0 < sigmoid x \<and> sigmoid x < 1 \<and> \<bar>sigmoid x - 1 / (1 + exp x)\<bar> \<le> 3 / 1000"
proof (cases "x < 10")
  case True
  note e = e_of_exp [OF assms True]
  then have "0 < e_of x" using exp_gt_zero [of x] by linarith
  then show ?thesis using sigmoid_simps(1) [OF assms True] logistic_close [OF exp_gt_zero e] by simp
next
  case False
  have "(1024 :: real) = 2 ^ 10" by simp
  also have "\<dots> \<le> exp 1 ^ 10" using exp_ge_add_one_self [of 1] by (intro power_mono) simp_all
  also have "\<dots> = exp 10" by (simp add: exp_of_nat_mult [symmetric])
  also have "\<dots> \<le> exp x" using False by simp
  finally have "0 < 1 / (1 + exp x)" "1 / (1 + exp x) \<le> 1 / 1000" by (simp_all add: field_simps add_pos_pos)
  moreover have "0 < sigmoid x" "sigmoid x \<le> 1 / 1000" using False by (simp_all add: sigmoid_simps)
  ultimately show ?thesis unfolding abs_le_iff by linarith
qed

lemma sigmoid_close: "0 < sigmoid x \<and> sigmoid x < 1 \<and> \<bar>sigmoid x - 1 / (1 + exp x)\<bar> \<le> 3 / 1000"
proof (cases "0 \<le> x")
  case False
  have "1 + exp x \<noteq> 0" using exp_gt_zero [of x] by linarith
  then have "1 / (1 + exp x) = 1 - 1 / (1 + exp (- x))" by (simp add: exp_minus field_simps)
  then have "sigmoid x - 1 / (1 + exp x) = - (sigmoid (- x) - 1 / (1 + exp (- x)))"
    using sigmoid_simps(3) [of x] False by linarith
  then have "\<bar>sigmoid x - 1 / (1 + exp x)\<bar> = \<bar>sigmoid (- x) - 1 / (1 + exp (- x))\<bar>" by (simp only: abs_minus_cancel)
  then show ?thesis using sigmoid_nonneg [of "- x"] sigmoid_simps(3) [of x] False by simp
qed (rule sigmoid_nonneg)

lemma sigmoid_range: "0 < sigmoid x \<and> sigmoid x < 1"
  using sigmoid_close [of x] by simp

text \<open>C32: The tabulated sigmoid lies strictly between 0 and 1, differs from the logistic function
  \<open>1 / (1 + exp x)\<close> it stands for by at most 0.003 everywhere, and falls strictly between -10 and 10.\<close>

theorem sigmoid_accuracy:
  "0 < sigmoid x \<and> sigmoid x < 1 \<and> \<bar>sigmoid x - 1 / (1 + exp x)\<bar> \<le> 3 / 1000 \<and>
   strict_antimono_on {- 10<..<10} sigmoid"
proof (intro conjI)
  show "0 < sigmoid x" "sigmoid x < 1" "\<bar>sigmoid x - 1 / (1 + exp x)\<bar> \<le> 3 / 1000"
    using sigmoid_close [of x] by simp_all
  have pos: "sigmoid v < sigmoid u" if "0 \<le> u" "u < v" "v < 10" for u v
  proof -
    have "0 < 99 / 100 * exp u" by simp
    also have "\<dots> \<le> e_of u" using that by (intro e_of_exp) simp_all
    finally have "0 < e_of u" .
    with e_of_strict_mono [OF that] have "1 / (1 + e_of v) < 1 / (1 + e_of u)" by (intro divide_strict_left_mono mult_pos_pos) simp_all
    then show ?thesis using that by (simp add: sigmoid_simps)
  qed
  have half: "sigmoid u \<le> 1 / 2" if "0 \<le> u" "u < 10" for u
  proof -
    have "sigmoid 0 \<le> 1 / 2" by (simp add: sigmoid_simps e_of_def e_table_length)
    then show ?thesis using pos [of 0 u] that by (cases "u = 0") auto
  qed
  show "strict_antimono_on {- 10<..<10} sigmoid"
  proof (intro monotone_onI)
    fix u v :: real assume uv: "u \<in> {- 10<..<10}" "v \<in> {- 10<..<10}" "u < v"
    consider "0 \<le> u" | "u < 0" "0 \<le> v" | "v < 0" using uv(3) by linarith
    then show "sigmoid v < sigmoid u"
    proof cases
      case 1
      then show ?thesis using uv by (intro pos) simp_all
    next
      case 2
      have "sigmoid (- u) < sigmoid 0" using 2 uv by (intro pos) simp_all
      also have "sigmoid 0 \<le> 1 / 2" by (rule half) simp_all
      finally have "1 / 2 < sigmoid u" using 2 by (simp add: sigmoid_simps(3))
      then show ?thesis using half [of v] 2 uv by simp
    next
      case 3
      then have "sigmoid (- u) < sigmoid (- v)" using uv by (intro pos) simp_all
      then show ?thesis using 3 uv by (simp add: sigmoid_simps(3))
    qed
  qed
qed

text \<open>From 10 on the value is that of 9.9, so the function jumps up there.\<close>

lemma sigmoid_rises: "sigmoid (999 / 100) < sigmoid 10"
  by (simp add: sigmoid_def e_table_def e_digits_def)

section \<open>Networks\<close>

record neuralnet =
  cInput :: nat
  cHidden :: nat
  cOutput :: nat
  rBetaHidden :: real
  rBetaOutput :: real
  arHiddenWeight :: "real list"
  arOutputWeight :: "real list"
  arHiddenThreshold :: "real list"
  arOutputThreshold :: "real list"

text \<open>
  The loops over the inputs.  \<open>w\<close> is what \<open>prWeight\<close> points at, \<open>ar\<close> the activity of the hidden
  nodes; an input of 0 is skipped, one of 1 (or \<open>- 1\<close>) is not multiplied with.
\<close>

fun add_inputs :: "nat \<Rightarrow> real list \<Rightarrow> real list \<Rightarrow> real list \<Rightarrow> real list" where
  "add_inputs n w [] ar = ar"
| "add_inputs n w (ari # inputs) ar =
     add_inputs n (drop n w) inputs
       (if ari = 0 then ar
        else if ari = 1 then map2 (\<lambda>r p. r + p) ar (take n w)
        else map2 (\<lambda>r p. r + p * ari) ar (take n w))"

fun add_differences :: "nat \<Rightarrow> real list \<Rightarrow> real list \<Rightarrow> real list \<Rightarrow> real list" where
  "add_differences n w [] ar = ar"
| "add_differences n w (ari # inputs) ar =
     add_differences n (drop n w) inputs
       (if ari = 0 then ar
        else if ari = 1 then map2 (\<lambda>r p. r + p) ar (take n w)
        else if ari = - 1 then map2 (\<lambda>r p. r - p) ar (take n w)
        else map2 (\<lambda>r p. r + p * ari) ar (take n w))"

definition hidden_sums :: "neuralnet \<Rightarrow> real list \<Rightarrow> real list" where
  "hidden_sums pnn arInput =
     add_inputs (cHidden pnn) (arHiddenWeight pnn) (take (cInput pnn) arInput) (take (cHidden pnn) (arHiddenThreshold pnn))"

definition net_outputs_from :: "neuralnet \<Rightarrow> real list \<Rightarrow> real list" where
  "net_outputs_from pnn ar =
     (let ar = map (\<lambda>r. sigmoid (- rBetaHidden pnn * r)) ar in
      map (\<lambda>i. sigmoid (- rBetaOutput pnn *
            fold (\<lambda>j r. r + ar ! j * arOutputWeight pnn ! (i * cHidden pnn + j)) [0..<cHidden pnn] (arOutputThreshold pnn ! i)))
        [0..<cOutput pnn])"

text \<open>The outputs and the sums that are saved.\<close>

definition Evaluate_net :: "neuralnet \<Rightarrow> real list \<Rightarrow> real list \<times> real list" where
  "Evaluate_net pnn arInput = (let ar = hidden_sums pnn arInput in (net_outputs_from pnn ar, ar))"

definition EvaluateFromBase :: "neuralnet \<Rightarrow> real list \<Rightarrow> real list \<Rightarrow> real list" where
  "EvaluateFromBase pnn arInputDif ar =
     net_outputs_from pnn (add_differences (cHidden pnn) (arHiddenWeight pnn) (take (cInput pnn) arInputDif) ar)"

datatype NNEvalType = NNEVAL_NONE | NNEVAL_SAVE | NNEVAL_FROMBASE
datatype NNStateType = NNSTATE_NONE | NNSTATE_INCREMENTAL | NNSTATE_DONE

record NNState =
  nn_state :: NNStateType
  savedBase :: "real list"
  savedIBase :: "real list"
  cSavedIBase :: nat

fun NNevalAction :: "NNState option \<Rightarrow> NNEvalType \<times> NNState option" where
  "NNevalAction None = (NNEVAL_NONE, None)"
| "NNevalAction (Some st) =
     (case nn_state st of
        NNSTATE_NONE \<Rightarrow> (NNEVAL_NONE, Some st)
      | NNSTATE_INCREMENTAL \<Rightarrow> (NNEVAL_SAVE, Some (st\<lparr>nn_state := NNSTATE_DONE\<rparr>))
      | NNSTATE_DONE \<Rightarrow> (NNEVAL_FROMBASE, Some st))"

text \<open>\<open>memcpy\<close> to the front of an array.\<close>

definition copy_to :: "'a list \<Rightarrow> 'a list \<Rightarrow> 'a list" where
  "copy_to old new = new @ drop (length new) old"

text \<open>The outputs, the input array, which holds the differences after an incremental evaluation, and the state.\<close>

definition NeuralNetEvaluate ::
  "neuralnet \<Rightarrow> real list \<Rightarrow> NNState option \<Rightarrow> real list \<times> real list \<times> NNState option" where
  "NeuralNetEvaluate pnn arInput pnState =
     (case NNevalAction pnState of
        (NNEVAL_SAVE, Some st) \<Rightarrow>
          let (arOutput, base) = Evaluate_net pnn arInput in
          (arOutput, arInput,
           Some (st\<lparr>cSavedIBase := cInput pnn, savedIBase := copy_to (savedIBase st) (take (cInput pnn) arInput),
                    savedBase := copy_to (savedBase st) base\<rparr>))
      | (NNEVAL_FROMBASE, Some st) \<Rightarrow>
          if cSavedIBase st \<noteq> cInput pnn then (fst (Evaluate_net pnn arInput), arInput, Some st)
          else
            let dif = map2 (\<lambda>r s. if r \<noteq> s then r - s else 0) (take (cInput pnn) arInput) (savedIBase st)
            in (EvaluateFromBase pnn dif (take (cHidden pnn) (savedBase st)), dif @ drop (cInput pnn) arInput, Some st)
      | (_, pnState) \<Rightarrow> (fst (Evaluate_net pnn arInput), arInput, pnState))"

section \<open>Incremental evaluation\<close>

definition wf_net :: "neuralnet \<Rightarrow> bool" where
  "wf_net pnn \<longleftrightarrow> 0 < cInput pnn \<and> length (arHiddenWeight pnn) = cInput pnn * cHidden pnn \<and>
     length (arOutputWeight pnn) = cOutput pnn * cHidden pnn \<and>
     length (arHiddenThreshold pnn) = cHidden pnn \<and> length (arOutputThreshold pnn) = cOutput pnn"

text \<open>Both loops add the weighted inputs.\<close>

definition weighted :: "nat \<Rightarrow> real list \<Rightarrow> real list \<Rightarrow> nat \<Rightarrow> real" where
  "weighted n w xs j = (\<Sum>i<length xs. w ! (i * n + j) * xs ! i)"

lemma weighted_Cons:
  "n \<le> length w \<Longrightarrow> weighted n w (x # xs) j = w ! j * x + weighted n (drop n w) xs j"
  unfolding weighted_def length_Cons sum.lessThan_Suc_shift by (simp add: add.assoc)

lemma add_inputs_sum:
  "length w = length xs * n \<Longrightarrow> length ar = n \<Longrightarrow>
   length (add_inputs n w xs ar) = n \<and> (\<forall>j<n. add_inputs n w xs ar ! j = ar ! j + weighted n w xs j)"
proof (induction xs arbitrary: w ar)
  case (Cons x xs)
  let ?ar = "if x = 0 then ar else if x = 1 then map2 (\<lambda>r p. r + p) ar (take n w) else map2 (\<lambda>r p. r + p * x) ar (take n w)"
  have w: "length (drop n w) = length xs * n" "n \<le> length w" using Cons.prems by simp_all
  have ar: "length ?ar = n" "\<forall>j<n. ?ar ! j = ar ! j + w ! j * x" using Cons.prems w by auto
  from Cons.IH [OF w(1) ar(1)] show ?case
    using ar(2) by (simp only: add_inputs.simps weighted_Cons [OF w(2)]) (simp add: add.assoc)
qed (simp add: weighted_def)

lemma add_differences_sum:
  "length w = length xs * n \<Longrightarrow> length ar = n \<Longrightarrow>
   length (add_differences n w xs ar) = n \<and> (\<forall>j<n. add_differences n w xs ar ! j = ar ! j + weighted n w xs j)"
proof (induction xs arbitrary: w ar)
  case (Cons x xs)
  let ?ar = "if x = 0 then ar else if x = 1 then map2 (\<lambda>r p. r + p) ar (take n w)
    else if x = - 1 then map2 (\<lambda>r p. r - p) ar (take n w) else map2 (\<lambda>r p. r + p * x) ar (take n w)"
  have w: "length (drop n w) = length xs * n" "n \<le> length w" using Cons.prems by simp_all
  have ar: "length ?ar = n" "\<forall>j<n. ?ar ! j = ar ! j + w ! j * x" using Cons.prems w by auto
  from Cons.IH [OF w(1) ar(1)] show ?case
    using ar(2) by (simp only: add_differences.simps weighted_Cons [OF w(2)]) (simp add: add.assoc)
qed (simp add: weighted_def)

lemma EvaluateFromBase_eq:
  assumes "wf_net pnn" "length xs = cInput pnn" "length ss = cInput pnn"
  shows "EvaluateFromBase pnn (map2 (\<lambda>r s. if r \<noteq> s then r - s else 0) xs ss) (hidden_sums pnn ss) =
    fst (Evaluate_net pnn xs)"
proof -
  let ?n = "cHidden pnn" and ?w = "arHiddenWeight pnn" and ?t = "arHiddenThreshold pnn"
  let ?d = "map2 (\<lambda>r s. if r \<noteq> s then r - s else 0) xs ss"
  have lw: "length ?w = length xs * ?n" "length ?w = length ss * ?n" "length ?w = length ?d * ?n" and lt: "length ?t = ?n"
    using assms by (simp_all add: wf_net_def)
  have x: "length (hidden_sums pnn xs) = ?n" "\<forall>j<?n. hidden_sums pnn xs ! j = ?t ! j + weighted ?n ?w xs j"
    using add_inputs_sum [OF lw(1) lt] assms lt by (simp_all add: hidden_sums_def)
  have s: "length (hidden_sums pnn ss) = ?n" "\<forall>j<?n. hidden_sums pnn ss ! j = ?t ! j + weighted ?n ?w ss j"
    using add_inputs_sum [OF lw(2) lt] assms lt by (simp_all add: hidden_sums_def)
  have d: "weighted ?n ?w xs j = weighted ?n ?w ss j + weighted ?n ?w ?d j" for j
  proof -
    have "?w ! (i * ?n + j) * xs ! i = ?w ! (i * ?n + j) * ss ! i + ?w ! (i * ?n + j) * ?d ! i" if "i < cInput pnn" for i
    proof -
      have "?d ! i = xs ! i - ss ! i" using that assms by simp
      then show ?thesis by (simp only: right_diff_distrib)
    qed
    moreover have l: "length xs = cInput pnn" "length ss = cInput pnn" "length ?d = cInput pnn" using assms by simp_all
    ultimately show ?thesis unfolding weighted_def sum.distrib [symmetric] l by (intro sum.cong) (simp_all only: lessThan_iff)
  qed
  have "add_differences ?n ?w ?d (hidden_sums pnn ss) = hidden_sums pnn xs"
    using add_differences_sum [OF lw(3) s(1)] x s(2) d by (intro nth_equalityI) simp_all
  then show ?thesis using assms by (simp add: EvaluateFromBase_def Evaluate_net_def Let_def)
qed

text \<open>
  The states are shared: \<open>nnStates[0]\<close> belongs to the race network, but all three pruning networks, which
  have the same number of inputs, are evaluated with it, and the searches set its \<open>state\<close> at will.  Its
  saved sums always belong to its saved inputs, for the network of \<open>N\<close> that the number of inputs tells.
\<close>

definition state_ok :: "neuralnet set \<Rightarrow> NNState \<Rightarrow> bool" where
  "state_ok N st \<longleftrightarrow> (\<forall>p\<in>N. cSavedIBase st = cInput p \<longrightarrow> cInput p \<le> length (savedIBase st) \<and>
     take (cHidden p) (savedBase st) = hidden_sums p (take (cInput p) (savedIBase st)))"

definition fresh_NNState :: "nat \<Rightarrow> nat \<Rightarrow> NNState" where
  "fresh_NNState hidden input =
     \<lparr>nn_state = NNSTATE_INCREMENTAL, savedBase = replicate hidden 0, savedIBase = replicate input 0, cSavedIBase = 0\<rparr>"

definition sharing :: "neuralnet set \<Rightarrow> bool" where
  "sharing N \<longleftrightarrow> (\<forall>p\<in>N. wf_net p) \<and> (\<forall>p\<in>N. \<forall>q\<in>N. cInput p = cInput q \<longrightarrow> p = q)"

lemma fresh_state_ok: "sharing N \<Longrightarrow> state_ok N (fresh_NNState hidden input)"
  by (auto simp: sharing_def wf_net_def state_ok_def fresh_NNState_def)

lemma state_ok_state [simp]: "state_ok N (st\<lparr>nn_state := x\<rparr>) = state_ok N st"
  by (simp add: state_ok_def)

lemma length_hidden_sums: "wf_net p \<Longrightarrow> cInput p \<le> length xs \<Longrightarrow> length (hidden_sums p xs) = cHidden p"
  using add_inputs_sum [of "arHiddenWeight p" "take (cInput p) xs" "cHidden p" "arHiddenThreshold p"]
  by (simp add: hidden_sums_def wf_net_def)

lemma NeuralNetEvaluate_state:
  assumes N: "sharing N" "p \<in> N" and st: "state_ok N st" and xs: "cInput p \<le> length xs"
  shows "\<exists>xs' st'. NeuralNetEvaluate p xs (Some st) = (fst (Evaluate_net p xs), xs', Some st') \<and> state_ok N st'"
proof (cases "nn_state st")
  case NNSTATE_NONE
  then show ?thesis using st by (simp add: NeuralNetEvaluate_def)
next
  case NNSTATE_INCREMENTAL
  let ?st = "st\<lparr>nn_state := NNSTATE_DONE, cSavedIBase := cInput p, savedIBase := copy_to (savedIBase st) (take (cInput p) xs),
      savedBase := copy_to (savedBase st) (hidden_sums p xs)\<rparr>"
  have "length (hidden_sums p xs) = cHidden p" using N xs length_hidden_sums by (simp add: sharing_def)
  moreover have "q = p" if "q \<in> N" "cInput q = cInput p" for q using N that by (auto simp: sharing_def)
  ultimately have "state_ok N ?st"
    using xs by (auto simp: state_ok_def copy_to_def min_def hidden_sums_def)
  then show ?thesis using NNSTATE_INCREMENTAL
    by (auto simp: NeuralNetEvaluate_def Evaluate_net_def Let_def)
next
  case NNSTATE_DONE
  show ?thesis
  proof (cases "cSavedIBase st = cInput p")
    case True
    let ?xs = "take (cInput p) xs" and ?ss = "take (cInput p) (savedIBase st)"
    have ok: "cInput p \<le> length (savedIBase st)" "take (cHidden p) (savedBase st) = hidden_sums p ?ss"
      using st True N(2) by (auto simp: state_ok_def)
    have "zip ?xs (savedIBase st) = zip ?xs ?ss"
      using ok(1) xs by (intro nth_equalityI) simp_all
    moreover have "fst (Evaluate_net p ?xs) = fst (Evaluate_net p xs)"
      by (simp add: Evaluate_net_def hidden_sums_def Let_def)
    ultimately show ?thesis
      using NNSTATE_DONE True st ok EvaluateFromBase_eq [of p ?xs ?ss] N xs
      by (simp add: NeuralNetEvaluate_def sharing_def Let_def)
  qed (use NNSTATE_DONE st in \<open>simp add: NeuralNetEvaluate_def\<close>)
qed

datatype net_step = Set_state NNStateType | Run_net neuralnet "real list"

fun run_steps :: "NNState \<Rightarrow> net_step list \<Rightarrow> real list list" where
  "run_steps st [] = []"
| "run_steps st (Set_state x # steps) = run_steps (st\<lparr>nn_state := x\<rparr>) steps"
| "run_steps st (Run_net p xs # steps) =
     (case NeuralNetEvaluate p xs (Some st) of
        (ar, _, st') \<Rightarrow> ar # (case st' of None \<Rightarrow> [] | Some st' \<Rightarrow> run_steps st' steps))"

fun separate_runs :: "net_step list \<Rightarrow> real list list" where
  "separate_runs [] = []"
| "separate_runs (Set_state x # steps) = separate_runs steps"
| "separate_runs (Run_net p xs # steps) = fst (NeuralNetEvaluate p xs None) # separate_runs steps"

text \<open>
  A network that is not in \<open>N\<close> is evaluated with the state only while the state is \<open>NNSTATE_NONE\<close>, as the
  pruning networks for contact and crashed positions are.
\<close>

fun state_after :: "NNStateType \<Rightarrow> NNStateType" where
  "state_after NNSTATE_INCREMENTAL = NNSTATE_DONE"
| "state_after x = x"

fun steps_fit :: "neuralnet set \<Rightarrow> NNStateType \<Rightarrow> net_step list \<Rightarrow> bool" where
  "steps_fit N x [] \<longleftrightarrow> True"
| "steps_fit N x (Set_state y # steps) \<longleftrightarrow> steps_fit N y steps"
| "steps_fit N x (Run_net p xs # steps) \<longleftrightarrow>
     cInput p \<le> length xs \<and> (p \<in> N \<or> x = NNSTATE_NONE) \<and> steps_fit N (state_after x) steps"

lemma NeuralNetEvaluate_result:
  assumes "sharing N" "state_ok N st" "cInput p \<le> length xs" "p \<in> N \<or> nn_state st = NNSTATE_NONE"
  shows "\<exists>xs' st'. NeuralNetEvaluate p xs (Some st) = (fst (Evaluate_net p xs), xs', Some st') \<and> state_ok N st' \<and>
    nn_state st' = state_after (nn_state st)"
proof -
  have after: "NeuralNetEvaluate p xs (Some st) = (ar, xs', Some st') \<Longrightarrow> nn_state st' = state_after (nn_state st)" for ar xs' st'
    by (cases "nn_state st") (auto simp: NeuralNetEvaluate_def Let_def split: if_splits prod.splits)
  show ?thesis
  proof (cases "p \<in> N")
    case True
    from NeuralNetEvaluate_state [OF assms(1) this assms(2,3)] after show ?thesis by blast
  next
    case False
    then show ?thesis using assms by (simp add: NeuralNetEvaluate_def)
  qed
qed

lemma run_steps_separate:
  "sharing N \<Longrightarrow> state_ok N st \<Longrightarrow> steps_fit N (nn_state st) steps \<Longrightarrow> run_steps st steps = separate_runs steps"
proof (induction st steps rule: run_steps.induct)
  case (3 st p xs steps)
  then obtain xs' st' where run: "NeuralNetEvaluate p xs (Some st) = (fst (Evaluate_net p xs), xs', Some st')" "state_ok N st'"
    "nn_state st' = state_after (nn_state st)"
    using NeuralNetEvaluate_result [of N st p xs] by auto
  moreover have "fst (NeuralNetEvaluate p xs None) = fst (Evaluate_net p xs)" by (simp add: NeuralNetEvaluate_def)
  ultimately show ?case using 3 by simp
qed simp_all

text \<open>C31: Incremental evaluation never changes a result: however the searches switch the shared state, and in
  whatever order the networks that share it are evaluated, other ones only while it is \<open>NNSTATE_NONE\<close>,
  every evaluation gives what an evaluation without a state gives.\<close>

theorem incremental_exact:
  assumes "sharing N" "state_ok N st" "steps_fit N (nn_state st) steps"
  shows "run_steps st steps = separate_runs steps"
  by (rule run_steps_separate [OF assms])

text \<open>Two networks with one hidden node and one output, of one and two inputs.\<close>

definition one_input :: neuralnet where
  "one_input = \<lparr>cInput = 1, cHidden = 1, cOutput = 1, rBetaHidden = 1, rBetaOutput = 1, arHiddenWeight = [2],
     arOutputWeight = [3], arHiddenThreshold = [1], arOutputThreshold = [0]\<rparr>"

definition two_inputs :: neuralnet where
  "two_inputs = \<lparr>cInput = 2, cHidden = 1, cOutput = 1, rBetaHidden = 1, rBetaOutput = 1, arHiddenWeight = [2, 5],
     arOutputWeight = [3], arHiddenThreshold = [1], arOutputThreshold = [0]\<rparr>"

lemma tiny_nets_share: "sharing {one_input, two_inputs}"
  by (auto simp: sharing_def wf_net_def one_input_def two_inputs_def)

theorem incremental_exact_witness:
  "run_steps (fresh_NNState 1 2) [Run_net two_inputs [1, 3], Run_net two_inputs [1, 2], Run_net one_input [7],
       Set_state NNSTATE_INCREMENTAL, Run_net one_input [4], Run_net one_input [5],
       Set_state NNSTATE_NONE, Run_net (one_input\<lparr>rBetaHidden := 2\<rparr>) [3]] =
   map fst [Evaluate_net two_inputs [1, 3], Evaluate_net two_inputs [1, 2], Evaluate_net one_input [7],
       Evaluate_net one_input [4], Evaluate_net one_input [5], Evaluate_net (one_input\<lparr>rBetaHidden := 2\<rparr>) [3]]"
proof -
  have inputs: "cInput one_input = 1" "cInput two_inputs = 2" by (simp_all add: one_input_def two_inputs_def)
  from incremental_exact [OF tiny_nets_share fresh_state_ok [OF tiny_nets_share, of 1 2],
      of "[Run_net two_inputs [1, 3], Run_net two_inputs [1, 2], Run_net one_input [7],
       Set_state NNSTATE_INCREMENTAL, Run_net one_input [4], Run_net one_input [5],
       Set_state NNSTATE_NONE, Run_net (one_input\<lparr>rBetaHidden := 2\<rparr>) [3]]"]
  show ?thesis by (simp add: inputs NeuralNetEvaluate_def fresh_NNState_def)
qed

text \<open>Every output of a network is a chance.\<close>

lemma Evaluate_net_range:
  "length (fst (Evaluate_net p xs)) = cOutput p" "r \<in> set (fst (Evaluate_net p xs)) \<Longrightarrow> 0 < r \<and> r < 1"
proof -
  have "0 < sigmoid x \<and> sigmoid x < 1" for x by (rule sigmoid_range)
  then show "length (fst (Evaluate_net p xs)) = cOutput p" "r \<in> set (fst (Evaluate_net p xs)) \<Longrightarrow> 0 < r \<and> r < 1"
    by (auto simp: Evaluate_net_def net_outputs_from_def Let_def)
qed

end
