(* ===== verification/Static_Eval.thy ===== *)
theory Static_Eval
  imports Race_Backgammons Net_Inputs Neural_Net Evaluate_Cached "HOL-Library.Signed_Division"
begin

text \<open>
  The static evaluators (eval.c): the databases, the networks on their inputs, and the exact treatment
  of backgammons in races (\<open>EvalRaceBG\<close>), put together to the engine that the search and the recursion
  over plies run on.  The networks are evaluated without a shared state, which changes no result
  (\<open>incremental_exact\<close>).
\<close>

section \<open>The program's data\<close>

text \<open>\<open>pr_gammon_probs\<close> is the table \<open>getBearoffGammonProbs\<close>; the databases and networks are the globals of eval.c.\<close>

record program =
  pr_machine :: machine
  pr_gammon_probs :: "side \<Rightarrow> nat \<times> nat \<times> nat"
  db_pbc1 :: "bearoff_db option"
  db_pbc2 :: "bearoff_db option"
  db_pbcOS :: "bearoff_db option"
  db_pbcTS :: "bearoff_db option"
  db_hyper :: "nat \<Rightarrow> bearoff_db option"
  nnRace :: neuralnet
  nnCrashed :: neuralnet
  nnContact :: neuralnet
  nnpRace :: neuralnet
  nnpCrashed :: neuralnet
  nnpContact :: neuralnet

definition player_side :: "TanBoard \<Rightarrow> nat \<Rightarrow> side" where
  "player_side b k = (if k = 0 then fst b else snd b)"

section \<open>The databases\<close>

text \<open>
  Without a database, or with one of no type, the outputs are never written.
\<close>

definition eval_with :: "program \<Rightarrow> bearoff_db option \<Rightarrow> TanBoard \<Rightarrow> real list db_result" where
  "eval_with P pbc b =
     (case pbc of None \<Rightarrow> Inl Outside
      | Some db \<Rightarrow> if bt db = BEAROFF_INVALID then Inl Outside
          else BearoffEval (pr_machine P) (pr_gammon_probs P) (db_pbc1 P) pbc b [])"

definition EvalBearoff2 :: "program \<Rightarrow> TanBoard \<Rightarrow> real list db_result" where
  "EvalBearoff2 P b = (if db_pbc2 P = None then Inl Assertion else eval_with P (db_pbc2 P) b)"

definition EvalBearoffOS :: "program \<Rightarrow> TanBoard \<Rightarrow> real list db_result" where
  "EvalBearoffOS P b = eval_with P (db_pbcOS P) b"

definition EvalBearoffTS :: "program \<Rightarrow> TanBoard \<Rightarrow> real list db_result" where
  "EvalBearoffTS P b = eval_with P (db_pbcTS P) b"

definition EvalHypergammon :: "program \<Rightarrow> nat \<Rightarrow> TanBoard \<Rightarrow> real list db_result" where
  "EvalHypergammon P k b = eval_with P (db_hyper P k) b"

definition EvalBearoff1 :: "program \<Rightarrow> TanBoard \<Rightarrow> real list db_result" where
  "EvalBearoff1 P b = eval_with P (db_pbc1 P) b"

section \<open>Backgammons in races\<close>

text \<open>A result that is used without a look at the return value: if it was refused, it was never written.\<close>

definition used_anyway :: "'a db_result \<Rightarrow> 'a db_result" where
  "used_anyway r = (case r of Inl Refused \<Rightarrow> Inl Outside | _ \<Rightarrow> r)"

text \<open>
  The chance that \<open>bgp\<close> needs more rolls than the other side needs to bear off: in the loop \<open>scale\<close> is the
  number of sequences of \<open>j + 1\<close> rolls.
\<close>

definition race_chance :: "nat \<Rightarrow> int list \<Rightarrow> u16 list \<Rightarrow> real" where
  "race_chance side bgp aProb =
     fst (fold (\<lambda>j (p, scale).
            let scale = scale * 36; sum = fold (\<lambda>i sum. sum + unat (aProb ! i)) [1..<j + side + 1] 0
            in (p + of_int (bgp ! j) / real scale * real sum, scale))
          [1 - side..<RBG_NPROBS] (0, if side = 0 then 36 else 1)) / 65535"

definition raceBGprob :: "program \<Rightarrow> TanBoard \<Rightarrow> nat \<Rightarrow> real db_result" where
  "raceBGprob P b side =
     (let us = player_side b side; opp = player_side b (1 - side);
          totMenHome = sint (fold (\<lambda>i n. n + us ! i) [0..<6] 0);
          totPipsOp = sint (fold (\<lambda>i n. n + opp ! i * of_nat (i - 17)) (rev [18..<23]) 0)
      in
      if \<not> ((totMenHome + 3) sdiv 4 - (if side = 1 then 1 else 0) \<le> (totPipsOp + 2) sdiv 3) then Inr 0
      else
        let home = map (\<lambda>i. if i < 6 then opp ! (18 + i) else 0) [0..<25];
            dummy = (if side = 0 then (us, home) else (home, us))
        in
        db_bind (getRaceBGprobs home) (\<lambda>bgp.
          case bgp of
            Some bgp \<Rightarrow>
              (case db_pbc1 P of
                 None \<Rightarrow> Inl Outside
               | Some db \<Rightarrow>
                   db_bind (in_range (PositionBearoff us (unat (nPoints db)) (unat (nChequers db)))) (\<lambda>k.
                   db_bind (used_anyway (BearoffDist (pr_machine P) (Some db) k)) (\<lambda>d.
                     Inr (race_chance side bgp (ausProb d)))))
          | None \<Rightarrow>
              db_bind (in_range (PositionBearoff (fst dummy) 6 15)) (\<lambda>k0.
              db_bind (in_range (PositionBearoff (snd dummy) 6 15)) (\<lambda>k1.
              db_bind (used_anyway (if k0 > 923 \<or> k1 > 923 then EvalBearoff1 P dummy else EvalBearoff2 P dummy)) (\<lambda>p.
                Inr (if side = 1 then p ! OUTPUT_WIN else 1 - p ! OUTPUT_WIN))))))"

text \<open>How the chance \<open>pr\<close> of \<open>side\<close> overrides the outputs.\<close>

definition set_backgammon :: "nat \<Rightarrow> real \<Rightarrow> real list \<Rightarrow> real list" where
  "set_backgammon side pr arOutput =
     (if pr > 0 then
        if side = 1 then
          let ar = arOutput[OUTPUT_WINBACKGAMMON := pr] in
          if ar ! OUTPUT_WINGAMMON < ar ! OUTPUT_WINBACKGAMMON
          then ar[OUTPUT_WINGAMMON := ar ! OUTPUT_WINBACKGAMMON] else ar
        else
          let ar = arOutput[OUTPUT_LOSEBACKGAMMON := pr] in
          if ar ! OUTPUT_LOSEGAMMON < ar ! OUTPUT_LOSEBACKGAMMON
          then ar[OUTPUT_LOSEGAMMON := ar ! OUTPUT_LOSEBACKGAMMON] else ar
      else if side = 1 then arOutput[OUTPUT_WINBACKGAMMON := 0]
      else arOutput[OUTPUT_LOSEBACKGAMMON := 0])"

text \<open>All chequers of a side are on the board, and one of them is in the opponent's home.\<close>

definition backgammon_possible :: "side \<Rightarrow> bool" where
  "backgammon_possible s \<longleftrightarrow>
     fold (\<lambda>i n. n + s ! i) (rev [0..<24]) 0 = 15 \<and> list_ex (\<lambda>i. s ! i > 0) (rev [18..<24])"

definition EvalRaceBG :: "program \<Rightarrow> TanBoard \<Rightarrow> real list \<Rightarrow> real list db_result" where
  "EvalRaceBG P b arOutput =
     (let obg = backgammon_possible (snd b); bg = backgammon_possible (fst b) in
      if bg \<or> obg then
        let side = (if bg then 1 else 0) in
        db_bind (raceBGprob P b side) (\<lambda>pr. Inr (set_backgammon side pr arOutput))
      else Inr arOutput)"

section \<open>The networks\<close>

definition run_net :: "neuralnet \<Rightarrow> real list option \<Rightarrow> real list db_result" where
  "run_net n inputs =
     (case inputs of None \<Rightarrow> Inl Assertion | Some arInput \<Rightarrow> Inr (fst (NeuralNetEvaluate n arInput None)))"

definition EvalRace :: "program \<Rightarrow> TanBoard \<Rightarrow> real list db_result" where
  "EvalRace P b = db_bind (run_net (nnRace P) (CalculateRaceInputs b)) (EvalRaceBG P b)"

definition EvalContact :: "program \<Rightarrow> TanBoard \<Rightarrow> real list db_result" where
  "EvalContact P b = run_net (nnContact P) (CalculateContactInputs b)"

definition EvalCrashed :: "program \<Rightarrow> TanBoard \<Rightarrow> real list db_result" where
  "EvalCrashed P b = run_net (nnCrashed P) (CalculateCrashedInputs b)"

text \<open>The table \<open>acef\<close>.\<close>

definition static_evaluator :: "program \<Rightarrow> positionclass \<Rightarrow> TanBoard \<Rightarrow> bgvariation \<Rightarrow> real list db_result" where
  "static_evaluator P pc b v =
     (case pc of
        CLASS_OVER \<Rightarrow> Inr (EvalOver b (replicate 5 0) v)
      | CLASS_HYPERGAMMON1 \<Rightarrow> EvalHypergammon P 0 b
      | CLASS_HYPERGAMMON2 \<Rightarrow> EvalHypergammon P 1 b
      | CLASS_HYPERGAMMON3 \<Rightarrow> EvalHypergammon P 2 b
      | CLASS_BEAROFF2 \<Rightarrow> EvalBearoff2 P b
      | CLASS_BEAROFF_TS \<Rightarrow> EvalBearoffTS P b
      | CLASS_BEAROFF1 \<Rightarrow> EvalBearoff1 P b
      | CLASS_BEAROFF_OS \<Rightarrow> EvalBearoffOS P b
      | CLASS_RACE \<Rightarrow> EvalRace P b
      | CLASS_CRASHED \<Rightarrow> EvalCrashed P b
      | CLASS_CONTACT \<Rightarrow> EvalContact P b)"

text \<open>The choice of the pruning network and its evaluation; other classes are outside of the array \<open>nets\<close>.\<close>

definition pruning_outputs :: "program \<Rightarrow> positionclass \<Rightarrow> TanBoard \<Rightarrow> real list db_result" where
  "pruning_outputs P pc b =
     (case pc of
        CLASS_RACE \<Rightarrow> run_net (nnpRace P) (baseInputs b)
      | CLASS_CRASHED \<Rightarrow> run_net (nnpCrashed P) (baseInputs b)
      | CLASS_CONTACT \<Rightarrow> run_net (nnpContact P) (baseInputs b)
      | _ \<Rightarrow> Inl Outside)"

section \<open>The engine of a program\<close>

text \<open>A refusal is a failure of the call; what fails an assertion or goes astray does not return.\<close>

definition call :: "'a db_result \<Rightarrow> 'a option option" where
  "call r = (case r of Inr a \<Rightarrow> Some (Some a) | Inl Refused \<Rightarrow> Some None | Inl _ \<Rightarrow> None)"

definition value_of :: "'a db_result \<Rightarrow> 'a option" where
  "value_of r = (case r of Inr a \<Rightarrow> Some a | Inl _ \<Rightarrow> None)"

definition loaded :: "program \<Rightarrow> databases" where
  "loaded P = \<lparr>pbc2 = map_option db_context (db_pbc2 P), pbcTS = map_option db_context (db_pbcTS P),
     pbc1 = map_option db_context (db_pbc1 P), pbcOS = map_option db_context (db_pbcOS P)\<rparr>"

text \<open>The distributions \<open>MaxTurns\<close> reads; one that cannot be read counts as no turns.\<close>

definition turns_source :: "program \<Rightarrow> one_sided" where
  "turns_source P =
     map_option (\<lambda>db. (unat (nPoints db), unat (nChequers db),
       \<lambda>k. case BearoffDist (pr_machine P) (Some db) k of Inr d \<Rightarrow> ausProb d | Inl _ \<Rightarrow> replicate 32 0)) (db_pbc1 P)"

text \<open>\<open>E\<close> gives what is not the program's: the cache size, the noise, the tables and the sorting.\<close>

definition engine_of :: "program \<Rightarrow> search_engine \<Rightarrow> search_engine" where
  "engine_of P E = E\<lparr>
     trained_eval := \<lambda>pc b v. call (static_evaluator P pc b v),
     pruning_net := \<lambda>pc b. value_of (pruning_outputs P pc b),
     race_backgammons := \<lambda>b ar. value_of (EvalRaceBG P b ar),
     en_dbs := loaded P,
     en_pbc1 := turns_source P,
     read_cubeful := \<lambda>pc i. call
       (case (if pc = CLASS_BEAROFF2 then db_pbc2 P else db_pbcTS P) of
          None \<Rightarrow> Inl Outside | Some db \<Rightarrow> db_bind (BearoffCubeful db i) (\<lambda>(ar, _). Inr ar)),
     apbcHyper := \<lambda>k. map_option db_context (db_hyper P k),
     read_hyper := \<lambda>k i. call (case db_hyper P k of None \<Rightarrow> Inl Outside | Some db \<Rightarrow> BearoffHyper db i)\<rparr>"

section \<open>The chance of a backgammon\<close>

lemma fold_sum_unat: "fold (\<lambda>i sum. sum + unat (a ! i)) [m..<n] s = s + (\<Sum>i\<in>{m..<n}. unat (a ! i))" for s :: nat
  by (induction n arbitrary: s) (auto simp: atLeastLessThanSuc)

lemma fold_scale:
  "k \<le> n \<Longrightarrow> fold (\<lambda>j (p, scale). (p + c j / real (scale * 36) * r j, scale * 36)) [k..<n] (p, 36 ^ k) =
    (p + (\<Sum>j\<in>{k..<n}. c j / 36 ^ (j + 1) * r j), 36 ^ n)" for c r :: "nat \<Rightarrow> real"
proof (induction n rule: dec_induct)
  case (step n)
  then show ?case by (simp add: atLeastLessThanSuc mult.commute add.commute)
qed simp

lemma race_chance_sum:
  assumes "side \<le> 1"
  shows "race_chance side bgp a =
    (\<Sum>j\<in>{1 - side..<5}. of_int (bgp ! j) / 36 ^ (j + 1) * real (\<Sum>i\<in>{1..<j + side + 1}. unat (a ! i))) / 65535"
proof -
  have "(if side = 0 then 36 else 1) = (36 :: nat) ^ (1 - side)" using assms by (cases "side = 0") (simp_all add: le_Suc_eq)
  then show ?thesis
    unfolding race_chance_def RBG_NPROBS_def Let_def fold_sum_unat add_0
    using fold_scale [of "1 - side" 5 "\<lambda>j. of_int (bgp ! j)" "\<lambda>j. real (\<Sum>i\<in>{1..<j + side + 1}. unat (a ! i))" 0]
    by (simp only:) simp
qed

lemma race_chance_range:
  assumes row: "distribution_row bgp" and a: "(\<Sum>i<32. unat (a ! i)) \<le> 65535" and "side \<le> 1"
  shows "0 \<le> race_chance side bgp a" "race_chance side bgp a \<le> 1"
proof -
  let ?w = "\<lambda>j. real_of_int (bgp ! j) / 36 ^ (j + 1)" and ?s = "\<lambda>j. real (\<Sum>i\<in>{1..<j + side + 1}. unat (a ! i))"
  have w: "0 \<le> ?w j" if "j < 5" for j using distribution_row_sum(2) [OF row that] by simp
  have s: "?s j \<le> 65535" if "j < 5" for j
  proof -
    have "(\<Sum>i\<in>{1..<j + side + 1}. unat (a ! i)) \<le> (\<Sum>i<32. unat (a ! i))"
      using that assms(3) by (intro sum_mono2) auto
    then show ?thesis using a by linarith
  qed
  have "(\<Sum>j\<in>{1 - side..<5}. ?w j * ?s j) \<le> (\<Sum>j\<in>{1 - side..<5}. ?w j * 65535)"
    by (intro sum_mono mult_left_mono) (use w s in auto)
  also have "\<dots> \<le> (\<Sum>j<5. ?w j * 65535)" by (intro sum_mono2 mult_nonneg_nonneg) (use w in auto)
  also have "\<dots> = 65535" unfolding sum_distrib_right [symmetric] distribution_row_sum(1) [OF row] by simp
  finally show "race_chance side bgp a \<le> 1" by (simp add: race_chance_sum [OF assms(3)])
  have "0 \<le> (\<Sum>j\<in>{1 - side..<5}. ?w j * ?s j)"
    by (intro sum_nonneg mult_nonneg_nonneg) (use w in auto)
  then show "0 \<le> race_chance side bgp a" by (simp add: race_chance_sum [OF assms(3)])
qed

section \<open>The outputs of a one-sided database\<close>

text \<open>
  The chances of a record are chances, and the first chequer is borne off no later than the last.
\<close>

definition proper_record :: "distribution \<Rightarrow> bool" where
  "proper_record d \<longleftrightarrow>
     (\<forall>i<32. 0 \<le> arProb d ! i \<and> 0 \<le> arGammonProb d ! i) \<and> (\<Sum>i<32. arProb d ! i) \<le> 1 \<and>
     (\<Sum>i<32. unat (ausProb d ! i)) \<le> 65535 \<and>
     (\<forall>k<32. (\<Sum>i\<in>{k..<32}. arGammonProb d ! i) \<le> (\<Sum>i\<in>{k..<32}. arProb d ! i))"

lemma off_first_sum: "off_first k p q = (\<Sum>i<32. p ! i * (\<Sum>j\<in>{i + k..<32}. q ! j))"
proof -
  have "sum_list (map f [m..<n]) = (\<Sum>i\<in>{m..<n}. f i)" for f :: "nat \<Rightarrow> real" and m n
    by (simp add: sum.distinct_set_conv_list [symmetric])
  then show ?thesis by (simp add: off_first_def sum_distrib_left atLeast0LessThan)
qed

lemma off_first_nonneg: "\<forall>i<32. 0 \<le> p ! i \<Longrightarrow> \<forall>i<32. 0 \<le> q ! i \<Longrightarrow> 0 \<le> off_first k p q"
  unfolding off_first_sum by (intro sum_nonneg mult_nonneg_nonneg) auto

lemma off_first_mono:
  assumes "\<forall>i<32. 0 \<le> p ! i" "\<forall>k<32. (\<Sum>i\<in>{k..<32}. q ! i) \<le> (\<Sum>i\<in>{k..<32}. r ! i)"
  shows "off_first k p q \<le> off_first k p r"
  unfolding off_first_sum
proof (rule sum_mono)
  fix i :: nat assume "i \<in> {..<32}"
  then have "(\<Sum>j\<in>{i + k..<32}. q ! j) \<le> (\<Sum>j\<in>{i + k..<32}. r ! j)" "0 \<le> p ! i"
    using assms by (cases "i + k < 32"; simp)+
  then show "p ! i * (\<Sum>j\<in>{i + k..<32}. q ! j) \<le> p ! i * (\<Sum>j\<in>{i + k..<32}. r ! j)" by (rule mult_left_mono)
qed

lemma off_first_total: "off_first 0 p q + off_first 1 q p = (\<Sum>i<32. p ! i) * (\<Sum>i<32. q ! i)"
proof -
  have e: "(\<Sum>j\<in>{i + 0..<32}. f j) = (\<Sum>j<32. if i \<le> j then f j else 0)"
    "(\<Sum>j\<in>{i + 1..<32}. f j) = (\<Sum>j<32. if i < j then f j else 0)" for i and f :: "nat \<Rightarrow> real"
    by (rule sum.mono_neutral_cong_left; auto)+
  have "off_first 0 p q = (\<Sum>i<32. \<Sum>j<32. if i \<le> j then p ! i * q ! j else 0)"
    unfolding off_first_sum sum_distrib_left by (simp only: e)
  moreover have "off_first 1 q p = (\<Sum>j<32. \<Sum>i<32. if j < i then q ! j * p ! i else 0)"
    unfolding off_first_sum sum_distrib_left by (simp only: e)
  then have "off_first 1 q p = (\<Sum>i<32. \<Sum>j<32. if j < i then q ! j * p ! i else 0)"
    by (subst sum.swap)
  ultimately have "off_first 0 p q + off_first 1 q p =
      (\<Sum>i<32. \<Sum>j<32. (if i \<le> j then p ! i * q ! j else 0) + (if j < i then q ! j * p ! i else 0))"
    by (simp add: sum.distrib)
  also have "\<dots> = (\<Sum>i<32. \<Sum>j<32. p ! i * q ! j)"
    by (intro sum.cong refl) (auto simp: mult.commute)
  finally show ?thesis by (simp add: sum_product)
qed

lemma one_sided_outputs:
  assumes "proper_record d0" "proper_record d1"
  shows "consistent_outputs [off_first 0 (arProb d1) (arProb d0), off_first 0 (arProb d1) (arGammonProb d0), 0,
      off_first 1 (arProb d0) (arGammonProb d1), 0]"
    "consistent_outputs [off_first 0 (arProb d1) (arProb d0), 0, 0, 0, 0]"
proof -
  let ?win = "off_first 0 (arProb d1) (arProb d0)" and ?lose = "off_first 1 (arProb d0) (arProb d1)"
  have n: "\<forall>i<32. 0 \<le> arProb d0 ! i" "\<forall>i<32. 0 \<le> arGammonProb d0 ! i" "\<forall>i<32. 0 \<le> arProb d1 ! i" "\<forall>i<32. 0 \<le> arGammonProb d1 ! i"
    using assms by (auto simp: proper_record_def)
  have "(\<Sum>i<32. arProb d1 ! i) * (\<Sum>i<32. arProb d0 ! i) \<le> 1 * 1"
    using assms n by (intro mult_mono sum_nonneg) (auto simp: proper_record_def)
  then have "?win + ?lose \<le> 1" using off_first_total [of "arProb d1" "arProb d0"] by simp
  moreover have "off_first 0 (arProb d1) (arGammonProb d0) \<le> ?win" "off_first 1 (arProb d0) (arGammonProb d1) \<le> ?lose"
    using assms n by (intro off_first_mono; simp add: proper_record_def)+
  moreover have "0 \<le> ?win" "0 \<le> ?lose" "0 \<le> off_first 0 (arProb d1) (arGammonProb d0)" "0 \<le> off_first 1 (arProb d0) (arGammonProb d1)"
    using n by (simp_all add: off_first_nonneg)
  ultimately show "consistent_outputs [?win, off_first 0 (arProb d1) (arGammonProb d0), 0, off_first 1 (arProb d0) (arGammonProb d1), 0]"
    "consistent_outputs [?win, 0, 0, 0, 0]"
    by (simp_all add: consistent_outputs_def outputs)
qed

section \<open>Sound programs\<close>

text \<open>
  What the files have to hold: one-sided databases with gammons and proper records, hypergammon
  databases with consistent ones; two-sided databases are consistent whatever they hold.
\<close>

definition sound_db :: "program \<Rightarrow> bearoff_db \<Rightarrow> bool" where
  "sound_db P db \<longleftrightarrow>
     (bt db = BEAROFF_ONESIDED \<longrightarrow> db_fGammon db \<noteq> 0 \<and>
        (\<forall>k d. BearoffDist (pr_machine P) (Some db) k = Inr d \<longrightarrow> proper_record d)) \<and>
     (bt db = BEAROFF_HYPERGAMMON \<longrightarrow> (\<forall>i ar eq. ReadHypergammon db i = Inr (ar, eq) \<longrightarrow> consistent_outputs ar))"

lemma db_bind_eq_Inr: "db_bind m f = Inr b \<longleftrightarrow> (\<exists>a. m = Inr a \<and> f a = Inr b)"
  by (cases m) simp_all

lemma in_range_eq_Inr: "in_range x = Inr a \<longleftrightarrow> x = Some a"
  by (cases x) simp_all

lemma five_outputs:
  "(replicate 5 0)[OUTPUT_WIN := w] = [w, 0, 0, 0, 0 :: real]"
  "(replicate 5 0)[OUTPUT_WIN := w, OUTPUT_WINGAMMON := g, OUTPUT_LOSEGAMMON := l] = [w, g, 0, l, 0 :: real]"
  by (simp_all add: outputs eval_nat_numeral)

lemma eval_with_sound:
  assumes db: "\<And>db. pbc = Some db \<Longrightarrow> sound_db P db" and ar: "eval_with P pbc b = Inr ar"
  shows "length ar = 5 \<and> consistent_outputs ar"
proof -
  obtain d where d: "pbc = Some d" "sound_db P d" "bt d \<noteq> BEAROFF_INVALID"
    using db ar by (auto simp: eval_with_def split: option.splits if_splits)
  show ?thesis
  proof (cases "bt d")
    case BEAROFF_ONESIDED
    then have "BearoffEvalOneSided (pr_machine P) (pr_gammon_probs P) (db_pbc1 P) d b = Inr ar" and g: "db_fGammon d \<noteq> 0"
      using ar d by (simp_all add: eval_with_def BearoffEval_def sound_db_def)
    then obtain d0 d1 an0 an1 where r: "BearoffDist (pr_machine P) (Some d) an0 = Inr d0" "BearoffDist (pr_machine P) (Some d) an1 = Inr d1"
      and "ar = [off_first 0 (arProb d1) (arProb d0), off_first 0 (arProb d1) (arGammonProb d0), 0, off_first 1 (arProb d0) (arGammonProb d1), 0] \<or>
        ar = [off_first 0 (arProb d1) (arProb d0), 0, 0, 0, 0]"
      by (auto simp: BearoffEvalOneSided_def db_bind_eq_Inr in_range_eq_Inr Let_def outputs eval_nat_numeral split: if_splits)
    moreover have "proper_record d0" "proper_record d1"
      using d(2) BEAROFF_ONESIDED r by (auto simp: sound_db_def)
    ultimately show ?thesis using one_sided_outputs [of d0 d1] by auto
  next
    case BEAROFF_TWOSIDED
    then obtain i us aus where "ReadTwoSidedBearoff d i = Inr (us, aus)" "ar = [us ! 0 / 2 + 1 / 2, 0, 0, 0, 0]"
      using ar d by (auto simp: eval_with_def BearoffEval_def BearoffEvalTwoSided_def db_bind_eq_Inr five_outputs)
    moreover have "- 1 \<le> us ! 0" "us ! 0 \<le> 1" if "ReadTwoSidedBearoff d i = Inr (us, aus)"
      using that le16_range by (auto simp: ReadTwoSidedBearoff_def db_bind_eq_Inr Let_def upt_rec)
    ultimately show ?thesis by (simp add: consistent_outputs_def outputs)
  next
    case BEAROFF_HYPERGAMMON
    then obtain i eq where "ReadHypergammon d i = Inr (ar, eq)"
      using ar d by (auto simp: eval_with_def BearoffEval_def BearoffEvalHypergammon_def db_bind_eq_Inr)
    moreover from this have "length ar = 5" by (auto simp: ReadHypergammon_def db_bind_eq_Inr)
    ultimately show ?thesis using d(2) BEAROFF_HYPERGAMMON by (auto simp: sound_db_def)
  qed (use d in simp)
qed

text \<open>The networks have the sizes that \<open>EvalInitialise\<close> asserts.\<close>

definition net_fits :: "nat \<Rightarrow> neuralnet \<Rightarrow> bool" where
  "net_fits n p \<longleftrightarrow> wf_net p \<and> cInput p = n \<and> cOutput p = NUM_OUTPUTS"

definition nets_fit :: "program \<Rightarrow> bool" where
  "nets_fit P \<longleftrightarrow> net_fits NUM_INPUTS (nnContact P) \<and> net_fits NUM_INPUTS (nnCrashed P) \<and>
     net_fits NUM_RACE_INPUTS (nnRace P) \<and> net_fits NUM_PRUNING_INPUTS (nnpContact P) \<and>
     net_fits NUM_PRUNING_INPUTS (nnpCrashed P) \<and> net_fits NUM_PRUNING_INPUTS (nnpRace P)"

definition all_dbs :: "program \<Rightarrow> bearoff_db set" where
  "all_dbs P = {db. Some db \<in> {db_pbc1 P, db_pbc2 P, db_pbcOS P, db_pbcTS P, db_hyper P 0, db_hyper P 1, db_hyper P 2}}"

definition sound_program :: "program \<Rightarrow> bool" where
  "sound_program P \<longleftrightarrow> nets_fit P \<and> (\<forall>db\<in>all_dbs P. sound_db P db)"

lemma run_net_length: "net_fits n p \<Longrightarrow> run_net p xs = Inr ar \<Longrightarrow> length ar = 5"
  by (auto simp: run_net_def net_fits_def NeuralNetEvaluate_def Evaluate_net_range(1) NUM_OUTPUTS_def split: option.splits)

lemma length_set_backgammon [simp]: "length (set_backgammon side pr ar) = length ar"
  by (simp add: set_backgammon_def Let_def)

lemma EvalRaceBG_length: "length ar = 5 \<Longrightarrow> EvalRaceBG P b ar = Inr ar' \<Longrightarrow> length ar' = 5"
  by (auto simp: EvalRaceBG_def db_bind_eq_Inr Let_def split: if_splits)

lemma static_evaluator_sound:
  assumes P: "sound_program P" and ar: "static_evaluator P pc b v = Inr ar" "pc \<noteq> CLASS_OVER"
  shows "length ar = 5 \<and> (pc \<le> CLASS_GOOD \<longrightarrow> consistent_outputs ar)"
proof -
  have db: "length ar = 5 \<and> consistent_outputs ar"
    if "eval_with P pbc b = Inr ar" "pbc \<in> {db_pbc1 P, db_pbc2 P, db_pbcOS P, db_pbcTS P, db_hyper P 0, db_hyper P 1, db_hyper P 2}" for pbc
    using P that by (intro eval_with_sound [of pbc P b ar]) (auto simp: sound_program_def all_dbs_def)
  have nets: "net_fits NUM_INPUTS (nnContact P)" "net_fits NUM_INPUTS (nnCrashed P)" "net_fits NUM_RACE_INPUTS (nnRace P)"
    using P by (simp_all add: sound_program_def nets_fit_def)
  show ?thesis
  proof (cases pc)
    case CLASS_RACE
    then obtain r where "run_net (nnRace P) (CalculateRaceInputs b) = Inr r" "EvalRaceBG P b r = Inr ar"
      using ar by (auto simp: static_evaluator_def EvalRace_def db_bind_eq_Inr)
    with nets(3) CLASS_RACE show ?thesis
      by (auto simp: CLASS_GOOD_def positionclass_order dest: run_net_length EvalRaceBG_length)
  qed (use ar db nets run_net_length in \<open>auto simp: static_evaluator_def EvalBearoff2_def EvalBearoffOS_def EvalBearoffTS_def
      EvalBearoff1_def EvalHypergammon_def EvalContact_def EvalCrashed_def CLASS_GOOD_def positionclass_order split: if_splits\<close>)
qed

lemma call_eq_Some: "call r = Some (Some a) \<longleftrightarrow> r = Inr a"
  by (auto simp: call_def split: sum.splits db_error.splits)

lemma value_of_eq_Some: "value_of r = Some a \<longleftrightarrow> r = Inr a"
  by (auto simp: value_of_def split: sum.splits)

lemma engine_of_simps [simp]:
  "trained_eval (engine_of P E) pc b v = call (static_evaluator P pc b v)"
  "pruning_net (engine_of P E) pc b = value_of (pruning_outputs P pc b)"
  "race_backgammons (engine_of P E) b ar = value_of (EvalRaceBG P b ar)"
  "en_dbs (engine_of P E) = loaded P" "en_pbc1 (engine_of P E) = turns_source P"
  "sort_moves (engine_of P E) = sort_moves E"
  by (simp_all add: engine_of_def)

lemma engine_of_sound:
  assumes P: "sound_program P" and E: "is_qsort (sort_moves E)"
  shows "sound_engine (engine_of P E)"
proof (rule sound_engineI)
  show "length ar = 5" if "pruning_net (engine_of P E) pc b = Some ar" for pc b ar
    using that P run_net_length
    by (auto simp: value_of_eq_Some pruning_outputs_def sound_program_def nets_fit_def split: positionclass.splits)
  show "length ar' = 5" if "length ar = 5" "race_backgammons (engine_of P E) b ar = Some ar'" for b ar ar'
    using that EvalRaceBG_length by (auto simp: value_of_eq_Some)
  show "length ar = 5 \<and> (pc \<le> CLASS_GOOD \<longrightarrow> consistent_outputs ar)"
    if "pc \<noteq> CLASS_OVER" "trained_eval (engine_of P E) pc b v = Some (Some ar)" for b v ar pc
    using static_evaluator_sound [OF P _ that(1)] that(2) by (simp add: call_eq_Some)
qed (simp add: E)

section \<open>Equipped programs\<close>

text \<open>
  The databases hold a record for each of their positions: two-sided ones as before, one-sided ones with
  gammons whatever their format.  \<open>pbc1\<close> is there, and for fifteen chequers.
\<close>

definition one_sided_records :: "program \<Rightarrow> bearoff_db \<Rightarrow> bool" where
  "one_sided_records P db \<longleftrightarrow> bt db = BEAROFF_ONESIDED \<and> db_fGammon db \<noteq> 0 \<and>
     bearoff_size (unat (nPoints db)) (unat (nChequers db)) \<and>
     (\<forall>k. unat k < (unat (nChequers db) + unat (nPoints db) choose unat (nPoints db)) \<longrightarrow>
        (\<exists>d. BearoffDist (pr_machine P) (Some db) k = Inr d \<and> proper_record d))"

definition equipped :: "program \<Rightarrow> bool" where
  "equipped P \<longleftrightarrow> nets_fit P \<and>
     (\<exists>db. db_pbc1 P = Some db \<and> one_sided_records P db \<and> 15 \<le> unat (nChequers db)) \<and>
     (\<forall>db. Some db \<in> {db_pbc2 P, db_pbcTS P, db_pbcOS P} \<longrightarrow> complete_two_sided db \<or> one_sided_records P db)"

lemma PositionBearoff_any:
  assumes "length s = 25" "chequers s \<le> c" "bearoff_size n c"
  shows "\<exists>k. PositionBearoff s n c = Some k \<and> unat k < ((c + n) choose n)"
proof -
  have n: "n \<le> length s" using assms by (simp add: bearoff_size_def)
  have "chequers s = sum_list (map unat (take n s)) + sum_list (map unat (drop n s))"
    unfolding chequers_def by (metis append_take_drop_id map_append sum_list_append)
  then have "bearoff_board n c (take n s)" using assms(2) n by (simp add: bearoff_board_def)
  from PositionBearoff_ranked [OF assms(3) this] show ?thesis by (auto simp: PositionBearoff_take [OF n])
qed

lemma one_sided_returns:
  assumes db: "one_sided_records P db"
    and k: "\<And>s. s = fst b \<or> s = snd b \<Longrightarrow> \<exists>k. PositionBearoff s (unat (nPoints db)) (unat (nChequers db)) = Some k \<and>
      unat k < (unat (nChequers db) + unat (nPoints db) choose unat (nPoints db))"
  shows "\<exists>ar. eval_with P (Some db) b = Inr ar \<and> 0 \<le> ar ! OUTPUT_WIN \<and> ar ! OUTPUT_WIN \<le> 1"
proof -
  obtain k0 k1 where i: "PositionBearoff (fst b) (unat (nPoints db)) (unat (nChequers db)) = Some k0"
      "PositionBearoff (snd b) (unat (nPoints db)) (unat (nChequers db)) = Some k1"
    and kk: "unat k0 < (unat (nChequers db) + unat (nPoints db) choose unat (nPoints db))"
      "unat k1 < (unat (nChequers db) + unat (nPoints db) choose unat (nPoints db))"
    using k by blast
  obtain d0 d1 where d: "BearoffDist (pr_machine P) (Some db) k0 = Inr d0" "proper_record d0"
      "BearoffDist (pr_machine P) (Some db) k1 = Inr d1" "proper_record d1"
    using db kk unfolding one_sided_records_def by blast
  have "0 \<le> off_first 0 (arProb d1) (arProb d0)" "off_first 0 (arProb d1) (arProb d0) \<le> 1"
    using one_sided_outputs(2) [OF d(2,4)] by (simp_all add: consistent_outputs_def outputs)
  then show ?thesis using db i d(1,3)
    by (auto simp: eval_with_def BearoffEval_def BearoffEvalOneSided_def one_sided_records_def Let_def five_outputs outputs)
qed

lemma eval_with_returns:
  assumes b: "playable b" and db: "complete_two_sided db \<or> one_sided_records P db" "isBearoff (Some (db_context db)) b"
  shows "\<exists>ar. eval_with P (Some db) b = Inr ar"
proof -
  have wf: "wf_board b" "chequers (fst b) \<le> 15" "chequers (snd b) \<le> 15" using b by (simp_all add: playable_def)
  have ctx: "nPoints (db_context db) = nPoints db" "nChequers (db_context db) = nChequers db"
    by (simp_all add: bearoffcontext.truncate_def)
  from db(1) show ?thesis
  proof
    assume c: "complete_two_sided db"
    from two_sided_evaluates [OF wf c db(2)] obtain ar where "BearoffEvalTwoSided db b = Inr ar" by blast
    with c show ?thesis by (simp add: eval_with_def BearoffEval_def complete_two_sided_def)
  next
    assume o: "one_sided_records P db"
    have "bearoff_size (unat (nPoints db)) (unat (nChequers db))" using o by (simp add: one_sided_records_def)
    from isBearoff_record [OF wf(1) _ _ db(2), unfolded ctx, OF _ _ this] wf(2,3)
    show ?thesis using one_sided_returns [OF o, of b] by auto
  qed
qed

section \<open>The chance of a backgammon is computed\<close>

text \<open>More than six chequers on the first six points are beyond the two-sided database.\<close>

lemma PositionBearoff_many:
  assumes "length s = 25" "chequers s \<le> 15" "7 \<le> sum_list (map unat (take 6 s))"
  shows "\<exists>k. PositionBearoff s 6 15 = Some k \<and> k > 923"
proof -
  let ?xs = "take 6 s"
  have "sum_list (map unat ?xs) \<le> sum_list (map unat s)"
    by (metis append_take_drop_id le_add1 map_append sum_list_append)
  then have sum: "sum_list (map unat ?xs) \<le> 15" using assms(2) by (simp add: chequers_def)
  have len: "length ?xs = 6" using assms(1) by simp
  have k: "PositionBearoff ?xs 6 15 = Some (of_nat (rank (board_bits 15 ?xs) 6))"
    using len sum by (intro PositionBearoff_rank) simp_all
  obtain x ys where xs: "?xs = x # ys" using len by (cases ?xs) auto
  have lo: "length (off_bits ?xs) = Suc (length (replicate (unat x) False @ off_bits ys))" by (simp add: xs)
  have "length (off_bits ?xs) = 6 + sum_list (map unat ?xs)" using len by (simp add: add.commute)
  then have "12 \<le> length (replicate (unat x) False @ off_bits ys)" using lo assms(3) by linarith
  then have "(12 choose 6) \<le> (length (replicate (unat x) False @ off_bits ys) choose 6)" by (rule binomial_right_mono)
  then have "924 \<le> (length (replicate (unat x) False @ off_bits ys) choose 6)" by (simp add: binomial_fact' fact_numeral)
  then have lower: "924 \<le> rank (board_bits 15 ?xs) 6" by (simp add: board_bits_def xs)
  have "rank (board_bits 15 ?xs) 6 < (21 choose 6)"
    using rank_bound [of "board_bits 15 ?xs"] len sum by (simp add: length_board_bits)
  also have "(21 choose 6) \<le> (2 :: nat) ^ 21" by (rule binomial_le_pow2)
  also have "\<dots> < 2 ^ 32" by simp
  finally have "unat (of_nat (rank (board_bits 15 ?xs) 6) :: u32) = rank (board_bits 15 ?xs) 6" by (rule unat_of_nat_u32)
  then have "(of_nat (rank (board_bits 15 ?xs) 6) :: u32) > 923" using lower by (simp add: word_less_nat_alt)
  then show ?thesis using k PositionBearoff_take [of 6 s 15] assms(1) by simp
qed

definition home_part :: "side \<Rightarrow> side" where
  "home_part opp = map (\<lambda>i. if i < 6 then opp ! (18 + i) else 0) [0..<25]"

lemma home_part:
  assumes "length s = 25" "chequers s \<le> 15"
  shows "length (home_part s) = 25" "i < 6 \<Longrightarrow> home_part s ! i = s ! (18 + i)" "chequers (home_part s) \<le> 15"
    "sum_list (map unat (take 6 (home_part s))) = (\<Sum>i<6. unat (s ! (18 + i)))"
proof -
  show l: "length (home_part s) = 25" and n: "i < 6 \<Longrightarrow> home_part s ! i = s ! (18 + i)" for i
    by (simp_all add: home_part_def)
  show t: "sum_list (map unat (take 6 (home_part s))) = (\<Sum>i<6. unat (s ! (18 + i)))"
    using l n by (simp add: sum_list_sum_nth atLeast0LessThan)
  have "chequers (home_part s) = (\<Sum>i<25. unat (home_part s ! i))" by (simp add: chequers_def sum_list_sum_nth atLeast0LessThan l)
  also have "\<dots> = (\<Sum>i<6. unat (s ! (18 + i)))" by (rule sum.mono_neutral_cong_right) (auto simp: home_part_def)
  also have "\<dots> = (\<Sum>i\<in>{18..<24}. unat (s ! i))"
    by (rule sum.reindex_bij_witness [of _ "\<lambda>i. i - 18" "\<lambda>i. 18 + i"]) auto
  also have "\<dots> \<le> (\<Sum>i<25. unat (s ! i))" by (intro sum_mono2) auto
  also have "\<dots> = chequers s" using assms(1) by (simp add: chequers_def sum_list_sum_nth atLeast0LessThan)
  finally show "chequers (home_part s) \<le> 15" using assms(2) by simp
qed

lemma getRaceBGprobs_None:
  assumes "getRaceBGprobs s = Inr None" "length s = 25" "s ! 5 = 0" "chequers s < 2 ^ 32"
  shows "7 \<le> sum_list (map unat (take 6 s))"
proof -
  have t: "fold (\<lambda>i tot. tot + s ! i) (rev [0..<5]) 0 > 6"
    using assms(1) by (auto simp: getRaceBGprobs_def db_bind_eq_Inr Let_def split: if_splits)
  have "fold (\<lambda>i tot. tot + s ! i) (rev [0..<5]) 0 = of_nat (\<Sum>i<5. unat (s ! i))"
    by (simp add: eval_nat_numeral upt_rec lessThan_Suc add_ac)
  with t have "6 < (of_nat (\<Sum>i<5. unat (s ! i)) :: u32)" by metis
  moreover have "(\<Sum>i<5. unat (s ! i)) \<le> (\<Sum>i<6. unat (s ! i))" by (intro sum_mono2) auto
  moreover have "(\<Sum>i<6. unat (s ! i)) \<le> chequers s"
    unfolding chequers_def using assms(2) by (simp add: sum_list_sum_nth atLeast0LessThan) (intro sum_mono2; auto)
  moreover from this calculation(2) assms(4) have "unat (of_nat (\<Sum>i<5. unat (s ! i)) :: u32) = (\<Sum>i<5. unat (s ! i))"
    by (intro unat_of_nat_u32) linarith
  ultimately have "7 \<le> (\<Sum>i<6. unat (s ! i))" by (simp add: word_less_nat_alt)
  then show ?thesis using assms(2) by (simp add: sum_list_sum_nth atLeast0LessThan)
qed

lemma raceBGprob_returns:
  assumes P: "equipped P" and b: "playable b" and side: "side \<le> 1"
    and far: "k < 23" "18 \<le> k" "player_side b (1 - side) ! k \<noteq> 0" "player_side b (1 - side) ! 23 = 0"
  shows "\<exists>pr. raceBGprob P b side = Inr pr \<and> 0 \<le> pr \<and> pr \<le> 1"
proof -
  let ?us = "player_side b side" and ?opp = "player_side b (1 - side)"
  have s: "length ?us = 25" "chequers ?us \<le> 15" "length ?opp = 25" "chequers ?opp \<le> 15"
    using b by (simp_all add: player_side_def playable_def wf_board_def)
  note h = home_part [OF s(3,4)]
  obtain db where db: "db_pbc1 P = Some db" "one_sided_records P db" "15 \<le> unat (nChequers db)"
    using P by (auto simp: equipped_def)
  have size: "bearoff_size (unat (nPoints db)) (unat (nChequers db))" using db(2) by (simp add: one_sided_records_def)
  have "home_part ?opp ! (k - 18) \<noteq> 0" "k - 18 < 5" using far h(2) [of "k - 18"] by simp_all
  moreover have h5: "home_part ?opp ! 5 = 0" using far(4) h(2) [of 5] by simp
  ultimately consider (none) "getRaceBGprobs (home_part ?opp) = Inr None"
    | (some) row where "getRaceBGprobs (home_part ?opp) = Inr (Some row)" "distribution_row row"
    using getRaceBGprobs_returns [of "home_part ?opp" "k - 18"] h(1,3) by fastforce
  then show ?thesis
  proof cases
    case some
    obtain i where i: "PositionBearoff ?us (unat (nPoints db)) (unat (nChequers db)) = Some i"
      "unat i < (unat (nChequers db) + unat (nPoints db) choose unat (nPoints db))"
      using PositionBearoff_any [OF s(1) _ size] s(2) db(3) by auto
    obtain d where d: "BearoffDist (pr_machine P) (Some db) i = Inr d" "proper_record d"
      using db(2) i(2) unfolding one_sided_records_def by blast
    have "0 \<le> race_chance side row (ausProb d)" "race_chance side row (ausProb d) \<le> 1"
      using race_chance_range [OF some(2) _ side] d(2) by (simp_all add: proper_record_def)
    then show ?thesis unfolding raceBGprob_def Let_def home_part_def [symmetric]
      using some(1) db(1) i(1) d(1) by (simp add: used_anyway_def)
  next
    case none
    let ?dummy = "if side = 0 then (?us, home_part ?opp) else (home_part ?opp, ?us)"
    have "7 \<le> sum_list (map unat (take 6 (home_part ?opp)))"
      using getRaceBGprobs_None [OF none h(1) h5] h(3) by simp
    then obtain i where i: "PositionBearoff (home_part ?opp) 6 15 = Some i" "i > 923"
      using PositionBearoff_many [OF h(1,3)] by blast
    obtain j where j: "PositionBearoff ?us 6 15 = Some j"
      using PositionBearoff_any [OF s(1,2), of 6] by (auto simp: bearoff_size_def)
    have "\<exists>ar. eval_with P (Some db) ?dummy = Inr ar \<and> 0 \<le> ar ! OUTPUT_WIN \<and> ar ! OUTPUT_WIN \<le> 1"
      using s h(1,3) db(3)
      by (intro one_sided_returns [OF db(2)] PositionBearoff_any size) (auto split: if_splits)
    then obtain ar where ar: "EvalBearoff1 P ?dummy = Inr ar" "0 \<le> ar ! OUTPUT_WIN" "ar ! OUTPUT_WIN \<le> 1"
      using db(1) by (auto simp: EvalBearoff1_def)
    show ?thesis unfolding raceBGprob_def Let_def home_part_def [symmetric]
      using none i j ar by (cases "side = 0") (simp_all add: used_anyway_def)
  qed
qed

lemma backgammon_possible_far:
  assumes "backgammon_possible s" "s ! 23 = 0"
  shows "\<exists>k. 18 \<le> k \<and> k < 23 \<and> s ! k \<noteq> 0"
proof -
  obtain k where k: "18 \<le> k" "k < 24" "s ! k > 0"
    using assms(1) unfolding backgammon_possible_def list_ex_iff set_rev set_upt by auto
  then have "k \<noteq> 23" "s ! k \<noteq> 0" using assms(2) by auto
  with k show ?thesis by (intro exI [of _ k]) auto
qed

lemma EvalRaceBG_returns:
  assumes P: "equipped P" and b: "playable b" and last: "fst b ! 23 = 0" "snd b ! 23 = 0"
  shows "\<exists>ar'. EvalRaceBG P b ar = Inr ar'"
proof -
  let ?side = "if backgammon_possible (fst b) then 1 else 0 :: nat"
  have "\<exists>pr. raceBGprob P b ?side = Inr pr" if "backgammon_possible (fst b) \<or> backgammon_possible (snd b)"
  proof -
    have "backgammon_possible (player_side b (1 - ?side))" "player_side b (1 - ?side) ! 23 = 0"
      using that last by (auto simp: player_side_def)
    with backgammon_possible_far raceBGprob_returns [OF P b, of ?side] show ?thesis by fastforce
  qed
  then show ?thesis by (auto simp: EvalRaceBG_def Let_def)
qed

section \<open>The engine of an equipped program\<close>

definition plain_game :: "bgvariation \<Rightarrow> bool" where
  "plain_game v \<longleftrightarrow> v = VARIATION_STANDARD \<or> v = VARIATION_NACKGAMMON"

lemma race_last_points:
  assumes "ClassifyPosition dbs b v = CLASS_RACE"
  shows "fst b ! 23 = 0" "snd b ! 23 = 0"
proof -
  have "back_index (fst b) 25 < 23" "back_index (snd b) 25 < 23"
    using assms by (auto simp: ClassifyPosition_def Let_def not_less split: if_splits bgvariation.splits)
  then show "fst b ! 23 = 0" "snd b ! 23 = 0"
    using back_index_above [of "fst b" 25 23] back_index_above [of "snd b" 25 23] by simp_all
qed

lemma equipped_dbs:
  assumes P: "equipped P" and b: "playable b" "isBearoff (map_option db_context pbc) b"
    and pbc: "pbc \<in> {db_pbc1 P, db_pbc2 P, db_pbcTS P, db_pbcOS P}"
  shows "\<exists>ar. eval_with P pbc b = Inr ar" "pbc \<noteq> None"
proof -
  obtain db where db: "pbc = Some db" "isBearoff (Some (db_context db)) b"
    using b(2) by (cases pbc) (simp_all add: isBearoff_def)
  have "complete_two_sided db \<or> one_sided_records P db" using P pbc db(1) by (auto simp: equipped_def)
  with eval_with_returns [OF b(1) this db(2)] db(1) show "\<exists>ar. eval_with P pbc b = Inr ar" "pbc \<noteq> None" by auto
qed

lemma static_evaluator_returns:
  assumes P: "equipped P" and b: "playable b" and v: "plain_game v"
    and pc: "pc = ClassifyPosition (loaded P) b v" "pc \<noteq> CLASS_OVER"
  shows "\<exists>ar. static_evaluator P pc b v = Inr ar"
proof (cases "pc \<ge> CLASS_RACE")
  case True
  obtain xs where xs: "class_inputs pc b = Some xs" using class_inputs_exist [OF b pc(1) True] by blast
  show ?thesis
  proof (cases "pc = CLASS_RACE")
    case race: True
    note last = race_last_points [OF pc(1) [symmetric, unfolded race]]
    then show ?thesis using race xs EvalRaceBG_returns [OF P b last]
      by (simp add: static_evaluator_def EvalRace_def run_net_def class_inputs_def)
  next
    case False
    then have "pc = CLASS_CRASHED \<or> pc = CLASS_CONTACT" using xs by (auto simp: class_inputs_def split: if_splits)
    then show ?thesis using xs
      by (auto simp: static_evaluator_def EvalCrashed_def EvalContact_def run_net_def class_inputs_def)
  qed
next
  case False
  then have "pc = CLASS_BEAROFF2 \<and> isBearoff (map_option db_context (db_pbc2 P)) b \<or>
      pc = CLASS_BEAROFF_TS \<and> isBearoff (map_option db_context (db_pbcTS P)) b \<or>
      pc = CLASS_BEAROFF1 \<and> isBearoff (map_option db_context (db_pbc1 P)) b \<or>
      pc = CLASS_BEAROFF_OS \<and> isBearoff (map_option db_context (db_pbcOS P)) b"
    using pc v by (auto simp: ClassifyPosition_def loaded_def plain_game_def Let_def positionclass_order split: if_splits)
  then show ?thesis
    using equipped_dbs [OF P b]
    by (auto simp: static_evaluator_def EvalBearoff2_def EvalBearoffTS_def EvalBearoff1_def EvalBearoffOS_def)
qed

lemma engine_of_complete:
  assumes P: "equipped P" and v: "plain_game v"
  shows "complete_engine v (engine_of P E)"
proof (rule complete_engineI)
  show "\<exists>ar. trained_eval (engine_of P E) pc b v = Some (Some ar)"
    if "playable b" "pc = ClassifyPosition (en_dbs (engine_of P E)) b v" "pc \<noteq> CLASS_OVER" for b pc
    using static_evaluator_returns [OF P that(1) v _ that(3)] that(2) by (simp add: call_eq_Some)
  show "pruning_net (engine_of P E) pc b \<noteq> None"
    if "playable b" "pc = ClassifyPosition (en_dbs (engine_of P E)) b VARIATION_STANDARD" "pc \<ge> CLASS_RACE" for b pc
  proof -
    have "wf_board b" "\<forall>nc\<in>set (fst b) \<union> set (snd b). nc < 16"
      using playable_counts that(1) by (auto simp: playable_def)
    then obtain xs where "baseInputs b = Some xs" using baseInputs_exact(1) by blast
    with that(3) show ?thesis
      by (cases pc) (simp_all add: value_of_def pruning_outputs_def run_net_def positionclass_order)
  qed
  show "race_backgammons (engine_of P E) b ar \<noteq> None"
    if "playable b" "ClassifyPosition (en_dbs (engine_of P E)) b VARIATION_STANDARD = CLASS_RACE" for b ar
    using EvalRaceBG_returns [OF P that(1) race_last_points [OF that(2)], of ar] by (auto simp: value_of_def)
  show "bearoff_size n c \<and> 15 \<le> c" if "en_pbc1 (engine_of P E) = Some (n, c, probs)" for n c probs
    using that P by (auto simp: turns_source_def equipped_def one_sided_records_def)
qed

text \<open>C29: In a race, while a side has all its chequers on the board and some in the other side's home, the
  program computes the chance that it loses a backgammon: the table, the numbering and the database are
  read within their bounds, and the result is a probability.\<close>

theorem race_backgammon_chance:
  assumes "equipped P" "playable b" "ClassifyPosition (loaded P) b v = CLASS_RACE"
    and "side \<le> 1" "backgammon_possible (player_side b (1 - side))"
  shows "\<exists>pr. raceBGprob P b side = Inr pr \<and> 0 \<le> pr \<and> pr \<le> 1"
proof -
  have last: "player_side b (1 - side) ! 23 = 0" using race_last_points [OF assms(3)] by (simp add: player_side_def)
  from backgammon_possible_far [OF assms(5) this] obtain k where "18 \<le> k" "k < 23" "player_side b (1 - side) ! k \<noteq> 0" by blast
  with raceBGprob_returns [OF assms(1,2,4) _ _ _ last] show ?thesis by blast
qed


section \<open>Instances\<close>

text \<open>
  Networks of one hidden node without weights, and an uncompressed one-sided database of six points and
  fifteen chequers in which every word is 0.
\<close>

definition blank_net :: "nat \<Rightarrow> neuralnet" where
  "blank_net n = \<lparr>cInput = n, cHidden = 1, cOutput = 5, rBetaHidden = 1, rBetaOutput = 1, arHiddenWeight = replicate n 0,
     arOutputWeight = replicate 5 0, arHiddenThreshold = [0], arOutputThreshold = replicate 5 0\<rparr>"

definition blank_db :: bearoff_db where
  "blank_db = \<lparr>bt = BEAROFF_ONESIDED, nPoints = 6, nChequers = 15, db_fCompressed = 0, db_fGammon = 1, db_fND = 0,
     db_fHeuristic = False, db_fCubeful = 0, db_in_memory = True, db_bytes = replicate (40 + 128 * 54264) 0\<rparr>"

definition blank_program :: program where
  "blank_program = \<lparr>pr_machine = (\<lambda>_. 0, []), pr_gammon_probs = \<lambda>_. (0, 0, 0), db_pbc1 = Some blank_db, db_pbc2 = None,
     db_pbcOS = None, db_pbcTS = None, db_hyper = \<lambda>_. None, nnRace = blank_net NUM_RACE_INPUTS,
     nnCrashed = blank_net NUM_INPUTS, nnContact = blank_net NUM_INPUTS, nnpRace = blank_net NUM_PRUNING_INPUTS,
     nnpCrashed = blank_net NUM_PRUNING_INPUTS, nnpContact = blank_net NUM_PRUNING_INPUTS\<rparr>"

lemma blank_nets_fit: "nets_fit blank_program"
proof -
  have "net_fits n (blank_net n)" if "0 < n" for n
    using that by (simp add: net_fits_def wf_net_def blank_net_def NUM_OUTPUTS_def)
  then show ?thesis by (simp add: nets_fit_def blank_program_def input_counts)
qed

lemma blank_db_read:
  "unat k < 54264 \<Longrightarrow> BearoffDist m (Some blank_db) k = Inr (AssignOneSided (replicate 64 0))"
  "BearoffDist m (Some blank_db) k = Inr d \<Longrightarrow> d = AssignOneSided (replicate 64 0)"
proof -
  have zero: "word_bytes (replicate 64 0) = replicate 128 0" by (simp add: word_bytes_def eval_nat_numeral)
  have dist: "BearoffDist m (Some blank_db) k = db_bind (GetDistUncompressed (snd m) blank_db k) (\<lambda>pus. Inr (AssignOneSided pus))"
    by (simp add: BearoffDist_def ReadBearoffOneSidedExact_def blank_db_def)
  show "BearoffDist m (Some blank_db) k = Inr (AssignOneSided (replicate 64 0))" if "unat k < 54264"
  proof -
    have "stores_plain blank_db k (replicate 64 0)"
      using that zero by (simp add: stores_plain_def bytes_at_def blank_db_def)
    from stores_plain_read [OF this] show ?thesis by (simp add: dist)
  qed
  assume d: "BearoffDist m (Some blank_db) k = Inr d"
  then obtain puch pus where p: "db_read blank_db (64 * k * 2) 128 128 = Inr puch" "CopyBytes puch 32 0 32 0 = Inr pus" "d = AssignOneSided pus"
    unfolding dist by (auto simp: GetDistUncompressed_def db_bind_eq_Inr blank_db_def Let_def)
  have "puch = replicate 128 0"
    using p(1) by (auto simp: db_read_def ReadBearoffFile_def blank_db_def in_range_eq_Inr split: if_splits)
  moreover have "CopyBytes (word_bytes (replicate 32 0 @ replicate 32 0)) (length (replicate 32 0 :: u16 list)) 0 (length (replicate 32 0 :: u16 list)) 0
      = Inr (replicate 32 0 @ replicate 32 0)"
    by (intro CopyBytes_windows) (simp_all add: window_def)
  ultimately have "pus = replicate 32 0 @ replicate 32 0" using p(2) zero by (simp flip: replicate_add)
  then show "d = AssignOneSided (replicate 64 0)" using p(3) by (simp flip: replicate_add)
qed

lemma blank_record: "proper_record (AssignOneSided (replicate 64 0))"
  by (simp add: proper_record_def AssignOneSided_def Let_def map_replicate_const)

lemma blank_program_ready: "sound_program blank_program" "equipped blank_program"
proof -
  have "all_dbs blank_program = {blank_db}" by (auto simp: all_dbs_def blank_program_def)
  moreover have "sound_db blank_program blank_db"
  proof -
    have "bt blank_db = BEAROFF_ONESIDED" "db_fGammon blank_db \<noteq> 0" by (simp_all add: blank_db_def)
    then show ?thesis using blank_db_read(2) blank_record unfolding sound_db_def by (metis bearofftype.distinct(9))
  qed
  ultimately show "sound_program blank_program" using blank_nets_fit by (simp add: sound_program_def)
  have "(21 :: nat) choose 6 = 54264" by (simp add: binomial_fact' fact_numeral)
  then have "one_sided_records blank_program blank_db"
    using blank_db_read(1) blank_record unfolding one_sided_records_def by (simp add: blank_db_def bearoff_size_def)
  moreover have "db_pbc1 blank_program = Some blank_db" "db_pbc2 blank_program = None" "db_pbcOS blank_program = None"
    "db_pbcTS blank_program = None" "unat (nChequers blank_db) = 15"
    by (simp_all add: blank_program_def blank_db_def)
  ultimately show "equipped blank_program" using blank_nets_fit by (auto simp: equipped_def)
qed

text \<open>A race with a straggler in the other side's home.\<close>

definition straggler_board :: TanBoard where
  "straggler_board = ((replicate 25 0)[0 := 14, 19 := 1], (replicate 25 0)[2 := 3])"

lemma straggler_playable: "playable straggler_board"
proof -
  have "list_all (\<lambda>i. fst straggler_board ! (23 - i) = 0 \<or> snd straggler_board ! i = 0) [0..<24] \<and>
      length (fst straggler_board) = 25 \<and> length (snd straggler_board) = 25 \<and>
      chequers (fst straggler_board) = 15 \<and> chequers (snd straggler_board) = 3"
    by code_simp
  then show ?thesis by (simp add: playable_def no_shared_def wf_board_def list_all_iff)
qed

theorem race_backgammon_chance_witness:
  "\<exists>pr. raceBGprob blank_program straggler_board 1 = Inr pr \<and> 0 \<le> pr \<and> pr \<le> 1"
proof (rule race_backgammon_chance [OF blank_program_ready(2) straggler_playable])
  show "ClassifyPosition (loaded blank_program) straggler_board VARIATION_STANDARD = CLASS_RACE"
  proof -
    have "loaded blank_program = \<lparr>pbc2 = None, pbcTS = None,
        pbc1 = Some \<lparr>bt = BEAROFF_ONESIDED, nPoints = 6, nChequers = 15\<rparr>, pbcOS = None\<rparr>"
      by (simp add: loaded_def blank_program_def blank_db_def bearoffcontext.truncate_def)
    moreover have "ClassifyPosition \<lparr>pbc2 = None, pbcTS = None, pbc1 = Some \<lparr>bt = BEAROFF_ONESIDED, nPoints = 6, nChequers = 15\<rparr>,
        pbcOS = None\<rparr> straggler_board VARIATION_STANDARD = CLASS_RACE" by code_simp
    ultimately show ?thesis by simp
  qed
  show "backgammon_possible (player_side straggler_board (1 - 1))" by code_simp
qed simp


end
