(* ===== verification/Md5.thy ===== *)
theory Md5
  imports Gnubg_Prelude
begin

text \<open>
  MD5 (lib/md5.c), which one of the dice generators and the deterministic noise use: the context with
  its buffer, the processing of blocks and of bytes, and the padding at the end.  \<open>md5_buffer\<close> is proved to
  compute the digest of RFC 1321, stated over the padded message.
\<close>

section \<open>The context\<close>

record md5_ctx =
  ctx_A :: u32
  ctx_B :: u32
  ctx_C :: u32
  ctx_D :: u32
  total0 :: u32
  total1 :: u32
  buflen :: u32
  buffer :: "u8 list"

definition md5_init_ctx :: "md5_ctx \<Rightarrow> md5_ctx" where
  "md5_init_ctx ctx = ctx\<lparr>ctx_A := 0x67452301, ctx_B := 0xefcdab89, ctx_C := 0x98badcfe, ctx_D := 0x10325476,
     total0 := 0, total1 := 0, buflen := 0\<rparr>"

text \<open>The macros \<open>WRITE\<close> and \<open>READ\<close>: a word is stored with its low byte first.\<close>

definition md5_WRITE :: "u32 \<Rightarrow> u8 list" where
  "md5_WRITE n = [ucast (n AND 0xFF), ucast (drop_bit 8 (n AND 0xFF00)), ucast (drop_bit 16 (n AND 0xFF0000)),
     ucast (drop_bit 24 (n AND 0xFF000000))]"

definition md5_READ :: "u8 list \<Rightarrow> u32" where
  "md5_READ p = ucast (p ! 0) OR push_bit 8 (ucast (p ! 1)) OR push_bit 16 (ucast (p ! 2)) OR push_bit 24 (ucast (p ! 3))"

definition md5_read_ctx :: "md5_ctx \<Rightarrow> u8 list" where
  "md5_read_ctx ctx = md5_WRITE (ctx_A ctx) @ md5_WRITE (ctx_B ctx) @ md5_WRITE (ctx_C ctx) @ md5_WRITE (ctx_D ctx)"

section \<open>One block\<close>

type_synonym md5_state = "u32 \<times> u32 \<times> u32 \<times> u32"

definition FF :: "u32 \<Rightarrow> u32 \<Rightarrow> u32 \<Rightarrow> u32" where "FF b c d = d XOR (b AND (c XOR d))"
definition FG :: "u32 \<Rightarrow> u32 \<Rightarrow> u32 \<Rightarrow> u32" where "FG b c d = FF d b c"
definition FH :: "u32 \<Rightarrow> u32 \<Rightarrow> u32 \<Rightarrow> u32" where "FH b c d = b XOR c XOR d"
definition FI :: "u32 \<Rightarrow> u32 \<Rightarrow> u32 \<Rightarrow> u32" where "FI b c d = c XOR (b OR NOT d)"

definition CYCLIC :: "u32 \<Rightarrow> nat \<Rightarrow> u32" where
  "CYCLIC w s = push_bit s w OR drop_bit (32 - s) w"

text \<open>The operations of the four rounds: the word read, the rotation and the constant.\<close>

definition md5_round1 :: "(nat \<times> nat \<times> u32) list" where
  "md5_round1 =
    [(0, 7, 0xd76aa478), (1, 12, 0xe8c7b756), (2, 17, 0x242070db), (3, 22, 0xc1bdceee),
     (4, 7, 0xf57c0faf), (5, 12, 0x4787c62a), (6, 17, 0xa8304613), (7, 22, 0xfd469501),
     (8, 7, 0x698098d8), (9, 12, 0x8b44f7af), (10, 17, 0xffff5bb1), (11, 22, 0x895cd7be),
     (12, 7, 0x6b901122), (13, 12, 0xfd987193), (14, 17, 0xa679438e), (15, 22, 0x49b40821)]"

definition md5_round2 :: "(nat \<times> nat \<times> u32) list" where
  "md5_round2 =
    [(1, 5, 0xf61e2562), (6, 9, 0xc040b340), (11, 14, 0x265e5a51), (0, 20, 0xe9b6c7aa),
     (5, 5, 0xd62f105d), (10, 9, 0x02441453), (15, 14, 0xd8a1e681), (4, 20, 0xe7d3fbc8),
     (9, 5, 0x21e1cde6), (14, 9, 0xc33707d6), (3, 14, 0xf4d50d87), (8, 20, 0x455a14ed),
     (13, 5, 0xa9e3e905), (2, 9, 0xfcefa3f8), (7, 14, 0x676f02d9), (12, 20, 0x8d2a4c8a)]"

definition md5_round3 :: "(nat \<times> nat \<times> u32) list" where
  "md5_round3 =
    [(5, 4, 0xfffa3942), (8, 11, 0x8771f681), (11, 16, 0x6d9d6122), (14, 23, 0xfde5380c),
     (1, 4, 0xa4beea44), (4, 11, 0x4bdecfa9), (7, 16, 0xf6bb4b60), (10, 23, 0xbebfbc70),
     (13, 4, 0x289b7ec6), (0, 11, 0xeaa127fa), (3, 16, 0xd4ef3085), (6, 23, 0x04881d05),
     (9, 4, 0xd9d4d039), (12, 11, 0xe6db99e5), (15, 16, 0x1fa27cf8), (2, 23, 0xc4ac5665)]"

definition md5_round4 :: "(nat \<times> nat \<times> u32) list" where
  "md5_round4 =
    [(0, 6, 0xf4292244), (7, 10, 0x432aff97), (14, 15, 0xab9423a7), (5, 21, 0xfc93a039),
     (12, 6, 0x655b59c3), (3, 10, 0x8f0ccc92), (10, 15, 0xffeff47d), (1, 21, 0x85845dd1),
     (8, 6, 0x6fa87e4f), (15, 10, 0xfe2ce6e0), (6, 15, 0xa3014314), (13, 21, 0x4e0811a1),
     (4, 6, 0xf7537e82), (11, 10, 0xbd3af235), (2, 15, 0x2ad7d2bb), (9, 21, 0xeb86d391)]"

text \<open>
  One \<open>OP\<close>: it changes the first of the registers it names, and the next \<open>OP\<close> names them rotated by one.
\<close>

definition md5_OP :: "(u32 \<Rightarrow> u32 \<Rightarrow> u32 \<Rightarrow> u32) \<Rightarrow> u32 list \<Rightarrow> nat \<times> nat \<times> u32 \<Rightarrow> md5_state \<Rightarrow> md5_state" where
  "md5_OP f correct_words = (\<lambda>(k, s, T) (a, b, c, d).
     let a = a + (f b c d + correct_words ! k + T); a = CYCLIC a s; a = a + b in (d, a, b, c))"

definition md5_block :: "u8 list \<Rightarrow> md5_state \<Rightarrow> md5_state" where
  "md5_block bytes = (\<lambda>(A_save, B_save, C_save, D_save).
     let correct_words = map (\<lambda>i. md5_READ (drop (4 * i) bytes)) [0..<16];
         (A, B, C, D) = fold (md5_OP FI correct_words) md5_round4 (fold (md5_OP FH correct_words) md5_round3
           (fold (md5_OP FG correct_words) md5_round2 (fold (md5_OP FF correct_words) md5_round1
             (A_save, B_save, C_save, D_save))))
     in (A + A_save, B + B_save, C + C_save, D + D_save))"

text \<open>The carry into \<open>total1\<close> compares the sum with the length, a \<open>size_t\<close>.\<close>

definition md5_process_block :: "u8 list \<Rightarrow> nat \<Rightarrow> md5_ctx \<Rightarrow> md5_ctx" where
  "md5_process_block buf len ctx =
     (let total = total0 ctx + of_nat len;
          (A, B, C, D) = fold (\<lambda>i. md5_block (drop (64 * i) buf)) [0..<len div 64]
            (ctx_A ctx, ctx_B ctx, ctx_C ctx, ctx_D ctx)
      in ctx\<lparr>ctx_A := A, ctx_B := B, ctx_C := C, ctx_D := D, total0 := total,
           total1 := (if unat total < len then total1 ctx + 1 else total1 ctx)\<rparr>)"

section \<open>Messages\<close>

definition md5_memcpy :: "nat \<Rightarrow> u8 list \<Rightarrow> u8 list \<Rightarrow> u8 list" where
  "md5_memcpy to from buf = take to buf @ from @ drop (to + length from) buf"

definition md5_process_bytes :: "u8 list \<Rightarrow> md5_ctx \<Rightarrow> md5_ctx" where
  "md5_process_bytes bytes ctx =
     (let (bytes, ctx) =
        (if buflen ctx \<noteq> 0 then
           let left_over = unat (buflen ctx);
               add = (if 128 - left_over > length bytes then length bytes else 128 - left_over);
               add = add - add mod 4;
               ctx = ctx\<lparr>buffer := md5_memcpy left_over (take add bytes) (buffer ctx), buflen := buflen ctx + of_nat add\<rparr>;
               ctx = (if buflen ctx > 64 then
                 let ctx = md5_process_block (buffer ctx) (unat (buflen ctx AND NOT 63)) ctx;
                     ctx = ctx\<lparr>buflen := buflen ctx AND 63\<rparr>
                 in ctx\<lparr>buffer := md5_memcpy 0 (take (unat (buflen ctx)) (drop ((left_over + add) div 64 * 64) (buffer ctx))) (buffer ctx)\<rparr>
                 else ctx)
           in (drop add bytes, ctx)
         else (bytes, ctx));
        (bytes, ctx) =
          (if length bytes > 64 then
             let full = length bytes div 64 * 64 in (drop full bytes, md5_process_block bytes full ctx)
           else (bytes, ctx))
      in
      if length bytes > 0 then
        let left_over = unat (buflen ctx);
            ctx = ctx\<lparr>buffer := md5_memcpy left_over bytes (buffer ctx)\<rparr>;
            left_over = left_over + length bytes;
            (left_over, ctx) =
              (if left_over \<ge> 64 then
                 let ctx = md5_process_block (buffer ctx) 64 ctx; left_over = left_over - 64
                 in (left_over, ctx\<lparr>buffer := md5_memcpy 0 (take left_over (drop 64 (buffer ctx))) (buffer ctx)\<rparr>)
               else (left_over, ctx))
        in ctx\<lparr>buflen := of_nat left_over\<rparr>
      else ctx)"

definition fillbuf :: "u8 list" where "fillbuf = 0x80 # replicate 63 0"

definition md5_finish_ctx :: "md5_ctx \<Rightarrow> u8 list" where
  "md5_finish_ctx ctx =
     (let bytes = buflen ctx; total = total0 ctx + bytes;
          ctx = ctx\<lparr>total0 := total, total1 := (if total < bytes then total1 ctx + 1 else total1 ctx)\<rparr>;
          n = unat bytes; pad = (if n \<ge> 56 then 64 + 56 - n else 56 - n);
          buf = md5_memcpy n (take pad fillbuf) (buffer ctx);
          buf = md5_memcpy (n + pad) (md5_WRITE (push_bit 3 (total0 ctx))) buf;
          buf = md5_memcpy (n + pad + 4) (md5_WRITE (push_bit 3 (total1 ctx) OR drop_bit 29 (total0 ctx))) buf
      in md5_read_ctx (md5_process_block buf (n + pad + 8) (ctx\<lparr>buffer := buf\<rparr>)))"

text \<open>The context is a local variable: \<open>junk\<close> is what its memory holds before.\<close>

definition md5_buffer :: "md5_ctx \<Rightarrow> u8 list \<Rightarrow> u8 list" where
  "md5_buffer junk buf = md5_finish_ctx (md5_process_bytes buf (md5_init_ctx junk))"

section \<open>The digest of RFC 1321\<close>

text \<open>\<open>le_bytes k n\<close> is \<open>n\<close> in \<open>k\<close> bytes, the low one first.\<close>

definition le_bytes :: "nat \<Rightarrow> nat \<Rightarrow> u8 list" where
  "le_bytes k n = map (\<lambda>i. of_nat (n div 256 ^ i)) [0..<k]"

definition md5_padded :: "u8 list \<Rightarrow> u8 list" where
  "md5_padded msg = msg @ 0x80 # replicate ((119 - length msg mod 64) mod 64) 0 @ le_bytes 8 (8 * length msg)"

fun md5_blocks :: "u8 list \<Rightarrow> md5_state \<Rightarrow> md5_state" where
  "md5_blocks bytes s = (if length bytes < 64 then s else md5_blocks (drop 64 bytes) (md5_block (take 64 bytes) s))"

declare md5_blocks.simps [simp del]

definition md5_digest :: "u8 list \<Rightarrow> u8 list" where
  "md5_digest msg =
     (let (a, b, c, d) = md5_blocks (md5_padded msg) (0x67452301, 0xefcdab89, 0x98badcfe, 0x10325476)
      in le_bytes 4 (unat a) @ le_bytes 4 (unat b) @ le_bytes 4 (unat c) @ le_bytes 4 (unat d))"

section \<open>Bytes of words\<close>

lemma unat_mod_u32: "unat w mod 4294967296 = unat w" for w :: u32
  using unat_u32_less [of w] by simp

lemma of_nat_u8_eq: "m mod 256 = n mod 256 \<Longrightarrow> (of_nat m :: u8) = of_nat n"
  by (rule unat_eqI) (simp add: unat_of_nat)

lemma ucast_drop_u8: "(ucast (drop_bit k w) :: u8) = of_nat (unat w div 2 ^ k)" for w :: u32
proof (rule unat_eqI)
  show "unat (ucast (drop_bit k w) :: u8) = unat (of_nat (unat w div 2 ^ k) :: u8)"
    by (simp add: unat_of_nat unsigned_ucast_eq unsigned_drop_bit_eq take_bit_eq_mod drop_bit_eq_div [of _ "_ :: nat"] unat_mod_u32)
qed

lemma md5_WRITE_bytes: "md5_WRITE w = le_bytes 4 (unat w)"
proof -
  have byte: "(ucast (drop_bit k (w AND push_bit k 0xFF)) :: u8) = ucast (drop_bit k w)" if "k \<in> {0, 8, 16, 24}" for k
    by (rule u8_eqI) (use that in \<open>auto simp: u8_bits\<close>)
  have "md5_WRITE w = [ucast (drop_bit 0 w), ucast (drop_bit 8 w), ucast (drop_bit 16 w), ucast (drop_bit 24 w)]"
    using byte [of 0] byte [of 8] byte [of 16] byte [of 24] by (simp add: md5_WRITE_def)
  moreover have "[0..<4] = [0, 1, 2, 3 :: nat]" by code_simp
  ultimately show ?thesis unfolding ucast_drop_u8 by (simp add: le_bytes_def)
qed

lemma length_bytes [simp]: "length (le_bytes k n) = k" "length (md5_WRITE w) = 4"
  by (simp_all add: le_bytes_def md5_WRITE_def)

lemma le_bytes_split: "le_bytes 8 n = le_bytes 4 (n mod 2 ^ 32) @ le_bytes 4 (n div 2 ^ 32)"
proof (rule nth_equalityI)
  fix i assume "i < length (le_bytes 8 n)"
  then have i: "i < 8" by simp
  have low: "(n mod 2 ^ 32) div 256 ^ i mod 256 = n div 256 ^ i mod 256" if "i < 4"
  proof -
    have "256 ^ i * (256 * 256 ^ (3 - i)) = (256 :: nat) ^ (i + (1 + (3 - i)))" by (simp only: power_add power_one_right)
    then have "(2 :: nat) ^ 32 = 256 ^ i * (256 * 256 ^ (3 - i))" using that by simp
    then have "n mod 2 ^ 32 div 256 ^ i = n div 256 ^ i mod (256 * 256 ^ (3 - i))" by (simp only: mod_mult2_eq) simp
    then show ?thesis by (simp add: mod_mod_cancel)
  qed
  show "le_bytes 8 n ! i = (le_bytes 4 (n mod 2 ^ 32) @ le_bytes 4 (n div 2 ^ 32)) ! i"
  proof (cases "i < 4")
    case True
    then show ?thesis using of_nat_u8_eq [OF low] i by (simp add: nth_append le_bytes_def)
  next
    case False
    then have "n div 2 ^ 32 div 256 ^ (i - 4) = n div (256 ^ 4 * 256 ^ (i - 4))" by (simp only: div_mult2_eq) simp
    also have "(256 :: nat) ^ 4 * 256 ^ (i - 4) = 256 ^ i" using False by (simp only: power_add [symmetric]) simp
    finally have "n div 2 ^ 32 div 256 ^ (i - 4) = n div 256 ^ i" .
    moreover have "[0..<4] ! (i - 4) = i - 4" using i by (subst nth_upt) simp_all
    ultimately show ?thesis using False i by (simp add: nth_append le_bytes_def)
  qed
qed simp

lemma md5_length_bytes:
  "md5_WRITE (push_bit 3 w) @ md5_WRITE (drop_bit 29 w) = le_bytes 8 (8 * unat w)"
proof -
  have "unat (push_bit 3 w) = 8 * unat w mod 2 ^ 32"
    by (simp add: push_bit_eq_mult unat_word_ariths mult.commute)
  moreover have "unat (drop_bit 29 w) = 8 * unat w div 2 ^ 32"
    by (simp add: unsigned_drop_bit_eq take_bit_eq_mod drop_bit_eq_div [of _ "_ :: nat"] unat_mod_u32)
  ultimately show ?thesis unfolding md5_WRITE_bytes le_bytes_split [of "8 * unat w"] by (simp only:)
qed

section \<open>The digest of a buffer\<close>

text \<open>The processed part of a message: whole blocks, then fewer than 64 bytes that wait in the buffer.\<close>

lemma md5_block_take: "64 \<le> length bytes \<Longrightarrow> md5_block (take 64 bytes) = md5_block bytes"
proof -
  have "md5_READ (drop (4 * i) (take 64 bytes)) = md5_READ (drop (4 * i) bytes)" if "i < 16" "64 \<le> length bytes" for i
    using that by (simp add: md5_READ_def)
  then have "64 \<le> length bytes \<Longrightarrow> map (\<lambda>i. md5_READ (drop (4 * i) (take 64 bytes))) [0..<16] = map (\<lambda>i. md5_READ (drop (4 * i) bytes)) [0..<16]"
    by (intro map_cong) auto
  then show "64 \<le> length bytes \<Longrightarrow> md5_block (take 64 bytes) = md5_block bytes" by (simp only: md5_block_def)
qed

lemma md5_blocks_fold:
  "64 * n \<le> length bytes \<Longrightarrow> fold (\<lambda>i. md5_block (drop (64 * i) bytes)) [0..<n] s = md5_blocks (take (64 * n) bytes) s"
proof (induction n arbitrary: bytes s)
  case 0
  then show ?case by (simp add: md5_blocks.simps)
next
  case (Suc n)
  have "fold (\<lambda>i. md5_block (drop (64 * i) bytes)) [0..<Suc n] s =
      fold (\<lambda>i. md5_block (drop (64 * i) (drop 64 bytes))) [0..<n] (md5_block bytes s)"
    by (simp add: upt_conv_Cons map_Suc_upt [symmetric] fold_map comp_def add.commute del: upt_Suc)
  also have "\<dots> = md5_blocks (take (64 * n) (drop 64 bytes)) (md5_block bytes s)" using Suc.prems by (intro Suc.IH) simp
  also have "\<dots> = md5_blocks (take (64 * Suc n) bytes) s"
    using Suc.prems md5_block_take [of bytes]
    by (subst (2) md5_blocks.simps) (simp add: take_take min_def drop_take)
  finally show ?case .
qed

lemma md5_blocks_append: "64 dvd length xs \<Longrightarrow> md5_blocks (xs @ ys) s = md5_blocks ys (md5_blocks xs s)"
proof (induction xs s rule: md5_blocks.induct)
  case (1 xs s)
  show ?case
  proof (cases "length xs < 64")
    case True
    then have "xs = []" using "1.prems" by (auto dest: dvd_imp_le)
    then show ?thesis by (simp add: md5_blocks.simps [of "[]"])
  next
    case False
    then have "md5_blocks (drop 64 xs @ ys) (md5_block (take 64 xs) s) =
        md5_blocks ys (md5_blocks (drop 64 xs) (md5_block (take 64 xs) s))"
      using "1.prems" by (intro "1.IH") (auto simp: dvd_minus_self)
    then show ?thesis using False
      by (subst (1 3) md5_blocks.simps) simp
  qed
qed

definition ctx_state :: "md5_ctx \<Rightarrow> md5_state" where
  "ctx_state ctx = (ctx_A ctx, ctx_B ctx, ctx_C ctx, ctx_D ctx)"

lemma md5_process_block_state:
  assumes "64 dvd len" "len \<le> length buf"
  shows "ctx_state (md5_process_block buf len ctx) = md5_blocks (take len buf) (ctx_state ctx)"
    and "buffer (md5_process_block buf len ctx) = buffer ctx" "buflen (md5_process_block buf len ctx) = buflen ctx"
    and "total0 (md5_process_block buf len ctx) = total0 ctx + of_nat len"
    and "total0 ctx = 0 \<Longrightarrow> len < 2 ^ 32 \<Longrightarrow> total1 (md5_process_block buf len ctx) = total1 ctx"
proof -
  have "64 * (len div 64) = len" using assms(1) by simp
  then show "ctx_state (md5_process_block buf len ctx) = md5_blocks (take len buf) (ctx_state ctx)"
    using md5_blocks_fold [of "len div 64" buf "ctx_state ctx"] assms(2)
    by (simp add: md5_process_block_def ctx_state_def Let_def split: prod.split)
qed (auto simp: md5_process_block_def Let_def unat_of_nat_u32 split: prod.splits)

text \<open>What a context holds after a message: the state of its blocks and the bytes that wait.\<close>

definition holds :: "md5_ctx \<Rightarrow> u8 list \<Rightarrow> bool" where
  "holds ctx msg \<longleftrightarrow>
     (let full = length msg div 64 * 64 in
      ctx_state ctx = md5_blocks (take full msg) (0x67452301, 0xefcdab89, 0x98badcfe, 0x10325476) \<and>
      total0 ctx = of_nat full \<and> total1 ctx = 0 \<and> unat (buflen ctx) = length msg mod 64 \<and>
      length (buffer ctx) = 128 \<and> take (length msg mod 64) (buffer ctx) = drop full msg)"

lemma length_md5_memcpy: "to + length from \<le> length buf \<Longrightarrow> length (md5_memcpy to from buf) = length buf"
  by (simp add: md5_memcpy_def)

lemma md5_process_bytes_holds:
  assumes "length (buffer junk) = 128" "length msg < 2 ^ 32"
  shows "holds (md5_process_bytes msg (md5_init_ctx junk)) msg"
proof -
  let ?ctx = "md5_init_ctx junk" and ?full = "length msg div 64 * 64"
  have init: "ctx_state ?ctx = (0x67452301, 0xefcdab89, 0x98badcfe, 0x10325476)" "total0 ?ctx = 0" "total1 ?ctx = 0"
    "buflen ?ctx = 0" "length (buffer ?ctx) = 128"
    using assms(1) by (simp_all add: md5_init_ctx_def ctx_state_def)
  have full: "64 dvd ?full" "?full \<le> length msg" "?full < 2 ^ 32" using assms(2) by auto
  consider "length msg = 0" | "length msg = 64" | "0 < length msg" "length msg < 64" | "length msg > 64" by linarith
  then show ?thesis
  proof cases
    case 1
    then show ?thesis using init by (simp add: holds_def md5_process_bytes_def md5_blocks.simps)
  next
    case 2
    define ctx where "ctx = ?ctx\<lparr>buffer := md5_memcpy 0 msg (buffer ?ctx)\<rparr>"
    have len: "length (buffer ctx) = 128" using init 2 by (simp add: ctx_def length_md5_memcpy)
    have same: "ctx_state ctx = ctx_state ?ctx" "total0 ctx = 0" "total1 ctx = 0" using init by (simp_all add: ctx_def ctx_state_def)
    have buf: "take 64 (buffer ctx) = msg" using 2 by (simp add: ctx_def md5_memcpy_def)
    have nonempty: "msg \<noteq> []" using 2 by auto
    note run = md5_process_block_state [of 64 "buffer ctx" ctx]
    have "md5_process_bytes msg ?ctx = (md5_process_block (buffer ctx) 64 ctx)\<lparr>
        buffer := md5_memcpy 0 [] (buffer (md5_process_block (buffer ctx) 64 ctx)), buflen := 0\<rparr>"
      using 2 init nonempty by (simp add: md5_process_bytes_def ctx_def Let_def)
    then show ?thesis using 2 run len same buf init
      by (simp add: holds_def Let_def md5_memcpy_def) (simp add: ctx_state_def)
  next
    case 3
    then show ?thesis using init
      by (simp add: holds_def md5_process_bytes_def Let_def length_md5_memcpy unat_of_nat_u32 md5_blocks.simps)
        (simp add: md5_memcpy_def ctx_state_def)
  next
    case 4
    define ctx where "ctx = md5_process_block msg ?full ?ctx"
    note run = md5_process_block_state [OF full(1,2), of ?ctx, folded ctx_def]
    have rest: "length (drop ?full msg) = length msg mod 64" by (simp add: minus_div_mult_eq_mod)
    show ?thesis
    proof (cases "length msg mod 64 = 0")
      case True
      then have "md5_process_bytes msg ?ctx = ctx"
        using 4 init rest by (simp add: md5_process_bytes_def Let_def ctx_def)
      moreover have "?full = length msg" using True by (simp add: minus_mod_eq_div_mult [symmetric])
      ultimately show ?thesis using True run init full by (simp add: holds_def Let_def)
    next
      case False
      have lt: "length msg mod 64 < 64" by simp
      have "md5_process_bytes msg ?ctx =
          ctx\<lparr>buffer := md5_memcpy 0 (drop ?full msg) (buffer ctx), buflen := of_nat (length msg mod 64)\<rparr>"
        using 4 False init rest run lt by (simp add: md5_process_bytes_def Let_def ctx_def not_le)
      then show ?thesis using run init full rest lt
        by (simp add: holds_def Let_def length_md5_memcpy unat_of_nat_u32) (simp add: md5_memcpy_def ctx_state_def)
    qed
  qed
qed

lemma md5_read_ctx_digest:
  "ctx_state ctx = md5_blocks (md5_padded msg) (0x67452301, 0xefcdab89, 0x98badcfe, 0x10325476) \<Longrightarrow> md5_read_ctx ctx = md5_digest msg"
  by (drule sym) (simp add: md5_digest_def md5_read_ctx_def ctx_state_def md5_WRITE_bytes)

lemma md5_tail:
  assumes "length xs = p" "length ys = 4" "length zs = 4" "n + p + 8 \<le> length buf"
  shows "take (n + p + 8) (md5_memcpy (n + p + 4) zs (md5_memcpy (n + p) ys (md5_memcpy n xs buf))) = take n buf @ xs @ ys @ zs"
    and "length (md5_memcpy (n + p + 4) zs (md5_memcpy (n + p) ys (md5_memcpy n xs buf))) = length buf"
  using assms by (simp_all add: md5_memcpy_def)

lemma md5_finish_ctx_holds:
  assumes "holds ctx msg" "length msg < 2 ^ 32"
  shows "md5_finish_ctx ctx = md5_digest msg"
proof -
  let ?n = "length msg mod 64" and ?full = "length msg div 64 * 64"
  let ?pad = "if ?n \<ge> 56 then 64 + 56 - ?n else 56 - ?n"
  have n: "?n < 64" by simp
  have len: "?full + ?n = length msg" by simp
  note h = assms(1) [unfolded holds_def Let_def]
  have total: "unat (total0 ctx + buflen ctx) = length msg"
  proof -
    have "total0 ctx = of_nat ?full" "?full < 2 ^ 32" using h assms(2) by (blast, simp)
    then have "unat (total0 ctx) = ?full" by (simp only: unat_of_nat_u32)
    then show ?thesis using h len assms(2) by (subst unat_plus_small) simp_all
  qed
  have no_carry: "\<not> total0 ctx + buflen ctx < buflen ctx"
    using total h by (simp add: word_less_nat_alt)
  have pad: "?n + ?pad + 8 = (if ?n \<ge> 56 then 128 else 64)" by auto
  have zeros: "take ?pad fillbuf = 0x80 # replicate ((119 - ?n) mod 64) 0"
  proof -
    have "?pad = Suc ((119 - ?n) mod 64)"
    proof (cases "?n \<ge> 56")
      case False
      then have "119 - ?n = 64 + (55 - ?n)" by simp
      then have "(119 - ?n) mod 64 = 55 - ?n" by (simp only: mod_add_self1) simp
      then show ?thesis using False by (simp add: not_le) linarith
    qed (use n in simp)
    moreover have "(119 - ?n) mod 64 \<le> 63" using mod_less_divisor [of 64 "119 - ?n"] by linarith
    ultimately show ?thesis by (simp only: fillbuf_def take_Suc_Cons take_replicate min_def) simp
  qed
  define buf where "buf = md5_memcpy (?n + ?pad + 4) (md5_WRITE (push_bit 3 0 OR drop_bit 29 (total0 ctx + buflen ctx)))
    (md5_memcpy (?n + ?pad) (md5_WRITE (push_bit 3 (total0 ctx + buflen ctx)))
      (md5_memcpy ?n (take ?pad fillbuf) (buffer ctx)))"
  have lpad: "length (take ?pad fillbuf) = ?pad" using n by (simp add: fillbuf_def)
  have room: "?n + ?pad + 8 \<le> length (buffer ctx)" unfolding pad using h by simp
  have lbuf: "length buf = 128"
    unfolding buf_def using md5_tail(2) [OF lpad length_bytes(2) length_bytes(2) room] h by simp
  have "take (?n + ?pad + 8) buf = take ?n (buffer ctx) @ take ?pad fillbuf @
      md5_WRITE (push_bit 3 (total0 ctx + buflen ctx)) @ md5_WRITE (push_bit 3 0 OR drop_bit 29 (total0 ctx + buflen ctx))"
    unfolding buf_def by (rule md5_tail(1) [OF lpad length_bytes(2) length_bytes(2) room])
  then have "take (?n + ?pad + 8) buf = drop ?full msg @ take ?pad fillbuf @
      md5_WRITE (push_bit 3 (total0 ctx + buflen ctx)) @ md5_WRITE (drop_bit 29 (total0 ctx + buflen ctx))"
    using h by (simp only: push_bit_of_0 or.left_neutral)
  then have "take (?n + ?pad + 8) buf = drop ?full msg @ 0x80 # replicate ((119 - ?n) mod 64) 0 @ le_bytes 8 (8 * length msg)"
    unfolding zeros md5_length_bytes total by simp
  then have padded: "md5_padded msg = take ?full msg @ take (?n + ?pad + 8) buf"
    by (simp add: md5_padded_def append_assoc [symmetric] del: append_assoc)
  define ctx' where "ctx' = ctx\<lparr>total0 := total0 ctx + buflen ctx, total1 := 0, buffer := buf\<rparr>"
  have "md5_finish_ctx ctx = md5_read_ctx (md5_process_block buf (?n + ?pad + 8) ctx')"
    using h no_carry by (simp add: md5_finish_ctx_def Let_def buf_def ctx'_def)
  moreover have "ctx_state (md5_process_block buf (?n + ?pad + 8) ctx') =
      md5_blocks (take (?n + ?pad + 8) buf) (ctx_state ctx)"
    using md5_process_block_state(1) [of "?n + ?pad + 8" buf ctx'] lbuf pad by (simp add: ctx'_def ctx_state_def)
  moreover have "md5_blocks (take (?n + ?pad + 8) buf) (ctx_state ctx) =
      md5_blocks (md5_padded msg) (0x67452301, 0xefcdab89, 0x98badcfe, 0x10325476)"
    unfolding padded using h by (subst md5_blocks_append) simp_all
  ultimately show ?thesis using md5_read_ctx_digest by simp
qed


text \<open>A digest of the test suite of RFC 1321, of "abc".\<close>

definition blank_ctx :: md5_ctx where
  "blank_ctx = \<lparr>ctx_A = 0, ctx_B = 0, ctx_C = 0, ctx_D = 0, total0 = 0, total1 = 0, buflen = 0, buffer = replicate 128 0\<rparr>"

definition abc_words :: "u32 list" where
  "abc_words = [0x80636261, 0, 0, 0, 0, 0, 0, 0, 0, 0, 0, 0, 0, 0, 24, 0]"

lemma abc_rounds:
  "fold (md5_OP FF abc_words) md5_round1 (0x67452301, 0xefcdab89, 0x98badcfe, 0x10325476) =
     (0xdda9b9a6, 0x72aff2e0, 0xe396856b, 0xa1051895)"
  "fold (md5_OP FG abc_words) md5_round2 (0xdda9b9a6, 0x72aff2e0, 0xe396856b, 0xa1051895) =
     (0x790a77fb, 0x726342d3, 0xa62884aa, 0x9f47e4f8)"
  "fold (md5_OP FH abc_words) md5_round3 (0x790a77fb, 0x726342d3, 0xa62884aa, 0x9f47e4f8) =
     (0x7f2e507b, 0x7beb9700, 0x8fae6399, 0x99d9679d)"
  "fold (md5_OP FI abc_words) md5_round4 (0x7f2e507b, 0x7beb9700, 0x8fae6399, 0x99d9679d) =
     (0x310ade8f, 0xc08226b3, 0xe484b9d8, 0x624d8cb2)"
  by (simp_all add: md5_OP_def FF_def FG_def FH_def FI_def CYCLIC_def abc_words_def
    md5_round1_def md5_round2_def md5_round3_def md5_round4_def)

lemma abc_padded: "md5_padded [0x61, 0x62, 0x63] = [0x61, 0x62, 0x63, 0x80] @ replicate 52 0 @ [24, 0, 0, 0, 0, 0, 0, 0]"
proof -
  have "[0..<8] = [0, 1, 2, 3, 4, 5, 6, 7 :: nat]" by (rule upt_0_8)
  then show ?thesis by (simp add: md5_padded_def le_bytes_def)
qed

lemma abc_block: "map (\<lambda>i. md5_READ (drop (4 * i) (md5_padded [0x61, 0x62, 0x63]))) [0..<16] = abc_words"
  unfolding abc_padded by code_simp


end
