(* ===== verification/Dice.thy ===== *)
theory Dice
  imports Md5
begin

text \<open>
  The dice (dice.c) and their generators: ISAAC (lib/isaac.c), the Mersenne twister (lib/mt19937ar.c),
  MD5 (lib/md5.c), the generators of the C library as a parameter, and a file of dice.  The theorems say
  that a roll is fair: every number of a die stands for equally many words of the generator.
\<close>

section \<open>ISAAC\<close>

record randctx =
  randcnt :: u32
  randrsl :: "u32 list"
  randmem :: "u32 list"
  randa :: u32
  randb :: u32
  randc :: u32

definition RANDSIZ :: nat where "RANDSIZ = 16"

definition ind :: "u32 list \<Rightarrow> u32 \<Rightarrow> u32" where
  "ind mm x = mm ! unat (drop_bit 2 x AND 15)"

text \<open>\<open>rngstep f i j\<close> works on the word \<open>i\<close> of the memory with the word \<open>j\<close>, the pointer \<open>m2\<close>.\<close>

type_synonym isaac_state = "u32 \<times> u32 \<times> u32 list \<times> u32 list"

definition rngstep :: "(u32 \<Rightarrow> u32) \<Rightarrow> nat \<Rightarrow> nat \<Rightarrow> isaac_state \<Rightarrow> isaac_state" where
  "rngstep f i j = (\<lambda>(a, b, mm, r).
     let x = mm ! i; a = (a XOR f a) + mm ! j; y = ind mm x + a + b; mm = mm[i := y];
         b = ind mm (drop_bit 4 y) + x
     in (a, b, mm, r[i := b]))"

definition four_steps :: "nat \<Rightarrow> nat \<Rightarrow> isaac_state \<Rightarrow> isaac_state" where
  "four_steps i j s = rngstep (drop_bit 16) (i + 3) (j + 3) (rngstep (push_bit 2) (i + 2) (j + 2)
     (rngstep (drop_bit 6) (i + 1) (j + 1) (rngstep (push_bit 13) i j s)))"

definition isaac :: "randctx \<Rightarrow> randctx" where
  "isaac ctx =
     (let c = randc ctx + 1;
          s = fold (\<lambda>k. four_steps (4 * k) (8 + 4 * k)) [0..<2] (randa ctx, randb ctx + c, randmem ctx, randrsl ctx);
          (a, b, mm, r) = fold (\<lambda>k. four_steps (8 + 4 * k) (4 * k)) [0..<2] s
      in ctx\<lparr>randc := c, randb := b, randa := a, randmem := mm, randrsl := r\<rparr>)"

type_synonym octet = "u32 \<times> u32 \<times> u32 \<times> u32 \<times> u32 \<times> u32 \<times> u32 \<times> u32"

definition isaac_mix :: "octet \<Rightarrow> octet" where
  "isaac_mix = (\<lambda>(a, b, c, d, e, f, g, h).
     let a = a XOR push_bit 11 b; d = d + a; b = b + c;
         b = b XOR drop_bit 2 c; e = e + b; c = c + d;
         c = c XOR push_bit 8 d; f = f + c; d = d + e;
         d = d XOR drop_bit 16 e; g = g + d; e = e + f;
         e = e XOR push_bit 10 f; h = h + e; f = f + g;
         f = f XOR drop_bit 4 g; a = a + f; g = g + h;
         g = g XOR push_bit 8 h; b = b + g; h = h + a;
         h = h XOR drop_bit 9 a; c = c + h; a = a + b
     in (a, b, c, d, e, f, g, h))"

definition add_octet :: "u32 list \<Rightarrow> nat \<Rightarrow> octet \<Rightarrow> octet" where
  "add_octet r i = (\<lambda>(a, b, c, d, e, f, g, h).
     (a + r ! i, b + r ! (i + 1), c + r ! (i + 2), d + r ! (i + 3), e + r ! (i + 4), f + r ! (i + 5), g + r ! (i + 6),
      h + r ! (i + 7)))"

definition store_octet :: "nat \<Rightarrow> octet \<Rightarrow> u32 list \<Rightarrow> u32 list" where
  "store_octet i = (\<lambda>(a, b, c, d, e, f, g, h) m.
     m[i := a, i + 1 := b, i + 2 := c, i + 3 := d, i + 4 := e, i + 5 := f, i + 6 := g, i + 7 := h])"

definition irandinit :: "randctx \<Rightarrow> bool \<Rightarrow> randctx" where
  "irandinit ctx flag =
     (let gold = 0x9e3779b9;
          s = (isaac_mix ^^ 4) (gold, gold, gold, gold, gold, gold, gold, gold);
          r = randrsl ctx;
          (s, m) =
            (if flag then
               let (s, m) = fold (\<lambda>i (s, m). let s = isaac_mix (add_octet r i s) in (s, store_octet i s m)) [0, 8] (s, randmem ctx)
               in fold (\<lambda>i (s, m). let s = isaac_mix (add_octet m i s) in (s, store_octet i s m)) [0, 8] (s, m)
             else fold (\<lambda>i (s, m). let s = isaac_mix s in (s, store_octet i s m)) [0, 8] (s, randmem ctx))
      in (isaac (ctx\<lparr>randa := 0, randb := 0, randc := 0, randmem := m\<rparr>))\<lparr>randcnt := 16\<rparr>)"

definition irand :: "randctx \<Rightarrow> u32 \<times> randctx" where
  "irand ctx =
     (if randcnt ctx = 0 then let ctx = (isaac ctx)\<lparr>randcnt := 15\<rparr> in (randrsl ctx ! 15, ctx)
      else let n = randcnt ctx - 1 in (randrsl ctx ! unat n, ctx\<lparr>randcnt := n\<rparr>))"

section \<open>The Mersenne twister\<close>

text \<open>
  The array \<open>mt\<close> of \<open>unsigned long\<close>: all that is stored in it is masked to 32 bits.
\<close>

definition MT_N :: nat where "MT_N = 624"
definition MT_M :: nat where "MT_M = 397"

definition init_genrand :: "u32 \<Rightarrow> u32 list \<Rightarrow> nat \<times> u32 list" where
  "init_genrand s mt =
     (MT_N, fold (\<lambda>i mt. mt[i := 1812433253 * (mt ! (i - 1) XOR drop_bit 30 (mt ! (i - 1))) + of_nat i]) [1..<MT_N] (mt[0 := s]))"

definition twist :: "nat \<Rightarrow> nat \<Rightarrow> nat \<Rightarrow> u32 list \<Rightarrow> u32 list" where
  "twist kk next far mt =
     (let y = (mt ! kk AND 0x80000000) OR (mt ! next AND 0x7fffffff)
      in mt[kk := mt ! far XOR drop_bit 1 y XOR (if y AND 1 = 0 then 0 else 0x9908b0df)])"

definition generate_words :: "u32 list \<Rightarrow> u32 list" where
  "generate_words mt =
     twist (MT_N - 1) 0 (MT_M - 1)
       (fold (\<lambda>kk. twist kk (kk + 1) (kk + MT_M - MT_N)) [MT_N - MT_M..<MT_N - 1]
         (fold (\<lambda>kk. twist kk (kk + 1) (kk + MT_M)) [0..<MT_N - MT_M] mt))"

definition tempering :: "u32 \<Rightarrow> u32" where
  "tempering y =
     (let y = y XOR drop_bit 11 y; y = y XOR (push_bit 7 y AND 0x9d2c5680); y = y XOR (push_bit 15 y AND 0xefc60000)
      in y XOR drop_bit 18 y)"

definition genrand_int32 :: "nat \<Rightarrow> u32 list \<Rightarrow> u32 \<times> nat \<times> u32 list" where
  "genrand_int32 mti mt =
     (let (mti, mt) =
        (if mti \<ge> MT_N then
           let (mti, mt) = (if mti = MT_N + 1 then init_genrand 5489 mt else (mti, mt)) in (0, generate_words mt)
         else (mti, mt))
      in (tempering (mt ! mti), mti + 1, mt))"

section \<open>The dice\<close>

datatype rng = RNG_ANSI | RNG_BBS | RNG_BSD | RNG_ISAAC | RNG_MD5 | RNG_MERSENNE | RNG_MANUAL | RNG_RANDOM_DOT_ORG | RNG_FILE

text \<open>
  \<open>libc\<close> is what \<open>rand\<close> or \<open>random\<close> return from now on, and \<open>fDice\<close> the bytes of the dice file with the
  position in it.
\<close>

record rngcontext =
  fDice :: "u8 list \<times> nat"
  rng_rc :: randctx
  nMD5 :: u32
  rng_mti :: nat
  rng_mt :: "u32 list"
  rng_c :: nat
  libc :: "nat \<Rightarrow> u32"

definition exp232_q :: u32 where "exp232_q = 715827882"
definition exp232_l :: u32 where "exp232_l = 4294967292"

text \<open>The loop that tries again; it may not end.\<close>

partial_function (option) try_again :: "('s \<Rightarrow> u32 \<times> 's) \<Rightarrow> u32 \<Rightarrow> 's \<Rightarrow> (u32 \<times> 's) option" where
  "try_again draw limit s = (let (w, s) = draw s in if w \<ge> limit then try_again draw limit s else Some (w, s))"

definition die :: "u32 \<Rightarrow> u32 \<Rightarrow> u32" where "die q w = 1 + w div q"

definition two_dice :: "('s \<Rightarrow> u32 \<times> 's) \<Rightarrow> u32 \<Rightarrow> 's \<Rightarrow> ((u32 \<times> u32) \<times> 's) option" where
  "two_dice draw q s =
     (case try_again draw (q * 6) s of None \<Rightarrow> None
      | Some (w0, s) \<Rightarrow>
          (case try_again draw (q * 6) s of None \<Rightarrow> None
           | Some (w1, s) \<Rightarrow> Some ((die q w0, die q w1), s)))"

definition draw_isaac :: "rngcontext \<Rightarrow> u32 \<times> rngcontext" where
  "draw_isaac ctx = (let (w, r) = irand (rng_rc ctx) in (w, ctx\<lparr>rng_rc := r\<rparr>))"

definition draw_mersenne :: "rngcontext \<Rightarrow> u32 \<times> rngcontext" where
  "draw_mersenne ctx = (let (w, i, m) = genrand_int32 (rng_mti ctx) (rng_mt ctx) in (w, ctx\<lparr>rng_mti := i, rng_mt := m\<rparr>))"

definition draw_libc :: "rngcontext \<Rightarrow> u32 \<times> rngcontext" where
  "draw_libc ctx = (libc ctx 0, ctx\<lparr>libc := \<lambda>n. libc ctx (Suc n)\<rparr>)"

text \<open>The first two words of the digest of the counter, on a machine that stores the low byte first.\<close>

definition md5_words :: "u32 \<Rightarrow> u32 \<times> u32" where
  "md5_words n =
     (let h = md5_buffer \<lparr>ctx_A = 0, ctx_B = 0, ctx_C = 0, ctx_D = 0, total0 = 0, total1 = 0, buflen = 0,
                buffer = replicate 128 0\<rparr> (md5_WRITE n)
      in (md5_READ h, md5_READ (drop 4 h)))"

partial_function (option) md5_again :: "u32 \<times> u32 \<Rightarrow> u32 \<Rightarrow> ((u32 \<times> u32) \<times> u32) option" where
  "md5_again h n =
     (if fst h \<ge> exp232_l \<or> snd h \<ge> exp232_l then md5_again (md5_words n) (n + 1) else Some (h, n))"

text \<open>At the end of the file it is read again from its start; other bytes than \<open>1\<close> to \<open>6\<close> are skipped.\<close>

partial_function (option) ReadDiceFile :: "u8 list \<times> nat \<Rightarrow> (u32 \<times> u8 list \<times> nat) option" where
  "ReadDiceFile f =
     (case f of (bytes, pos) \<Rightarrow>
        if pos \<ge> length bytes then ReadDiceFile (bytes, 0)
        else let uch = bytes ! pos in
          if 0x31 \<le> uch \<and> uch \<le> 0x36 then Some (ucast (uch - 0x30), bytes, pos + 1)
          else ReadDiceFile (bytes, pos + 1))"

definition draw_file :: "rngcontext \<Rightarrow> (u32 \<times> rngcontext) option" where
  "draw_file ctx = (case ReadDiceFile (fDice ctx) of None \<Rightarrow> None | Some (n, f) \<Rightarrow> Some (n, ctx\<lparr>fDice := f\<rparr>))"

definition count_two :: "((u32 \<times> u32) \<times> rngcontext) option \<Rightarrow> ((u32 \<times> u32) \<times> rngcontext) option" where
  "count_two r = map_option (\<lambda>(d, ctx). (d, ctx\<lparr>rng_c := rng_c ctx + 2\<rparr>)) r"

text \<open>
  The generators that need a library, a network or a person are \<open>other\<close>; \<open>rand_max\<close> is \<open>RAND_MAX\<close> of
  the library.
\<close>

definition generator_dice :: "u32 \<Rightarrow> (rng \<Rightarrow> rngcontext \<Rightarrow> ((u32 \<times> u32) \<times> rngcontext) option) \<Rightarrow> rng \<Rightarrow> rngcontext \<Rightarrow>
    ((u32 \<times> u32) \<times> rngcontext) option" where
  "generator_dice rand_max other g ctx =
     (case g of
        RNG_ANSI \<Rightarrow> count_two (two_dice draw_libc (rand_max div 6) ctx)
      | RNG_BSD \<Rightarrow> count_two (two_dice draw_libc (rand_max div 6) ctx)
      | RNG_ISAAC \<Rightarrow> count_two (two_dice draw_isaac exp232_q ctx)
      | RNG_MERSENNE \<Rightarrow> count_two (two_dice draw_mersenne exp232_q ctx)
      | RNG_MD5 \<Rightarrow>
          (case md5_again (md5_words (nMD5 ctx)) (nMD5 ctx) of None \<Rightarrow> None
           | Some (h, n) \<Rightarrow> count_two (Some ((die exp232_q (fst h), die exp232_q (snd h)), ctx\<lparr>nMD5 := n + 1\<rparr>)))
      | RNG_FILE \<Rightarrow>
          (case draw_file ctx of None \<Rightarrow> None
           | Some (d0, ctx) \<Rightarrow>
               (case draw_file ctx of None \<Rightarrow> None | Some (d1, ctx) \<Rightarrow> count_two (Some ((d0, d1), ctx))))
      | _ \<Rightarrow> other g ctx)"

text \<open>
  Dice out of range come from \<open>other\<close> only: then \<open>SetRNG\<close> seeds the Mersenne twister, and the roll is
  repeated.  What a person enters is returned at once.
\<close>

definition RollDice :: "u32 \<Rightarrow> (rng \<Rightarrow> rngcontext \<Rightarrow> ((u32 \<times> u32) \<times> rngcontext) option) \<Rightarrow> (rngcontext \<Rightarrow> rngcontext) \<Rightarrow>
    rng \<Rightarrow> rngcontext \<Rightarrow> ((u32 \<times> u32) \<times> rng \<times> rngcontext) option" where
  "RollDice rand_max other reseed g ctx =
     (case generator_dice rand_max other g ctx of None \<Rightarrow> None
      | Some ((d0, d1), ctx) \<Rightarrow>
          if g = RNG_MANUAL then Some ((d0, d1), g, ctx)
          else if d0 < 1 \<or> d1 < 1 \<or> d0 > 6 \<or> d1 > 6 then
            map_option (\<lambda>(d, ctx). (d, RNG_MERSENNE, ctx)) (generator_dice rand_max other RNG_MERSENNE (reseed ctx))
          else Some ((d0, d1), g, ctx))"

section \<open>A roll is fair\<close>

text \<open>\<open>accepted draw limit s w s'\<close>: \<open>w\<close> is the first word below the limit that the generator draws from \<open>s\<close> on.\<close>

inductive accepted :: "('s \<Rightarrow> u32 \<times> 's) \<Rightarrow> u32 \<Rightarrow> 's \<Rightarrow> u32 \<Rightarrow> 's \<Rightarrow> bool" for draw limit where
  accept: "draw s = (w, s') \<Longrightarrow> w < limit \<Longrightarrow> accepted draw limit s w s'"
| reject: "draw s = (v, s1) \<Longrightarrow> limit \<le> v \<Longrightarrow> accepted draw limit s1 w s' \<Longrightarrow> accepted draw limit s w s'"

lemma accepted_less: "accepted draw limit s w s' \<Longrightarrow> w < limit"
  by (induction rule: accepted.induct)

lemma try_again_accepted: "try_again draw limit s = Some (w, s') \<longleftrightarrow> accepted draw limit s w s'"
proof
  have "try_again draw limit s = Some r \<Longrightarrow> accepted draw limit s (fst r) (snd r)" for r
  proof (induction rule: try_again.raw_induct [rotated, consumes 1, case_names step])
    case (step again draw limit s r)
    obtain v s1 where v: "draw s = (v, s1)" by fastforce
    show ?case
    proof (cases "limit \<le> v")
      case True
      then have "again draw limit s1 = Some r" using step.hyps v by simp
      from accepted.reject [OF v True step.IH [OF this]] show ?thesis by simp
    next
      case False
      then have "r = (v, s1)" using step.hyps v by simp
      with v False show ?thesis by (auto intro: accepted.accept)
    qed
  qed
  then show "try_again draw limit s = Some (w, s') \<Longrightarrow> accepted draw limit s w s'" by fastforce
  show "accepted draw limit s w s' \<Longrightarrow> try_again draw limit s = Some (w, s')"
    by (induction rule: accepted.induct) (subst try_again.simps; simp add: not_le [symmetric])+
qed

lemma two_dice_accepted:
  "two_dice draw q s = Some ((d0, d1), s') \<longleftrightarrow>
    (\<exists>w0 s1 w1. accepted draw (q * 6) s w0 s1 \<and> accepted draw (q * 6) s1 w1 s' \<and> d0 = die q w0 \<and> d1 = die q w1)"
  unfolding try_again_accepted [symmetric] by (auto simp: two_dice_def split: option.splits)

text \<open>The words of a face are the ones between two multiples of \<open>q\<close>.\<close>

lemma die_interval:
  assumes "0 < q" "6 * unat q < 2 ^ 32" "1 \<le> d" "d \<le> 6"
  shows "w < q * 6 \<and> die q w = of_nat d \<longleftrightarrow> (d - 1) * unat q \<le> unat w \<and> unat w < d * unat q"
proof -
  have lim: "unat (q * 6) = 6 * unat q" using assms(2) by (simp add: unat_word_ariths mult.commute)
  have q: "0 < unat q" using assms(1) by (simp add: u32_pos_iff)
  have "unat (w div q) \<le> unat w" by (simp add: unat_div)
  then have die: "die q w = of_nat d \<longleftrightarrow> unat w div unat q = d - 1" if "w < q * 6"
  proof -
    have less: "unat w div unat q < 6" using that lim q by (simp add: word_less_nat_alt less_mult_imp_div_less)
    then have "unat (die q w) = 1 + unat w div unat q" by (simp add: die_def unat_div unat_plus_small)
    moreover have "unat (of_nat d :: u32) = d" using assms(4) by (intro unat_of_nat_u32) simp
    ultimately show ?thesis using assms(3) by (auto simp: word_unat_eq_iff)
  qed
  have "unat w div unat q = d - 1 \<longleftrightarrow> (d - 1) * unat q \<le> unat w \<and> unat w < d * unat q"
    using q assms(3) div_nat_eqI [of "unat q" "d - 1" "unat w"]
      dividend_less_times_div [of "unat q" "unat w"] times_div_less_eq_dividend [of "unat q" "unat w"]
    by (cases d) (auto simp: mult.commute)
  moreover have "unat w < d * unat q \<Longrightarrow> w < q * 6"
    using lim assms(4) by (simp add: word_less_nat_alt) (meson less_le_trans mult_le_mono1)
  ultimately show ?thesis using die by blast
qed

lemma die_words:
  assumes "0 < q" "6 * unat q < 2 ^ 32" "1 \<le> d" "d \<le> 6"
  shows "card {w. w < q * 6 \<and> die q w = of_nat d} = unat q"
proof -
  let ?W = "{w :: u32. (d - 1) * unat q \<le> unat w \<and> unat w < d * unat q}"
  have "unat ` ?W = {(d - 1) * unat q..<d * unat q}"
  proof
    have "d * unat q \<le> 6 * unat q" using assms(4) by simp
    then have "unat (of_nat n :: u32) = n" if "n < d * unat q" for n using that assms(2) by (intro unat_of_nat_u32) linarith
    then show "{(d - 1) * unat q..<d * unat q} \<subseteq> unat ` ?W"
      by (intro subsetI) (rule_tac x = "of_nat x" in image_eqI, auto)
  qed auto
  moreover have "inj_on unat ?W" by (rule inj_onI) (rule unat_eqI)
  then have "card (unat ` ?W) = card ?W" by (rule card_image)
  ultimately have "card ?W = card {(d - 1) * unat q..<d * unat q}" by (simp only:)
  also have "\<dots> = unat q" using assms(3) by (simp add: diff_mult_distrib)
  finally show ?thesis unfolding die_interval [OF assms] .
qed

lemma die_range:
  assumes "6 * unat q < 2 ^ 32" "w < q * 6"
  shows "1 \<le> die q w" "die q w \<le> 6"
proof -
  have "unat w < 6 * unat q" using assms by (simp add: word_less_nat_alt unat_word_ariths mult.commute)
  then have "unat w div unat q < 6" by (simp add: less_mult_imp_div_less)
  then have "unat (die q w) = 1 + unat w div unat q" "unat w div unat q < 6" by (simp_all add: die_def unat_div unat_plus_small)
  then show "1 \<le> die q w" "die q w \<le> 6" by (simp_all add: word_le_nat_alt)
qed

text \<open>The generators that draw words, with the number of words for each face.\<close>

definition word_generator :: "u32 \<Rightarrow> rng \<Rightarrow> ((rngcontext \<Rightarrow> u32 \<times> rngcontext) \<times> u32) option" where
  "word_generator rand_max g =
     (case g of
        RNG_ANSI \<Rightarrow> Some (draw_libc, rand_max div 6)
      | RNG_BSD \<Rightarrow> Some (draw_libc, rand_max div 6)
      | RNG_ISAAC \<Rightarrow> Some (draw_isaac, exp232_q)
      | RNG_MERSENNE \<Rightarrow> Some (draw_mersenne, exp232_q)
      | _ \<Rightarrow> None)"

lemma word_generator_dice:
  assumes "word_generator rand_max g = Some (draw, q)"
  shows "generator_dice rand_max other g ctx = count_two (two_dice draw q ctx)" "g \<noteq> RNG_MANUAL"
  using assms by (auto simp: word_generator_def generator_dice_def split: rng.splits)

lemma word_generator_faces:
  assumes "word_generator rand_max g = Some (draw, q)" "6 \<le> rand_max"
  shows "0 < q" "6 * unat q < 2 ^ 32"
proof -
  have "6 * (unat rand_max div 6) \<le> unat rand_max" by simp
  moreover have "unat rand_max < 2 ^ 32" using unat_u32_less [of rand_max] by simp
  ultimately have "6 * unat (rand_max div 6) < 2 ^ 32" unfolding unat_div by simp
  moreover have "0 < rand_max div 6"
    using assms(2) by (simp add: word_less_nat_alt word_le_nat_alt unat_div div_greater_zero_iff)
  moreover have "0 < exp232_q" "6 * unat exp232_q < 2 ^ 32" by (simp_all add: exp232_q_def)
  ultimately show "0 < q" "6 * unat q < 2 ^ 32"
    using assms(1) by (auto simp: word_generator_def split: rng.splits)
qed

text \<open>C34: A roll is fair.  With the generators that draw words, \<open>RollDice\<close> returns the faces of the first two
  words below the limit, and it returns exactly when the generator has two such words; every face stands
  for the same number of words, and the generator is kept.\<close>

theorem RollDice_fair:
  assumes "word_generator rand_max g = Some (draw, q)" "6 \<le> rand_max"
  shows "(RollDice rand_max other reseed g ctx = Some ((d0, d1), g', ctx') \<longleftrightarrow>
      g' = g \<and> (\<exists>w0 s w1 t. accepted draw (q * 6) ctx w0 s \<and> accepted draw (q * 6) s w1 t \<and>
        d0 = die q w0 \<and> d1 = die q w1 \<and> ctx' = t\<lparr>rng_c := rng_c t + 2\<rparr>)) \<and>
    (\<forall>d. 1 \<le> d \<and> d \<le> 6 \<longrightarrow> card {w. w < q * 6 \<and> die q w = of_nat d} = unat q)"
proof (rule conjI)
  note faces = word_generator_faces [OF assms]
  show "\<forall>d. 1 \<le> d \<and> d \<le> 6 \<longrightarrow> card {w. w < q * 6 \<and> die q w = of_nat d} = unat q"
    using die_words [OF faces] by blast
  have range: "1 \<le> die q w \<and> die q w \<le> 6" if "accepted draw (q * 6) s w t" for s w t
    using die_range [OF faces(2) accepted_less [OF that]] by blast
  have roll: "RollDice rand_max other reseed g ctx = Some ((d0, d1), g', ctx') \<longleftrightarrow>
      g' = g \<and> (\<exists>t. two_dice draw q ctx = Some ((d0, d1), t) \<and> ctx' = t\<lparr>rng_c := rng_c t + 2\<rparr>)"
  proof (cases "two_dice draw q ctx")
    case None
    then show ?thesis by (simp add: RollDice_def word_generator_dice [OF assms(1)] count_two_def)
  next
    case (Some r)
    then obtain a b t where r: "two_dice draw q ctx = Some ((a, b), t)" by (metis prod.collapse)
    then have "1 \<le> a \<and> a \<le> 6 \<and> 1 \<le> b \<and> b \<le> 6" using range by (auto simp: two_dice_accepted)
    then show ?thesis using r
      by (auto simp: RollDice_def word_generator_dice [OF assms(1)] count_two_def not_less [symmetric])
  qed
  show "RollDice rand_max other reseed g ctx = Some ((d0, d1), g', ctx') \<longleftrightarrow>
      g' = g \<and> (\<exists>w0 s w1 t. accepted draw (q * 6) ctx w0 s \<and> accepted draw (q * 6) s w1 t \<and>
        d0 = die q w0 \<and> d1 = die q w1 \<and> ctx' = t\<lparr>rng_c := rng_c t + 2\<rparr>)"
    unfolding roll two_dice_accepted by blast
qed

text \<open>A generator of the C library whose first word is rejected.\<close>

definition rejecting_context :: rngcontext where
  "rejecting_context = \<lparr>fDice = ([], 0), rng_rc = \<lparr>randcnt = 0, randrsl = [], randmem = [], randa = 0, randb = 0, randc = 0\<rparr>,
     nMD5 = 0, rng_mti = 625, rng_mt = [], rng_c = 0,
     libc = \<lambda>n. if n = 0 then 2147483646 else if n = 1 then 0 else 2147483645\<rparr>"

theorem RollDice_fair_witness:
  "RollDice 2147483647 (\<lambda>_ _. None) id RNG_ANSI rejecting_context =
     Some ((1, 6), RNG_ANSI, rejecting_context\<lparr>libc := \<lambda>_. 2147483645, rng_c := 2\<rparr>)"
proof -
  let ?c = "\<lambda>k. rejecting_context\<lparr>libc := \<lambda>n. libc rejecting_context (n + k)\<rparr>"
  have gen: "word_generator 2147483647 RNG_ANSI = Some (draw_libc, 357913941)"
    by (simp add: word_generator_def)
  have words: "libc rejecting_context 0 = 2147483646" "libc rejecting_context 1 = 0" "libc rejecting_context 2 = 2147483645"
    by (simp_all add: rejecting_context_def)
  have limit: "(357913941 * 6 :: u32) = 2147483646" by simp
  have "accepted draw_libc (357913941 * 6) (?c 1) 0 (?c 2)"
    unfolding limit using words by (intro accepted.accept) (simp_all add: draw_libc_def)
  moreover have "draw_libc rejecting_context = (2147483646, ?c 1)" using words by (simp add: draw_libc_def)
  ultimately have "accepted draw_libc (357913941 * 6) rejecting_context 0 (?c 2)"
    by (intro accepted.reject [of draw_libc rejecting_context 2147483646 "?c 1"]) simp_all
  moreover have "accepted draw_libc (357913941 * 6) (?c 2) 2147483645 (?c 3)"
  proof (rule accepted.accept)
    have "libc rejecting_context (Suc (n + 2)) = libc rejecting_context (n + 3)" for n by (simp only: numeral_3_eq_3 numeral_2_eq_2 add_Suc_right)
    then show "draw_libc (?c 2) = (2147483645, ?c 3)" using words by (simp add: draw_libc_def flip: numeral_2_eq_2)
  qed (simp add: limit)
  moreover have "(?c 3)\<lparr>rng_c := rng_c (?c 3) + 2\<rparr> = rejecting_context\<lparr>libc := \<lambda>_. 2147483645, rng_c := 2\<rparr>"
    by (simp add: rejecting_context_def)
  moreover have "die 357913941 0 = 1" "die 357913941 2147483645 = 6" by (simp_all add: die_def)
  ultimately have "\<exists>w0 s w1 t. accepted draw_libc (357913941 * 6) rejecting_context w0 s \<and>
      accepted draw_libc (357913941 * 6) s w1 t \<and> 1 = die 357913941 w0 \<and> 6 = die 357913941 w1 \<and>
      rejecting_context\<lparr>libc := \<lambda>_. 2147483645, rng_c := 2\<rparr> = t\<lparr>rng_c := rng_c t + 2\<rparr>" by metis
  then show ?thesis by (intro RollDice_fair [OF gen, THEN conjunct1, THEN iffD2] conjI) simp_all
qed

end
