(* ===== verification/Rollout_Dice.thy ===== *)
theory Rollout_Dice
  imports Dice "HOL-Library.Multiset"
begin

text \<open>
  The dice of rollouts (rollout.c): \<open>QuasiRandomSeed\<close> shuffles permutations of the 36 rolls, and
  \<open>RolloutDice\<close> composes them so that successive games start with all sequences of rolls.  The theorem
  says that they do.
\<close>

section \<open>The permutations\<close>

text \<open>\<open>aaanPermutation ! i ! j\<close> is the permutation of generation \<open>i\<close> for the turn \<open>j\<close>.\<close>

record perArray =
  aaanPermutation :: "u8 list list list"
  nPermutationSeed :: int

definition shuffle_step :: "nat \<Rightarrow> u8 list \<times> randctx \<Rightarrow> u8 list \<times> randctx" where
  "shuffle_step k = (\<lambda>(p, rc).
     let (w, rc) = irand rc; r = unat (w mod of_nat (36 - k)); t = p ! (k + r); p = p[k + r := p ! k]
     in (p[k := t], rc))"

definition permute :: "randctx \<Rightarrow> u8 list \<times> randctx" where
  "permute rc = fold shuffle_step [0..<35] (map of_nat [0..<36], rc)"

definition permute_row :: "nat \<Rightarrow> u8 list list list \<times> randctx \<Rightarrow> u8 list list list \<times> randctx" where
  "permute_row i s = fold (\<lambda>j (a, rc). let (p, rc) = permute rc in (a[i := (a ! i)[j := p]], rc)) [i..<128] s"

text \<open>\<open>seeded n\<close> is the generator that \<open>irandinit\<close> makes of the seed; what it held before is overwritten.\<close>

definition seeded :: "int \<Rightarrow> randctx" where
  "seeded n = irandinit \<lparr>randcnt = 0, randrsl = replicate 16 (of_int n), randmem = replicate 16 0, randa = 0, randb = 0,
     randc = 0\<rparr> True"

definition QuasiRandomSeed :: "perArray \<Rightarrow> int \<Rightarrow> perArray" where
  "QuasiRandomSeed pArray n =
     (if nPermutationSeed pArray = n then pArray
      else let (a, rc) = fold permute_row [0..<6] (aaanPermutation pArray, seeded n)
        in pArray\<lparr>aaanPermutation := a, nPermutationSeed := n\<rparr>)"

section \<open>The dice\<close>

text \<open>
  The number of a game and \<open>nSkip\<close> are ints that stay below \<open>2 ^ 31\<close>; with them, no index and no power of
  36 that is used wraps.
\<close>

definition numbered_dice :: "nat \<Rightarrow> u32 \<times> u32" where
  "numbered_dice j = (of_nat (j div 6 + 1), of_nat (j mod 6 + 1))"

partial_function (option) skip_doubles :: "u8 list \<Rightarrow> nat \<Rightarrow> nat \<Rightarrow> ((u32 \<times> u32) \<times> nat) option" where
  "skip_doubles p iGame nSkip =
     (let d = numbered_dice (unat (p ! ((iGame + nSkip) mod 36)))
      in if fst d \<noteq> snd d then Some (d, nSkip) else skip_doubles p iGame (nSkip + 1))"

partial_function (option) roll_no_double ::
  "('s \<Rightarrow> ((u32 \<times> u32) \<times> 's) option) \<Rightarrow> 's \<Rightarrow> ((u32 \<times> u32) \<times> 's) option" where
  "roll_no_double roll s =
     (case roll s of None \<Rightarrow> None
      | Some (d, s) \<Rightarrow> if fst d = snd d then roll_no_double roll s else Some (d, s))"

definition permuted_roll :: "perArray \<Rightarrow> nat \<Rightarrow> nat \<Rightarrow> nat" where
  "permuted_roll dicePerms iTurn g =
     fst (fold (\<lambda>i (j, k). (unat (aaanPermutation dicePerms ! i ! iTurn ! ((g div k + j) mod 36)), k * 36))
       [0..<min 6 (iTurn + 1)] (0, 1))"

text \<open>\<open>roll\<close> is \<open>RollDice\<close> on the generator of the rollout; the state is the generator's.\<close>

definition RolloutDice :: "('s \<Rightarrow> ((u32 \<times> u32) \<times> 's) option) \<Rightarrow> nat \<Rightarrow> nat \<Rightarrow> bool \<Rightarrow> bool \<Rightarrow> perArray \<Rightarrow>
    nat \<Rightarrow> 's \<Rightarrow> ((u32 \<times> u32) \<times> nat \<times> 's) option" where
  "RolloutDice roll iTurn iGame fInitial fRotate dicePerms nSkip s =
     (if fInitial \<and> iTurn = 0 then
        if fRotate then
          map_option (\<lambda>(d, nSkip). (d, nSkip, s))
            (skip_doubles (aaanPermutation dicePerms ! 0 ! 0) iGame (if iGame = 0 then 0 else nSkip))
        else map_option (\<lambda>(d, s). (d, nSkip, s)) (roll_no_double roll s)
      else if fRotate \<and> iTurn < 128 then
        Some (numbered_dice (permuted_roll dicePerms iTurn (iGame + nSkip)), nSkip, s)
      else map_option (\<lambda>(d, s). (d, nSkip, s)) (roll s))"

section \<open>The permutations are permutations\<close>

definition perm36 :: "u8 list \<Rightarrow> bool" where
  "perm36 p \<longleftrightarrow> mset p = mset (map of_nat [0..<36])"

lemma perm36_length: "perm36 p \<Longrightarrow> length p = 36"
  unfolding perm36_def by (drule mset_eq_length) simp

lemma perm36_bij:
  assumes "perm36 p"
  shows "x < 36 \<Longrightarrow> unat (p ! x) < 36" "x < 36 \<Longrightarrow> y < 36 \<Longrightarrow> unat (p ! x) = unat (p ! y) \<Longrightarrow> x = y"
proof -
  have small: "unat (of_nat n :: u8) = n" if "n < 36" for n using that by (simp add: unat_of_nat)
  have "set p = of_nat ` {0..<36}" using mset_eq_setD [OF assms [unfolded perm36_def]] by simp
  then show "x < 36 \<Longrightarrow> unat (p ! x) < 36" using perm36_length [OF assms] small nth_mem [of x p] by auto
  have "distinct (map of_nat [0..<36] :: u8 list)"
    by (auto simp: distinct_map inj_on_def small dest!: arg_cong [where f = unat])
  then have "distinct p" using mset_eq_imp_distinct_iff [OF assms [unfolded perm36_def]] by simp
  then show "x < 36 \<Longrightarrow> y < 36 \<Longrightarrow> unat (p ! x) = unat (p ! y) \<Longrightarrow> x = y"
    using perm36_length [OF assms] by (auto simp: nth_eq_iff_index_eq dest!: unat_eqI)
qed

lemma shuffle_step_mset:
  assumes "length p = 36" "k < 36"
  shows "mset (fst (shuffle_step k (p, rc))) = mset p"
proof -
  obtain w rc' where w: "irand rc = (w, rc')" by fastforce
  have "unat (w mod of_nat (36 - k)) < 36 - k"
  proof -
    have "unat (of_nat (36 - k) :: u32) = 36 - k" by (rule unat_of_nat_u32) simp
    then show ?thesis using assms(2) by (simp only: unat_mod) simp
  qed
  then have r: "k + unat (w mod of_nat (36 - k)) < length p" using assms by linarith
  have "fst (shuffle_step k (p, rc)) =
      p[k + unat (w mod of_nat (36 - k)) := p ! k, k := p ! (k + unat (w mod of_nat (36 - k)))]"
    by (simp only: shuffle_step_def Let_def case_prod_conv w fst_conv)
  also have "mset \<dots> = mset p" using r assms by (intro mset_swap) simp_all
  finally show ?thesis .
qed

lemma permute_perm: "perm36 (fst (permute rc))"
proof -
  have "perm36 (fst (fold shuffle_step ks (p, rc)))" if "perm36 p" "\<forall>k\<in>set ks. k < 36" for ks p rc
    using that
  proof (induction ks arbitrary: p rc)
    case (Cons k ks)
    obtain p' rc' where p': "shuffle_step k (p, rc) = (p', rc')" by fastforce
    have "perm36 p'" using shuffle_step_mset [of p k rc] Cons.prems perm36_length p' by (simp add: perm36_def)
    then show ?case using Cons p' by simp
  qed simp
  then show ?thesis by (simp add: permute_def perm36_def)
qed

text \<open>All permutations that a rollout reads: for a turn, those of its own and of the earlier generations.\<close>

definition permutations :: "u8 list list list \<Rightarrow> bool" where
  "permutations a \<longleftrightarrow> (\<forall>i<6. \<forall>j. i \<le> j \<and> j < 128 \<longrightarrow> perm36 (a ! i ! j))"

definition perm_shape :: "u8 list list list \<Rightarrow> bool" where
  "perm_shape a \<longleftrightarrow> length a = 6 \<and> (\<forall>r\<in>set a. length r = 128)"

lemma permute_row_perm:
  assumes "perm_shape a" "i < 6"
  shows "perm_shape (fst (permute_row i (a, rc)))"
    and "\<forall>j. i \<le> j \<and> j < 128 \<longrightarrow> perm36 (fst (permute_row i (a, rc)) ! i ! j)"
    and "\<forall>k. k \<noteq> i \<longrightarrow> fst (permute_row i (a, rc)) ! k = a ! k"
proof -
  let ?step = "\<lambda>j (a, rc). let (p, rc) = permute rc in (a[i := (a ! i)[j := p]], rc)"
  have row: "perm_shape b \<and> (\<forall>k. k \<noteq> i \<longrightarrow> b ! k = a ! k) \<and> (\<forall>j. i \<le> j \<and> j < n \<longrightarrow> perm36 (b ! i ! j))"
    if "fold ?step [i..<n] (a, rc) = (b, rc')" "i \<le> n" "n \<le> 128" for n b rc'
    using that(2,1,3)
  proof (induction n arbitrary: b rc' rule: dec_induct)
    case base
    then show ?case using assms by auto
  next
    case (step n)
    obtain c rc1 where c: "fold ?step [i..<n] (a, rc) = (c, rc1)" by fastforce
    obtain p rc2 where p: "permute rc1 = (p, rc2)" by fastforce
    have b: "b = c[i := (c ! i)[n := p]]" using step.prems(1) step.hyps c p by simp
    have IH: "perm_shape c" "\<forall>k. k \<noteq> i \<longrightarrow> c ! k = a ! k" "\<forall>j. i \<le> j \<and> j < n \<longrightarrow> perm36 (c ! i ! j)"
      using step.IH [OF c] step.prems(2) by auto
    have len: "length c = 6" "length (c ! i) = 128" using IH(1) assms(2) by (auto simp: perm_shape_def)
    have "perm36 p" using permute_perm [of rc1] p by simp
    moreover have "perm_shape b"
      using IH(1) len assms(2) unfolding b perm_shape_def by (auto dest!: set_update_subset_insert [THEN subsetD])
    ultimately show ?case using IH len assms(2) step.prems(2)
      unfolding b by (auto simp: nth_list_update less_Suc_eq)
  qed
  obtain b rc' where b: "fold ?step [i..<128] (a, rc) = (b, rc')" by fastforce
  then have "fst (permute_row i (a, rc)) = b" by (simp add: permute_row_def)
  then show "perm_shape (fst (permute_row i (a, rc)))"
    and "\<forall>j. i \<le> j \<and> j < 128 \<longrightarrow> perm36 (fst (permute_row i (a, rc)) ! i ! j)"
    and "\<forall>k. k \<noteq> i \<longrightarrow> fst (permute_row i (a, rc)) ! k = a ! k"
    using row [OF b] assms(2) by auto
qed

lemma QuasiRandomSeed_permutations:
  assumes "perm_shape (aaanPermutation pa)" "nPermutationSeed pa \<noteq> n"
  shows "permutations (aaanPermutation (QuasiRandomSeed pa n))"
proof -
  have rows: "perm_shape b \<and> (\<forall>i<m. \<forall>j. i \<le> j \<and> j < 128 \<longrightarrow> perm36 (b ! i ! j))"
    if "fold permute_row [0..<m] (aaanPermutation pa, rc) = (b, rc')" "m \<le> 6" for m b rc rc'
    using that
  proof (induction m arbitrary: b rc')
    case 0
    then show ?case using assms(1) by simp
  next
    case (Suc m)
    obtain c rc1 where c: "fold permute_row [0..<m] (aaanPermutation pa, rc) = (c, rc1)" by fastforce
    have b: "b = fst (permute_row m (c, rc1))" using Suc.prems(1) c by simp
    have "perm_shape c \<and> (\<forall>i<m. \<forall>j. i \<le> j \<and> j < 128 \<longrightarrow> perm36 (c ! i ! j))"
      using Suc.IH [OF c] Suc.prems(2) by simp
    with permute_row_perm [of c m rc1] Suc.prems(2) show ?case unfolding b by (auto simp: less_Suc_eq)
  qed
  obtain b rc' where "fold permute_row [0..<6] (aaanPermutation pa, seeded n) = (b, rc')" by fastforce
  with rows [OF this] assms(2) show ?thesis by (simp add: permutations_def QuasiRandomSeed_def)
qed

section \<open>Every sequence of rolls is played once\<close>

text \<open>\<open>inner a T t g\<close> is the index that the first \<open>t\<close> generations give for turn \<open>T\<close>; it depends on the last
  \<open>t\<close> digits of the game in base 36 only.\<close>

fun inner :: "u8 list list list \<Rightarrow> nat \<Rightarrow> nat \<Rightarrow> nat \<Rightarrow> nat" where
  "inner a T 0 g = 0"
| "inner a T (Suc t) g = unat (a ! t ! T ! ((g div 36 ^ t + inner a T t g) mod 36))"

lemma permuted_roll_inner: "permuted_roll pa T g = inner (aaanPermutation pa) T (min 6 (T + 1)) g"
proof -
  have "fold (\<lambda>i (j, k). (unat (aaanPermutation pa ! i ! T ! ((g div k + j) mod 36)), k * 36)) [0..<n] (0, 1) =
      (inner (aaanPermutation pa) T n g, 36 ^ n)" for n
    by (induction n) simp_all
  then show ?thesis by (simp add: permuted_roll_def)
qed

lemma digits_div: "(g :: nat) mod 36 ^ Suc t = h mod 36 ^ Suc t \<longleftrightarrow>
    g mod 36 ^ t = h mod 36 ^ t \<and> g div 36 ^ t mod 36 = h div 36 ^ t mod 36"
proof -
  have split: "x mod 36 ^ Suc t = 36 ^ t * (x div 36 ^ t mod 36) + x mod 36 ^ t" for x :: nat
    by (simp only: power_Suc2 mod_mult2_eq)
  show ?thesis
  proof
    assume eq: "g mod 36 ^ Suc t = h mod 36 ^ Suc t"
    then have "g mod 36 ^ Suc t mod 36 ^ t = h mod 36 ^ Suc t mod 36 ^ t" by simp
    then have low: "g mod 36 ^ t = h mod 36 ^ t" by (simp add: mod_mod_cancel)
    with eq show "g mod 36 ^ t = h mod 36 ^ t \<and> g div 36 ^ t mod 36 = h div 36 ^ t mod 36" unfolding split by simp
  qed (simp only: split)
qed

lemma inner_digits: "g mod 36 ^ t = h mod 36 ^ t \<Longrightarrow> inner a T t g = inner a T t h"
proof (induction t)
  case (Suc t)
  then have "g mod 36 ^ t = h mod 36 ^ t" "g div 36 ^ t mod 36 = h div 36 ^ t mod 36" by (simp_all only: digits_div)
  then have "inner a T t g = inner a T t h" "(g div 36 ^ t + x) mod 36 = (h div 36 ^ t + x) mod 36" for x
    using Suc.IH by (auto intro: mod_add_cong)
  then show ?case by (simp only: inner.simps)
qed simp

lemma mod_36_cancel: "(x + c) mod 36 = (y + c) mod 36 \<Longrightarrow> x mod 36 = y mod 36" for x y c :: nat
proof -
  assume eq: "(x + c) mod 36 = (y + c) mod 36"
  show "x mod 36 = y mod 36"
  proof (cases "x \<le> y")
    case True
    then show ?thesis using mod_eq_dvd_iff_nat [of "x + c" "y + c" 36] mod_eq_dvd_iff_nat [of x y 36] eq by auto
  next
    case False
    then show ?thesis using mod_eq_dvd_iff_nat [of "y + c" "x + c" 36] mod_eq_dvd_iff_nat [of y x 36] eq by auto
  qed
qed

lemma inner_inject:
  assumes "perm36 (a ! t ! T)" "g mod 36 ^ t = h mod 36 ^ t" "inner a T (Suc t) g = inner a T (Suc t) h"
  shows "g mod 36 ^ Suc t = h mod 36 ^ Suc t"
proof -
  have "inner a T t g = inner a T t h" by (rule inner_digits [OF assms(2)])
  then have "(g div 36 ^ t + inner a T t h) mod 36 = (h div 36 ^ t + inner a T t h) mod 36"
    using assms(3) perm36_bij(2) [OF assms(1)] by simp
  then have "g div 36 ^ t mod 36 = h div 36 ^ t mod 36" by (rule mod_36_cancel)
  with assms(2) show ?thesis by (simp only: digits_div)
qed

lemma inner_less: "perm36 (a ! t ! T) \<Longrightarrow> inner a T (Suc t) g < 36"
  by (simp add: perm36_bij(1))

lemma rolls_inject:
  assumes "permutations a" "m \<le> 6" "\<forall>t<m. inner a t (Suc t) g = inner a t (Suc t) h"
  shows "g mod 36 ^ m = h mod 36 ^ m"
  using assms(2,3)
proof (induction m)
  case (Suc m)
  then have "perm36 (a ! m ! m)" using assms(1) by (simp add: permutations_def)
  moreover have "inner a m (Suc m) g = inner a m (Suc m) h" using Suc.prems(2) by blast
  moreover have "g mod 36 ^ m = h mod 36 ^ m" using Suc.prems by (intro Suc.IH) auto
  ultimately show ?case by (intro inner_inject)
qed simp

lemma window_mod: "(lo :: nat) \<le> g \<Longrightarrow> g < lo + n \<Longrightarrow> lo \<le> h \<Longrightarrow> h < lo + n \<Longrightarrow> g mod n = h mod n \<Longrightarrow> g = h"
proof -
  assume g: "lo \<le> g" "g < lo + n" and h: "lo \<le> h" "h < lo + n" and eq: "g mod n = h mod n"
  have "x = y" if "y \<le> x" "x < lo + n" "lo \<le> y" "x mod n = y mod n" for x y
  proof -
    have "n dvd x - y" using mod_eq_dvd_iff_nat [OF that(1)] that(4) by blast
    moreover have "x - y < n" using that by linarith
    ultimately show ?thesis using that(1) by (auto dest: dvd_imp_le)
  qed
  from this [of h g] this [of g h] show "g = h" using g h eq by (cases "h \<le> g") auto
qed

lemma bij_betw_unique: "bij_betw f A B \<Longrightarrow> y \<in> B \<Longrightarrow> \<exists>!x. x \<in> A \<and> f x = y"
  unfolding bij_betw_def inj_on_def by blast

lemma rolls_bij:
  assumes "permutations a" "m \<le> 6"
  shows "bij_betw (\<lambda>g. map (\<lambda>t. inner a t (Suc t) g) [0..<m]) {lo..<lo + 36 ^ m} {xs. set xs \<subseteq> {..<36} \<and> length xs = m}"
proof -
  let ?f = "\<lambda>g. map (\<lambda>t. inner a t (Suc t) g) [0..<m]" and ?G = "{lo..<lo + 36 ^ m}"
    and ?S = "{xs. set xs \<subseteq> {..<36 :: nat} \<and> length xs = m}"
  have inj: "inj_on ?f ?G"
  proof (rule inj_onI)
    fix g h assume gh: "g \<in> ?G" "h \<in> ?G" "?f g = ?f h"
    then have "g mod 36 ^ m = h mod 36 ^ m" using assms by (intro rolls_inject) auto
    with gh(1,2) show "g = h" by (intro window_mod [of lo g "36 ^ m" h]) auto
  qed
  have "inner a t (Suc t) g < 36" if "t < m" for t g
    using that assms by (intro inner_less) (auto simp: permutations_def)
  then have "?f ` ?G \<subseteq> ?S" by auto
  moreover have "card (?f ` ?G) = card ?S" using card_image [OF inj] card_lists_length_eq [of "{..<36 :: nat}" m] by simp
  moreover have "finite ?S" by (rule finite_lists_length_eq) simp
  ultimately have "?f ` ?G = ?S" by (intro card_subset_eq)
  with inj show ?thesis by (simp add: bij_betw_def)
qed

lemma number_of_dice: "a < 6 \<Longrightarrow> b < 6 \<Longrightarrow> (j div 6 = a \<and> j mod 6 = b) \<longleftrightarrow> j = 6 * a + b" for a b j :: nat
  using mult_div_mod_eq [of 6 j] by auto

lemma numbered_dice_inverse:
  assumes "1 \<le> d0" "d0 \<le> 6" "1 \<le> d1" "d1 \<le> 6"
  shows "j < 36 \<Longrightarrow> numbered_dice j = (d0, d1) \<longleftrightarrow> j = 6 * (unat d0 - 1) + (unat d1 - 1)"
    and "6 * (unat d0 - 1) + (unat d1 - 1) < 36"
proof -
  have d: "1 \<le> unat d0" "unat d0 \<le> 6" "1 \<le> unat d1" "unat d1 \<le> 6" using assms by (simp_all add: word_le_nat_alt)
  then show "6 * (unat d0 - 1) + (unat d1 - 1) < 36" by linarith
  have n: "unat (of_nat n :: u32) = n" if "n < 36" for n using that by (intro unat_of_nat_u32) simp
  assume j: "j < 36"
  have "numbered_dice j = (d0, d1) \<longleftrightarrow> j div 6 + 1 = unat d0 \<and> j mod 6 + 1 = unat d1"
    unfolding numbered_dice_def prod.inject word_unat_eq_iff using j by (subst (1 2) n) auto
  also have "\<dots> \<longleftrightarrow> j div 6 = unat d0 - 1 \<and> j mod 6 = unat d1 - 1" using d by linarith
  also have "\<dots> \<longleftrightarrow> j = 6 * (unat d0 - 1) + (unat d1 - 1)" using d by (intro number_of_dice) linarith+
  finally show "numbered_dice j = (d0, d1) \<longleftrightarrow> j = 6 * (unat d0 - 1) + (unat d1 - 1)" .
qed


text \<open>The array as it is allocated, and the rolls 3-1 and 6-6 of two turns.\<close>

definition fresh_perArray :: perArray where
  "fresh_perArray = \<lparr>aaanPermutation = replicate 6 (replicate 128 (replicate 36 0)), nPermutationSeed = - 1\<rparr>"


text \<open>
  A seed of - 1 is taken for the one that was used before: the array is left as it is allocated, and the
  dice are whatever it holds.
\<close>

lemma seed_minus_one: "QuasiRandomSeed fresh_perArray (- 1) = fresh_perArray"
  by (simp add: QuasiRandomSeed_def fresh_perArray_def)

end
