(* ===== verification/Spec2Isabelle.thy ===== *)
theory Spec2Isabelle
  imports Evaluate_Cached Move_Choice Move_Bound Game_Theorems Match_ID Position_ID Position_Class Match_Equity Eval_Outputs Static_Eval Rollout_Dice
begin

text \<open>
  A model of the core of GNU Backgammon, the C engine under src/gnubg, with the theorems that make
  it correct.

  The program.  A position is a \<open>TanBoard\<close>, two sides of 25 counters (24 points and the bar).  The
  move generator (eval.c) lists the plays of a roll with the packed key of the position each one
  leads to; the evaluation (eval.c) gives a position five probabilities, from the databases
  (bearoff.c) where it is covered and from networks otherwise, and averages over the rolls, with the
  best reply to each, to look further ahead; the cube functions turn probabilities into equities and
  equities into cube actions, at a match score with the match equity tables (matchequity.c).  The
  evaluations are cached (lib/cache.c) under keys of the position and of the context.  The commands
  (play.c) play matches on top of this: they append records to the games of a session and apply them
  to the match state.  Position and match identifiers (positionid.c, matchid.c) carry a state from
  one session to the next.

  The theories, by the part of the program.

  Boards and their encodings.  Gnubg_Prelude holds the machine types, the lemma collections and the
  generic lemmas; Codec the contract of an encoding (locales codec and numbering), which Base64,
  Position_Key, Bearoff_Index, Position_ID and Match_ID interpret on their own functions.  Board is
  \<open>InitBoard\<close>, \<open>SwapSides\<close>, \<open>PipCount\<close> and \<open>KeithCount\<close>; Legal_Position is \<open>CheckPosition\<close> and
  \<open>ClosestLegalPosition\<close>, with the abstract legality they decide and restore; Position_Key,
  Position_ID, Bearoff_Index and Match_ID (over Match_Types) hold the four encodings.  The theorems
  are round trips, injectivity and the soundness of the decoders on arbitrary strings.

  Moves.  Moves holds \<open>ApplySubMove\<close>, \<open>ApplyMove\<close> and \<open>LegalMove\<close> against the rules of the game
  stated without the board array; Move_Gen the generator, proved sound and complete for legal plays
  (as many dice as possible, the larger one if only one) on every playable board; Move_Bound that its
  buffer suffices, by counting the sequences of sub-moves.

  Evaluation.  Eval_Types holds the outputs and the cube information; Position_Class the classes of
  positions, results, and the linear order of the classes (an instance of linorder); Eval_Outputs
  \<open>SanityCheck\<close>, the utilities and the cache key \<open>EvalKey\<close>; Half_Inputs the contact inputs of one
  player (\<open>CalculateHalfInputs\<close>), block by block; Net_Inputs the input vectors of the networks
  (lib/inputs.c and eval.c), which are computed without a failed assertion and tell positions apart;
  Neural_Net the networks themselves (lib/neuralnet.c) with the tabulated sigmoid, its accuracy, and
  the proof that incremental evaluation changes no result; Match_Equity the lookups, prices and cash
  points over arbitrary tables.  Cube_Decision is the cube information, \<open>GetDPEq\<close>, \<open>MakeCubePos\<close>,
  \<open>GetECF3\<close> and \<open>FindBestCubeDecision\<close>, proved to compute the minimax value and to recommend an
  optimal action; Cubeful is Janowski's formulas for money and match play, with their range.
  Bearoff_Db is the reading of the databases and the evaluation with them; Race_Backgammons the table
  of the rolls that stragglers need in a race (bearoffgammon.c), proved to hold exact distributions.  Eval_Cache is the hash
  table; its contract is the locale forgetful\_table, interpreted as cache.  Eval_Run is what an
  evaluation runs on: the two caches as its state, the engine as a record, failures and non-returning
  calls as values, and the relation alike between two runs that give the same results.  Move_Search
  is the scoring of moves, the search with filters and the search with the pruning networks;
  Move_Choice its theorems: what is kept is best, and what is returned is a legal play of greatest
  depth and value.  Evaluate is the recursion over the plies, cubeless and cubeful, up to
  \<open>GeneralEvaluationE\<close> and \<open>GeneralCubeDecisionE\<close>; Evaluate_Cached proves that the cache never
  changes a cubeless result, that results are consistent, and that a complete engine returns one.
  Static_Eval is the static evaluators of the classes and the engine of a program with its networks
  and databases; for networks of the asserted sizes and complete databases it proves what the other
  theories ask of an engine, and so that the program evaluates every playable position.

  Play.  Game_Record holds the records of a game and \<open>ApplyMoveRecord\<close>; Game_Play the session with its
  games, the commands and \<open>NextTurn\<close>; Game_Laws the commands as one step function and the invariants
  of a session; Game_Steps that every command keeps them; Game_Theorems the theorems about every
  session that commands reach: no assertion fails, the score is what the records say, the cube is
  offered and turned as the rules allow, and a player to act always has an accepted command.

  Dice.  Md5 is the digest of lib/md5.c, proved to be that of RFC 1321; Dice the generators ISAAC and
  Mersenne twister and \<open>RollDice\<close>, with the proof that every face stands for equally many words of a
  generator; Rollout_Dice the shuffled permutations of \<open>QuasiRandomSeed\<close> and \<open>RolloutDice\<close>, with the
  proof that the games of a rollout start with every sequence of rolls once.

  Bounds.  Words are used where the C code relies on their width: counters of a board are 32-bit and
  the theorems name the hypotheses that keep them from wrapping, identifiers and keys are exact.  A
  context has at most 15 plies, the width of its field; the recursion is on the plies, so it needs
  no fuel.  The loops of the generator are structural on the dice left.  Where C may not return
  (\<open>GetPoints\<close> and \<open>LogCube\<close> on a cube that is no power of two) the model has None, and the theorems
  say when it does not occur; so it is for the loops that reject words of a generator.

  Not modelled, and why.  Floats are real numbers, so rounding is not covered.  The weights of the
  networks and the contents of the databases are arguments (\<open>program\<close>), as they are files; so are the
  table \<open>getBearoffGammonProbs\<close>, which is generated data, the match equity tables, the noise and the
  sorting routine, with their documented behaviour as named hypotheses (sound\_engine, is\_qsort).
  The recursion evaluates networks without the shared state, which incremental\_exact shows to be the
  same.  Loading and saving of weights, the SIMD variants, threads and the locking variants of
  functions are left out: the model is the portable build without threads.  Interruption by the user
  ends an evaluation with a failure that is not modelled.  The key of a cubeful evaluation lacks part
  of what it depends on, so the theorems on the cache are about cubeless contexts.  Hypergammon is
  evaluated by its own databases, which program\_evaluates does not cover.  In play, the answers of the
  user and the dice are inputs, the computer player issues the same commands as a person, annotations
  and analysis attached to records are left out, as are \<open>ChangeGame\<close> and editing.  Random numbers of the C
  library, of GMP and of the network are parameters.  The games of rollouts, analysis,
  files, text output and the user interface are not modelled.
\<close>

end
